(* ===== verification/Ua_Prelude.thy ===== *)
theory Ua_Prelude
  imports Main "HOL-Library.Word" "HOL-Library.AList" "HOL-Library.Monad_Syntax"
begin

text \<open>
  Shared vocabulary of the development: the machine types of the C++ sources, string
  literals as byte sequences, the fact collections the component proofs draw on, and
  generic lemmas on option-valued readers, words, lists and association lists.
\<close>

unbundle bit_operations_syntax

section \<open>Fact collections\<close>

named_theorems wire_defs \<open>definitions of the byte encoders and decoders\<close>
named_theorems wire_rt \<open>decoding what was encoded gives the value back\<close>
named_theorems wire_consumes \<open>a decode call takes a non-empty prefix\<close>
named_theorems wire_consumes_le \<open>a decode call takes a prefix\<close>
named_theorems step_defs \<open>definitions of the operations of a state machine\<close>
named_theorems inv_intros \<open>an operation keeps the invariant of its component\<close>

section \<open>Machine types\<close>

type_synonym byte = "8 word"
type_synonym bytes = "byte list"
type_synonym u16 = "16 word"
type_synonym u32 = "32 word"
type_synonym u64 = "64 word"

text \<open>
  A \<open>std::string\<close>, a \<open>std::vector<char>\<close> and a \<open>ByteString\<close> are all sequences of
  bytes. \<open>lit\<close> turns a literal into one.
\<close>

definition lit :: "string \<Rightarrow> bytes" where
  "lit s = map of_char s"

lemma length_lit [simp]: "length (lit s) = length s"
  by (simp add: lit_def)

lemma lit_Nil [simp]: "lit [] = []"
  by (simp add: lit_def)

section \<open>Words\<close>

lemma unat_of_nat_small:
  "n < 2 ^ LENGTH('a) \<Longrightarrow> unat (of_nat n :: 'a::len word) = n"
  by (simp add: unat_of_nat take_bit_nat_eq_self)

lemma sint_of_nat_small:
  assumes "n < 2 ^ (LENGTH('a) - 1)"
  shows "sint (of_nat n :: 'a::len word) = int n"
proof -
  have "- (2 ^ (LENGTH('a) - Suc 0)) \<le> int n"
    by (rule order.trans [of _ 0]) simp_all
  with assms show ?thesis
    by (simp add: signed_of_nat signed_take_bit_int_eq_self_iff)
qed

lemma word32_size_nonneg:
  assumes "n < 2 ^ 31"
  shows "sint (of_nat n :: u32) = int n" and "unat (of_nat n :: u32) = n"
  using assms sint_of_nat_small [where 'a = 32 and n = n]
    unat_of_nat_small [where 'a = 32 and n = n] by simp_all

text \<open>
  \<open>byte_at i v\<close> is the C++ expression \<^verbatim>\<open>static_cast<char>((v >> 8 * i) & 0xff)\<close>. The
  little-endian bytes of a word, shifted back and combined, give the word again.
\<close>

definition byte_at :: "nat \<Rightarrow> 'a::len word \<Rightarrow> byte" where
  "byte_at i v = ucast (drop_bit (8 * i) v AND 0xff)"

lemma and_ff: "8 \<le> LENGTH('a::len) \<Longrightarrow> (x :: 'a::len word) AND 0xff = take_bit 8 x"
  by (simp add: take_bit_eq_mask mask_eq_exp_minus_1)

lemma bit_byte_at:
  "8 \<le> LENGTH('a) \<Longrightarrow>
     bit (ucast (byte_at i (v :: 'a::len word)) :: 'a::len word) n \<longleftrightarrow> n < 8 \<and> bit v (8 * i + n)"
  by (auto simp: byte_at_def and_ff bit_simps)

lemma le_bytes_16: "ucast (byte_at 0 v) OR push_bit 8 (ucast (byte_at 1 v)) = (v :: u16)"
proof (rule bit_word_eqI)
  fix n assume n: "n < LENGTH(16)"
  consider "n < 8" | "8 \<le> n" "n < 16" using n by fastforce
  then show "bit (ucast (byte_at 0 v) OR push_bit 8 (ucast (byte_at 1 v)) :: u16) n = bit v n"
    by cases (auto simp add: bit_or_iff bit_push_bit_iff bit_byte_at)
qed

lemma le_bytes_32:
  "ucast (byte_at 0 v) OR push_bit 8 (ucast (byte_at 1 v)) OR push_bit 16 (ucast (byte_at 2 v))
     OR push_bit 24 (ucast (byte_at 3 v)) = (v :: u32)"
proof (rule bit_word_eqI)
  fix n assume n: "n < LENGTH(32)"
  consider "n < 8" | "8 \<le> n" "n < 16" | "16 \<le> n" "n < 24" | "24 \<le> n" "n < 32"
    using n by fastforce
  then show "bit (ucast (byte_at 0 v) OR push_bit 8 (ucast (byte_at 1 v))
     OR push_bit 16 (ucast (byte_at 2 v)) OR push_bit 24 (ucast (byte_at 3 v)) :: u32) n = bit v n"
    by cases (auto simp add: bit_or_iff bit_push_bit_iff bit_byte_at)
qed

lemma bit_foldl_or:
  "bit (foldl (\<lambda>raw i. raw OR f i) a xs) n \<longleftrightarrow>
     bit (a :: 'a::len word) n \<or> (\<exists>i\<in>set xs. bit (f i) n)"
  by (induction xs arbitrary: a) (auto simp: bit_or_iff)

lemma le_bytes_64:
  "foldl (\<lambda>raw i. raw OR push_bit (8 * i) (ucast (byte_at i v))) 0 [0..<8] = (v :: u64)"
proof (rule bit_word_eqI)
  fix n assume n: "n < LENGTH(64)"
  have "(\<exists>i\<in>set [0..<8]. bit (push_bit (8 * i) (ucast (byte_at i v)) :: u64) n) \<longleftrightarrow> bit v n"
  proof
    assume "bit v n"
    moreover have "n div 8 < 8" "8 * (n div 8) \<le> n" "n - 8 * (n div 8) < 8" using n by auto
    ultimately show "\<exists>i\<in>set [0..<8]. bit (push_bit (8 * i) (ucast (byte_at i v)) :: u64) n"
      using n by (intro bexI [of _ "n div 8"]) (auto simp: bit_push_bit_iff bit_byte_at)
  qed (auto simp: bit_push_bit_iff bit_byte_at)
  then show "bit (foldl (\<lambda>raw i. raw OR push_bit (8 * i) (ucast (byte_at i v))) (0 :: u64) [0..<8]) n
      = bit v n"
    by (simp add: bit_foldl_or del: upt_Suc)
qed

section \<open>Lists\<close>

lemma drop_split:
  assumes "drop k xs = ys @ zs"
  shows "drop (k + length ys) xs = zs"
  using assms by (metis add.commute append_eq_conv_conj drop_drop)

lemma drop_eq_append_length:
  assumes "drop k xs = ys @ zs" and "ys \<noteq> []"
  shows "k + length ys \<le> length xs"
proof -
  have "length (drop k xs) = length ys + length zs"
    using assms(1) by simp
  with assms(2) show ?thesis
    by (cases "k \<le> length xs") auto
qed

lemma nth_of_drop:
  assumes "drop k xs = ys @ zs" and "i < length ys"
  shows "xs ! (k + i) = ys ! i"
proof -
  have "k \<le> length xs"
    using drop_eq_append_length [OF assms(1)] assms(2) by (cases "ys = []") auto
  then have "xs ! (k + i) = drop k xs ! i" by simp
  then show ?thesis using assms by (simp add: nth_append)
qed

end
