(* ===== verification/Ua_Types.thy ===== *)
theory Ua_Types
  imports Ua_Prelude
begin

text \<open>
  The OPC UA built-in types of \<^verbatim>\<open>opcua/types\<close>: status codes (\<^verbatim>\<open>status.h\<close>), node ids
  (\<^verbatim>\<open>node_id.h\<close>, \<^verbatim>\<open>expanded_node_id.h\<close>), Guid, QualifiedName, LocalizedText,
  ExtensionObject, DiagnosticInfo, and the mutually recursive Variant and DataValue
  (\<^verbatim>\<open>variant.h\<close>, \<^verbatim>\<open>data_value.h\<close>). Integers keep their width; a C++ signed integer is the
  word with the same bits.
\<close>

section \<open>Status codes\<close>

text \<open>
  \<open>StatusCode\<close> is an enumeration over \<^verbatim>\<open>unsigned\<close> that also receives values that are
  no enumerator (\<open>Status::code\<close> casts), so it is the 32-bit word itself. \<open>Status\<close> wraps
  the full code.
\<close>

type_synonym status_code = u32

datatype status_severity = SevGood | SevUncertain | SevBad | SevReserved

abbreviation Good :: status_code where "Good \<equiv> 0"
abbreviation Good_Pending :: status_code where "Good_Pending \<equiv> 1"
abbreviation Good_Manual :: status_code where "Good_Manual \<equiv> 4"
abbreviation Uncertain :: status_code where "Uncertain \<equiv> 0x4000"
abbreviation Bad :: status_code where "Bad \<equiv> 0x8000"
abbreviation Bad_IdentityTokenRejected :: status_code where "Bad_IdentityTokenRejected \<equiv> 0x8021"
abbreviation Bad_UserIsAlreadyLoggedOn :: status_code where "Bad_UserIsAlreadyLoggedOn \<equiv> 0xA005"
abbreviation Bad_NoCommunication :: status_code where "Bad_NoCommunication \<equiv> 0x8031"
abbreviation Bad_SessionIdInvalid :: status_code where "Bad_SessionIdInvalid \<equiv> 0x8025"
abbreviation Bad_SubscriptionIdInvalid :: status_code where "Bad_SubscriptionIdInvalid \<equiv> 0x8028"
abbreviation Bad_ContinuationPointInvalid :: status_code
  where "Bad_ContinuationPointInvalid \<equiv> 0x804A"
abbreviation Bad_AttributeIdInvalid :: status_code where "Bad_AttributeIdInvalid \<equiv> 0x8035"
abbreviation Bad_MonitoredItemIdInvalid :: status_code
  where "Bad_MonitoredItemIdInvalid \<equiv> 0x8042"
abbreviation Bad_MessageNotAvailable :: status_code where "Bad_MessageNotAvailable \<equiv> 0x807B"
abbreviation Bad_ApplicationSignatureInvalid :: status_code
  where "Bad_ApplicationSignatureInvalid \<equiv> 0x8058"
abbreviation Bad_TooManyMonitoredItems :: status_code where "Bad_TooManyMonitoredItems \<equiv> 0x80DB"
abbreviation Bad_SequenceNumberUnknown :: status_code where "Bad_SequenceNumberUnknown \<equiv> 0x807A"
abbreviation Bad_NoContinuationPoints :: status_code where "Bad_NoContinuationPoints \<equiv> 0x804B"
abbreviation Bad_NoSubscription :: status_code where "Bad_NoSubscription \<equiv> 0x8079"
abbreviation Bad_NotSupported :: status_code where "Bad_NotSupported \<equiv> 0x803D"

text \<open>
  A two-bit field is cast to the enumeration; for a code wider than 16 bits the cast of
  \<open>GetSeverity\<close> leaves the enumerators, which no comparison with one of them accepts.
\<close>

definition severity_of :: "u32 \<Rightarrow> status_severity option" where
  "severity_of n = (if n = 0 then Some SevGood else if n = 1 then Some SevUncertain
     else if n = 2 then Some SevBad else if n = 3 then Some SevReserved else None)"

definition GetSeverity :: "status_code \<Rightarrow> status_severity option" where
  "GetSeverity code = severity_of (drop_bit 14 code)"

definition IsGood :: "status_code \<Rightarrow> bool" where
  "IsGood code \<longleftrightarrow> GetSeverity code = Some SevGood"

definition IsBad :: "status_code \<Rightarrow> bool" where
  "IsBad code \<longleftrightarrow> GetSeverity code = Some SevBad"

datatype status = Status (full_code: u32)

definition status_of_code :: "status_code \<Rightarrow> status" where
  "status_of_code code = Status (push_bit 16 code)"

definition severity :: "status \<Rightarrow> status_severity option" where
  "severity s = severity_of (drop_bit 30 (full_code s))"

definition status_good :: "status \<Rightarrow> bool" where
  "status_good s \<longleftrightarrow> severity s = Some SevGood"

definition status_bad :: "status \<Rightarrow> bool" where
  "status_bad s \<longleftrightarrow> severity s = Some SevBad"

definition status_uncertain :: "status \<Rightarrow> bool" where
  "status_uncertain s \<longleftrightarrow> severity s = Some SevUncertain"

definition status_code :: "status \<Rightarrow> status_code" where
  "status_code s = drop_bit 16 (full_code s)"

definition FromFullCode :: "u32 \<Rightarrow> status" where
  "FromFullCode c = Status c"

lemma full_code_status_of_code [simp]: "full_code (status_of_code c) = push_bit 16 c"
  by (simp add: status_of_code_def)

lemma good_not_bad [simp]: "\<not> status_bad (status_of_code Good)"
  by (simp add: status_bad_def severity_def severity_of_def)

lemma status_of_full_code [simp]: "FromFullCode (full_code s) = s"
  by (simp add: FromFullCode_def)

text \<open>A 16-bit code survives the trip through a full status, and keeps its severity.\<close>

lemma status_code_of_code:
  assumes "unat c < 2 ^ 16"
  shows "status_code (status_of_code c) = c"
proof -
  have c: "take_bit 16 c = c"
    using assms by (simp add: word_unat_eq_iff unsigned_take_bit_eq take_bit_nat_eq_self)
  have "drop_bit 16 (push_bit 16 c) = c"
  proof (rule bit_word_eqI)
    fix n assume "n < LENGTH(32)"
    have "bit c n \<Longrightarrow> n < 16" using c by (metis bit_take_bit_iff)
    then show "bit (drop_bit 16 (push_bit 16 c)) n = bit c n"
      by (auto simp: bit_drop_bit_eq bit_push_bit_iff)
  qed
  then show ?thesis by (simp add: status_code_def)
qed

section \<open>Node ids and the simple built-in types\<close>

type_synonym namespace_index = u16

datatype guid = Guid (data1: u32) (data2: u16) (data3: u16) (data4: bytes)

datatype node_identifier = NumericId u32 | StringId bytes | GuidId guid | OpaqueId bytes

datatype node_id = NodeId (id_value: node_identifier) (namespace_index: namespace_index)

abbreviation numeric_node_id :: "u32 \<Rightarrow> node_id" where
  "numeric_node_id i \<equiv> NodeId (NumericId i) 0"

abbreviation null_node_id :: node_id where
  "null_node_id \<equiv> NodeId (NumericId 0) 0"

fun is_numeric :: "node_id \<Rightarrow> bool" where
  "is_numeric (NodeId (NumericId _) _) = True"
| "is_numeric _ = False"

fun node_id_is_null :: "node_id \<Rightarrow> bool" where
  "node_id_is_null (NodeId (NumericId i) ns) = (ns = 0 \<and> i = 0)"
| "node_id_is_null _ = False"

datatype expanded_node_id =
  ExpandedNodeId (en_node_id: node_id) (namespace_uri: bytes) (server_index: u32)

datatype qualified_name = QualifiedName (qn_name: bytes) (qn_namespace_index: namespace_index)

datatype localized_text = LocalizedText (lt_locale: bytes) (lt_text: "u16 list")

text \<open>
  The body of an ExtensionObject is a \<open>std::any\<close>: absent, a ByteString, or the value of
  another encoding, which the binary code cannot look into.
\<close>

datatype ext_body = NoBody | BinaryBody bytes | OtherBody

datatype extension_object =
  ExtensionObject (data_type_id: expanded_node_id) (ext_value: ext_body)

fun binary_body :: "extension_object \<Rightarrow> bytes option" where
  "binary_body (ExtensionObject _ (BinaryBody b)) = Some b"
| "binary_body _ = None"

datatype diagnostic_info = DiagnosticInfo
  (symbolic_id: "u32 option") (di_namespace_uri: "u32 option") (di_locale: "u32 option")
  (localized_text_index: "u32 option") (additional_info: "bytes option")
  (inner_status_code: "status option") (inner_diagnostic_info: "diagnostic_info option")

section \<open>Variant and DataValue\<close>

text \<open>
  \<open>Variant::Type\<close>: the enumerators are the BuiltInType ids of the wire format.
\<close>

datatype variant_type =
  EMPTY | BOOL | INT8 | UINT8 | INT16 | UINT16 | INT32 | UINT32 | INT64 | UINT64 | FLOAT
| DOUBLE | STRING | DATE_TIME | GUID | BYTE_STRING | XML_ELEMENT | NODE_ID
| EXPANDED_NODE_ID | STATUS_CODE | QUALIFIED_NAME | LOCALIZED_TEXT | EXTENSION_OBJECT
| DATA_VALUE | VARIANT | DIAGNOSTIC_INFO

definition variant_types :: "variant_type list" where
  "variant_types = [EMPTY, BOOL, INT8, UINT8, INT16, UINT16, INT32, UINT32, INT64, UINT64,
     FLOAT, DOUBLE, STRING, DATE_TIME, GUID, BYTE_STRING, XML_ELEMENT, NODE_ID,
     EXPANDED_NODE_ID, STATUS_CODE, QUALIFIED_NAME, LOCALIZED_TEXT, EXTENSION_OBJECT,
     DATA_VALUE, VARIANT, DIAGNOSTIC_INFO]"

fun type_id :: "variant_type \<Rightarrow> byte" where
  "type_id EMPTY = 0" | "type_id BOOL = 1" | "type_id INT8 = 2" | "type_id UINT8 = 3"
| "type_id INT16 = 4" | "type_id UINT16 = 5" | "type_id INT32 = 6" | "type_id UINT32 = 7"
| "type_id INT64 = 8" | "type_id UINT64 = 9" | "type_id FLOAT = 10" | "type_id DOUBLE = 11"
| "type_id STRING = 12" | "type_id DATE_TIME = 13" | "type_id GUID = 14"
| "type_id BYTE_STRING = 15" | "type_id XML_ELEMENT = 16" | "type_id NODE_ID = 17"
| "type_id EXPANDED_NODE_ID = 18" | "type_id STATUS_CODE = 19" | "type_id QUALIFIED_NAME = 20"
| "type_id LOCALIZED_TEXT = 21" | "type_id EXTENSION_OBJECT = 22" | "type_id DATA_VALUE = 23"
| "type_id VARIANT = 24" | "type_id DIAGNOSTIC_INFO = 25"

abbreviation COUNT :: nat where "COUNT \<equiv> 26"

text \<open>
  The alternatives of \<open>Variant::Data\<close> are 26 scalars and, shifted by \<open>COUNT\<close>, the
  vectors of the same 26 types. A \<open>builtin\<close> is a value of one of the scalar types; an
  array is a type with the list of its elements, which the codec requires to be of
  that type, as the C++ vector types do. A nested DataValue or Variant sits behind a
  shared pointer that may be null.
\<close>

datatype builtin =
  BEmpty | BBool bool | BInt8 byte | BUInt8 byte | BInt16 u16 | BUInt16 u16 | BInt32 u32
| BUInt32 u32 | BInt64 u64 | BUInt64 u64 | BFloat u32 | BDouble u64 | BString bytes
| BDateTime u64 | BGuid guid | BByteString bytes | BXmlElement bytes | BNodeId node_id
| BExpandedNodeId expanded_node_id | BStatus status | BQualifiedName qualified_name
| BLocalizedText localized_text | BExtensionObject extension_object
| BDataValue "data_value option" | BVariant "variant option"
| BDiagnosticInfo diagnostic_info
and variant = Scalar builtin | Arr variant_type "builtin list"
and data_value = DataValue (dv_value: variant) (qualifier: u32) (source_timestamp: u64)
    (server_timestamp: u64) (dv_status_code: status_code)

fun builtin_type :: "builtin \<Rightarrow> variant_type" where
  "builtin_type BEmpty = EMPTY" | "builtin_type (BBool _) = BOOL"
| "builtin_type (BInt8 _) = INT8" | "builtin_type (BUInt8 _) = UINT8"
| "builtin_type (BInt16 _) = INT16" | "builtin_type (BUInt16 _) = UINT16"
| "builtin_type (BInt32 _) = INT32" | "builtin_type (BUInt32 _) = UINT32"
| "builtin_type (BInt64 _) = INT64" | "builtin_type (BUInt64 _) = UINT64"
| "builtin_type (BFloat _) = FLOAT" | "builtin_type (BDouble _) = DOUBLE"
| "builtin_type (BString _) = STRING" | "builtin_type (BDateTime _) = DATE_TIME"
| "builtin_type (BGuid _) = GUID" | "builtin_type (BByteString _) = BYTE_STRING"
| "builtin_type (BXmlElement _) = XML_ELEMENT" | "builtin_type (BNodeId _) = NODE_ID"
| "builtin_type (BExpandedNodeId _) = EXPANDED_NODE_ID" | "builtin_type (BStatus _) = STATUS_CODE"
| "builtin_type (BQualifiedName _) = QUALIFIED_NAME"
| "builtin_type (BLocalizedText _) = LOCALIZED_TEXT"
| "builtin_type (BExtensionObject _) = EXTENSION_OBJECT" | "builtin_type (BDataValue _) = DATA_VALUE"
| "builtin_type (BVariant _) = VARIANT" | "builtin_type (BDiagnosticInfo _) = DIAGNOSTIC_INFO"

fun variant_type_of :: "variant \<Rightarrow> variant_type" where
  "variant_type_of (Scalar b) = builtin_type b"
| "variant_type_of (Arr t _) = t"

fun is_array :: "variant \<Rightarrow> bool" where
  "is_array (Scalar _) = False"
| "is_array (Arr _ _) = True"

definition is_null :: "variant \<Rightarrow> bool" where
  "is_null v \<longleftrightarrow> variant_type_of v = EMPTY"

abbreviation null_variant :: variant where "null_variant \<equiv> Scalar BEmpty"

definition default_data_value :: data_value where
  "default_data_value = DataValue null_variant 0 0 0 Good"

text \<open>The inverse of \<open>type_id\<close> below \<open>COUNT\<close>, as the cast of the decoder reads it.\<close>

definition type_of_id :: "nat \<Rightarrow> variant_type option" where
  "type_of_id n = (if n < COUNT then Some (variant_types ! n) else None)"

lemma type_id_bound: "unat (type_id t) < COUNT"
  by (cases t) simp_all

lemma type_of_id_type_id [simp]: "type_of_id (unat (type_id t)) = Some t"
  by (cases t) (simp_all add: type_of_id_def variant_types_def)

lemma type_id_low_bits [simp]: "type_id t AND 0x3f = type_id t"
  by (cases t) simp_all

end
