(* ===== verification/Ua_Codec.thy ===== *)
theory Ua_Codec
  imports Ua_Types
begin

text \<open>
  The UA Binary codec of \<^verbatim>\<open>opcua/transport/binary/codec_utils.cpp\<close>, first part: the
  encoder and decoder of the non-recursive built-in types and of arrays of them.

  An encoder overload is the function from the value to the bytes it appends; where the
  C++ call can throw (\<open>NodeId::opaque_id\<close> on an identifier of another kind) the result is
  an option. The decoder is the record of its span and offset; a decode overload returns
  \<open>None\<close> where the C++ one returns \<open>false\<close> (every caller gives up then) and the value
  with the advanced decoder otherwise. \<open>float\<close> and \<open>double\<close> are their bit patterns, as the
  code copies their object representation (on a little-endian host).
\<close>

section \<open>The decoder\<close>

record decoder =
  d_bytes :: bytes
  d_offset :: nat

definition make_decoder :: "bytes \<Rightarrow> decoder" where
  "make_decoder bs = \<lparr>d_bytes = bs, d_offset = 0\<rparr>"

definition remaining :: "decoder \<Rightarrow> bytes" where
  "remaining d = drop (d_offset d) (d_bytes d)"

definition consumed :: "decoder \<Rightarrow> bool" where
  "consumed d \<longleftrightarrow> d_offset d = length (d_bytes d)"

definition advance :: "nat \<Rightarrow> decoder \<Rightarrow> decoder" where
  "advance n d = d\<lparr>d_offset := d_offset d + n\<rparr>"

definition Skip :: "nat \<Rightarrow> decoder \<Rightarrow> decoder option" where
  "Skip count d = (if length (remaining d) < count then None else Some (advance count d))"

lemma remaining_make [simp]: "remaining (make_decoder bs) = bs"
  by (simp add: remaining_def make_decoder_def)

lemma d_bytes_make [simp]: "d_bytes (make_decoder bs) = bs"
  by (simp add: make_decoder_def)

lemma d_bytes_advance [simp]: "d_bytes (advance n d) = d_bytes d"
  by (simp add: advance_def)

lemma remaining_advance: "remaining (advance n d) = drop n (remaining d)"
  by (simp add: remaining_def advance_def add.commute)

text \<open>
  \<open>reads m x r\<close>: the decode call \<open>m\<close> succeeded with \<open>x\<close> and left the bytes \<open>r\<close>. The rules
  below chain calls the way the code sequences them.
\<close>

definition reads :: "('a \<times> decoder) option \<Rightarrow> 'a \<Rightarrow> bytes \<Rightarrow> bool" where
  "reads m x r \<longleftrightarrow> (\<exists>d'. m = Some (x, d') \<and> remaining d' = r)"

lemma reads_Some: "remaining d = r \<Longrightarrow> reads (Some (x, d)) x r"
  by (simp add: reads_def)

lemma reads_bind:
  assumes "reads m x r" and "\<And>d'. remaining d' = r \<Longrightarrow> reads (g x d') y r'"
  shows "reads (Option.bind m (case_prod g)) y r'"
  using assms by (auto simp: reads_def)

text \<open>
  \<open>consumes m d\<close>: if the call returned, it took a non-empty prefix off what \<open>d\<close> had left.
\<close>

definition consumes :: "('a \<times> decoder) option \<Rightarrow> decoder \<Rightarrow> bool" where
  "consumes m d \<longleftrightarrow> (\<forall>x d'. m = Some (x, d') \<longrightarrow> (\<exists>c. c \<noteq> [] \<and> remaining d = c @ remaining d'))"

definition consumes_le :: "('a \<times> decoder) option \<Rightarrow> decoder \<Rightarrow> bool" where
  "consumes_le m d \<longleftrightarrow> (\<forall>x d'. m = Some (x, d') \<longrightarrow> (\<exists>c. remaining d = c @ remaining d'))"

lemma consumes_imp_le: "consumes m d \<Longrightarrow> consumes_le m d"
  by (force simp: consumes_def consumes_le_def)

lemma consumes_None [simp]: "consumes None d" "consumes_le None d"
  by (simp_all add: consumes_def consumes_le_def)

lemma consumes_le_Some [simp]: "consumes_le (Some (x, d)) d"
  by (simp add: consumes_le_def)

lemma consumes_bind:
  assumes "consumes m d" and "\<And>x d'. consumes_le (g x d') d'"
  shows "consumes (Option.bind m (case_prod g)) d"
  using assms unfolding consumes_def consumes_le_def
  by (fastforce simp: Option.bind_eq_Some_conv)

lemma consumes_le_bind:
  assumes "consumes_le m d" and "\<And>x d'. consumes_le (g x d') d'"
  shows "consumes_le (Option.bind m (case_prod g)) d"
  using assms unfolding consumes_le_def
  by (fastforce simp: Option.bind_eq_Some_conv)

lemma consumes_advance:
  assumes "d_offset d + n \<le> length (d_bytes d)" and "0 < n"
  shows "consumes (Some (x, advance n d)) d"
proof -
  have "remaining d = take n (remaining d) @ remaining (advance n d)"
    by (simp add: remaining_advance)
  moreover have "take n (remaining d) \<noteq> []"
    using assms by (simp add: remaining_def)
  ultimately show ?thesis unfolding consumes_def by blast
qed

lemma consumes_le_advance: "consumes_le (Some (x, advance n d)) d"
  unfolding consumes_le_def
  by (metis Pair_inject append_take_drop_id option.inject remaining_advance)

lemma remaining_fits:
  "remaining d = bs @ r \<Longrightarrow> bs \<noteq> [] \<Longrightarrow> \<not> length (d_bytes d) < d_offset d + length bs"
  using drop_eq_append_length [of "d_offset d" "d_bytes d" bs r] by (simp add: remaining_def)

lemma remaining_nth:
  "remaining d = bs @ r \<Longrightarrow> i < length bs \<Longrightarrow> d_bytes d ! (d_offset d + i) = bs ! i"
  unfolding remaining_def by (rule nth_of_drop)

section \<open>Codecs as a contract\<close>

text \<open>
  What the layers above rely on, for each encode/decode pair: decoding the encoding of an
  encodable value gives it back and leaves exactly the bytes behind it, an encoding is
  never empty, and a decode takes a non-empty prefix.
\<close>

locale wire_codec =
  fixes enc :: "'a \<Rightarrow> bytes option"
    and dec :: "decoder \<Rightarrow> ('a \<times> decoder) option"
    and ok :: "'a \<Rightarrow> bool"
  assumes enc_dec: "enc x = Some bs \<Longrightarrow> ok x \<Longrightarrow> remaining d = bs @ r \<Longrightarrow> reads (dec d) x r"
    and enc_nonempty: "enc x = Some bs \<Longrightarrow> bs \<noteq> []"
    and dec_consumes: "consumes (dec d) d"

text \<open>The loop of \<open>ReadArray\<close> and the for-each of \<open>AppendArray\<close>.\<close>

fun read_n :: "nat \<Rightarrow> (decoder \<Rightarrow> ('a \<times> decoder) option) \<Rightarrow> decoder \<Rightarrow> ('a list \<times> decoder) option"
where
  "read_n 0 dec d = Some ([], d)"
| "read_n (Suc n) dec d = do {
     (x, d) \<leftarrow> dec d;
     (xs, d) \<leftarrow> read_n n dec d;
     Some (x # xs, d) }"

fun write_all :: "('a \<Rightarrow> bytes option) \<Rightarrow> 'a list \<Rightarrow> bytes option" where
  "write_all enc [] = Some []"
| "write_all enc (x # xs) = do { b \<leftarrow> enc x; bs \<leftarrow> write_all enc xs; Some (b @ bs) }"

lemma write_all_append:
  "write_all enc (xs @ ys) = do { a \<leftarrow> write_all enc xs; b \<leftarrow> write_all enc ys; Some (a @ b) }"
  by (induction xs) (auto split: Option.bind_splits)

context wire_codec
begin

lemma write_all_read_n:
  "write_all enc xs = Some bs \<Longrightarrow> list_all ok xs \<Longrightarrow> remaining d = bs @ r \<Longrightarrow>
     reads (read_n (length xs) dec d) xs r"
proof (induction xs arbitrary: bs d)
  case Nil
  then show ?case by (simp add: reads_def)
next
  case (Cons x xs)
  from Cons.prems(1) obtain b bs' where b: "enc x = Some b" "write_all enc xs = Some bs'"
    and "bs = b @ bs'" by (auto split: Option.bind_splits)
  with Cons.prems have "reads (dec d) x (bs' @ r)"
    by (auto intro: enc_dec)
  moreover have "reads (read_n (length xs) dec d') xs r" if "remaining d' = bs' @ r" for d'
    using Cons.IH [OF b(2)] Cons.prems(2) that by simp
  ultimately show ?case
    by (auto intro!: reads_bind reads_Some)
qed

lemma write_all_length: "write_all enc xs = Some bs \<Longrightarrow> length xs \<le> length bs"
proof (induction xs arbitrary: bs)
  case (Cons x xs)
  then obtain b bs' where "enc x = Some b" "write_all enc xs = Some bs'" "bs = b @ bs'"
    by (auto split: Option.bind_splits)
  with Cons.IH [of bs'] enc_nonempty [of x b] show ?case by (cases b) auto
qed simp

lemma read_n_consumes: "consumes_le (read_n n dec d) d"
proof (induction n arbitrary: d)
  case (Suc n)
  then show ?case
    by (auto intro!: consumes_le_bind consumes_imp_le [OF dec_consumes])
qed simp

end

section \<open>Integers, bool and floating point\<close>

definition enc_u8 :: "byte \<Rightarrow> bytes" where
  "enc_u8 v = [v]"

definition enc_u16 :: "u16 \<Rightarrow> bytes" where
  "enc_u16 v = [byte_at 0 v, byte_at 1 v]"

definition enc_u32 :: "u32 \<Rightarrow> bytes" where
  "enc_u32 v = [byte_at 0 v, byte_at 1 v, byte_at 2 v, byte_at 3 v]"

definition enc_u64 :: "u64 \<Rightarrow> bytes" where
  "enc_u64 v = map (\<lambda>i. byte_at i v) [0..<8]"

definition enc_bool :: "bool \<Rightarrow> bytes" where
  "enc_bool b = enc_u8 (if b then 1 else 0)"

definition enc_i32 :: "u32 \<Rightarrow> bytes" where
  "enc_i32 v = enc_u32 v"

definition enc_i64 :: "u64 \<Rightarrow> bytes" where
  "enc_i64 v = enc_u64 v"

definition enc_float :: "u32 \<Rightarrow> bytes" where
  "enc_float v = map (\<lambda>i. byte_at i v) [0..<4]"

definition enc_double :: "u64 \<Rightarrow> bytes" where
  "enc_double v = map (\<lambda>i. byte_at i v) [0..<8]"

definition decode_u8 :: "decoder \<Rightarrow> (byte \<times> decoder) option" where
  "decode_u8 d = (if d_offset d + 1 > length (d_bytes d) then None
     else Some (d_bytes d ! d_offset d, advance 1 d))"

definition decode_u16 :: "decoder \<Rightarrow> (u16 \<times> decoder) option" where
  "decode_u16 d = (if d_offset d + 2 > length (d_bytes d) then None
     else Some (ucast (d_bytes d ! d_offset d)
        OR push_bit 8 (ucast (d_bytes d ! (d_offset d + 1))), advance 2 d))"

definition decode_u32 :: "decoder \<Rightarrow> (u32 \<times> decoder) option" where
  "decode_u32 d = (if d_offset d + 4 > length (d_bytes d) then None
     else Some (ucast (d_bytes d ! d_offset d)
        OR push_bit 8 (ucast (d_bytes d ! (d_offset d + 1)))
        OR push_bit 16 (ucast (d_bytes d ! (d_offset d + 2)))
        OR push_bit 24 (ucast (d_bytes d ! (d_offset d + 3))), advance 4 d))"

definition decode_bool :: "decoder \<Rightarrow> (bool \<times> decoder) option" where
  "decode_bool d = do { (raw, d) \<leftarrow> decode_u8 d; Some (raw \<noteq> 0, d) }"

definition decode_i32 :: "decoder \<Rightarrow> (u32 \<times> decoder) option" where
  "decode_i32 d = do { (raw, d) \<leftarrow> decode_u32 d; Some (raw, d) }"

definition decode_i64 :: "decoder \<Rightarrow> (u64 \<times> decoder) option" where
  "decode_i64 d = (if d_offset d + 8 > length (d_bytes d) then None
     else Some (foldl (\<lambda>raw i. raw OR push_bit (8 * i) (ucast (d_bytes d ! (d_offset d + i))))
        0 [0..<8], advance 8 d))"

definition decode_u64 :: "decoder \<Rightarrow> (u64 \<times> decoder) option" where
  "decode_u64 d = do { (raw, d) \<leftarrow> decode_i64 d; Some (raw, d) }"

definition decode_float :: "decoder \<Rightarrow> (u32 \<times> decoder) option" where
  "decode_float d = (if d_offset d + 4 > length (d_bytes d) then None
     else Some (foldl (\<lambda>raw i. raw OR push_bit (8 * i) (ucast (d_bytes d ! (d_offset d + i))))
        0 [0..<4], advance 4 d))"

definition decode_double :: "decoder \<Rightarrow> (u64 \<times> decoder) option" where
  "decode_double d = (if d_offset d + 8 > length (d_bytes d) then None
     else Some (foldl (\<lambda>raw i. raw OR push_bit (8 * i) (ucast (d_bytes d ! (d_offset d + i))))
        0 [0..<8], advance 8 d))"

lemma read_fixed:
  assumes "remaining d = bs @ r" and "bs \<noteq> []"
  shows "\<not> length (d_bytes d) < d_offset d + length bs"
    and "remaining (advance (length bs) d) = r"
  using remaining_fits [OF assms] assms(1) by (simp_all add: remaining_advance)

lemma reads_u8 [wire_rt]: "remaining d = enc_u8 v @ r \<Longrightarrow> reads (decode_u8 d) v r"
  using read_fixed [of d "enc_u8 v" r] remaining_nth [of d "enc_u8 v" r 0]
  by (simp add: reads_def decode_u8_def enc_u8_def)

lemma reads_u16 [wire_rt]: "remaining d = enc_u16 v @ r \<Longrightarrow> reads (decode_u16 d) v r"
  using read_fixed [of d "enc_u16 v" r] remaining_nth [of d "enc_u16 v" r 0]
    remaining_nth [of d "enc_u16 v" r 1] le_bytes_16 [of v]
  by (simp add: reads_def decode_u16_def enc_u16_def numeral_2_eq_2)

lemma reads_u32 [wire_rt]: "remaining d = enc_u32 v @ r \<Longrightarrow> reads (decode_u32 d) v r"
  using read_fixed [of d "enc_u32 v" r] remaining_nth [of d "enc_u32 v" r 0]
    remaining_nth [of d "enc_u32 v" r 1] remaining_nth [of d "enc_u32 v" r 2]
    remaining_nth [of d "enc_u32 v" r 3] le_bytes_32 [of v]
  by (simp add: reads_def decode_u32_def enc_u32_def numeral_2_eq_2 numeral_3_eq_3 eval_nat_numeral)

lemma foldl_bytes_cong:
  assumes "\<And>i. i < n \<Longrightarrow> xs ! (k + i) = f i"
  shows "foldl (\<lambda>raw i. raw OR push_bit (8 * i) (ucast (xs ! (k + i)))) a [0..<n]
    = foldl (\<lambda>raw i. raw OR push_bit (8 * i) (ucast (f i))) a [0..<n]"
  using assms by (intro foldl_cong) auto

lemma length_enc_u64 [simp]: "length (enc_u64 v) = 8"
  by (simp add: enc_u64_def del: upt_Suc)

lemma nth_enc_u64: "i < 8 \<Longrightarrow> enc_u64 v ! i = byte_at i v"
  by (simp add: enc_u64_def del: upt_Suc)

lemma reads_i64 [wire_rt]:
  assumes r: "remaining d = enc_u64 v @ r"
  shows "reads (decode_i64 d) v r"
proof -
  have "d_bytes d ! (d_offset d + i) = byte_at i v" if "i < 8" for i
    using remaining_nth [OF r, of i] that by (simp add: nth_enc_u64)
  then have "foldl (\<lambda>raw i. raw OR push_bit (8 * i) (ucast (d_bytes d ! (d_offset d + i)))) 0 [0..<8]
      = foldl (\<lambda>raw i. raw OR push_bit (8 * i) (ucast (byte_at i v))) 0 [0..<8]"
    by (rule foldl_bytes_cong)
  also have "\<dots> = v" by (rule le_bytes_64)
  finally have fold: "foldl (\<lambda>raw i. raw OR push_bit (8 * i)
      (ucast (d_bytes d ! (d_offset d + i)))) 0 [0..<8] = v" .
  have "enc_u64 v \<noteq> []" by (simp flip: length_greater_0_conv)
  with read_fixed [OF r] fold show ?thesis
    unfolding reads_def decode_i64_def by (simp del: upt_Suc)
qed

lemma reads_double [wire_rt]: "remaining d = enc_double v @ r \<Longrightarrow> reads (decode_double d) v r"
  using reads_i64 [of d v r]
  by (simp add: decode_i64_def decode_double_def enc_u64_def enc_double_def del: upt_Suc)

lemma reads_float [wire_rt]: "remaining d = enc_float v @ r \<Longrightarrow> reads (decode_float d) v r"
proof -
  have "enc_float v = enc_u32 v"
    by (simp add: enc_float_def enc_u32_def upt_rec numeral_2_eq_2 numeral_3_eq_3)
  moreover have "decode_float d = decode_u32 d"
    by (simp add: decode_float_def decode_u32_def upt_rec or.assoc numeral_2_eq_2 numeral_3_eq_3)
  ultimately show "remaining d = enc_float v @ r \<Longrightarrow> reads (decode_float d) v r"
    using reads_u32 by simp
qed

lemma reads_bool [wire_rt]: "remaining d = enc_bool b @ r \<Longrightarrow> reads (decode_bool d) b r"
  using reads_u8 [of d "if b then 1 else 0" r]
  by (auto simp: decode_bool_def enc_bool_def reads_def)

lemma reads_i32 [wire_rt]: "remaining d = enc_i32 v @ r \<Longrightarrow> reads (decode_i32 d) v r"
  using reads_u32 [of d v r] by (auto simp: decode_i32_def enc_i32_def reads_def)

lemma reads_u64 [wire_rt]: "remaining d = enc_u64 v @ r \<Longrightarrow> reads (decode_u64 d) v r"
  using reads_i64 [of d v r] by (auto simp: decode_u64_def reads_def)

lemma reads_i64_signed [wire_rt]: "remaining d = enc_i64 v @ r \<Longrightarrow> reads (decode_i64 d) v r"
  by (simp add: enc_i64_def reads_i64)

lemma consumes_ints [wire_consumes]:
  "consumes (decode_u8 d) d" "consumes (decode_u16 d) d" "consumes (decode_u32 d) d"
  "consumes (decode_i64 d) d" "consumes (decode_float d) d" "consumes (decode_double d) d"
  by (simp_all add: decode_u8_def decode_u16_def decode_u32_def decode_i64_def decode_float_def
      decode_double_def consumes_advance del: upt_Suc)

lemma consumes_derived_ints [wire_consumes]:
  "consumes (decode_bool d) d" "consumes (decode_i32 d) d" "consumes (decode_u64 d) d"
  by (auto simp: decode_bool_def decode_i32_def decode_u64_def
      intro!: consumes_bind wire_consumes)

lemmas consumes_le_ints [wire_consumes_le] =
  consumes_ints [THEN consumes_imp_le] consumes_derived_ints [THEN consumes_imp_le]

lemma enc_ints_nonempty [simp]:
  "enc_u8 a \<noteq> []" "enc_u16 b \<noteq> []" "enc_u32 c \<noteq> []" "enc_u64 e \<noteq> []" "enc_bool f \<noteq> []"
  "enc_i32 c \<noteq> []" "enc_i64 e \<noteq> []" "enc_float c \<noteq> []" "enc_double e \<noteq> []"
  by (simp_all add: enc_u8_def enc_u16_def enc_u32_def enc_u64_def enc_bool_def enc_i32_def
      enc_i64_def enc_float_def enc_double_def)

lemma length_enc_ints [simp]:
  "length (enc_u8 a) = 1" "length (enc_u16 b) = 2" "length (enc_u32 c) = 4" "length (enc_i32 c) = 4"
  "length (enc_i64 e) = 8"
  by (simp_all add: enc_u8_def enc_u16_def enc_u32_def enc_i32_def enc_i64_def)

section \<open>Strings and byte strings\<close>

definition enc_string :: "bytes \<Rightarrow> bytes" where
  "enc_string value = enc_i32 (of_nat (length value)) @ value"

definition enc_byte_string :: "bytes \<Rightarrow> bytes" where
  "enc_byte_string value = enc_i32 (of_nat (length value)) @ value"

definition decode_string :: "decoder \<Rightarrow> (bytes \<times> decoder) option" where
  "decode_string d = do {
     (len, d) \<leftarrow> decode_i32 d;
     if sint len < 0 then Some ([], d)
     else if d_offset d + unat len > length (d_bytes d) then None
     else Some (take (unat len) (drop (d_offset d) (d_bytes d)), advance (unat len) d) }"

definition decode_byte_string :: "decoder \<Rightarrow> (bytes \<times> decoder) option" where
  "decode_byte_string d = do {
     (len, d) \<leftarrow> decode_i32 d;
     if sint len < 0 then Some ([], d)
     else if d_offset d + unat len > length (d_bytes d) then None
     else Some (take (unat len) (drop (d_offset d) (d_bytes d)), advance (unat len) d) }"

abbreviation wire_len :: "'a list \<Rightarrow> bool" where
  "wire_len xs \<equiv> length xs < 2 ^ 31"

text \<open>A decoder that has just read an integer stands inside its buffer.\<close>

lemma decode_i32_inside:
  "decode_i32 d = Some (v, d') \<Longrightarrow> d_offset d' \<le> length (d_bytes d') \<and> d_bytes d' = d_bytes d"
  by (auto simp: decode_i32_def decode_u32_def advance_def Option.bind_eq_Some_conv split: if_splits)

lemma reads_string [wire_rt]:
  assumes r: "remaining d = enc_string s @ r" and len: "wire_len s"
  shows "reads (decode_string d) s r"
proof -
  from r have "remaining d = enc_i32 (of_nat (length s)) @ (s @ r)"
    by (simp add: enc_string_def)
  from reads_i32 [OF this] obtain d1
    where d1: "decode_i32 d = Some (of_nat (length s), d1)" "remaining d1 = s @ r"
    by (auto simp: reads_def)
  have "d_offset d1 \<le> length (d_bytes d1)"
    using decode_i32_inside [OF d1(1)] by blast
  moreover have "length (remaining d1) = length s + length r"
    using d1(2) by simp
  ultimately have "\<not> length (d_bytes d1) < d_offset d1 + length s"
    by (auto simp: remaining_def)
  moreover have "remaining (advance (length s) d1) = r"
    using d1(2) by (simp add: remaining_advance)
  ultimately show ?thesis
    using d1 len word32_size_nonneg [of "length s"]
    by (simp add: reads_def decode_string_def remaining_def)
qed

lemma decode_byte_string_eq: "decode_byte_string = decode_string"
  by (rule ext) (simp add: decode_byte_string_def decode_string_def)

lemma enc_byte_string_eq: "enc_byte_string = enc_string"
  by (rule ext) (simp add: enc_byte_string_def enc_string_def)

lemma reads_byte_string [wire_rt]:
  "remaining d = enc_byte_string s @ r \<Longrightarrow> wire_len s \<Longrightarrow> reads (decode_byte_string d) s r"
  by (simp add: decode_byte_string_eq enc_byte_string_eq reads_string)

lemma consumes_string [wire_consumes]:
  "consumes (decode_string d) d" "consumes (decode_byte_string d) d"
  by (auto simp: decode_byte_string_eq decode_string_def
      intro!: consumes_bind wire_consumes consumes_le_advance split: if_splits)

lemmas consumes_le_string [wire_consumes_le] = consumes_string [THEN consumes_imp_le]

lemma enc_string_nonempty [simp]: "enc_string s \<noteq> []" "enc_byte_string s \<noteq> []"
  by (simp_all add: enc_string_def enc_byte_string_def)

text \<open>
  Overloads that do not rebuild the decoder leave its buffer in place, so the offset they
  reach is a position in the frame they were given.
\<close>

lemma decode_keeps_bytes:
  "decode_u8 d = Some (a, d') \<Longrightarrow> d_bytes d' = d_bytes d"
  "decode_u32 d = Some (b, d') \<Longrightarrow> d_bytes d' = d_bytes d"
  "decode_string d = Some (c, d') \<Longrightarrow> d_bytes d' = d_bytes d"
  "decode_byte_string d = Some (c, d') \<Longrightarrow> d_bytes d' = d_bytes d"
  by (auto simp: decode_u8_def decode_u32_def decode_byte_string_eq decode_string_def decode_i32_def
      Option.bind_eq_Some_conv split: if_splits)

section \<open>Qualified names, localized text, Guid, status\<close>

definition enc_qualified_name :: "qualified_name \<Rightarrow> bytes" where
  "enc_qualified_name q = enc_u16 (qn_namespace_index q) @ enc_string (qn_name q)"

definition decode_qualified_name :: "decoder \<Rightarrow> (qualified_name \<times> decoder) option" where
  "decode_qualified_name d = do {
     (ns, d) \<leftarrow> decode_u16 d;
     (name, d) \<leftarrow> decode_string d;
     Some (QualifiedName name ns, d) }"

text \<open>
  \<open>UtfConvert\<close> is \<^verbatim>\<open>boost::locale::conv::utf_to_utf\<close>, code outside the repository: both
  directions are parameters.
\<close>

record utf_convert =
  to_utf8 :: "u16 list \<Rightarrow> bytes"
  to_utf16 :: "bytes \<Rightarrow> u16 list"

definition enc_localized_text :: "utf_convert \<Rightarrow> localized_text \<Rightarrow> bytes" where
  "enc_localized_text u t = (let
     mask = (if lt_locale t \<noteq> [] then 0x01 else 0) OR (if lt_text t \<noteq> [] then 0x02 else 0)
   in enc_u8 mask
      @ (if mask AND 0x01 \<noteq> 0 then enc_string (lt_locale t) else [])
      @ (if mask AND 0x02 \<noteq> 0 then enc_string (to_utf8 u (lt_text t)) else []))"

definition decode_localized_text :: "utf_convert \<Rightarrow> decoder \<Rightarrow> (localized_text \<times> decoder) option"
where
  "decode_localized_text u d = do {
     (mask, d) \<leftarrow> decode_u8 d;
     (locale, d) \<leftarrow> (if mask AND 0x01 \<noteq> 0 then decode_string d else Some ([], d));
     (text, d) \<leftarrow> (if mask AND 0x02 \<noteq> 0 then decode_string d else Some ([], d));
     Some (LocalizedText locale (to_utf16 u text), d) }"

definition enc_guid :: "guid \<Rightarrow> bytes" where
  "enc_guid g = enc_u32 (data1 g) @ enc_u16 (data2 g) @ enc_u16 (data3 g) @ data4 g"

definition decode_guid :: "decoder \<Rightarrow> (guid \<times> decoder) option" where
  "decode_guid d = do {
     (a, d) \<leftarrow> decode_u32 d;
     (b, d) \<leftarrow> decode_u16 d;
     (c, d) \<leftarrow> decode_u16 d;
     if d_offset d + 8 > length (d_bytes d) then None
     else do {
       (e, d) \<leftarrow> read_n 8 decode_u8 d;
       Some (Guid a b c e, d) } }"

definition enc_status :: "status \<Rightarrow> bytes" where
  "enc_status s = enc_u32 (full_code s)"

definition decode_status :: "decoder \<Rightarrow> (status \<times> decoder) option" where
  "decode_status d = do { (c, d) \<leftarrow> decode_u32 d; Some (FromFullCode c, d) }"

text \<open>
  What a LocalizedText needs to survive the wire: the text is one the converter maps to
  UTF-8 and back, and both fields fit a 31-bit length.
\<close>

definition utf_ok :: "utf_convert \<Rightarrow> localized_text \<Rightarrow> bool" where
  "utf_ok u t \<longleftrightarrow> wire_len (lt_locale t) \<and> wire_len (to_utf8 u (lt_text t))
     \<and> to_utf16 u (to_utf8 u (lt_text t)) = lt_text t \<and> to_utf16 u [] = []"

definition guid_ok :: "guid \<Rightarrow> bool" where
  "guid_ok g \<longleftrightarrow> length (data4 g) = 8"

text \<open>A converter that is right on ASCII, for concrete runs.\<close>

definition ascii_convert :: utf_convert where
  "ascii_convert = \<lparr>to_utf8 = map ucast, to_utf16 = map ucast\<rparr>"

lemma reads_qualified_name [wire_rt]:
  "remaining d = enc_qualified_name q @ r \<Longrightarrow> wire_len (qn_name q) \<Longrightarrow>
     reads (decode_qualified_name d) q r"
  unfolding decode_qualified_name_def enc_qualified_name_def
  by (auto intro!: reads_bind wire_rt reads_Some simp: append_assoc)

lemma reads_localized_text [wire_rt]:
  assumes "remaining d = enc_localized_text u t @ r" and ok: "utf_ok u t"
  shows "reads (decode_localized_text u d) t r"
proof -
  obtain loc tx where t: "t = LocalizedText loc tx" by (cases t)
  have okd: "wire_len loc" "wire_len (to_utf8 u tx)" "to_utf16 u (to_utf8 u tx) = tx" "to_utf16 u [] = []"
    using ok by (auto simp: utf_ok_def t)
  show ?thesis
    using assms(1) okd unfolding decode_localized_text_def enc_localized_text_def t
    by (cases "loc = []"; cases "tx = []")
      (auto intro!: reads_bind wire_rt reads_Some simp: append_assoc Let_def reads_def [of "Some _"])
qed

lemma reads_status [wire_rt]: "remaining d = enc_status v @ r \<Longrightarrow> reads (decode_status d) v r"
  unfolding decode_status_def enc_status_def FromFullCode_def
  by (rule reads_bind [OF reads_u32]) (auto simp: reads_def)

lemma enc_small_nonempty [simp]:
  "enc_qualified_name q \<noteq> []" "enc_localized_text u t \<noteq> []" "enc_guid g \<noteq> []" "enc_status v \<noteq> []"
  by (simp_all add: enc_qualified_name_def enc_localized_text_def enc_guid_def enc_status_def Let_def)

lemma consumes_small [wire_consumes]:
  "consumes (decode_qualified_name d) d" "consumes (decode_localized_text u d) d"
  "consumes (decode_status d) d"
  by (auto simp: decode_qualified_name_def decode_localized_text_def decode_status_def
      intro!: consumes_bind consumes_le_bind wire_consumes wire_consumes_le)

lemmas consumes_le_small [wire_consumes_le] = consumes_small [THEN consumes_imp_le]

interpretation u8_codec: wire_codec "\<lambda>v. Some (enc_u8 v)" decode_u8 "\<lambda>_. True"
  by unfold_locales (auto intro: wire_rt wire_consumes)

interpretation u32_codec: wire_codec "\<lambda>v. Some (enc_u32 v)" decode_u32 "\<lambda>_. True"
  by unfold_locales (auto intro: wire_rt wire_consumes)

interpretation string_codec: wire_codec "\<lambda>v. Some (enc_string v)" decode_string wire_len
  by unfold_locales (auto intro: wire_rt wire_consumes)

lemma write_all_u8: "write_all (\<lambda>v. Some (enc_u8 v)) bs = Some bs"
  by (induction bs) (simp_all add: enc_u8_def)

lemma reads_guid [wire_rt]:
  assumes "remaining d = enc_guid g @ r" and "guid_ok g"
  shows "reads (decode_guid d) g r"
proof -
  obtain a b c e where g: "g = Guid a b c e" by (cases g)
  have e: "length e = 8" "e \<noteq> []" using assms(2) by (auto simp: guid_ok_def g)
  have tail: "reads (if d_offset d' + 8 > length (d_bytes d') then None
       else do { (x, d) \<leftarrow> read_n 8 decode_u8 d'; Some (Guid a b c x, d) }) (Guid a b c e) r"
    if "remaining d' = e @ r" for d'
    using remaining_fits [OF that e(2)] u8_codec.write_all_read_n [OF write_all_u8 _ that]
    by (auto simp: e(1) reads_def list_all_iff)
  show ?thesis
    using assms(1) unfolding decode_guid_def enc_guid_def g
    by (auto intro!: reads_bind wire_rt tail simp: append_assoc)
qed

lemma consumes_guid [wire_consumes]: "consumes (decode_guid d) d"
  unfolding decode_guid_def
  by (auto intro!: consumes_bind consumes_le_bind wire_consumes wire_consumes_le
      u8_codec.read_n_consumes)

lemmas consumes_le_guid [wire_consumes_le] = consumes_guid [THEN consumes_imp_le]

section \<open>Node ids\<close>

definition enc_node_id :: "node_id \<Rightarrow> bytes" where
  "enc_node_id n = (let ns = namespace_index n in
     case id_value n of
       NumericId i \<Rightarrow>
         if ns = 0 \<and> i \<le> 0xff then enc_u8 0x00 @ enc_u8 (ucast i)
         else if ns \<le> 0xff \<and> i \<le> 0xffff then enc_u8 0x01 @ enc_u8 (ucast ns) @ enc_u16 (ucast i)
         else enc_u8 0x02 @ enc_u16 ns @ enc_u32 i
     | StringId s \<Rightarrow> enc_u8 0x03 @ enc_u16 ns @ enc_string s
     | GuidId g \<Rightarrow> enc_u8 0x04 @ enc_u16 ns @ enc_guid g
     | OpaqueId b \<Rightarrow> enc_u8 0x05 @ enc_u16 ns @ enc_byte_string b)"

definition decode_node_id :: "decoder \<Rightarrow> (node_id \<times> decoder) option" where
  "decode_node_id d = do {
     (encoding, d) \<leftarrow> decode_u8 d;
     if encoding = 0x00 then do {
       (i, d) \<leftarrow> decode_u8 d;
       Some (NodeId (NumericId (ucast i)) 0, d) }
     else if encoding = 0x01 then do {
       (ns, d) \<leftarrow> decode_u8 d;
       (i, d) \<leftarrow> decode_u16 d;
       Some (NodeId (NumericId (ucast i)) (ucast ns), d) }
     else if encoding = 0x02 then do {
       (ns, d) \<leftarrow> decode_u16 d;
       (i, d) \<leftarrow> decode_u32 d;
       Some (NodeId (NumericId i) ns, d) }
     else if encoding = 0x03 then do {
       (ns, d) \<leftarrow> decode_u16 d;
       (s, d) \<leftarrow> decode_string d;
       Some (NodeId (StringId s) ns, d) }
     else if encoding = 0x04 then do {
       (ns, d) \<leftarrow> decode_u16 d;
       (g, d) \<leftarrow> decode_guid d;
       Some (NodeId (GuidId g) ns, d) }
     else if encoding = 0x05 then do {
       (ns, d) \<leftarrow> decode_u16 d;
       (b, d) \<leftarrow> decode_byte_string d;
       Some (NodeId (OpaqueId b) ns, d) }
     else None }"

fun node_identifier_ok :: "node_identifier \<Rightarrow> bool" where
  "node_identifier_ok (NumericId _) = True"
| "node_identifier_ok (StringId s) = wire_len s"
| "node_identifier_ok (GuidId g) = guid_ok g"
| "node_identifier_ok (OpaqueId b) = wire_len b"

definition node_id_ok :: "node_id \<Rightarrow> bool" where
  "node_id_ok n \<longleftrightarrow> node_identifier_ok (id_value n)"

text \<open>A narrowing cast that the size check in front of it makes lossless.\<close>

lemma ucast_narrow_8: "(i :: u32) \<le> 0xff \<Longrightarrow> ucast (ucast i :: byte) = i"
  and ucast_narrow_16: "(i :: u32) \<le> 0xffff \<Longrightarrow> ucast (ucast i :: u16) = i"
  and ucast_narrow_8_16: "(n :: u16) \<le> 0xff \<Longrightarrow> ucast (ucast n :: byte) = n"
  by (simp_all add: word_unat_eq_iff word_le_nat_alt unsigned_ucast_eq unsigned_take_bit_eq
      take_bit_nat_eq_self)

lemma reads_node_id [wire_rt]:
  assumes "remaining d = enc_node_id n @ r" and "node_id_ok n"
  shows "reads (decode_node_id d) n r"
proof -
  obtain x ns where n: "n = NodeId x ns" by (cases n)
  show ?thesis
    using assms unfolding decode_node_id_def enc_node_id_def n node_id_ok_def
    by (cases x)
      (auto intro!: reads_bind wire_rt reads_Some
        simp: append_assoc Let_def ucast_narrow_8 ucast_narrow_16 ucast_narrow_8_16
          reads_def [of "Some _"] split: if_splits)
qed

lemma enc_node_id_nonempty [simp]: "enc_node_id n \<noteq> []"
  by (cases n) (simp add: enc_node_id_def Let_def split: node_identifier.split)

lemma consumes_node_id [wire_consumes]: "consumes (decode_node_id d) d"
  unfolding decode_node_id_def
  by (rule consumes_bind [OF consumes_ints(1)])
    (auto intro!: consumes_le_bind wire_consumes_le)

lemmas consumes_le_node_id [wire_consumes_le] = consumes_node_id [THEN consumes_imp_le]

interpretation node_id_codec: wire_codec "\<lambda>v. Some (enc_node_id v)" decode_node_id node_id_ok
  by unfold_locales (auto intro: wire_rt wire_consumes)

section \<open>Property\<close>

end
