(* ===== verification/Ua_Codec_Ext.thy ===== *)
theory Ua_Codec_Ext
  imports Ua_Codec
begin

text \<open>
  The codec of \<^verbatim>\<open>codec_utils.cpp\<close>, second part: expanded node ids, ExtensionObjects,
  DiagnosticInfo (recursive through its inner info), arrays, and the message envelope
  (\<open>AppendMessage\<close>, \<open>ReadMessage\<close>).

  A decoder that calls itself takes a fuel argument, one unit per nesting level; each
  level has consumed at least one byte before it recurses, so one unit more than there
  are bytes left is enough (\<open>dec_diag_fuel\<close>), and the overload starts with that.
\<close>

section \<open>Expanded node ids\<close>

text \<open>\<open>std::get\<close> on another alternative throws: the accessors are partial.\<close>

fun numeric_id :: "node_id \<Rightarrow> u32 option" where
  "numeric_id (NodeId (NumericId i) _) = Some i"
| "numeric_id _ = None"

fun string_id :: "node_id \<Rightarrow> bytes option" where
  "string_id (NodeId (StringId s) _) = Some s"
| "string_id _ = None"

fun opaque_id :: "node_id \<Rightarrow> bytes option" where
  "opaque_id (NodeId (OpaqueId b) _) = Some b"
| "opaque_id _ = None"

definition expanded_kind :: "node_id \<Rightarrow> byte" where
  "expanded_kind n = (let ns = namespace_index n in
     case id_value n of
       NumericId i \<Rightarrow>
         if ns = 0 \<and> i \<le> 0xff then 0x00
         else if ns \<le> 0xff \<and> i \<le> 0xffff then 0x01 else 0x02
     | StringId _ \<Rightarrow> 0x03
     | _ \<Rightarrow> 0x05)"

definition enc_expanded_node_id :: "expanded_node_id \<Rightarrow> bytes option" where
  "enc_expanded_node_id e = (let
     n = en_node_id e;
     ns = namespace_index n;
     encoding = (if namespace_uri e \<noteq> [] then 0x80 else 0)
       OR (if server_index e \<noteq> 0 then 0x40 else 0) OR expanded_kind n;
     kind = encoding AND 0x3f
   in do {
     body \<leftarrow>
       (if kind = 0x00 then map_option (\<lambda>i. enc_u8 (ucast i)) (numeric_id n)
        else if kind = 0x01
        then map_option (\<lambda>i. enc_u8 (ucast ns) @ enc_u16 (ucast i)) (numeric_id n)
        else if kind = 0x02 then map_option (\<lambda>i. enc_u16 ns @ enc_u32 i) (numeric_id n)
        else if kind = 0x03 then map_option (\<lambda>s. enc_u16 ns @ enc_string s) (string_id n)
        else if kind = 0x05 then map_option (\<lambda>b. enc_u16 ns @ enc_byte_string b) (opaque_id n)
        else Some []);
     Some (enc_u8 encoding @ body
       @ (if encoding AND 0x80 \<noteq> 0 then enc_string (namespace_uri e) else [])
       @ (if encoding AND 0x40 \<noteq> 0 then enc_u32 (server_index e) else [])) })"

text \<open>The switch over the low six bits, which has no case for a Guid.\<close>

definition decode_expanded_body :: "byte \<Rightarrow> decoder \<Rightarrow> (node_id \<times> decoder) option" where
  "decode_expanded_body kind d =
     (if kind = 0x00 then do {
        (i, d) \<leftarrow> decode_u8 d;
        Some (NodeId (NumericId (ucast i)) 0, d) }
      else if kind = 0x01 then do {
        (ns, d) \<leftarrow> decode_u8 d;
        (i, d) \<leftarrow> decode_u16 d;
        Some (NodeId (NumericId (ucast i)) (ucast ns), d) }
      else if kind = 0x02 then do {
        (ns, d) \<leftarrow> decode_u16 d;
        (i, d) \<leftarrow> decode_u32 d;
        Some (NodeId (NumericId i) ns, d) }
      else if kind = 0x03 then do {
        (ns, d) \<leftarrow> decode_u16 d;
        (s, d) \<leftarrow> decode_string d;
        Some (NodeId (StringId s) ns, d) }
      else if kind = 0x05 then do {
        (ns, d) \<leftarrow> decode_u16 d;
        (b, d) \<leftarrow> decode_byte_string d;
        Some (NodeId (OpaqueId b) ns, d) }
      else None)"

definition decode_expanded_node_id :: "decoder \<Rightarrow> (expanded_node_id \<times> decoder) option" where
  "decode_expanded_node_id d = do {
     (encoding, d) \<leftarrow> decode_u8 d;
     (n, d) \<leftarrow> decode_expanded_body (encoding AND 0x3f) d;
     (uri, d) \<leftarrow> (if encoding AND 0x80 \<noteq> 0 then decode_string d else Some ([], d));
     (idx, d) \<leftarrow> (if encoding AND 0x40 \<noteq> 0 then decode_u32 d else Some (0, d));
     Some (ExpandedNodeId n uri idx, d) }"

definition expanded_node_id_ok :: "expanded_node_id \<Rightarrow> bool" where
  "expanded_node_id_ok e \<longleftrightarrow> node_id_ok (en_node_id e) \<and> wire_len (namespace_uri e)"

text \<open>
  The flags and the kind share one byte without touching each other.
\<close>

lemma expanded_kind_cases: "expanded_kind n \<in> {0, 1, 2, 3, 5}"
  by (simp add: expanded_kind_def Let_def split: node_identifier.split)

lemma expanded_flags:
  assumes "k \<in> {0, 1, 2, 3, 5 :: byte}"
  shows "((if a then 0x80 else 0) OR (if b then 0x40 else 0) OR k) AND 0x3f = k"
    and "((if a then 0x80 else 0) OR (if b then 0x40 else 0) OR k) AND 0x80 \<noteq> 0 \<longleftrightarrow> a"
    and "((if a then 0x80 else 0) OR (if b then 0x40 else 0) OR k) AND 0x40 \<noteq> 0 \<longleftrightarrow> b"
  using assms by (cases a; cases b; auto)+

lemma expanded_kind_simps:
  "expanded_kind (NodeId (NumericId i) ns) =
     (if ns = 0 \<and> i \<le> 0xff then 0x00 else if ns \<le> 0xff \<and> i \<le> 0xffff then 0x01 else 0x02)"
  "expanded_kind (NodeId (StringId s) ns) = 0x03"
  "expanded_kind (NodeId (GuidId g) ns) = 0x05"
  "expanded_kind (NodeId (OpaqueId b) ns) = 0x05"
  by (simp_all add: expanded_kind_def)

lemma reads_expanded_tail:
  assumes "remaining d = (if uri \<noteq> [] then enc_string uri else [])
      @ (if idx \<noteq> 0 then enc_u32 idx else []) @ r" and "wire_len uri"
  shows "reads (do {
     (u, d) \<leftarrow> (if uri \<noteq> [] then decode_string d else Some ([], d));
     (i, d) \<leftarrow> (if idx \<noteq> 0 then decode_u32 d else Some (0, d));
     Some (ExpandedNodeId n u i, d) }) (ExpandedNodeId n uri idx) r"
  using assms
  by (cases "uri = []"; cases "idx = 0")
    (auto intro!: reads_bind wire_rt reads_Some simp: append_assoc reads_def [of "Some _"])

lemma reads_expanded_node_id [wire_rt]:
  assumes enc: "enc_expanded_node_id e = Some bs" and ok: "expanded_node_id_ok e"
    and r: "remaining d = bs @ r"
  shows "reads (decode_expanded_node_id d) e r"
proof -
  obtain x ns uri idx where e: "e = ExpandedNodeId (NodeId x ns) uri idx"
    by (metis expanded_node_id.exhaust node_id.exhaust)
  note flags = expanded_flags [OF expanded_kind_cases]
  have okx: "node_identifier_ok x" "wire_len uri"
    using ok by (auto simp: e expanded_node_id_ok_def node_id_ok_def)
  show ?thesis
    using enc r okx unfolding decode_expanded_node_id_def decode_expanded_body_def
      enc_expanded_node_id_def e Let_def
    by (cases x)
      (auto intro!: reads_bind wire_rt reads_Some reads_expanded_tail
        simp: flags expanded_kind_simps append_assoc ucast_narrow_8 ucast_narrow_16
          ucast_narrow_8_16 reads_def [of "Some _"]
        split: if_splits)
qed

lemma enc_expanded_nonempty: "enc_expanded_node_id e = Some bs \<Longrightarrow> bs \<noteq> []"
  by (auto simp: enc_expanded_node_id_def Let_def Option.bind_eq_Some_conv)

lemma consumes_le_expanded_body [wire_consumes_le]: "consumes_le (decode_expanded_body k d) d"
  unfolding decode_expanded_body_def by (auto intro!: consumes_le_bind wire_consumes_le)

lemma consumes_expanded_node_id [wire_consumes]: "consumes (decode_expanded_node_id d) d"
  unfolding decode_expanded_node_id_def
  by (rule consumes_bind [OF consumes_ints(1)])
    (auto intro!: consumes_le_bind wire_consumes_le)

lemmas consumes_le_expanded [wire_consumes_le] =
  consumes_expanded_node_id [THEN consumes_imp_le]

interpretation expanded_codec:
  wire_codec enc_expanded_node_id decode_expanded_node_id expanded_node_id_ok
  by unfold_locales (auto intro: wire_rt wire_consumes dest: enc_expanded_nonempty)

text \<open>The encoder throws on exactly the Guid identifiers.\<close>

lemma enc_expanded_None_iff:
  "enc_expanded_node_id e = None \<longleftrightarrow> (\<exists>g. id_value (en_node_id e) = GuidId g)"
proof -
  obtain x ns uri idx where e: "e = ExpandedNodeId (NodeId x ns) uri idx"
    by (metis expanded_node_id.exhaust node_id.exhaust)
  show ?thesis
    unfolding e enc_expanded_node_id_def Let_def
    by (cases x) (auto simp: expanded_flags [OF expanded_kind_cases] expanded_kind_simps)
qed

section \<open>ExtensionObjects\<close>

definition AppendExtensionObjectValue :: "extension_object \<Rightarrow> bytes option" where
  "AppendExtensionObjectValue x = do {
     t \<leftarrow> enc_expanded_node_id (data_type_id x);
     (case binary_body x of
        None \<Rightarrow> Some (t @ enc_u8 0x00)
      | Some body \<Rightarrow> Some (t @ enc_u8 0x01 @ enc_i32 (of_nat (length body)) @ body)) }"

text \<open>
  A body moves the decoder to a fresh one over the rest of its span, so \<open>offset\<close> starts
  again from zero.
\<close>

definition ReadExtensionObjectValue :: "decoder \<Rightarrow> (extension_object \<times> decoder) option" where
  "ReadExtensionObjectValue d = do {
     (t, d) \<leftarrow> decode_expanded_node_id d;
     (encoding, d) \<leftarrow> decode_u8 d;
     if encoding = 0x00 then Some (ExtensionObject t (BinaryBody []), d)
     else do {
       (len, d) \<leftarrow> decode_i32 d;
       if sint len < 0 \<or> length (remaining d) < unat len then None
       else Some (ExtensionObject t (BinaryBody (take (unat len) (remaining d))),
         make_decoder (drop (unat len) (remaining d))) } }"

definition extension_object_ok :: "extension_object \<Rightarrow> bool" where
  "extension_object_ok x \<longleftrightarrow> expanded_node_id_ok (data_type_id x)
     \<and> (\<exists>b. ext_value x = BinaryBody b \<and> wire_len b)"

lemma reads_extension_object [wire_rt]:
  assumes enc: "AppendExtensionObjectValue x = Some bs" and ok: "extension_object_ok x"
    and r: "remaining d = bs @ r"
  shows "reads (ReadExtensionObjectValue d) x r"
proof -
  obtain t b where x: "x = ExtensionObject t (BinaryBody b)" and tb: "expanded_node_id_ok t" "wire_len b"
    using ok by (cases x) (auto simp: extension_object_ok_def)
  obtain tb' where t: "enc_expanded_node_id t = Some tb'"
    and bs: "bs = tb' @ enc_u8 0x01 @ enc_i32 (of_nat (length b)) @ b"
    using enc by (auto simp: AppendExtensionObjectValue_def x Option.bind_eq_Some_conv)
  show ?thesis
    unfolding ReadExtensionObjectValue_def x
    using r bs t tb word32_size_nonneg [of "length b"]
    by (auto intro!: reads_bind wire_rt simp: append_assoc reads_def [of "Some _"])
qed

lemma AppendExtension_nonempty: "AppendExtensionObjectValue x = Some bs \<Longrightarrow> bs \<noteq> []"
  by (auto simp: AppendExtensionObjectValue_def Option.bind_eq_Some_conv split: option.splits)

lemma consumes_le_drop: "consumes_le (Some (x, make_decoder (drop n (remaining d)))) d"
  unfolding consumes_le_def by (metis Pair_inject append_take_drop_id option.inject remaining_make)

lemma consumes_extension_object [wire_consumes]: "consumes (ReadExtensionObjectValue d) d"
  unfolding ReadExtensionObjectValue_def
  by (rule consumes_bind [OF consumes_expanded_node_id])
    (auto intro!: consumes_le_bind wire_consumes_le consumes_le_drop)

lemmas consumes_le_extension [wire_consumes_le] =
  consumes_extension_object [THEN consumes_imp_le]

interpretation extension_codec:
  wire_codec AppendExtensionObjectValue ReadExtensionObjectValue extension_object_ok
  by unfold_locales (auto intro: wire_rt wire_consumes dest: AppendExtension_nonempty)

text \<open>
  The second pair of overloads: \<open>EncodedExtensionObject\<close> and \<open>DecodedExtensionObject\<close>
  carry an ns-0 numeric type id.
\<close>

record decoded_extension_object =
  deo_type_id :: u32
  deo_encoding :: byte
  deo_body :: bytes

definition enc_encoded_extension_object :: "u32 \<Rightarrow> bytes \<Rightarrow> bytes" where
  "enc_encoded_extension_object t body =
     enc_node_id (numeric_node_id t) @ enc_u8 0x01 @ enc_i32 (of_nat (length body)) @ body"

definition decode_decoded_extension_object :: "decoder \<Rightarrow> (decoded_extension_object \<times> decoder) option"
where
  "decode_decoded_extension_object d = do {
     (n, d) \<leftarrow> decode_node_id d;
     t \<leftarrow> numeric_id n;
     (encoding, d) \<leftarrow> decode_u8 d;
     if encoding = 0x00
     then Some (\<lparr>deo_type_id = t, deo_encoding = encoding, deo_body = []\<rparr>, d)
     else do {
       (len, d) \<leftarrow> decode_i32 d;
       if sint len < 0 \<or> d_offset d + unat len > length (d_bytes d) then None
       else Some (\<lparr>deo_type_id = t, deo_encoding = encoding,
           deo_body = take (unat len) (drop (d_offset d) (d_bytes d))\<rparr>, advance (unat len) d) } }"

lemma node_id_ok_numeric [simp]: "node_id_ok (NodeId (NumericId i) ns)"
  by (simp add: node_id_ok_def)

text \<open>The null additional header: a null type id and encoding byte zero.\<close>

lemma reads_null_extension:
  assumes "remaining d = enc_node_id null_node_id @ enc_u8 0x00 @ r"
  shows "reads (decode_decoded_extension_object d)
    \<lparr>deo_type_id = 0, deo_encoding = 0, deo_body = []\<rparr> r"
  unfolding decode_decoded_extension_object_def
  by (rule reads_bind [OF reads_node_id [OF assms]])
    (auto intro!: reads_bind wire_rt reads_Some)

section \<open>Optional fields and arrays\<close>

definition opt_field :: "('a \<Rightarrow> bytes) \<Rightarrow> 'a option \<Rightarrow> bytes" where
  "opt_field enc x = (case x of None \<Rightarrow> [] | Some v \<Rightarrow> enc v)"

definition opt_read ::
  "bool \<Rightarrow> (decoder \<Rightarrow> ('a \<times> decoder) option) \<Rightarrow> decoder \<Rightarrow> ('a option \<times> decoder) option"
where
  "opt_read present dec d =
     (if present then do { (x, d) \<leftarrow> dec d; Some (Some x, d) } else Some (None, d))"

lemma opt_field_simps [simp]: "opt_field enc None = []" "opt_field enc (Some v) = enc v"
  by (simp_all add: opt_field_def)

lemma reads_opt:
  assumes "remaining d = opt_field enc x @ r"
    and "\<And>v. x = Some v \<Longrightarrow> remaining d = enc v @ r \<Longrightarrow> reads (dec d) v r"
  shows "reads (opt_read (x \<noteq> None) dec d) x r"
  using assms by (cases x) (auto simp: opt_read_def reads_def)

lemma consumes_le_opt: "(\<And>d. consumes_le (dec d) d) \<Longrightarrow> consumes_le (opt_read b dec d) d"
  by (auto simp: opt_read_def intro!: consumes_le_bind)

text \<open>
  Two continuations of a decode call that agree on every shorter rest give the same result:
  the step of the proofs that more fuel changes nothing.
\<close>

lemma bind_cong_less:
  assumes "consumes m d" and "length (remaining d) < Suc n"
    and "\<And>x d'. length (remaining d') < n \<Longrightarrow> g x d' = h x d'"
  shows "Option.bind m (case_prod g) = Option.bind m (case_prod h)"
proof (cases m)
  case (Some p)
  obtain x d' where p: "p = (x, d')" by (cases p)
  obtain c where "c \<noteq> []" "remaining d = c @ remaining d'"
    using assms(1) by (auto simp: Some p consumes_def)
  then have "length (remaining d') < n" using assms(2) by (cases c) auto
  with assms(3) show ?thesis by (simp add: Some p)
qed simp

lemma bind_cong_le:
  assumes "consumes_le m d" and "length (remaining d) < n"
    and "\<And>x d'. length (remaining d') < n \<Longrightarrow> g x d' = h x d'"
  shows "Option.bind m (case_prod g) = Option.bind m (case_prod h)"
proof (cases m)
  case (Some p)
  obtain x d' where p: "p = (x, d')" by (cases p)
  obtain c where "remaining d = c @ remaining d'"
    using assms(1) by (auto simp: Some p consumes_le_def)
  then have "length (remaining d') < n" using assms(2) by auto
  with assms(3) show ?thesis by (simp add: Some p)
qed simp

lemma opt_read_cong_less:
  "length (remaining d) < n \<Longrightarrow> (\<And>d. length (remaining d) < n \<Longrightarrow> f d = g d) \<Longrightarrow>
     opt_read b f d = opt_read b g d"
  by (simp add: opt_read_def)

lemma read_n_cong_less:
  assumes "length (remaining d) < n" and "\<And>d. consumes_le (f d) d"
    and "\<And>d. length (remaining d) < n \<Longrightarrow> f d = g d"
  shows "read_n k f d = read_n k g d"
  using assms(1)
proof (induction k arbitrary: d)
  case (Suc k)
  have "Option.bind (f d) (\<lambda>(x, d). Option.bind (read_n k f d) (\<lambda>(xs, d). Some (x # xs, d)))
    = Option.bind (f d) (\<lambda>(x, d). Option.bind (read_n k g d) (\<lambda>(xs, d). Some (x # xs, d)))"
    by (rule bind_cong_le [OF assms(2) Suc.prems]) (simp add: Suc.IH)
  then show ?case using assms(3) [OF Suc.prems] by simp
qed simp

lemma read_n_length: "read_n n dec d = Some (xs, d') \<Longrightarrow> length xs = n"
  by (induction n arbitrary: d xs d') (auto simp: Option.bind_eq_Some_conv)

lemma read_n_reads:
  "write_all enc xs = Some bs \<Longrightarrow> remaining d = bs @ r \<Longrightarrow> length (remaining d) < n \<Longrightarrow>
     (\<And>x b d r. x \<in> set xs \<Longrightarrow> enc x = Some b \<Longrightarrow> remaining d = b @ r \<Longrightarrow>
        length (remaining d) < n \<Longrightarrow> reads (dec d) x r) \<Longrightarrow>
     reads (read_n (length xs) dec d) xs r"
proof (induction xs arbitrary: bs d)
  case Nil
  then show ?case by (simp add: reads_def)
next
  case (Cons x xs)
  from Cons.prems(1) obtain b bs' where b: "enc x = Some b" "write_all enc xs = Some bs'"
    and bs: "bs = b @ bs'" by (auto split: Option.bind_splits)
  have "reads (dec d) x (bs' @ r)"
    using Cons.prems(2,3) bs b by (intro Cons.prems(4)) auto
  moreover have "reads (read_n (length xs) dec d') xs r" if "remaining d' = bs' @ r" for d'
    using Cons.prems(2,3) bs that by (intro Cons.IH [OF b(2)] Cons.prems(4)) auto
  ultimately show ?case
    by (auto intro!: reads_bind reads_Some)
qed

definition AppendArray :: "('a \<Rightarrow> bytes option) \<Rightarrow> 'a list \<Rightarrow> bytes option" where
  "AppendArray writer values =
     map_option (\<lambda>bs. enc_i32 (of_nat (length values)) @ bs) (write_all writer values)"

definition ReadArray ::
  "(decoder \<Rightarrow> ('a \<times> decoder) option) \<Rightarrow> decoder \<Rightarrow> ('a list \<times> decoder) option"
where
  "ReadArray reader d = do {
     (count, d) \<leftarrow> decode_i32 d;
     if sint count < 0 then None
     else if unat count > length (remaining d) then None
     else read_n (unat count) reader d }"

lemma reads_array:
  assumes "AppendArray enc xs = Some bs" and "remaining d = bs @ r" and "wire_len xs"
    and "length (remaining d) < n"
    and "\<And>x b d r. x \<in> set xs \<Longrightarrow> enc x = Some b \<Longrightarrow> remaining d = b @ r \<Longrightarrow>
        length (remaining d) < n \<Longrightarrow> reads (dec d) x r"
    and "\<And>x b. x \<in> set xs \<Longrightarrow> enc x = Some b \<Longrightarrow> b \<noteq> []"
  shows "reads (ReadArray dec d) xs r"
proof -
  obtain body where body: "write_all enc xs = Some body"
    and bs: "bs = enc_i32 (of_nat (length xs)) @ body"
    using assms(1) by (auto simp: AppendArray_def)
  have "length xs \<le> length body"
    using body assms(6)
  proof (induction xs arbitrary: body)
    case (Cons x xs)
    then obtain b bs' where b: "enc x = Some b" "write_all enc xs = Some bs'" "body = b @ bs'"
      by (auto split: Option.bind_splits)
    have "length xs \<le> length bs'"
      using Cons.prems(2) by (intro Cons.IH [OF b(2)]) auto
    moreover have "b \<noteq> []" using Cons.prems(2) b(1) by auto
    ultimately show ?case using b(3) by (cases b) auto
  qed simp
  then show ?thesis
    unfolding ReadArray_def using assms(2-4) bs word32_size_nonneg [of "length xs"]
    by (auto intro!: reads_bind reads_i32 read_n_reads [OF body _ _ assms(5), where n = n])
qed

lemma consumes_array:
  assumes "\<And>d. consumes_le (dec d) d"
  shows "consumes (ReadArray dec d) d"
proof -
  have "consumes_le (read_n n dec d) d" for n d
    by (induction n arbitrary: d) (auto intro!: consumes_le_bind assms)
  then show ?thesis
    unfolding ReadArray_def by (auto intro!: consumes_bind wire_consumes)
qed

lemma ReadArray_cong_less:
  assumes "length (remaining d) < n" and "\<And>d. consumes_le (f d) d"
    and "\<And>d. length (remaining d) < n \<Longrightarrow> f d = g d"
  shows "ReadArray f d = ReadArray g d"
  unfolding ReadArray_def
  by (rule bind_cong_le [where n = n, OF _ assms(1)])
    (auto intro: wire_consumes_le read_n_cong_less [OF _ assms(2,3)])

text \<open>
  The bound the guard of \<open>ReadArray\<close> promises: it never asks for more elements than there
  are bytes after the count.
\<close>

lemma ReadArray_bound:
  assumes "ReadArray dec d = Some (xs, d')"
  shows "length xs + 4 \<le> length (remaining d)"
proof -
  obtain count d1 where c: "decode_i32 d = Some (count, d1)"
    and n: "unat count \<le> length (remaining d1)" and r: "read_n (unat count) dec d1 = Some (xs, d')"
    using assms by (auto simp: ReadArray_def Option.bind_eq_Some_conv split: if_splits)
  have "length (remaining d) = 4 + length (remaining d1)"
    using c by (auto simp: decode_i32_def decode_u32_def remaining_def advance_def split: if_splits)
  then show ?thesis using read_n_length [OF r] n by simp
qed

section \<open>DiagnosticInfo\<close>

definition diagnostic_mask :: "diagnostic_info \<Rightarrow> byte" where
  "diagnostic_mask v =
     (if symbolic_id v \<noteq> None then 0x01 else 0)
     OR (if di_namespace_uri v \<noteq> None then 0x02 else 0)
     OR (if localized_text_index v \<noteq> None then 0x04 else 0)
     OR (if di_locale v \<noteq> None then 0x08 else 0)
     OR (if additional_info v \<noteq> None then 0x10 else 0)
     OR (if inner_status_code v \<noteq> None then 0x20 else 0)
     OR (if inner_diagnostic_info v \<noteq> None then 0x40 else 0)"

fun enc_diagnostic_info :: "diagnostic_info \<Rightarrow> bytes" where
  "enc_diagnostic_info (DiagnosticInfo s n l t a c i) =
     enc_u8 (diagnostic_mask (DiagnosticInfo s n l t a c i))
     @ opt_field enc_i32 s @ opt_field enc_i32 n @ opt_field enc_i32 l @ opt_field enc_i32 t
     @ opt_field enc_string a @ opt_field enc_status c
     @ (case i of None \<Rightarrow> [] | Some inner \<Rightarrow> enc_diagnostic_info inner)"

fun dec_diag :: "nat \<Rightarrow> decoder \<Rightarrow> (diagnostic_info \<times> decoder) option" where
  "dec_diag 0 d = None"
| "dec_diag (Suc fuel) d = do {
     (mask, d) \<leftarrow> decode_u8 d;
     (s, d) \<leftarrow> opt_read (mask AND 0x01 \<noteq> 0) decode_i32 d;
     (n, d) \<leftarrow> opt_read (mask AND 0x02 \<noteq> 0) decode_i32 d;
     (l, d) \<leftarrow> opt_read (mask AND 0x08 \<noteq> 0) decode_i32 d;
     (t, d) \<leftarrow> opt_read (mask AND 0x04 \<noteq> 0) decode_i32 d;
     (a, d) \<leftarrow> opt_read (mask AND 0x10 \<noteq> 0) decode_string d;
     (c, d) \<leftarrow> opt_read (mask AND 0x20 \<noteq> 0) decode_status d;
     (i, d) \<leftarrow> opt_read (mask AND 0x40 \<noteq> 0) (dec_diag fuel) d;
     Some (DiagnosticInfo s n l t a c i, d) }"

definition decode_diagnostic_info :: "decoder \<Rightarrow> (diagnostic_info \<times> decoder) option" where
  "decode_diagnostic_info d = dec_diag (Suc (length (remaining d))) d"

fun diagnostic_info_ok :: "diagnostic_info \<Rightarrow> bool" where
  "diagnostic_info_ok (DiagnosticInfo s n l t a c i) \<longleftrightarrow>
     (case a of None \<Rightarrow> True | Some x \<Rightarrow> wire_len x)
     \<and> (case i of None \<Rightarrow> True | Some inner \<Rightarrow> diagnostic_info_ok inner)"

lemma consumes_dec_diag [wire_consumes]: "consumes (dec_diag fuel d) d"
proof (induction fuel arbitrary: d)
  case (Suc fuel)
  have "consumes_le (dec_diag fuel d) d" for d
    using Suc.IH by (rule consumes_imp_le)
  then show ?case
    by (auto intro!: consumes_bind consumes_le_bind consumes_le_opt wire_consumes wire_consumes_le)
qed simp

lemmas consumes_le_dec_diag [wire_consumes_le] = consumes_dec_diag [THEN consumes_imp_le]

text \<open>Fuel beyond the number of bytes left changes nothing.\<close>

lemma dec_diag_fuel:
  "length (remaining d) < j \<Longrightarrow> length (remaining d) < k \<Longrightarrow> dec_diag j d = dec_diag k d"
proof (induction j arbitrary: d k)
  case (Suc j)
  then obtain k' where k: "k = Suc k'" by (cases k) auto
  let ?n = "min j k'"
  have IH: "length (remaining d) < ?n \<Longrightarrow> dec_diag j d = dec_diag k' d" for d
    using Suc.IH by simp
  have len: "length (remaining d) < Suc ?n" using Suc.prems k by simp
  show ?case
    unfolding k dec_diag.simps
    by (rule bind_cong_less [OF consumes_ints(1) len],
        (rule bind_cong_le [where n = ?n], (rule consumes_le_opt, rule wire_consumes_le), assumption)+,
        rule arg_cong2 [where f = Option.bind, OF opt_read_cong_less [where n = ?n] refl])
      (auto intro: IH)
qed simp

lemma diagnostic_mask_bits:
  "diagnostic_mask v AND 0x01 \<noteq> 0 \<longleftrightarrow> symbolic_id v \<noteq> None"
  "diagnostic_mask v AND 0x02 \<noteq> 0 \<longleftrightarrow> di_namespace_uri v \<noteq> None"
  "diagnostic_mask v AND 0x04 \<noteq> 0 \<longleftrightarrow> localized_text_index v \<noteq> None"
  "diagnostic_mask v AND 0x08 \<noteq> 0 \<longleftrightarrow> di_locale v \<noteq> None"
  "diagnostic_mask v AND 0x10 \<noteq> 0 \<longleftrightarrow> additional_info v \<noteq> None"
  "diagnostic_mask v AND 0x20 \<noteq> 0 \<longleftrightarrow> inner_status_code v \<noteq> None"
  "diagnostic_mask v AND 0x40 \<noteq> 0 \<longleftrightarrow> inner_diagnostic_info v \<noteq> None"
  unfolding diagnostic_mask_def by (simp_all add: bit.conj_disj_distrib2)

lemma reads_dec_diag:
  "remaining d = enc_diagnostic_info v @ r \<Longrightarrow> diagnostic_info_ok v \<Longrightarrow>
     length (remaining d) < fuel \<Longrightarrow> reads (dec_diag fuel d) v r"
proof (induction v arbitrary: d fuel r)
  case (DiagnosticInfo s n l t a c i)
  obtain k where k: "fuel = Suc k" using DiagnosticInfo.prems(3) by (cases fuel) auto
  have a: "wire_len x" if "a = Some x" for x
    using DiagnosticInfo.prems(2) that by simp
  have tail: "(case i of None \<Rightarrow> [] | Some inner \<Rightarrow> enc_diagnostic_info inner)
      = opt_field enc_diagnostic_info i"
    by (simp add: opt_field_def)
  have inner: "reads (dec_diag k d') x r"
    if "i = Some x" "remaining d' = enc_diagnostic_info x @ r" for d' x
    using DiagnosticInfo.prems k that by (intro DiagnosticInfo.IH) (auto simp: enc_u8_def)
  show ?case
    using DiagnosticInfo.prems(1)
    unfolding k dec_diag.simps enc_diagnostic_info.simps tail append_assoc
    by (rule reads_bind [OF reads_u8])
      (simp only: diagnostic_mask_bits diagnostic_info.sel,
       (rule reads_bind, rule reads_opt, assumption,
        (rule wire_rt a inner | assumption)+)+, rule reads_Some)
qed

lemma reads_diagnostic_info [wire_rt]:
  "remaining d = enc_diagnostic_info v @ r \<Longrightarrow> diagnostic_info_ok v \<Longrightarrow>
     reads (decode_diagnostic_info d) v r"
  unfolding decode_diagnostic_info_def by (rule reads_dec_diag) auto

lemma enc_diagnostic_nonempty [simp]: "enc_diagnostic_info v \<noteq> []"
  by (cases v) simp

lemma consumes_diagnostic_info [wire_consumes]: "consumes (decode_diagnostic_info d) d"
  unfolding decode_diagnostic_info_def by (rule consumes_dec_diag)

lemmas consumes_le_diagnostic [wire_consumes_le] =
  consumes_diagnostic_info [THEN consumes_imp_le]

interpretation diagnostic_codec:
  wire_codec "\<lambda>v. Some (enc_diagnostic_info v)" decode_diagnostic_info diagnostic_info_ok
  by unfold_locales (auto intro: wire_rt wire_consumes)

section \<open>Message envelope\<close>

definition AppendMessage :: "u32 \<Rightarrow> bytes \<Rightarrow> bytes" where
  "AppendMessage t payload = enc_node_id (numeric_node_id t) @ payload"

definition ReadMessage :: "decoder \<Rightarrow> ((u32 \<times> bytes) \<times> decoder) option" where
  "ReadMessage d = do {
     (n, d) \<leftarrow> decode_node_id d;
     t \<leftarrow> numeric_id n;
     if namespace_index n \<noteq> 0 then None
     else do {
       let payload = remaining d;
       d' \<leftarrow> Skip (length payload) d;
       Some ((t, payload), d') } }"

lemma ReadMessage_AppendMessage:
  "\<exists>d'. ReadMessage (make_decoder (AppendMessage t payload)) = Some ((t, payload), d')"
proof -
  have "remaining (make_decoder (AppendMessage t payload)) = enc_node_id (numeric_node_id t) @ payload"
    by (simp add: AppendMessage_def)
  from reads_node_id [OF this] obtain d1 where
    d1: "decode_node_id (make_decoder (AppendMessage t payload)) = Some (numeric_node_id t, d1)"
    "remaining d1 = payload" by (auto simp: reads_def)
  then show ?thesis
    by (simp add: ReadMessage_def Skip_def Let_def)
qed

section \<open>Properties\<close>

text \<open>
  An ExpandedNodeId encodes exactly when its identifier is not a Guid (the encoder asks a
  Guid identifier for its opaque bytes, which throws), and whatever it encodes to decodes
  back to it with its namespace URI and server index.
\<close>

lemma expanded_node_id_roundtrip:
  assumes "expanded_node_id_ok e"
  shows "(enc_expanded_node_id e = None \<longleftrightarrow> (\<exists>g. id_value (en_node_id e) = GuidId g))
    \<and> (\<forall>bs. enc_expanded_node_id e = Some bs \<longrightarrow>
        (\<exists>d'. decode_expanded_node_id (make_decoder (bs @ rest)) = Some (e, d') \<and> remaining d' = rest))"
  using enc_expanded_None_iff [of e] reads_expanded_node_id [OF _ assms]
  by (auto simp: reads_def)

end
