(* ===== verification/Ua_Variant.thy ===== *)
theory Ua_Variant
  imports Ua_Codec_Ext
begin

text \<open>
  The codec of \<^verbatim>\<open>codec_utils.cpp\<close>, third part: Variant and DataValue, which nest each
  other. Encoding follows the value; decoding takes one unit of fuel per nesting level and
  starts with one more than there are bytes left (\<open>dec_variant_fuel\<close> shows that more
  changes nothing). The element codecs that \<open>OPCUA_VARIANT_BUILT_IN_TYPES\<close> generates are
  \<open>enc_builtin\<close> and \<open>DecodeElement\<close>, one equation per row of that list.
\<close>

section \<open>Encoding\<close>

abbreviation kMaxNullArrayElements :: int where "kMaxNullArrayElements \<equiv> 2 ^ 24"

definition data_value_mask :: "data_value \<Rightarrow> byte" where
  "data_value_mask v =
     (if is_null (dv_value v) then 0 else 0x01)
     OR (if IsGood (dv_status_code v) then 0 else 0x02)
     OR (if source_timestamp v = 0 then 0 else 0x04)
     OR (if server_timestamp v = 0 then 0 else 0x08)"

lemma write_all_cong [fundef_cong]:
  "xs = ys \<Longrightarrow> (\<And>x. x \<in> set ys \<Longrightarrow> f x = g x) \<Longrightarrow> write_all f xs = write_all g ys"
  by (induction xs arbitrary: ys) auto

lemma AppendArray_cong [fundef_cong]:
  "xs = ys \<Longrightarrow> (\<And>x. x \<in> set ys \<Longrightarrow> f x = g x) \<Longrightarrow> AppendArray f xs = AppendArray g ys"
  unfolding AppendArray_def using write_all_cong [of xs ys f g] by auto

text \<open>The bytes of a default DataValue and of a null Variant: one zero byte each.\<close>

fun enc_builtin :: "utf_convert \<Rightarrow> builtin \<Rightarrow> bytes option"
  and enc_variant :: "utf_convert \<Rightarrow> variant \<Rightarrow> bytes option"
  and enc_data_value :: "utf_convert \<Rightarrow> data_value \<Rightarrow> bytes option"
where
  "enc_builtin u BEmpty = Some []"
| "enc_builtin u (BBool v) = Some (enc_bool v)"
| "enc_builtin u (BInt8 v) = Some (enc_u8 v)"
| "enc_builtin u (BUInt8 v) = Some (enc_u8 v)"
| "enc_builtin u (BInt16 v) = Some (enc_u16 v)"
| "enc_builtin u (BUInt16 v) = Some (enc_u16 v)"
| "enc_builtin u (BInt32 v) = Some (enc_i32 v)"
| "enc_builtin u (BUInt32 v) = Some (enc_u32 v)"
| "enc_builtin u (BInt64 v) = Some (enc_i64 v)"
| "enc_builtin u (BUInt64 v) = Some (enc_u64 v)"
| "enc_builtin u (BFloat v) = Some (enc_float v)"
| "enc_builtin u (BDouble v) = Some (enc_double v)"
| "enc_builtin u (BString v) = Some (enc_string v)"
| "enc_builtin u (BDateTime v) = Some (enc_i64 v)"
| "enc_builtin u (BGuid v) = Some (enc_guid v)"
| "enc_builtin u (BByteString v) = Some (enc_byte_string v)"
| "enc_builtin u (BXmlElement v) = Some (enc_string v)"
| "enc_builtin u (BNodeId v) = Some (enc_node_id v)"
| "enc_builtin u (BExpandedNodeId v) = enc_expanded_node_id v"
| "enc_builtin u (BStatus v) = Some (enc_status v)"
| "enc_builtin u (BQualifiedName v) = Some (enc_qualified_name v)"
| "enc_builtin u (BLocalizedText v) = Some (enc_localized_text u v)"
| "enc_builtin u (BExtensionObject v) = AppendExtensionObjectValue v"
| "enc_builtin u (BDataValue None) = Some (enc_u8 (data_value_mask default_data_value))"
| "enc_builtin u (BDataValue (Some v)) = enc_data_value u v"
| "enc_builtin u (BVariant None) = Some (enc_u8 0)"
| "enc_builtin u (BVariant (Some v)) = enc_variant u v"
| "enc_builtin u (BDiagnosticInfo v) = Some (enc_diagnostic_info v)"
| "enc_variant u (Arr t xs) =
     (if t = EMPTY then Some (enc_u8 (type_id t OR 0x80) @ enc_i32 (of_nat (length xs)))
      else map_option (\<lambda>bs. enc_u8 (type_id t OR 0x80) @ bs) (AppendArray (enc_builtin u) xs))"
| "enc_variant u (Scalar b) =
     (if builtin_type b = EMPTY then Some (enc_u8 0)
      else map_option (\<lambda>bs. enc_u8 (type_id (builtin_type b)) @ bs) (enc_builtin u b))"
| "enc_data_value u (DataValue v q src srv st) =
     (let mask = data_value_mask (DataValue v q src srv st) in do {
        value \<leftarrow> (if mask AND 0x01 \<noteq> 0 then enc_variant u v else Some []);
        Some (enc_u8 mask @ value
          @ (if mask AND 0x02 \<noteq> 0 then enc_status (status_of_code st) else [])
          @ (if mask AND 0x04 \<noteq> 0 then enc_i64 src else [])
          @ (if mask AND 0x08 \<noteq> 0 then enc_i64 srv else [])) })"

section \<open>Decoding\<close>

definition tagged :: "('a \<Rightarrow> 'b) \<Rightarrow> ('a \<times> decoder) option \<Rightarrow> ('b \<times> decoder) option" where
  "tagged f m = map_option (map_prod f id) m"

text \<open>
  \<open>DecodeElement\<close> takes the decoders of the two recursive types, which the overloads call
  back into. A null Variant has no element, so \<open>EMPTY\<close> never gets here.
\<close>

definition DecodeElement :: "utf_convert \<Rightarrow> (decoder \<Rightarrow> (variant \<times> decoder) option)
    \<Rightarrow> (decoder \<Rightarrow> (data_value \<times> decoder) option) \<Rightarrow> variant_type \<Rightarrow> decoder
    \<Rightarrow> (builtin \<times> decoder) option" where
  "DecodeElement u dv dd t d = (case t of
     EMPTY \<Rightarrow> None
   | BOOL \<Rightarrow> tagged BBool (decode_bool d)
   | INT8 \<Rightarrow> tagged BInt8 (decode_u8 d)
   | UINT8 \<Rightarrow> tagged BUInt8 (decode_u8 d)
   | INT16 \<Rightarrow> tagged BInt16 (decode_u16 d)
   | UINT16 \<Rightarrow> tagged BUInt16 (decode_u16 d)
   | INT32 \<Rightarrow> tagged BInt32 (decode_i32 d)
   | UINT32 \<Rightarrow> tagged BUInt32 (decode_u32 d)
   | INT64 \<Rightarrow> tagged BInt64 (decode_i64 d)
   | UINT64 \<Rightarrow> tagged BUInt64 (decode_u64 d)
   | FLOAT \<Rightarrow> tagged BFloat (decode_float d)
   | DOUBLE \<Rightarrow> tagged BDouble (decode_double d)
   | STRING \<Rightarrow> tagged BString (decode_string d)
   | DATE_TIME \<Rightarrow> tagged BDateTime (decode_i64 d)
   | GUID \<Rightarrow> tagged BGuid (decode_guid d)
   | BYTE_STRING \<Rightarrow> tagged BByteString (decode_byte_string d)
   | XML_ELEMENT \<Rightarrow> tagged BXmlElement (decode_string d)
   | NODE_ID \<Rightarrow> tagged BNodeId (decode_node_id d)
   | EXPANDED_NODE_ID \<Rightarrow> tagged BExpandedNodeId (decode_expanded_node_id d)
   | STATUS_CODE \<Rightarrow> tagged BStatus (decode_status d)
   | QUALIFIED_NAME \<Rightarrow> tagged BQualifiedName (decode_qualified_name d)
   | LOCALIZED_TEXT \<Rightarrow> tagged BLocalizedText (decode_localized_text u d)
   | EXTENSION_OBJECT \<Rightarrow> tagged BExtensionObject (ReadExtensionObjectValue d)
   | DATA_VALUE \<Rightarrow> tagged (\<lambda>v. BDataValue (Some v)) (dd d)
   | VARIANT \<Rightarrow> tagged (\<lambda>v. BVariant (Some v)) (dv d)
   | DIAGNOSTIC_INFO \<Rightarrow> tagged BDiagnosticInfo (decode_diagnostic_info d))"

definition decode_null_array :: "decoder \<Rightarrow> (variant \<times> decoder) option" where
  "decode_null_array d = do {
     (count, d) \<leftarrow> decode_i32 d;
     if sint count < 0 \<or> sint count > kMaxNullArrayElements then None
     else Some (Arr EMPTY (replicate (unat count) BEmpty), d) }"

text \<open>The body of a Variant, once its encoding byte is read.\<close>

definition decode_variant_body ::
  "(variant_type \<Rightarrow> decoder \<Rightarrow> (builtin \<times> decoder) option) \<Rightarrow> byte \<Rightarrow> decoder
     \<Rightarrow> (variant \<times> decoder) option"
where
  "decode_variant_body elem encoding_mask d =
     (if encoding_mask AND 0x40 \<noteq> 0 then None
      else case type_of_id (unat (encoding_mask AND 0x3f)) of
        None \<Rightarrow> None
      | Some t \<Rightarrow>
          if encoding_mask AND 0x80 \<noteq> 0
          then (if t = EMPTY then decode_null_array d else tagged (Arr t) (ReadArray (elem t) d))
          else (if t = EMPTY then Some (null_variant, d) else tagged Scalar (elem t d)))"

definition decode_data_value_body ::
  "(decoder \<Rightarrow> (variant \<times> decoder) option) \<Rightarrow> byte \<Rightarrow> decoder \<Rightarrow> (data_value \<times> decoder) option"
where
  "decode_data_value_body dv encoding_mask d =
     (if encoding_mask AND 0xc0 \<noteq> 0 then None
      else do {
        (value, d) \<leftarrow> (if encoding_mask AND 0x01 \<noteq> 0 then dv d else Some (null_variant, d));
        (st, d) \<leftarrow> (if encoding_mask AND 0x02 \<noteq> 0 then tagged status_code (decode_status d)
          else Some (Good, d));
        (src, d) \<leftarrow> (if encoding_mask AND 0x04 \<noteq> 0 then decode_i64 d else Some (0, d));
        (_, d) \<leftarrow> (if encoding_mask AND 0x10 \<noteq> 0 then decode_u16 d else Some (0, d));
        (srv, d) \<leftarrow> (if encoding_mask AND 0x08 \<noteq> 0 then decode_i64 d else Some (0, d));
        (_, d) \<leftarrow> (if encoding_mask AND 0x20 \<noteq> 0 then decode_u16 d else Some (0, d));
        Some (DataValue value 0 src srv st, d) })"

fun dec_variant :: "utf_convert \<Rightarrow> nat \<Rightarrow> decoder \<Rightarrow> (variant \<times> decoder) option"
  and dec_data_value :: "utf_convert \<Rightarrow> nat \<Rightarrow> decoder \<Rightarrow> (data_value \<times> decoder) option"
where
  "dec_variant u 0 d = None"
| "dec_variant u (Suc k) d = do {
     (mask, d) \<leftarrow> decode_u8 d;
     decode_variant_body (DecodeElement u (dec_variant u k) (dec_data_value u k)) mask d }"
| "dec_data_value u 0 d = None"
| "dec_data_value u (Suc k) d = do {
     (mask, d) \<leftarrow> decode_u8 d;
     decode_data_value_body (dec_variant u k) mask d }"

definition decode_variant :: "utf_convert \<Rightarrow> decoder \<Rightarrow> (variant \<times> decoder) option" where
  "decode_variant u d = dec_variant u (Suc (length (remaining d))) d"

definition decode_data_value :: "utf_convert \<Rightarrow> decoder \<Rightarrow> (data_value \<times> decoder) option" where
  "decode_data_value u d = dec_data_value u (Suc (length (remaining d))) d"

section \<open>Values the wire can carry\<close>

text \<open>
  Which values come back unchanged. A null pointer to a nested value is written as the
  neutral value; a DataValue drops its qualifier, a null array, and the sub-code of a good
  status: those are the excluded cases.
\<close>

fun builtin_ok :: "utf_convert \<Rightarrow> builtin \<Rightarrow> bool"
  and variant_ok :: "utf_convert \<Rightarrow> variant \<Rightarrow> bool"
  and data_value_ok :: "utf_convert \<Rightarrow> data_value \<Rightarrow> bool"
where
  "builtin_ok u (BString v) \<longleftrightarrow> wire_len v"
| "builtin_ok u (BGuid v) \<longleftrightarrow> guid_ok v"
| "builtin_ok u (BByteString v) \<longleftrightarrow> wire_len v"
| "builtin_ok u (BXmlElement v) \<longleftrightarrow> wire_len v"
| "builtin_ok u (BNodeId v) \<longleftrightarrow> node_id_ok v"
| "builtin_ok u (BExpandedNodeId v) \<longleftrightarrow> expanded_node_id_ok v"
| "builtin_ok u (BQualifiedName v) \<longleftrightarrow> wire_len (qn_name v)"
| "builtin_ok u (BLocalizedText v) \<longleftrightarrow> utf_ok u v"
| "builtin_ok u (BExtensionObject v) \<longleftrightarrow> extension_object_ok v"
| "builtin_ok u (BDataValue None) \<longleftrightarrow> False"
| "builtin_ok u (BDataValue (Some v)) \<longleftrightarrow> data_value_ok u v"
| "builtin_ok u (BVariant None) \<longleftrightarrow> False"
| "builtin_ok u (BVariant (Some v)) \<longleftrightarrow> variant_ok u v"
| "builtin_ok u (BDiagnosticInfo v) \<longleftrightarrow> diagnostic_info_ok v"
| "builtin_ok u _ \<longleftrightarrow> True"
| "variant_ok u (Scalar b) \<longleftrightarrow> builtin_ok u b"
| "variant_ok u (Arr t xs) \<longleftrightarrow>
     (\<forall>x\<in>set xs. builtin_type x = t \<and> builtin_ok u x)
     \<and> (if t = EMPTY then length xs \<le> 2 ^ 24 else wire_len xs)"
| "data_value_ok u (DataValue v q src srv st) \<longleftrightarrow>
     variant_ok u v \<and> q = 0 \<and> (is_null v \<longrightarrow> v = null_variant)
     \<and> (if IsGood st then st = Good else unat st < 2 ^ 16)"

section \<open>Decoding takes a prefix\<close>

lemma consumes_tagged: "consumes m d \<Longrightarrow> consumes (tagged f m) d"
  unfolding consumes_def tagged_def by auto

lemma consumes_le_tagged: "consumes_le m d \<Longrightarrow> consumes_le (tagged f m) d"
  unfolding consumes_le_def tagged_def by auto

lemma reads_tagged: "reads m x r \<Longrightarrow> reads (tagged f m) (f x) r"
  unfolding reads_def tagged_def by auto

lemma consumes_DecodeElement:
  assumes "\<And>d. consumes (dv d) d" and "\<And>d. consumes (dd d) d"
  shows "consumes (DecodeElement u dv dd t d) d"
  unfolding DecodeElement_def
  by (cases t) (simp_all add: consumes_tagged assms wire_consumes)

lemma consumes_le_variant_body:
  assumes "\<And>t d. consumes_le (elem t d) d"
  shows "consumes_le (decode_variant_body elem m d) d"
  unfolding decode_variant_body_def decode_null_array_def
  by (auto intro!: consumes_le_tagged consumes_le_bind wire_consumes_le assms
      consumes_imp_le [OF consumes_array] split: option.split)

lemma consumes_le_data_value_body:
  assumes "\<And>d. consumes_le (dv d) d"
  shows "consumes_le (decode_data_value_body dv m d) d"
  unfolding decode_data_value_body_def
  by (auto intro!: consumes_le_tagged consumes_le_bind wire_consumes_le assms)

lemma consumes_dec_variant [wire_consumes]:
  "consumes (dec_variant u k d) d" "consumes (dec_data_value u k d) d"
proof (induction k arbitrary: d)
  case (Suc k)
  case 1
  show ?case
    by (auto intro!: consumes_bind consumes_ints(1) consumes_le_variant_body
        consumes_imp_le [OF consumes_DecodeElement] Suc.IH)
next
  case (Suc k)
  case 2
  show ?case
    by (auto intro!: consumes_bind consumes_ints(1) consumes_le_data_value_body
        consumes_imp_le [OF Suc.IH(1)])
qed simp_all

lemmas consumes_le_dec_variant [wire_consumes_le] = consumes_dec_variant [THEN consumes_imp_le]

lemma consumes_decode_variant [wire_consumes]:
  "consumes (decode_variant u d) d" "consumes (decode_data_value u d) d"
  unfolding decode_variant_def decode_data_value_def by (rule consumes_dec_variant)+

section \<open>The fuel is enough\<close>

lemma DecodeElement_cong_less:
  assumes "length (remaining d) < n"
    and "\<And>d. length (remaining d) < n \<Longrightarrow> dv d = dv' d"
    and "\<And>d. length (remaining d) < n \<Longrightarrow> dd d = dd' d"
  shows "DecodeElement u dv dd t d = DecodeElement u dv' dd' t d"
  using assms unfolding DecodeElement_def by (cases t) simp_all

lemma variant_body_cong_less:
  assumes "length (remaining d) < n" and "\<And>t d. consumes_le (elem t d) d"
    and "\<And>t d. length (remaining d) < n \<Longrightarrow> elem t d = elem' t d"
  shows "decode_variant_body elem m d = decode_variant_body elem' m d"
  unfolding decode_variant_body_def
  using assms(3) [OF assms(1)] ReadArray_cong_less [OF assms]
  by (auto split: option.split)

lemma data_value_body_cong_less:
  assumes "length (remaining d) < n" and "\<And>d. length (remaining d) < n \<Longrightarrow> dv d = dv' d"
  shows "decode_data_value_body dv m d = decode_data_value_body dv' m d"
  unfolding decode_data_value_body_def using assms(2) [OF assms(1)] by simp

lemma dec_variant_fuel:
  "length (remaining d) < j \<Longrightarrow> length (remaining d) < k \<Longrightarrow> dec_variant u j d = dec_variant u k d"
  "length (remaining d) < j \<Longrightarrow> length (remaining d) < k \<Longrightarrow>
     dec_data_value u j d = dec_data_value u k d"
proof (induction j arbitrary: d k)
  case (Suc j)
  case 1
  then obtain k' where k: "k = Suc k'" by (cases k) auto
  have len: "length (remaining d) < Suc (min j k')" using 1 k by simp
  have elem: "DecodeElement u (dec_variant u j) (dec_data_value u j) t d
      = DecodeElement u (dec_variant u k') (dec_data_value u k') t d"
    if "length (remaining d) < min j k'" for t d
    by (rule DecodeElement_cong_less [OF that]) (auto intro: Suc.IH)
  show ?case
    unfolding k dec_variant.simps
    by (rule bind_cong_less [OF consumes_ints(1) len], rule variant_body_cong_less, assumption)
      (auto intro: consumes_imp_le [OF consumes_DecodeElement] wire_consumes elem)
next
  case (Suc j)
  case 2
  then obtain k' where k: "k = Suc k'" by (cases k) auto
  have len: "length (remaining d) < Suc (min j k')" using 2 k by simp
  show ?case
    unfolding k dec_data_value.simps
    by (rule bind_cong_less [OF consumes_ints(1) len], rule data_value_body_cong_less, assumption)
      (auto intro: Suc.IH)
qed simp_all

section \<open>Round trip\<close>

lemma type_id_flags [simp]:
  "(type_id t OR 0x80) AND 0x40 = 0" "(type_id t OR 0x80) AND 0x80 \<noteq> 0"
  "(type_id t OR 0x80) AND 0x3f = type_id t" "type_id t AND 0x40 = 0" "type_id t AND 0x80 = 0"
  by (cases t; simp)+

lemma decode_variant_body_type:
  "decode_variant_body elem (type_id t OR 0x80) d =
     (if t = EMPTY then decode_null_array d else tagged (Arr t) (ReadArray (elem t) d))"
  "decode_variant_body elem (type_id t) d =
     (if t = EMPTY then Some (null_variant, d) else tagged Scalar (elem t d))"
  by (simp_all add: decode_variant_body_def)

lemma data_value_mask_bits:
  "data_value_mask v AND 0xc0 = 0" "data_value_mask v AND 0x10 = 0" "data_value_mask v AND 0x20 = 0"
  "data_value_mask v AND 0x01 = 0 \<longleftrightarrow> is_null (dv_value v)"
  "data_value_mask v AND 0x02 = 0 \<longleftrightarrow> IsGood (dv_status_code v)"
  "data_value_mask v AND 0x04 = 0 \<longleftrightarrow> source_timestamp v = 0"
  "data_value_mask v AND 0x08 = 0 \<longleftrightarrow> server_timestamp v = 0"
  unfolding data_value_mask_def by (simp_all add: bit.conj_disj_distrib2)

lemma enc_builtin_nonempty:
  "enc_builtin u b = Some bs \<Longrightarrow> builtin_type b \<noteq> EMPTY \<Longrightarrow> bs \<noteq> []"
  "enc_variant u v = Some bs \<Longrightarrow> bs \<noteq> []"
  "enc_data_value u w = Some bs \<Longrightarrow> bs \<noteq> []"
  by (induction u b and u v and u w arbitrary: bs and bs and bs
      rule: enc_builtin_enc_variant_enc_data_value.induct)
    (auto dest: enc_expanded_nonempty AppendExtension_nonempty
      simp: Let_def Option.bind_eq_Some_conv split: if_splits)

text \<open>The DataValue fields behind the mask, read back one by one.\<close>

lemma reads_data_value_body:
  assumes ok: "data_value_ok u (DataValue v q src srv st)"
    and r: "remaining d = (if is_null v then [] else bs)
      @ (if IsGood st then [] else enc_status (status_of_code st))
      @ (if src = 0 then [] else enc_i64 src) @ (if srv = 0 then [] else enc_i64 srv) @ r"
    and v: "\<And>d r. \<not> is_null v \<Longrightarrow> remaining d = bs @ r \<Longrightarrow> length (remaining d) < n \<Longrightarrow> reads (dv d) v r"
    and len: "length (remaining d) < n"
  shows "reads (decode_data_value_body dv (data_value_mask (DataValue v q src srv st)) d)
    (DataValue v q src srv st) r"
proof -
  have q: "q = 0" and null: "is_null v \<Longrightarrow> v = null_variant"
    and st: "IsGood st \<Longrightarrow> st = Good" "\<not> IsGood st \<Longrightarrow> unat st < 2 ^ 16"
    using ok by (auto split: if_splits)
  have 1: "reads (if \<not> is_null v then dv d else Some (null_variant, d)) v r'"
    if "remaining d = (if is_null v then [] else bs) @ r'" for r'
    using that v len null by (auto simp: reads_def)
  have 2: "reads (if \<not> IsGood st then tagged status_code (decode_status d) else Some (Good, d)) st r'"
    if "remaining d = (if IsGood st then [] else enc_status (status_of_code st)) @ r'" for d r'
    using that st reads_tagged [OF reads_status, of d "status_of_code st" r' status_code]
    by (auto simp: status_code_of_code reads_def [of "Some _"])
  have 3: "reads (if x \<noteq> 0 then decode_i64 d else Some (0, d)) x r'"
    if "remaining d = (if x = 0 then [] else enc_i64 x) @ r'" for x d r'
    using that by (auto intro: wire_rt simp: reads_def [of "Some _"])
  show ?thesis
    using r q unfolding decode_data_value_body_def
    by (simp only: data_value_mask_bits data_value.sel simp_thms if_True if_False bind.bind_lunit
        case_prod_conv)
      (rule reads_bind [OF 1], assumption, rule reads_bind [OF 2], assumption,
       rule reads_bind [OF 3], assumption, rule reads_bind [OF 3], assumption,
       simp add: reads_def)
qed

lemma reads_null_array:
  assumes "remaining d = enc_i32 (of_nat n) @ r" and "n \<le> 2 ^ 24"
  shows "reads (decode_null_array d) (Arr EMPTY (replicate n BEmpty)) r"
  unfolding decode_null_array_def
  using assms word32_size_nonneg [of n]
  by (auto intro!: reads_bind [OF reads_i32 [OF assms(1)]] simp: reads_def [of "Some _"])

lemma all_empty_replicate: "\<forall>x\<in>set xs. builtin_type x = EMPTY \<Longrightarrow> xs = replicate (length xs) BEmpty"
proof (induction xs)
  case (Cons x xs)
  then show ?case by (cases x) auto
qed simp

text \<open>
  The induction: whatever the encoder produced for an encodable value, the decoder with
  enough fuel reads it back, at every nesting depth.
\<close>

lemma reads_values:
  "enc_builtin u b = Some bs \<Longrightarrow> builtin_ok u b \<Longrightarrow> builtin_type b \<noteq> EMPTY \<Longrightarrow>
     remaining d = bs @ r \<Longrightarrow> length (remaining d) < k \<Longrightarrow>
     reads (DecodeElement u (dec_variant u k) (dec_data_value u k) (builtin_type b) d) b r"
  "enc_variant u v = Some bs \<Longrightarrow> variant_ok u v \<Longrightarrow> remaining d = bs @ r \<Longrightarrow>
     length (remaining d) < k \<Longrightarrow> reads (dec_variant u k d) v r"
  "enc_data_value u w = Some bs \<Longrightarrow> data_value_ok u w \<Longrightarrow> remaining d = bs @ r \<Longrightarrow>
     length (remaining d) < k \<Longrightarrow> reads (dec_data_value u k d) w r"
proof (induction u b and u v and u w arbitrary: bs d r k and bs d r k and bs d r k
    rule: enc_builtin_enc_variant_enc_data_value.induct)
  case (29 u t xs)
  obtain k' where k: "k = Suc k'" using "29.prems" by (cases k) auto
  obtain body where bs: "bs = enc_u8 (type_id t OR 0x80) @ body"
    and body: "if t = EMPTY then body = enc_i32 (of_nat (length xs))
      else AppendArray (enc_builtin u) xs = Some body"
    using "29.prems"(1) by (auto split: if_splits)
  have ok: "\<forall>x\<in>set xs. builtin_type x = t \<and> builtin_ok u x"
    and len: "if t = EMPTY then length xs \<le> 2 ^ 24 else wire_len xs"
    using "29.prems"(2) by auto
  have "reads (decode_variant_body (DecodeElement u (dec_variant u k') (dec_data_value u k'))
      (type_id t OR 0x80) d') (Arr t xs) r" if d': "remaining d' = body @ r" for d'
  proof (cases "t = EMPTY")
    case True
    then have "reads (decode_null_array d') (Arr EMPTY (replicate (length xs) BEmpty)) r"
      using body len d' by (intro reads_null_array) auto
    then show ?thesis
      using True ok all_empty_replicate [of xs]
      by (simp add: decode_variant_body_type del: type_id.simps)
  next
    case False
    have elem: "reads (DecodeElement u (dec_variant u k') (dec_data_value u k') t dx) x rx"
      if "x \<in> set xs" "enc_builtin u x = Some b" "remaining dx = b @ rx" "length (remaining dx) < k'"
      for x b dx rx
      using False "29.IH" [OF False that(1,2) _ _ that(3,4)] ok that(1) by auto
    have "reads (ReadArray (DecodeElement u (dec_variant u k') (dec_data_value u k') t) d') xs r"
      using False body len d' ok "29.prems"(3,4) bs k
      by (intro reads_array [where n = k' and bs = body and enc = "enc_builtin u", OF _ _ _ _ elem])
        (auto dest: enc_builtin_nonempty simp: enc_u8_def)
    with False show ?thesis by (simp add: decode_variant_body_type reads_tagged)
  qed
  then show ?case
    using "29.prems"(3) bs unfolding k dec_variant.simps
    by (intro reads_bind [OF reads_u8]) auto
next
  case (30 u b)
  obtain k' where k: "k = Suc k'" using "30.prems" by (cases k) auto
  obtain body where bs: "bs = enc_u8 (type_id (builtin_type b)) @ body"
    and body: "if builtin_type b = EMPTY then body = [] else enc_builtin u b = Some body"
    using "30.prems"(1) by (auto split: if_splits)
  have "reads (decode_variant_body (DecodeElement u (dec_variant u k') (dec_data_value u k'))
      (type_id (builtin_type b)) d') (Scalar b) r" if d': "remaining d' = body @ r" for d'
  proof (cases "builtin_type b = EMPTY")
    case True
    then have "b = BEmpty" by (cases b) auto
    then show ?thesis
      using d' body unfolding decode_variant_body_type by (simp add: reads_def)
  next
    case False
    then have "reads (DecodeElement u (dec_variant u k') (dec_data_value u k') (builtin_type b) d') b r"
      using body d' bs k "30.prems" by (intro "30.IH") (auto simp: enc_u8_def)
    with False show ?thesis unfolding decode_variant_body_type by (simp add: reads_tagged)
  qed
  then show ?case
    using "30.prems"(3) bs unfolding k dec_variant.simps
    by (intro reads_bind [OF reads_u8]) auto
next
  case (31 u v q src srv st)
  obtain k' where k: "k = Suc k'" using "31.prems" by (cases k) auto
  let ?m = "data_value_mask (DataValue v q src srv st)"
  obtain body where body: "is_null v \<Longrightarrow> body = []" "\<not> is_null v \<Longrightarrow> enc_variant u v = Some body"
    and bs: "bs = enc_u8 ?m @ (if is_null v then [] else body)
      @ (if IsGood st then [] else enc_status (status_of_code st))
      @ (if src = 0 then [] else enc_i64 src) @ (if srv = 0 then [] else enc_i64 srv)"
    using "31.prems"(1)
    by (auto simp: Let_def data_value_mask_bits Option.bind_eq_Some_conv split: if_splits)
  have v: "reads (dec_variant u k' d') v r'"
    if "\<not> is_null v" "remaining d' = body @ r'" "length (remaining d') < k'" for d' r'
    using that "31.prems"(2) body(2) by (intro "31.IH" [OF refl]) (auto simp: data_value_mask_bits)
  have "reads (decode_data_value_body (dec_variant u k') ?m d') (DataValue v q src srv st) r"
    if "remaining d' = (if is_null v then [] else body)
      @ (if IsGood st then [] else enc_status (status_of_code st))
      @ (if src = 0 then [] else enc_i64 src) @ (if srv = 0 then [] else enc_i64 srv) @ r" for d'
    using "31.prems"(3,4) bs k
    by (intro reads_data_value_body [OF "31.prems"(2) that v])
      (simp_all add: enc_u8_def that)
  then show ?case
    using "31.prems"(3) bs unfolding k dec_data_value.simps
    by (intro reads_bind [OF reads_u8]) auto
qed (auto simp: DecodeElement_def intro!: reads_tagged wire_rt)

lemma reads_variant [wire_rt]:
  "enc_variant u v = Some bs \<Longrightarrow> variant_ok u v \<Longrightarrow> remaining d = bs @ r \<Longrightarrow>
     reads (decode_variant u d) v r"
  unfolding decode_variant_def by (rule reads_values(2)) auto

lemma reads_data_value [wire_rt]:
  "enc_data_value u w = Some bs \<Longrightarrow> data_value_ok u w \<Longrightarrow> remaining d = bs @ r \<Longrightarrow>
     reads (decode_data_value u d) w r"
  unfolding decode_data_value_def by (rule reads_values(3)) auto

interpretation variant_codec: wire_codec "enc_variant u" "decode_variant u" "variant_ok u"
  for u
  by unfold_locales (auto intro: wire_rt wire_consumes dest: enc_builtin_nonempty)

interpretation data_value_codec:
  wire_codec "enc_data_value u" "decode_data_value u" "data_value_ok u"
  for u
  by unfold_locales (auto intro: wire_rt wire_consumes dest: enc_builtin_nonempty)

section \<open>What arrives is well typed\<close>

text \<open>
  The types the C++ variant enforces by construction: an array holds elements of its own type
  and never more than an Int32 counts, an array of nulls at most \<open>kMaxNullArrayElements\<close>; a
  nested value is there; a DataValue has no qualifier and a 16-bit status code.
\<close>

fun builtin_typed :: "builtin \<Rightarrow> bool"
  and variant_typed :: "variant \<Rightarrow> bool"
  and data_value_typed :: "data_value \<Rightarrow> bool"
where
  "builtin_typed (BDataValue w) \<longleftrightarrow> (case w of None \<Rightarrow> False | Some v \<Rightarrow> data_value_typed v)"
| "builtin_typed (BVariant w) \<longleftrightarrow> (case w of None \<Rightarrow> False | Some v \<Rightarrow> variant_typed v)"
| "builtin_typed _ \<longleftrightarrow> True"
| "variant_typed (Scalar b) \<longleftrightarrow> builtin_typed b"
| "variant_typed (Arr t xs) \<longleftrightarrow> list_all (\<lambda>x. builtin_type x = t \<and> builtin_typed x) xs
     \<and> length xs < 2 ^ 31 \<and> (t = EMPTY \<longrightarrow> length xs \<le> 2 ^ 24)"
| "data_value_typed (DataValue v q src srv st) \<longleftrightarrow> variant_typed v \<and> q = 0 \<and> unat st < 2 ^ 16"

lemma read_n_all: "read_n n dec d = Some (xs, d') \<Longrightarrow> (\<And>x d d'. dec d = Some (x, d') \<Longrightarrow> P x) \<Longrightarrow> list_all P xs"
  by (induction n arbitrary: d xs) (auto split: Option.bind_splits)

lemma count_unat:
  assumes "\<not> sint (n :: u32) < 0"
  shows "int (unat n) = sint n"
proof -
  have "sint n < 2 ^ 31" using sint_lt [of n] by simp
  then show ?thesis using assms uint_sint [of n] by (simp add: take_bit_int_eq_self)
qed

lemma count_bound: "\<not> sint (n :: u32) < 0 \<Longrightarrow> unat n < 2 ^ 31"
  using count_unat [of n] sint_lt [of n] by (simp add: nat_less_iff flip: nat_uint_eq)

lemma ReadArray_all:
  assumes "ReadArray dec d = Some (xs, d')" and "\<And>x d d'. dec d = Some (x, d') \<Longrightarrow> P x"
  shows "list_all P xs \<and> length xs < 2 ^ 31"
proof -
  obtain n :: u32 and d0 where n: "\<not> sint n < 0" "read_n (unat n) dec d0 = Some (xs, d')"
    using assms(1) by (auto simp: ReadArray_def split: Option.bind_splits if_splits)
  show ?thesis using read_n_all [OF n(2) assms(2)] read_n_length [OF n(2)] count_bound [OF n(1)] by simp
qed

lemma DecodeElement_typed:
  assumes "DecodeElement u dv dd t d = Some (x, d')"
    and "\<And>v d d'. dv d = Some (v, d') \<Longrightarrow> variant_typed v"
    and "\<And>w d d'. dd d = Some (w, d') \<Longrightarrow> data_value_typed w"
  shows "builtin_type x = t \<and> builtin_typed x"
  using assms by (cases t) (auto simp: DecodeElement_def tagged_def)

lemma variant_body_typed:
  assumes "decode_variant_body elem m d = Some (v, d')"
    and elem: "\<And>t d x d'. elem t d = Some (x, d') \<Longrightarrow> builtin_type x = t \<and> builtin_typed x"
  shows "variant_typed v"
proof -
  have arr: "variant_typed (Arr t xs)" if "ReadArray (elem t) d = Some (xs, d')" "t \<noteq> EMPTY" for t d xs d'
    using ReadArray_all [OF that(1), of "\<lambda>x. builtin_type x = t \<and> builtin_typed x"] elem that(2) by simp
  have nulls: "variant_typed v" if arr0: "decode_null_array d = Some (v, d')" for d v d'
  proof -
    obtain n :: u32 where n: "\<not> sint n < 0" "sint n \<le> 2 ^ 24" "v = Arr EMPTY (replicate (unat n) BEmpty)"
      using arr0 by (auto simp: decode_null_array_def split: Option.bind_splits if_splits)
    have "int (unat n) \<le> int (2 ^ 24)" by (subst count_unat [OF n(1)]) (use n(2) in simp)
    then have "unat n \<le> 2 ^ 24" by (simp only: of_nat_le_iff)
    then show ?thesis using n(3) by (simp add: list_all_iff)
  qed
  show ?thesis
    using assms(1) arr nulls elem
    by (auto simp: decode_variant_body_def tagged_def split: if_splits option.splits)
qed

lemma status_code_small: "unat (status_code s) < 2 ^ 16"
  using unsigned_less [of "full_code s", where ?'a = nat] by (simp add: status_code_def unat_drop_bit_eq drop_bit_eq_div unat_div_distrib less_mult_imp_div_less)

lemma data_value_body_typed:
  assumes "decode_data_value_body dv m d = Some (w, d')"
    and "\<And>v d d'. dv d = Some (v, d') \<Longrightarrow> variant_typed v"
  shows "data_value_typed w"
  using assms status_code_small
  by (auto simp: decode_data_value_body_def tagged_def split: if_splits Option.bind_splits)

lemma dec_typed:
  "dec_variant u k d = Some (v, d') \<Longrightarrow> variant_typed v"
  "dec_data_value u k d = Some (w, d'') \<Longrightarrow> data_value_typed w"
proof (induction k arbitrary: d v d' w d'')
  case (Suc k)
  case 1
  then obtain m d1 where
    "decode_variant_body (DecodeElement u (dec_variant u k) (dec_data_value u k)) m d1 = Some (v, d')"
    by (auto split: Option.bind_splits)
  then show ?case by (rule variant_body_typed) (erule DecodeElement_typed, erule Suc.IH, erule Suc.IH)
next
  case (Suc k)
  case 2
  then obtain m d1 where "decode_data_value_body (dec_variant u k) m d1 = Some (w, d'')"
    by (auto split: Option.bind_splits)
  then show ?case by (rule data_value_body_typed) (erule Suc.IH)
qed simp_all

lemma variant_body_array:
  assumes "decode_variant_body elem m d = Some (Arr t ys, d')" and "t \<noteq> EMPTY"
  shows "ReadArray (elem t) d = Some (ys, d')"
  using assms
  by (auto simp: decode_variant_body_def decode_null_array_def tagged_def split: if_splits option.splits Option.bind_splits)

lemma variant_array_bound:
  assumes "decode_variant u d = Some (Arr t ys, d')"
  shows "if t = EMPTY then length ys \<le> 2 ^ 24 else length ys + 5 \<le> length (remaining d)"
proof (cases "t = EMPTY")
  case True
  then show ?thesis using dec_typed(1) [OF assms [unfolded decode_variant_def]] by simp
next
  case False
  obtain elem m d1 where m: "decode_u8 d = Some (m, d1)" "decode_variant_body elem m d1 = Some (Arr t ys, d')"
    using assms by (auto simp: decode_variant_def split: Option.bind_splits)
  have "length (remaining d1) < length (remaining d)" using consumes_ints(1) m(1) by (fastforce simp: consumes_def)
  then show ?thesis using ReadArray_bound [OF variant_body_array [OF m(2) False]] False by simp
qed

section \<open>Properties\<close>

text \<open>
  C38. A Variant of any of the 26 types, scalar or array, nested to any depth, that the encoding
  can carry comes back from it unchanged, and exactly the bytes behind it are left. What cannot be
  carried is what \<open>enc_variant\<close> refuses (an ExtensionObject that is not an encoded binary one, a
  Guid in an ExpandedNodeId) and what \<open>variant_ok\<close> excludes: absent nested values, a DataValue with
  an array of nulls, a qualifier or a sub-code of Good, which come back changed, and lengths of
  \<open>2 ^ 31\<close> and more.
\<close>

theorem variant_roundtrip:
  assumes "enc_variant u v = Some bs" and "variant_ok u v"
  shows "\<exists>d'. decode_variant u (make_decoder (bs @ rest)) = Some (v, d') \<and> remaining d' = rest"
  using reads_variant [OF assms, of "make_decoder (bs @ rest)" rest] by (simp add: reads_def)

theorem variant_roundtrip_witness:
  "\<exists>bs d'. decode_variant ascii_convert (make_decoder (bs @ [1])) =
     Some (Arr VARIANT [BVariant (Some (Scalar (BInt16 7))), BVariant (Some (Arr BOOL [BBool True])),
       BVariant (Some (Scalar (BLocalizedText (LocalizedText [101, 110] [79, 75]))))], d')
     \<and> remaining d' = [1]"
proof -
  let ?v = "Arr VARIANT [BVariant (Some (Scalar (BInt16 7))), BVariant (Some (Arr BOOL [BBool True])),
       BVariant (Some (Scalar (BLocalizedText (LocalizedText [101, 110] [79, 75]))))]"
  obtain bs where "enc_variant ascii_convert ?v = Some bs" by (simp add: AppendArray_def)
  then show ?thesis
    using variant_roundtrip [of ascii_convert ?v bs "[1]"] by (auto simp: utf_ok_def ascii_convert_def)
qed

text \<open>
  A DataValue whose fields the encoding can carry comes back unchanged.
\<close>

lemma data_value_roundtrip:
  assumes "enc_data_value u w = Some bs" and "data_value_ok u w"
  shows "\<exists>d'. decode_data_value u (make_decoder (bs @ rest)) = Some (w, d') \<and> remaining d' = rest"
  using reads_data_value [OF assms, of "make_decoder (bs @ rest)" rest] by (simp add: reads_def)

text \<open>
  What the DataValue encoding loses: an array of nulls is not written at all, the
  sub-code of a good status is not written, and the qualifier is never written; two
  DataValues that differ only there have the same bytes.
\<close>

lemma data_value_encoding_loses:
  "enc_data_value u (DataValue (Arr EMPTY xs) q src srv st)
     = enc_data_value u (DataValue null_variant q src srv st)
   \<and> (IsGood st \<longrightarrow> enc_data_value u (DataValue v q src srv st) = enc_data_value u (DataValue v q src srv Good))
   \<and> enc_data_value u (DataValue v q src srv st) = enc_data_value u (DataValue v 0 src srv st)"
proof -
  have good: "IsGood Good" by (simp add: IsGood_def GetSeverity_def severity_of_def)
  have m: "data_value_mask (DataValue (Arr EMPTY xs) q src srv st)
      = data_value_mask (DataValue null_variant q src srv st)"
    "data_value_mask (DataValue v q src srv st) = data_value_mask (DataValue v 0 src srv st)"
    by (simp_all add: data_value_mask_def is_null_def)
  have "data_value_mask (DataValue v q src srv st) = data_value_mask (DataValue v q src srv Good)"
    if "IsGood st" using that good by (simp add: data_value_mask_def)
  moreover have "data_value_mask (DataValue null_variant q src srv st) AND 1 = 0"
    using data_value_mask_bits(4) [of "DataValue null_variant q src srv st"] by (simp add: is_null_def)
  ultimately show ?thesis
    using m good data_value_mask_bits(5) [of "DataValue v q src srv Good"]
    by (simp add: Let_def)
qed

text \<open>
  C39. Decoding ends: every level consumes a byte before it recurses, so any fuel beyond the
  number of bytes left gives the same result, and a decode of either kind that succeeds has taken
  at least one byte.
\<close>

theorem variant_decode_terminates:
  assumes "length (remaining d) < k"
  shows "dec_variant u k d = decode_variant u d \<and> dec_data_value u k d = decode_data_value u d
    \<and> (\<forall>v d'. decode_variant u d = Some (v, d') \<longrightarrow> length (remaining d') < length (remaining d))
    \<and> (\<forall>w d'. decode_data_value u d = Some (w, d') \<longrightarrow> length (remaining d') < length (remaining d))"
proof -
  have "length (remaining d') < length (remaining d)" if "decode_variant u d = Some (v, d')" for v d'
    using consumes_decode_variant(1) [of u d] that by (auto simp: consumes_def)
  moreover have "length (remaining d') < length (remaining d)" if "decode_data_value u d = Some (w, d')" for w d'
    using consumes_decode_variant(2) [of u d] that by (auto simp: consumes_def)
  ultimately show ?thesis
    using dec_variant_fuel [OF assms, of "Suc (length (remaining d))" u]
    by (simp add: decode_variant_def decode_data_value_def del: dec_variant.simps dec_data_value.simps)
qed

theorem variant_decode_terminates_witness:
  "dec_variant ascii_convert 4 (make_decoder [0x18, 0x18, 0]) = decode_variant ascii_convert (make_decoder [0x18, 0x18, 0])"
  using variant_decode_terminates [of "make_decoder [0x18, 0x18, 0]" 4 ascii_convert] by simp

text \<open>
  C20. Whatever bytes a peer sends, a Variant or DataValue that the decoder accepts is well
  typed at every depth: each array holds only elements of its type, within the bounds of its
  count, and every nested value is there.
\<close>

theorem decoded_values_typed:
  "(decode_variant u d = Some (v, d') \<longrightarrow> variant_typed v)
   \<and> (decode_data_value u d = Some (w, d') \<longrightarrow> data_value_typed w)"
  using dec_typed unfolding decode_variant_def decode_data_value_def by blast

theorem decoded_values_typed_witness:
  "\<exists>v d'. decode_variant ascii_convert (make_decoder [0x98, 2, 0, 0, 0, 0x85, 1, 0, 0, 0, 7, 0, 0]) = Some (v, d')
     \<and> variant_type_of v = VARIANT \<and> variant_typed v"
proof -
  let ?r = "decode_variant ascii_convert (make_decoder [0x98, 2, 0, 0, 0, 0x85, 1, 0, 0, 0, 7, 0, 0])"
  have "?r \<noteq> None" "map_option (variant_type_of \<circ> fst) ?r = Some VARIANT" by code_simp+
  then obtain v d' where "?r = Some (v, d')" "variant_type_of v = VARIANT" by auto
  then show ?thesis using decoded_values_typed [where u = ascii_convert] by blast
qed

text \<open>
  C40. The count of an array bounds the work. Every array that \<open>ReadArray\<close> reads has at most as many
  elements as there were bytes after its four-byte count, whatever reads the elements. So has an
  array in a Variant, after its encoding byte and its count, unless it is one of nulls, whose
  elements take no bytes: such an array has at most \<open>2 ^ 24\<close> elements.
\<close>

theorem array_count_bounded:
  "(ReadArray reader d = Some (xs, d') \<longrightarrow> length xs + 4 \<le> length (remaining d))
   \<and> (decode_variant u d = Some (Arr t ys, d'') \<longrightarrow>
        (if t = EMPTY then length ys \<le> 2 ^ 24 else length ys + 5 \<le> length (remaining d)))"
  using ReadArray_bound variant_array_bound by blast

definition example_array :: decoder where "example_array = make_decoder [2, 0, 0, 0, 5, 6]"

definition example_bytes :: decoder where "example_bytes = make_decoder [0x83, 2, 0, 0, 0, 5, 6]"

theorem array_count_bounded_witness:
  "(\<exists>d'. ReadArray decode_u8 example_array = Some ([5, 6], d') \<and> length [5 :: byte, 6] + 4 \<le> length (remaining example_array))
   \<and> (\<exists>ys d'. decode_variant ascii_convert example_bytes = Some (Arr UINT8 ys, d') \<and> length ys = 2
        \<and> length ys + 5 \<le> length (remaining example_bytes))"
proof -
  have "map_option fst (ReadArray decode_u8 example_array) = Some [5, 6]"
    "map_option fst (decode_variant ascii_convert example_bytes) = Some (Arr UINT8 [BUInt8 5, BUInt8 6])" by code_simp+
  then obtain d1 d2 where d: "ReadArray decode_u8 example_array = Some ([5, 6], d1)"
    "decode_variant ascii_convert example_bytes = Some (Arr UINT8 [BUInt8 5, BUInt8 6], d2)" by auto
  have "length [5 :: byte, 6] + 4 \<le> length (remaining example_array)"
    using array_count_bounded [of decode_u8 example_array] d(1) by blast
  moreover have "length [BUInt8 5, BUInt8 6] + 5 \<le> length (remaining example_bytes)"
    using array_count_bounded [THEN conjunct2, THEN mp, OF d(2)] by simp
  ultimately show ?thesis using d by (auto intro!: exI [of _ "[BUInt8 5, BUInt8 6]"])
qed

end
