(* ===== verification/Ua_Protocol.thy ===== *)
theory Ua_Protocol
  imports Ua_Codec_Ext
begin

text \<open>
  The UA TCP transport messages of \<^verbatim>\<open>opcua/transport/binary/protocol.cpp\<close>: the eight-byte
  frame header, Hello, Acknowledge and Error, and the negotiation of transport limits. The
  \<open>memcpy\<close> of the message size writes the little-endian bytes of the host.
\<close>

section \<open>Message types and the frame header\<close>

datatype message_type = Hello | Acknowledge | ErrorType | ReverseHello | SecureOpen
  | SecureMessage | SecureClose

record frame_header =
  fh_message_type :: message_type
  fh_chunk_type :: byte
  fh_message_size :: u32

abbreviation kHeaderSize :: nat where "kHeaderSize \<equiv> 8"

definition kFinalChunk :: byte where "kFinalChunk = of_char CHR ''F''"
definition kIntermediateChunk :: byte where "kIntermediateChunk = of_char CHR ''C''"
definition kAbortChunk :: byte where "kAbortChunk = of_char CHR ''A''"

fun EncodeMessageType :: "message_type \<Rightarrow> bytes" where
  "EncodeMessageType Hello = lit ''HEL''"
| "EncodeMessageType Acknowledge = lit ''ACK''"
| "EncodeMessageType ErrorType = lit ''ERR''"
| "EncodeMessageType ReverseHello = lit ''RHE''"
| "EncodeMessageType SecureOpen = lit ''OPN''"
| "EncodeMessageType SecureMessage = lit ''MSG''"
| "EncodeMessageType SecureClose = lit ''CLO''"

definition DecodeMessageType :: "bytes \<Rightarrow> message_type option" where
  "DecodeMessageType s =
     (if s = lit ''HEL'' then Some Hello
      else if s = lit ''ACK'' then Some Acknowledge
      else if s = lit ''ERR'' then Some ErrorType
      else if s = lit ''RHE'' then Some ReverseHello
      else if s = lit ''OPN'' then Some SecureOpen
      else if s = lit ''MSG'' then Some SecureMessage
      else if s = lit ''CLO'' then Some SecureClose
      else None)"

text \<open>A \<open>memcpy\<close> of four bytes into a \<open>uint32_t\<close> on a little-endian host.\<close>

definition load_u32 :: "bytes \<Rightarrow> u32" where
  "load_u32 bs = ucast (bs ! 0) OR push_bit 8 (ucast (bs ! 1)) OR push_bit 16 (ucast (bs ! 2))
     OR push_bit 24 (ucast (bs ! 3))"

definition DecodeFrameHeader :: "bytes \<Rightarrow> frame_header option" where
  "DecodeFrameHeader bytes =
     (if length bytes < kHeaderSize then None
      else do {
        t \<leftarrow> DecodeMessageType (take 3 bytes);
        let size = load_u32 (drop 4 bytes);
        if size < 8 then None
        else Some \<lparr>fh_message_type = t, fh_chunk_type = bytes ! 3, fh_message_size = size\<rparr> })"

definition EncodeFrameHeader :: "frame_header \<Rightarrow> bytes" where
  "EncodeFrameHeader h =
     EncodeMessageType (fh_message_type h) @ [fh_chunk_type h] @ enc_u32 (fh_message_size h)"

text \<open>
  \<open>EncodeWithHeader\<close> reserves the header, appends the body and fills the header in.
\<close>

definition EncodeWithHeader :: "message_type \<Rightarrow> bytes \<Rightarrow> bytes" where
  "EncodeWithHeader t body =
     EncodeFrameHeader \<lparr>fh_message_type = t, fh_chunk_type = kFinalChunk,
       fh_message_size = of_nat (kHeaderSize + length body)\<rparr> @ body"

lemma length_EncodeMessageType [simp]: "length (EncodeMessageType t) = 3"
  by (cases t) (simp_all add: lit_def)

lemma DecodeMessageType_Encode [simp]: "DecodeMessageType (EncodeMessageType t) = Some t"
  by (cases t) (simp_all add: DecodeMessageType_def lit_def)

lemma DecodeMessageType_Some: "DecodeMessageType s = Some t \<Longrightarrow> s = EncodeMessageType t"
  by (auto simp: DecodeMessageType_def split: if_splits)

lemma length_EncodeFrameHeader [simp]: "length (EncodeFrameHeader h) = kHeaderSize"
  by (simp add: EncodeFrameHeader_def)

lemma load_enc_u32 [simp]: "load_u32 (enc_u32 v @ r) = v"
  using le_bytes_32 [of v] by (simp add: load_u32_def enc_u32_def)

lemma DecodeFrameHeader_Encode:
  assumes "8 \<le> fh_message_size h"
  shows "DecodeFrameHeader (EncodeFrameHeader h @ rest) = Some h"
proof -
  have h: "EncodeFrameHeader h @ rest
      = EncodeMessageType (fh_message_type h) @ fh_chunk_type h # (enc_u32 (fh_message_size h) @ rest)"
    by (simp add: EncodeFrameHeader_def)
  show ?thesis
    using assms
    by (simp add: DecodeFrameHeader_def h nth_append not_less [symmetric] Let_def)
qed

lemma DecodeFrameHeader_Some:
  assumes "DecodeFrameHeader bytes = Some h"
  shows "8 \<le> length bytes" and "8 \<le> fh_message_size h"
    and "DecodeFrameHeader (take 8 bytes @ rest) = Some h"
  using assms
  by (auto simp: DecodeFrameHeader_def Let_def load_u32_def nth_append Option.bind_eq_Some_conv
      split: if_splits)

text \<open>A whole message shorter than 4 GiB carries its own length.\<close>

lemma DecodeFrameHeader_EncodeWithHeader:
  assumes "kHeaderSize + length body < 2 ^ 32"
  shows "DecodeFrameHeader (EncodeWithHeader t body)
    = Some \<lparr>fh_message_type = t, fh_chunk_type = kFinalChunk,
        fh_message_size = of_nat (kHeaderSize + length body)\<rparr>"
proof -
  have "unat (of_nat (kHeaderSize + length body) :: u32) = kHeaderSize + length body"
    using assms by (intro unat_of_nat_small) simp
  then have "8 \<le> (of_nat (kHeaderSize + length body) :: u32)"
    by (simp add: word_le_nat_alt del: of_nat_add)
  then show ?thesis
    unfolding EncodeWithHeader_def by (subst DecodeFrameHeader_Encode) simp_all
qed

lemma EncodeWithHeader_size:
  assumes "kHeaderSize + length body < 2 ^ 32"
  shows "unat (of_nat (kHeaderSize + length body) :: u32) = length (EncodeWithHeader t body)"
    and "drop kHeaderSize (EncodeWithHeader t body) = body"
  using unat_of_nat_small [where 'a = 32 and n = "kHeaderSize + length body"] assms
  by (simp_all add: EncodeWithHeader_def del: of_nat_add)

section \<open>Hello, Acknowledge, Error\<close>

record hello_message =
  hel_protocol_version :: u32
  hel_receive_buffer_size :: u32
  hel_send_buffer_size :: u32
  hel_max_message_size :: u32
  hel_max_chunk_count :: u32
  hel_endpoint_url :: bytes

record acknowledge_message =
  ack_protocol_version :: u32
  ack_receive_buffer_size :: u32
  ack_send_buffer_size :: u32
  ack_max_message_size :: u32
  ack_max_chunk_count :: u32

record error_message =
  err_error :: status
  err_reason :: bytes

record transport_limits =
  lim_protocol_version :: u32
  lim_receive_buffer_size :: u32
  lim_send_buffer_size :: u32
  lim_max_message_size :: u32
  lim_max_chunk_count :: u32

definition EncodeHelloMessage :: "hello_message \<Rightarrow> bytes" where
  "EncodeHelloMessage m = EncodeWithHeader Hello
     (enc_u32 (hel_protocol_version m) @ enc_u32 (hel_receive_buffer_size m)
      @ enc_u32 (hel_send_buffer_size m) @ enc_u32 (hel_max_message_size m)
      @ enc_u32 (hel_max_chunk_count m) @ enc_string (hel_endpoint_url m))"

text \<open>The guard each of the three decoders starts with.\<close>

definition message_frame :: "message_type \<Rightarrow> bytes \<Rightarrow> decoder option" where
  "message_frame t bytes = do {
     h \<leftarrow> DecodeFrameHeader bytes;
     if fh_message_type h \<noteq> t \<or> unat (fh_message_size h) \<noteq> length bytes then None
     else Some (make_decoder (drop kHeaderSize bytes)) }"

definition DecodeHelloMessage :: "bytes \<Rightarrow> hello_message option" where
  "DecodeHelloMessage bytes = do {
     d \<leftarrow> message_frame Hello bytes;
     (v, d) \<leftarrow> decode_u32 d;
     (rb, d) \<leftarrow> decode_u32 d;
     (sb, d) \<leftarrow> decode_u32 d;
     (ms, d) \<leftarrow> decode_u32 d;
     (cc, d) \<leftarrow> decode_u32 d;
     (url, d) \<leftarrow> decode_string d;
     if \<not> consumed d then None
     else Some \<lparr>hel_protocol_version = v, hel_receive_buffer_size = rb, hel_send_buffer_size = sb,
       hel_max_message_size = ms, hel_max_chunk_count = cc, hel_endpoint_url = url\<rparr> }"

definition EncodeAcknowledgeMessage :: "acknowledge_message \<Rightarrow> bytes" where
  "EncodeAcknowledgeMessage m = EncodeWithHeader Acknowledge
     (enc_u32 (ack_protocol_version m) @ enc_u32 (ack_receive_buffer_size m)
      @ enc_u32 (ack_send_buffer_size m) @ enc_u32 (ack_max_message_size m)
      @ enc_u32 (ack_max_chunk_count m))"

definition DecodeAcknowledgeMessage :: "bytes \<Rightarrow> acknowledge_message option" where
  "DecodeAcknowledgeMessage bytes = do {
     d \<leftarrow> message_frame Acknowledge bytes;
     (v, d) \<leftarrow> decode_u32 d;
     (rb, d) \<leftarrow> decode_u32 d;
     (sb, d) \<leftarrow> decode_u32 d;
     (ms, d) \<leftarrow> decode_u32 d;
     (cc, d) \<leftarrow> decode_u32 d;
     if \<not> consumed d then None
     else Some \<lparr>ack_protocol_version = v, ack_receive_buffer_size = rb, ack_send_buffer_size = sb,
       ack_max_message_size = ms, ack_max_chunk_count = cc\<rparr> }"

definition EncodeErrorMessage :: "error_message \<Rightarrow> bytes" where
  "EncodeErrorMessage m = EncodeWithHeader ErrorType
     (enc_u32 (full_code (err_error m)) @ enc_string (err_reason m))"

definition DecodeErrorMessage :: "bytes \<Rightarrow> error_message option" where
  "DecodeErrorMessage bytes = do {
     d \<leftarrow> message_frame ErrorType bytes;
     (c, d) \<leftarrow> decode_u32 d;
     (reason, d) \<leftarrow> decode_string d;
     if \<not> consumed d then None
     else Some \<lparr>err_error = FromFullCode c, err_reason = reason\<rparr> }"

text \<open>Reading the last field to the end of the span leaves the decoder consumed.\<close>

lemma decode_u32_inside: "decode_u32 d = Some (v, d') \<Longrightarrow> d_offset d' \<le> length (d_bytes d')"
  by (auto simp: decode_u32_def advance_def split: if_splits)

lemma decode_string_inside: "decode_string d = Some (v, d') \<Longrightarrow> d_offset d' \<le> length (d_bytes d')"
  by (auto simp: decode_string_def advance_def Option.bind_eq_Some_conv dest: decode_i32_inside
      split: if_splits)

lemma consumed_iff: "d_offset d \<le> length (d_bytes d) \<Longrightarrow> consumed d \<longleftrightarrow> remaining d = []"
  by (auto simp: consumed_def remaining_def)

lemma reads_last_u32:
  assumes "remaining d = enc_u32 v"
  shows "\<exists>d'. decode_u32 d = Some (v, d') \<and> consumed d'"
  using reads_u32 [of d v "[]"] assms decode_u32_inside consumed_iff
  by (auto simp: reads_def)

lemma reads_last_string:
  assumes "remaining d = enc_string v" and "wire_len v"
  shows "\<exists>d'. decode_string d = Some (v, d') \<and> consumed d'"
  using reads_string [of d v "[]"] assms decode_string_inside consumed_iff
  by (auto simp: reads_def)

lemma reads_then_u32:
  assumes "remaining d = enc_u32 v @ r"
  obtains d' where "decode_u32 d = Some (v, d')" and "remaining d' = r"
  using reads_u32 [OF assms] by (auto simp: reads_def)

lemma message_frame_EncodeWithHeader:
  "kHeaderSize + length body < 2 ^ 32 \<Longrightarrow>
     message_frame t (EncodeWithHeader t body) = Some (make_decoder body)"
  using EncodeWithHeader_size [of body t]
  by (simp add: message_frame_def DecodeFrameHeader_EncodeWithHeader del: of_nat_add)

lemma DecodeError_Encode:
  assumes "wire_len (err_reason m)"
  shows "DecodeErrorMessage (EncodeErrorMessage m) = Some m"
proof -
  let ?body = "enc_u32 (full_code (err_error m)) @ enc_string (err_reason m)"
  have len: "kHeaderSize + length ?body < 2 ^ 32" using assms by (simp add: enc_string_def)
  obtain d where d: "decode_u32 (make_decoder ?body) = Some (full_code (err_error m), d)"
    "remaining d = enc_string (err_reason m)"
    by (rule reads_then_u32 [of "make_decoder ?body"]) auto
  obtain d' where "decode_string d = Some (err_reason m, d')" "consumed d'"
    using reads_last_string [OF d(2) assms] by auto
  with d(1) show ?thesis
    unfolding DecodeErrorMessage_def EncodeErrorMessage_def
    by (simp add: message_frame_EncodeWithHeader [OF len])
qed

lemma four_u32:
  assumes "remaining d = enc_u32 a @ enc_u32 b @ enc_u32 c @ enc_u32 e @ r"
  obtains d1 d2 d3 d4 where "decode_u32 d = Some (a, d1)" "decode_u32 d1 = Some (b, d2)"
    "decode_u32 d2 = Some (c, d3)" "decode_u32 d3 = Some (e, d4)" "remaining d4 = r"
  using assms by (metis reads_then_u32)

lemma DecodeAcknowledge_Encode: "DecodeAcknowledgeMessage (EncodeAcknowledgeMessage m) = Some m"
proof -
  let ?body = "enc_u32 (ack_protocol_version m) @ enc_u32 (ack_receive_buffer_size m)
      @ enc_u32 (ack_send_buffer_size m) @ enc_u32 (ack_max_message_size m)
      @ enc_u32 (ack_max_chunk_count m)"
  obtain d1 d2 d3 d4 where d: "decode_u32 (make_decoder ?body) = Some (ack_protocol_version m, d1)"
    "decode_u32 d1 = Some (ack_receive_buffer_size m, d2)"
    "decode_u32 d2 = Some (ack_send_buffer_size m, d3)"
    "decode_u32 d3 = Some (ack_max_message_size m, d4)" "remaining d4 = enc_u32 (ack_max_chunk_count m)"
    by (rule four_u32 [of "make_decoder ?body"]) auto
  obtain d5 where "decode_u32 d4 = Some (ack_max_chunk_count m, d5)" "consumed d5"
    using reads_last_u32 [OF d(5)] by auto
  with d show ?thesis
    unfolding DecodeAcknowledgeMessage_def EncodeAcknowledgeMessage_def
    by (simp add: message_frame_EncodeWithHeader)
qed

lemma DecodeHello_Encode:
  assumes "wire_len (hel_endpoint_url m)"
  shows "DecodeHelloMessage (EncodeHelloMessage m) = Some m"
proof -
  let ?body = "enc_u32 (hel_protocol_version m) @ enc_u32 (hel_receive_buffer_size m)
      @ enc_u32 (hel_send_buffer_size m) @ enc_u32 (hel_max_message_size m)
      @ enc_u32 (hel_max_chunk_count m) @ enc_string (hel_endpoint_url m)"
  have len: "kHeaderSize + length ?body < 2 ^ 32" using assms by (simp add: enc_string_def)
  obtain d1 d2 d3 d4 where d: "decode_u32 (make_decoder ?body) = Some (hel_protocol_version m, d1)"
    "decode_u32 d1 = Some (hel_receive_buffer_size m, d2)"
    "decode_u32 d2 = Some (hel_send_buffer_size m, d3)"
    "decode_u32 d3 = Some (hel_max_message_size m, d4)"
    "remaining d4 = enc_u32 (hel_max_chunk_count m) @ enc_string (hel_endpoint_url m)"
    by (rule four_u32 [of "make_decoder ?body"]) auto
  obtain d5 where d5: "decode_u32 d4 = Some (hel_max_chunk_count m, d5)"
    "remaining d5 = enc_string (hel_endpoint_url m)" using reads_then_u32 [OF d(5)] by auto
  obtain d6 where "decode_string d5 = Some (hel_endpoint_url m, d6)" "consumed d6"
    using reads_last_string [OF d5(2) assms] by auto
  with d d5 show ?thesis
    unfolding DecodeHelloMessage_def EncodeHelloMessage_def
    by (simp add: message_frame_EncodeWithHeader [OF len])
qed

text \<open>What a transport message codec promises, whichever of the three messages it is.\<close>

locale transport_message =
  fixes enc :: "'m \<Rightarrow> bytes" and dec :: "bytes \<Rightarrow> 'm option" and t :: message_type
    and ok :: "'m \<Rightarrow> bool"
  assumes dec_enc: "ok m \<Longrightarrow> dec (enc m) = Some m"
    and dec_frame: "dec bs = Some m \<Longrightarrow>
      \<exists>h. DecodeFrameHeader bs = Some h \<and> fh_message_type h = t \<and> unat (fh_message_size h) = length bs"
begin

lemma enc_frame:
  assumes "ok m"
  obtains h where "DecodeFrameHeader (enc m) = Some h" and "fh_message_type h = t"
    and "unat (fh_message_size h) = length (enc m)"
  using dec_frame [OF dec_enc [OF assms]] by blast

lemma enc_inj: "ok m \<Longrightarrow> ok m' \<Longrightarrow> enc m = enc m' \<Longrightarrow> m = m'"
  using dec_enc by (metis option.inject)

end

lemma message_frame_Some:
  "message_frame t bs = Some d \<Longrightarrow>
     \<exists>h. DecodeFrameHeader bs = Some h \<and> fh_message_type h = t \<and> unat (fh_message_size h) = length bs"
  by (auto simp: message_frame_def Option.bind_eq_Some_conv split: if_splits)

lemma message_frame_bind:
  "Option.bind (message_frame t bs) f = Some m \<Longrightarrow>
     \<exists>h. DecodeFrameHeader bs = Some h \<and> fh_message_type h = t \<and> unat (fh_message_size h) = length bs"
  by (auto simp: Option.bind_eq_Some_conv dest: message_frame_Some)

interpretation hello_codec: transport_message EncodeHelloMessage DecodeHelloMessage Hello
    "\<lambda>m. wire_len (hel_endpoint_url m)"
  by (unfold_locales, simp add: DecodeHello_Encode)
    (unfold DecodeHelloMessage_def, erule message_frame_bind)

interpretation acknowledge_codec:
  transport_message EncodeAcknowledgeMessage DecodeAcknowledgeMessage Acknowledge "\<lambda>_. True"
  by (unfold_locales, simp add: DecodeAcknowledge_Encode)
    (unfold DecodeAcknowledgeMessage_def, erule message_frame_bind)

interpretation error_codec: transport_message EncodeErrorMessage DecodeErrorMessage ErrorType
    "\<lambda>m. wire_len (err_reason m)"
  by (unfold_locales, simp add: DecodeError_Encode)
    (unfold DecodeErrorMessage_def, erule message_frame_bind)

section \<open>Negotiation\<close>

text \<open>\<open>NegotiationResult\<close> always has exactly one of its two optional fields set.\<close>

definition NegotiateHello :: "hello_message \<Rightarrow> transport_limits \<Rightarrow> error_message + acknowledge_message"
where
  "NegotiateHello hello limits =
     (if hel_receive_buffer_size hello = 0 \<or> hel_send_buffer_size hello = 0
      then Inl \<lparr>err_error = status_of_code Bad,
        err_reason = lit ''Client transport buffers must be non-zero''\<rparr>
      else Inr \<lparr>
        ack_protocol_version = min (hel_protocol_version hello) (lim_protocol_version limits),
        ack_receive_buffer_size = min (lim_receive_buffer_size limits) (hel_send_buffer_size hello),
        ack_send_buffer_size = min (lim_send_buffer_size limits) (hel_receive_buffer_size hello),
        ack_max_message_size = lim_max_message_size limits,
        ack_max_chunk_count = lim_max_chunk_count limits\<rparr>)"

section \<open>Properties\<close>

text \<open>
  Negotiation refuses exactly a client with an empty buffer; otherwise neither side will
  be sent more than it said it can receive, nor speak a newer protocol than it knows.
\<close>

lemma negotiation_bounds:
  "((\<exists>e. NegotiateHello hello limits = Inl e) \<longleftrightarrow>
     hel_receive_buffer_size hello = 0 \<or> hel_send_buffer_size hello = 0)
   \<and> (\<forall>ack. NegotiateHello hello limits = Inr ack \<longrightarrow>
     ack_receive_buffer_size ack \<le> lim_receive_buffer_size limits
     \<and> ack_receive_buffer_size ack \<le> hel_send_buffer_size hello
     \<and> ack_send_buffer_size ack \<le> lim_send_buffer_size limits
     \<and> ack_send_buffer_size ack \<le> hel_receive_buffer_size hello
     \<and> ack_protocol_version ack \<le> hel_protocol_version hello
     \<and> ack_protocol_version ack \<le> lim_protocol_version limits
     \<and> ack_max_message_size ack = lim_max_message_size limits)"
  by (auto simp: NegotiateHello_def split: if_splits)

end
