(* ===== verification/Ua_Secure_Messages.thy ===== *)
theory Ua_Secure_Messages
  imports Ua_Protocol
begin

text \<open>
  The messages of the UA Secure Conversation layer, first half of
  \<^verbatim>\<open>opcua/transport/binary/secure_channel.cpp\<close>: the chunk frame with its asymmetric or
  symmetric security header, and the OpenSecureChannel and CloseSecureChannel bodies in
  both directions. The enumerations of the bodies are cast from the wire without a check
  and so are 32-bit words.
\<close>

section \<open>Data\<close>

abbreviation kOpenSecureChannelRequestEncodingId :: u32
  where "kOpenSecureChannelRequestEncodingId \<equiv> 446"
abbreviation kOpenSecureChannelResponseEncodingId :: u32
  where "kOpenSecureChannelResponseEncodingId \<equiv> 449"
abbreviation kCloseSecureChannelRequestEncodingId :: u32
  where "kCloseSecureChannelRequestEncodingId \<equiv> 452"

definition kSecurityPolicyNone :: bytes where
  "kSecurityPolicyNone = lit ''http://opcfoundation.org/UA/SecurityPolicy#None''"

definition kSecurityPolicyBasic256Sha256 :: bytes where
  "kSecurityPolicyBasic256Sha256 = lit ''http://opcfoundation.org/UA/SecurityPolicy#Basic256Sha256''"

abbreviation RequestIssue :: u32 where "RequestIssue \<equiv> 0"
abbreviation RequestRenew :: u32 where "RequestRenew \<equiv> 1"
abbreviation ModeNone :: u32 where "ModeNone \<equiv> 1"
abbreviation ModeSignAndEncrypt :: u32 where "ModeSignAndEncrypt \<equiv> 3"

record request_header =
  rqh_request_handle :: u32
  rqh_return_diagnostics :: u32
  rqh_audit_entry_id :: bytes
  rqh_timeout_hint :: u32

record response_header =
  rsh_request_handle :: u32
  rsh_service_result :: status

record channel_security_token =
  cst_channel_id :: u32
  cst_token_id :: u32
  cst_created_at :: u64
  cst_revised_lifetime :: u32

record asymmetric_security_header =
  security_policy_uri :: bytes
  sender_certificate :: bytes
  receiver_certificate_thumbprint :: bytes

record sequence_header =
  sequence_number :: u32
  request_id :: u32

record secure_conversation_message =
  scm_frame_header :: frame_header
  secure_channel_id :: u32
  scm_asymmetric :: "asymmetric_security_header option"
  scm_symmetric :: "u32 option"
  scm_sequence_header :: sequence_header
  scm_body :: bytes

record open_secure_channel_request =
  osq_request_header :: request_header
  client_protocol_version :: u32
  request_type :: u32
  security_mode :: u32
  client_nonce :: bytes
  requested_lifetime :: u32

record open_secure_channel_response =
  osr_response_header :: response_header
  server_protocol_version :: u32
  security_token :: channel_security_token
  osr_server_nonce :: bytes

section \<open>The chunk frame\<close>

definition decode_asymmetric :: "decoder \<Rightarrow> (asymmetric_security_header \<times> decoder) option" where
  "decode_asymmetric d = do {
     (uri, d) \<leftarrow> decode_string d;
     (cert, d) \<leftarrow> decode_byte_string d;
     (thumb, d) \<leftarrow> decode_byte_string d;
     Some (\<lparr>security_policy_uri = uri, sender_certificate = cert,
       receiver_certificate_thumbprint = thumb\<rparr>, d) }"

definition decode_security_header :: "message_type \<Rightarrow> decoder
    \<Rightarrow> ((asymmetric_security_header option \<times> u32 option) \<times> decoder) option" where
  "decode_security_header t d =
     (if t = SecureOpen then do { (a, d) \<leftarrow> decode_asymmetric d; Some ((Some a, None), d) }
      else do { (tok, d) \<leftarrow> decode_u32 d; Some ((None, Some tok), d) })"

definition DecodeSecureConversationMessage :: "bytes \<Rightarrow> secure_conversation_message option" where
  "DecodeSecureConversationMessage frame = do {
     h \<leftarrow> DecodeFrameHeader frame;
     if unat (fh_message_size h) \<noteq> length frame then None
     else do {
       (cid, d) \<leftarrow> decode_u32 (make_decoder (drop 8 frame));
       ((asym, sym), d) \<leftarrow> decode_security_header (fh_message_type h) d;
       (sn, d) \<leftarrow> decode_u32 d;
       (rid, d) \<leftarrow> decode_u32 d;
       Some \<lparr>scm_frame_header = h, secure_channel_id = cid, scm_asymmetric = asym,
         scm_symmetric = sym,
         scm_sequence_header = \<lparr>sequence_number = sn, request_id = rid\<rparr>,
         scm_body = drop (8 + d_offset d) frame\<rparr> } }"

definition enc_asymmetric :: "asymmetric_security_header \<Rightarrow> bytes" where
  "enc_asymmetric a = enc_string (security_policy_uri a) @ enc_byte_string (sender_certificate a)
     @ enc_byte_string (receiver_certificate_thumbprint a)"

text \<open>
  \<open>None\<close>: the optional the message type calls for is empty, which the code dereferences.
\<close>

definition enc_security_header :: "secure_conversation_message \<Rightarrow> bytes option" where
  "enc_security_header m =
     (if fh_message_type (scm_frame_header m) = SecureOpen
      then map_option enc_asymmetric (scm_asymmetric m)
      else map_option enc_u32 (scm_symmetric m))"

text \<open>The \<open>memcpy\<close> of a size over bytes 4 to 7 of a frame.\<close>

definition stamp_size :: "nat \<Rightarrow> bytes \<Rightarrow> bytes" where
  "stamp_size n frame = take 4 frame @ enc_u32 (of_nat n) @ drop 8 frame"

definition FixUpFrameSize :: "bytes \<Rightarrow> bytes" where
  "FixUpFrameSize frame = stamp_size (length frame) frame"

definition EncodeSecureConversationMessage :: "secure_conversation_message \<Rightarrow> bytes option" where
  "EncodeSecureConversationMessage m = do {
     sec \<leftarrow> enc_security_header m;
     let frame = EncodeFrameHeader ((scm_frame_header m)\<lparr>fh_message_size := 0\<rparr>)
         @ enc_u32 (secure_channel_id m) @ sec
         @ enc_u32 (sequence_number (scm_sequence_header m))
         @ enc_u32 (request_id (scm_sequence_header m)) @ scm_body m;
     Some (stamp_size (length frame) frame) }"

section \<open>Request and response headers\<close>

definition ReadRequestHeader :: "decoder \<Rightarrow> (request_header \<times> decoder) option" where
  "ReadRequestHeader d = do {
     (_, d) \<leftarrow> decode_node_id d;
     (_, d) \<leftarrow> decode_i64 d;
     (handle, d) \<leftarrow> decode_u32 d;
     (diag, d) \<leftarrow> decode_u32 d;
     (audit, d) \<leftarrow> decode_string d;
     (hint, d) \<leftarrow> decode_u32 d;
     (_, d) \<leftarrow> decode_decoded_extension_object d;
     Some (\<lparr>rqh_request_handle = handle, rqh_return_diagnostics = diag,
       rqh_audit_entry_id = audit, rqh_timeout_hint = hint\<rparr>, d) }"

definition AppendRequestHeader :: "request_header \<Rightarrow> bytes" where
  "AppendRequestHeader h =
     enc_node_id (numeric_node_id 0) @ enc_i64 0 @ enc_u32 (rqh_request_handle h)
     @ enc_u32 (rqh_return_diagnostics h) @ enc_string (rqh_audit_entry_id h)
     @ enc_u32 (rqh_timeout_hint h) @ enc_node_id (numeric_node_id 0) @ enc_u8 0x00"

definition AppendResponseHeader :: "response_header \<Rightarrow> bytes" where
  "AppendResponseHeader h =
     enc_i64 0 @ enc_u32 (rsh_request_handle h)
     @ enc_u32 (if status_good (rsh_service_result h) then 0 else 0x80000000)
     @ enc_u8 0 @ enc_i32 0 @ enc_node_id (numeric_node_id 0) @ enc_u8 0x00"

definition ReadResponseHeader :: "decoder \<Rightarrow> (response_header \<times> decoder) option" where
  "ReadResponseHeader d = do {
     (_, d) \<leftarrow> decode_i64 d;
     (handle, d) \<leftarrow> decode_u32 d;
     (status_word, d) \<leftarrow> decode_u32 d;
     (_, d) \<leftarrow> decode_u8 d;
     (_, d) \<leftarrow> decode_i32 d;
     (_, d) \<leftarrow> decode_decoded_extension_object d;
     Some (\<lparr>rsh_request_handle = handle, rsh_service_result = FromFullCode status_word\<rparr>, d) }"

section \<open>Bodies\<close>

text \<open>The envelope check each body decoder starts with.\<close>

definition read_body :: "u32 \<Rightarrow> bytes \<Rightarrow> decoder option" where
  "read_body t body = do {
     ((t', payload), _) \<leftarrow> ReadMessage (make_decoder body);
     if t' \<noteq> t then None else Some (make_decoder payload) }"

definition DecodeOpenSecureChannelRequestBody :: "bytes \<Rightarrow> open_secure_channel_request option" where
  "DecodeOpenSecureChannelRequestBody body = do {
     d \<leftarrow> read_body kOpenSecureChannelRequestEncodingId body;
     (h, d) \<leftarrow> ReadRequestHeader d;
     (v, d) \<leftarrow> decode_u32 d;
     (rt, d) \<leftarrow> decode_u32 d;
     (sm, d) \<leftarrow> decode_u32 d;
     (nonce, d) \<leftarrow> decode_byte_string d;
     (life, d) \<leftarrow> decode_u32 d;
     if \<not> consumed d then None
     else Some \<lparr>osq_request_header = h, client_protocol_version = v, request_type = rt,
       security_mode = sm, client_nonce = nonce, requested_lifetime = life\<rparr> }"

definition EncodeOpenSecureChannelRequestBody :: "open_secure_channel_request \<Rightarrow> bytes" where
  "EncodeOpenSecureChannelRequestBody r = AppendMessage kOpenSecureChannelRequestEncodingId
     (AppendRequestHeader (osq_request_header r) @ enc_u32 (client_protocol_version r)
      @ enc_u32 (request_type r) @ enc_u32 (security_mode r) @ enc_byte_string (client_nonce r)
      @ enc_u32 (requested_lifetime r))"

definition EncodeOpenSecureChannelResponseBody :: "open_secure_channel_response \<Rightarrow> bytes" where
  "EncodeOpenSecureChannelResponseBody r = AppendMessage kOpenSecureChannelResponseEncodingId
     (AppendResponseHeader (osr_response_header r) @ enc_u32 (server_protocol_version r)
      @ enc_u32 (cst_channel_id (security_token r)) @ enc_u32 (cst_token_id (security_token r))
      @ enc_i64 (cst_created_at (security_token r))
      @ enc_u32 (cst_revised_lifetime (security_token r)) @ enc_byte_string (osr_server_nonce r))"

definition DecodeOpenSecureChannelResponseBody :: "bytes \<Rightarrow> open_secure_channel_response option" where
  "DecodeOpenSecureChannelResponseBody body = do {
     d \<leftarrow> read_body kOpenSecureChannelResponseEncodingId body;
     (h, d) \<leftarrow> ReadResponseHeader d;
     (v, d) \<leftarrow> decode_u32 d;
     (cid, d) \<leftarrow> decode_u32 d;
     (tid, d) \<leftarrow> decode_u32 d;
     (created, d) \<leftarrow> decode_i64 d;
     (life, d) \<leftarrow> decode_u32 d;
     (nonce, d) \<leftarrow> decode_byte_string d;
     if \<not> consumed d then None
     else Some \<lparr>osr_response_header = h, server_protocol_version = v,
       security_token = \<lparr>cst_channel_id = cid, cst_token_id = tid, cst_created_at = created,
         cst_revised_lifetime = life\<rparr>, osr_server_nonce = nonce\<rparr> }"

definition DecodeCloseSecureChannelRequestBody :: "bytes \<Rightarrow> request_header option" where
  "DecodeCloseSecureChannelRequestBody body = do {
     d \<leftarrow> read_body kCloseSecureChannelRequestEncodingId body;
     (h, d) \<leftarrow> ReadRequestHeader d;
     if \<not> consumed d then None else Some h }"

definition EncodeCloseSecureChannelRequestBody :: "request_header \<Rightarrow> bytes" where
  "EncodeCloseSecureChannelRequestBody h =
     AppendMessage kCloseSecureChannelRequestEncodingId (AppendRequestHeader h)"

section \<open>Round trips of the bodies\<close>

text \<open>
  Chaining a body decoder: a call in the middle leaves the rest, the last one leaves the
  decoder consumed.
\<close>

lemma ends_bind:
  assumes "reads m x r" and "\<And>d'. remaining d' = r \<Longrightarrow> g x d' = Some y"
  shows "Option.bind m (case_prod g) = Some y"
  using assms by (auto simp: reads_def)

lemma ends_last:
  assumes "\<exists>d'. m = Some (x, d') \<and> consumed d'" and "\<And>d'. consumed d' \<Longrightarrow> g x d' = Some y"
  shows "Option.bind m (case_prod g) = Some y"
  using assms by auto

lemma reads_last_byte_string:
  "remaining d = enc_byte_string v \<Longrightarrow> wire_len v \<Longrightarrow>
     \<exists>d'. decode_byte_string d = Some (v, d') \<and> consumed d'"
  by (simp add: decode_byte_string_eq enc_byte_string_eq reads_last_string)

lemma reads_request_header [wire_rt]:
  assumes "remaining d = AppendRequestHeader h @ r" and "wire_len (rqh_audit_entry_id h)"
  shows "reads (ReadRequestHeader d) h r"
  using assms unfolding ReadRequestHeader_def AppendRequestHeader_def append_assoc
  by (auto intro!: reads_bind wire_rt reads_null_extension reads_Some simp: reads_def [of "Some _"])

lemma reads_response_header [wire_rt]:
  assumes "remaining d = AppendResponseHeader h @ r"
    and "rsh_service_result h \<in> {status_of_code Good, status_of_code Bad}"
  shows "reads (ReadResponseHeader d) h r"
proof -
  have "FromFullCode (if status_good (rsh_service_result h) then 0 else 0x80000000)
      = rsh_service_result h"
    using assms(2) by (auto simp: FromFullCode_def status_good_def severity_def severity_of_def
        status_of_code_def push_bit_eq_mult drop_bit_eq_div)
  then have h: "\<lparr>rsh_request_handle = rsh_request_handle h, rsh_service_result =
      FromFullCode (if status_good (rsh_service_result h) then 0 else 0x80000000)\<rparr> = h"
    by simp
  show ?thesis
    using assms(1) unfolding ReadResponseHeader_def AppendResponseHeader_def append_assoc
    by (rule reads_bind [OF reads_i64_signed])
      (rule reads_bind [OF reads_u32], assumption, rule reads_bind [OF reads_u32], assumption,
       rule reads_bind [OF reads_u8], assumption, rule reads_bind [OF reads_i32], assumption,
       rule reads_bind [OF reads_null_extension], assumption, simp only: h reads_Some)
qed

lemma read_body_AppendMessage [simp]: "read_body t (AppendMessage t p) = Some (make_decoder p)"
  using ReadMessage_AppendMessage [of t p] by (auto simp: read_body_def)

lemma DecodeOpenRequest_Encode:
  assumes "wire_len (rqh_audit_entry_id (osq_request_header r))" and "wire_len (client_nonce r)"
  shows "DecodeOpenSecureChannelRequestBody (EncodeOpenSecureChannelRequestBody r) = Some r"
  unfolding DecodeOpenSecureChannelRequestBody_def EncodeOpenSecureChannelRequestBody_def
    read_body_AppendMessage bind.bind_lunit
  by (rule ends_bind [OF reads_request_header], simp add: append_assoc, rule assms(1),
      rule ends_bind [OF reads_u32], assumption, rule ends_bind [OF reads_u32], assumption,
      rule ends_bind [OF reads_u32], assumption, rule ends_bind [OF reads_byte_string], assumption,
      rule assms(2), rule ends_last [OF reads_last_u32], assumption)
    simp

lemma DecodeOpenResponse_Encode:
  assumes "rsh_service_result (osr_response_header r) \<in> {status_of_code Good, status_of_code Bad}"
    and "wire_len (osr_server_nonce r)"
  shows "DecodeOpenSecureChannelResponseBody (EncodeOpenSecureChannelResponseBody r) = Some r"
  unfolding DecodeOpenSecureChannelResponseBody_def EncodeOpenSecureChannelResponseBody_def
    read_body_AppendMessage bind.bind_lunit
  by (rule ends_bind [OF reads_response_header], simp add: append_assoc, rule assms(1),
      rule ends_bind [OF reads_u32], assumption, rule ends_bind [OF reads_u32], assumption,
      rule ends_bind [OF reads_u32], assumption, rule ends_bind [OF reads_i64_signed], assumption,
      rule ends_bind [OF reads_u32], assumption,
      rule ends_last [OF reads_last_byte_string], assumption, rule assms(2))
    simp

lemma DecodeClose_Encode:
  assumes "wire_len (rqh_audit_entry_id h)"
  shows "DecodeCloseSecureChannelRequestBody (EncodeCloseSecureChannelRequestBody h) = Some h"
proof -
  let ?d = "make_decoder (AppendRequestHeader h)"
  obtain d' where d': "ReadRequestHeader ?d = Some (h, d')" "remaining d' = []"
    using reads_request_header [of ?d h "[]"] assms by (auto simp: reads_def)
  then have "consumed d'"
    by (auto simp: ReadRequestHeader_def decode_decoded_extension_object_def decode_u8_def
        Option.bind_eq_Some_conv consumed_iff advance_def split: if_splits)
  with d' show ?thesis
    by (simp add: DecodeCloseSecureChannelRequestBody_def EncodeCloseSecureChannelRequestBody_def)
qed

section \<open>Round trip of the chunk frame\<close>

definition scm_ok :: "secure_conversation_message \<Rightarrow> bool" where
  "scm_ok m \<longleftrightarrow> (if fh_message_type (scm_frame_header m) = SecureOpen
     then (\<exists>a. scm_asymmetric m = Some a \<and> wire_len (security_policy_uri a)
        \<and> wire_len (sender_certificate a) \<and> wire_len (receiver_certificate_thumbprint a))
        \<and> scm_symmetric m = None
     else scm_asymmetric m = None \<and> scm_symmetric m \<noteq> None)"

lemma length_stamp_size: "8 \<le> length frame \<Longrightarrow> length (stamp_size n frame) = length frame"
  by (simp add: stamp_size_def)

lemma stamp_size_header:
  "stamp_size n (EncodeFrameHeader h @ rest) = EncodeFrameHeader (h\<lparr>fh_message_size := of_nat n\<rparr>) @ rest"
proof -
  have "length (EncodeMessageType (fh_message_type h) @ [fh_chunk_type h]) = 4" by simp
  then show ?thesis by (simp add: stamp_size_def EncodeFrameHeader_def)
qed

lemma reads_asymmetric [wire_rt]:
  assumes "remaining d = enc_asymmetric a @ r" and "wire_len (security_policy_uri a)"
    and "wire_len (sender_certificate a)" and "wire_len (receiver_certificate_thumbprint a)"
  shows "reads (decode_asymmetric d) a r"
  using assms(1) unfolding decode_asymmetric_def enc_asymmetric_def append_assoc
  by (rule reads_bind [OF reads_string])
    (rule assms(2), rule reads_bind [OF reads_byte_string], assumption, rule assms(3),
     rule reads_bind [OF reads_byte_string], assumption, rule assms(4), simp add: reads_def)

lemma reads_security_header:
  assumes "enc_security_header m = Some sec" and "scm_ok m" and "remaining d = sec @ r"
  shows "reads (decode_security_header (fh_message_type (scm_frame_header m)) d)
    (scm_asymmetric m, scm_symmetric m) r"
  using assms unfolding decode_security_header_def enc_security_header_def scm_ok_def
  by (auto intro!: reads_bind wire_rt simp: reads_def [of "Some _"] split: if_splits)

text \<open>None of the fields of the frame replaces the decoder, so its offset stays one in the frame.\<close>

lemma decode_security_header_bytes:
  "decode_security_header t d = Some (x, d') \<Longrightarrow> d_bytes d' = d_bytes d"
  by (auto simp: decode_security_header_def decode_asymmetric_def Option.bind_eq_Some_conv
      dest!: decode_keeps_bytes split: if_splits)

lemma EncodeSecure_eq:
  assumes "EncodeSecureConversationMessage m = Some frame"
  obtains sec where "enc_security_header m = Some sec"
    and "frame = EncodeFrameHeader ((scm_frame_header m)\<lparr>fh_message_size := of_nat (length frame)\<rparr>)
      @ enc_u32 (secure_channel_id m) @ sec @ enc_u32 (sequence_number (scm_sequence_header m))
      @ enc_u32 (request_id (scm_sequence_header m)) @ scm_body m"
  using assms
  by (auto simp: EncodeSecureConversationMessage_def Let_def Option.bind_eq_Some_conv
      stamp_size_header)

lemma DecodeSecure_Encode:
  assumes enc: "EncodeSecureConversationMessage m = Some frame" and ok: "scm_ok m"
    and len: "length frame < 2 ^ 32"
  shows "DecodeSecureConversationMessage frame =
    Some (m\<lparr>scm_frame_header := (scm_frame_header m)\<lparr>fh_message_size := of_nat (length frame)\<rparr>\<rparr>)"
proof -
  let ?h = "(scm_frame_header m)\<lparr>fh_message_size := of_nat (length frame)\<rparr>"
  obtain sec where sec: "enc_security_header m = Some sec"
    and frame: "frame = EncodeFrameHeader ?h @ enc_u32 (secure_channel_id m) @ sec
      @ enc_u32 (sequence_number (scm_sequence_header m))
      @ enc_u32 (request_id (scm_sequence_header m)) @ scm_body m"
    using EncodeSecure_eq [OF enc] by blast
  have size: "unat (of_nat (length frame) :: u32) = length frame"
    using len by (intro unat_of_nat_small) simp
  have "8 \<le> length frame" by (subst frame) simp
  then have "8 \<le> fh_message_size ?h" using size by (simp add: word_le_nat_alt)
  then have hd: "DecodeFrameHeader frame = Some ?h"
    by (subst frame) (rule DecodeFrameHeader_Encode)
  let ?d0 = "make_decoder (drop 8 frame)"
  have "remaining ?d0 = enc_u32 (secure_channel_id m) @ sec
      @ enc_u32 (sequence_number (scm_sequence_header m))
      @ enc_u32 (request_id (scm_sequence_header m)) @ scm_body m"
    by (subst frame) simp
  from reads_then_u32 [OF this] obtain d1 where d1: "decode_u32 ?d0 = Some (secure_channel_id m, d1)"
    "remaining d1 = sec @ enc_u32 (sequence_number (scm_sequence_header m))
      @ enc_u32 (request_id (scm_sequence_header m)) @ scm_body m" .
  obtain d2 where d2: "decode_security_header (fh_message_type (scm_frame_header m)) d1
      = Some ((scm_asymmetric m, scm_symmetric m), d2)"
    "remaining d2 = enc_u32 (sequence_number (scm_sequence_header m))
      @ enc_u32 (request_id (scm_sequence_header m)) @ scm_body m"
    using reads_security_header [OF sec ok d1(2)] by (auto simp: reads_def)
  from reads_then_u32 [OF d2(2)] obtain d3 where d3:
    "decode_u32 d2 = Some (sequence_number (scm_sequence_header m), d3)"
    "remaining d3 = enc_u32 (request_id (scm_sequence_header m)) @ scm_body m" .
  from reads_then_u32 [OF d3(2)] obtain d4 where d4:
    "decode_u32 d3 = Some (request_id (scm_sequence_header m), d4)" "remaining d4 = scm_body m" .
  have "d_bytes d4 = drop 8 frame"
    using decode_keeps_bytes(2) d1(1) d3(1) d4(1) decode_security_header_bytes [OF d2(1)] by force
  then have "drop (8 + d_offset d4) frame = scm_body m"
    using d4(2) by (simp add: remaining_def add.commute)
  with hd size d1(1) d2(1) d3(1) d4(1) show ?thesis
    by (simp add: DecodeSecureConversationMessage_def)
qed

end
