(* ===== verification/Ua_Crypto.thy ===== *)
theory Ua_Crypto
  imports Ua_Prelude
begin

text \<open>
  The crypto layer of \<^verbatim>\<open>opcua/transport/binary/crypto.cpp\<close> over OpenSSL. The library's
  primitives are the fields of \<open>openssl\<close>, one instance per call, so that the randomness of
  a call is part of it; a handle (\<^verbatim>\<open>X509*\<close>, \<^verbatim>\<open>EVP_PKEY*\<close>) is a number and a null one is
  \<open>None\<close>. Every failure of this layer is the same \<open>BadCrypto()\<close>, so a \<open>StatusOr\<close> is an
  option. A SHA digest has a fixed width and is a word of that width.
\<close>

section \<open>Primitives\<close>

type_synonym pkey = nat
type_synonym x509 = nat
type_synonym private_key = "pkey option"
type_synonym certificate = "x509 option"

record openssl =
  pkey_size :: "pkey \<Rightarrow> nat"
  oaep_encrypt :: "pkey \<Rightarrow> bytes \<Rightarrow> bytes option"
  oaep_decrypt :: "pkey \<Rightarrow> bytes \<Rightarrow> bytes option"
  digest_sign :: "pkey \<Rightarrow> bytes \<Rightarrow> bytes option"
  digest_verify :: "pkey \<Rightarrow> bytes \<Rightarrow> bytes \<Rightarrow> bool"
  hmac_sha256 :: "bytes \<Rightarrow> bytes \<Rightarrow> 256 word"
  sha1 :: "bytes \<Rightarrow> 160 word"
  aes_cbc_encrypt :: "bytes \<Rightarrow> bytes \<Rightarrow> bytes \<Rightarrow> bytes option"
  aes_cbc_decrypt :: "bytes \<Rightarrow> bytes \<Rightarrow> bytes \<Rightarrow> bytes option"
  d2i_X509 :: "bytes \<Rightarrow> x509 option"
  i2d_X509 :: "x509 \<Rightarrow> bytes option"
  X509_get_pubkey :: "x509 \<Rightarrow> pkey option"
  RAND_bytes :: "nat \<Rightarrow> bytes option"

abbreviation kRsaOaepSha1Overhead :: nat where "kRsaOaepSha1Overhead \<equiv> 42"
abbreviation kHmacSha256TagSize :: nat where "kHmacSha256TagSize \<equiv> 32"
abbreviation kAesBlockSize :: nat where "kAesBlockSize \<equiv> 16"

definition KeySizeBytes :: "openssl \<Rightarrow> private_key \<Rightarrow> nat" where
  "KeySizeBytes ssl key = (case key of None \<Rightarrow> 0 | Some k \<Rightarrow> pkey_size ssl k)"

section \<open>Certificates and nonces\<close>

text \<open>\<open>std::vector::resize\<close>: cut, or pad with zero bytes.\<close>

definition resize :: "nat \<Rightarrow> bytes \<Rightarrow> bytes" where
  "resize n xs = take n xs @ replicate (n - length xs) 0"


definition LoadDerCertificate :: "openssl \<Rightarrow> bytes \<Rightarrow> certificate option" where
  "LoadDerCertificate ssl der = (if der = [] then None else map_option Some (d2i_X509 ssl der))"

text \<open>The buffer has its length before \<open>RAND_bytes\<close> fills it.\<close>

definition GenerateNonce :: "openssl \<Rightarrow> nat \<Rightarrow> bytes option" where
  "GenerateNonce ssl n = (if n = 0 then Some [] else map_option (resize n) (RAND_bytes ssl n))"

lemma length_resize [simp]: "length (resize n xs) = n"
  by (simp add: resize_def)

lemma length_GenerateNonce: "GenerateNonce ssl n = Some b \<Longrightarrow> length b = n"
  by (auto simp: GenerateNonce_def split: if_splits)

definition CertificateDer :: "openssl \<Rightarrow> certificate \<Rightarrow> bytes option" where
  "CertificateDer ssl cert = do {
     c \<leftarrow> cert;
     der \<leftarrow> i2d_X509 ssl c;
     if der = [] then None else Some der }"

definition CertificateThumbprint :: "openssl \<Rightarrow> certificate \<Rightarrow> bytes option" where
  "CertificateThumbprint ssl cert = do {
     der \<leftarrow> CertificateDer ssl cert;
     Some (map (\<lambda>i. byte_at i (sha1 ssl der)) [0..<20]) }"

definition CertificatePublicKey :: "openssl \<Rightarrow> certificate \<Rightarrow> private_key option" where
  "CertificatePublicKey ssl cert = do {
     c \<leftarrow> cert;
     k \<leftarrow> X509_get_pubkey ssl c;
     Some (Some k) }"

section \<open>RSA\<close>

text \<open>
  The loop of \<open>RsaOaepEncrypt\<close> and \<open>RsaOaepDecrypt\<close>: one primitive call per block, the
  results one after the other; the last block may be short.
\<close>

function rsa_blocks :: "nat \<Rightarrow> (bytes \<Rightarrow> bytes option) \<Rightarrow> bytes \<Rightarrow> bytes option" where
  "rsa_blocks n f xs =
     (if n = 0 \<or> xs = [] then Some []
      else do {
        b \<leftarrow> f (take n xs);
        bs \<leftarrow> rsa_blocks n f (drop n xs);
        Some (b @ bs) })"
  by pat_completeness auto
termination by (relation "measure (\<lambda>(n, f, xs). length xs)") auto

declare rsa_blocks.simps [simp del]

definition RsaOaepEncrypt :: "openssl \<Rightarrow> private_key \<Rightarrow> bytes \<Rightarrow> bytes option" where
  "RsaOaepEncrypt ssl key plaintext = do {
     k \<leftarrow> key;
     if KeySizeBytes ssl key \<le> kRsaOaepSha1Overhead then None
     else rsa_blocks (KeySizeBytes ssl key - kRsaOaepSha1Overhead) (oaep_encrypt ssl k) plaintext }"

definition RsaOaepDecrypt :: "openssl \<Rightarrow> private_key \<Rightarrow> bytes \<Rightarrow> bytes option" where
  "RsaOaepDecrypt ssl key ciphertext = do {
     k \<leftarrow> key;
     if KeySizeBytes ssl key = 0 \<or> length ciphertext mod KeySizeBytes ssl key \<noteq> 0 then None
     else rsa_blocks (KeySizeBytes ssl key) (oaep_decrypt ssl k) ciphertext }"

definition RsaPkcs1Sha256Sign :: "openssl \<Rightarrow> private_key \<Rightarrow> bytes \<Rightarrow> bytes option" where
  "RsaPkcs1Sha256Sign ssl key data = do { k \<leftarrow> key; digest_sign ssl k data }"

definition RsaPkcs1Sha256Verify :: "openssl \<Rightarrow> private_key \<Rightarrow> bytes \<Rightarrow> bytes \<Rightarrow> bool" where
  "RsaPkcs1Sha256Verify ssl key data signature =
     (case key of None \<Rightarrow> False | Some k \<Rightarrow> digest_verify ssl k data signature)"

section \<open>HMAC, AES and key derivation\<close>

definition HmacSha256 :: "openssl \<Rightarrow> bytes \<Rightarrow> bytes \<Rightarrow> bytes" where
  "HmacSha256 ssl key data = map (\<lambda>i. byte_at i (hmac_sha256 ssl key data)) [0..<32]"

definition AesCbcEncrypt :: "openssl \<Rightarrow> bytes \<Rightarrow> bytes \<Rightarrow> bytes \<Rightarrow> bytes option" where
  "AesCbcEncrypt ssl key iv plaintext =
     (if length key \<noteq> 32 \<or> length iv \<noteq> kAesBlockSize \<or> length plaintext mod kAesBlockSize \<noteq> 0
      then None else aes_cbc_encrypt ssl key iv plaintext)"

definition AesCbcDecrypt :: "openssl \<Rightarrow> bytes \<Rightarrow> bytes \<Rightarrow> bytes \<Rightarrow> bytes option" where
  "AesCbcDecrypt ssl key iv ciphertext =
     (if length key \<noteq> 32 \<or> length iv \<noteq> kAesBlockSize \<or> length ciphertext mod kAesBlockSize \<noteq> 0
      then None else aes_cbc_decrypt ssl key iv ciphertext)"

lemma length_HmacSha256 [simp]: "length (HmacSha256 ssl key data) = kHmacSha256TagSize"
  by (simp add: HmacSha256_def)

text \<open>The while loop of \<open>PSha256\<close>, from its state \<open>a\<close> and \<open>out\<close>.\<close>

function psha_loop :: "openssl \<Rightarrow> bytes \<Rightarrow> bytes \<Rightarrow> nat \<Rightarrow> bytes \<Rightarrow> bytes \<Rightarrow> bytes" where
  "psha_loop ssl secret seed n a out =
     (if length out < n
      then (let a' = HmacSha256 ssl secret a;
                block = HmacSha256 ssl secret (a' @ seed)
            in psha_loop ssl secret seed n a' (out @ take (min (length block) (n - length out)) block))
      else out)"
  by pat_completeness auto
termination
  by (relation "measure (\<lambda>(ssl, secret, seed, n, a, out). n - length out)") auto

declare psha_loop.simps [simp del]

definition PSha256 :: "openssl \<Rightarrow> bytes \<Rightarrow> bytes \<Rightarrow> nat \<Rightarrow> bytes" where
  "PSha256 ssl secret seed out_len = resize out_len (psha_loop ssl secret seed out_len seed [])"

record derived_keys =
  signing_key :: bytes
  encrypting_key :: bytes
  initialization_vector :: bytes

definition no_keys :: derived_keys where
  "no_keys = \<lparr>signing_key = [], encrypting_key = [], initialization_vector = []\<rparr>"

definition DeriveBasic256Sha256Keys :: "openssl \<Rightarrow> bytes \<Rightarrow> bytes \<Rightarrow> derived_keys" where
  "DeriveBasic256Sha256Keys ssl secret seed = (let material = PSha256 ssl secret seed (32 + 32 + 16) in
     \<lparr>signing_key = take 32 material,
      encrypting_key = take 32 (drop 32 material),
      initialization_vector = take 16 (drop 64 material)\<rparr>)"

lemma length_psha_loop:
  "length out \<le> n \<Longrightarrow> length (psha_loop ssl secret seed n a out) = n"
proof (induction ssl secret seed n a out rule: psha_loop.induct)
  case (1 ssl secret seed n a out)
  then show ?case by (subst psha_loop.simps) (auto simp: Let_def)
qed

lemma length_PSha256 [simp]: "length (PSha256 ssl secret seed n) = n"
  by (simp add: PSha256_def resize_def length_psha_loop)

definition keys_ok :: "derived_keys \<Rightarrow> bool" where
  "keys_ok k \<longleftrightarrow> length (signing_key k) = 32 \<and> length (encrypting_key k) = 32
     \<and> length (initialization_vector k) = 16"

lemma keys_ok_derive: "keys_ok (DeriveBasic256Sha256Keys ssl secret seed)"
  by (simp add: keys_ok_def DeriveBasic256Sha256Keys_def Let_def)

text \<open>
  What AES-256-CBC without padding promises on whole blocks: the ciphertext has the length
  of the plaintext and decrypts to it.
\<close>

definition aes_law :: "openssl \<Rightarrow> bool" where
  "aes_law ssl \<longleftrightarrow> (\<forall>key iv p. length key = 32 \<longrightarrow> length iv = 16 \<longrightarrow> length p mod 16 = 0 \<longrightarrow>
     (\<exists>c. aes_cbc_encrypt ssl key iv p = Some c \<and> length c = length p
        \<and> aes_cbc_decrypt ssl key iv c = Some p))"

text \<open>What RSA-OAEP promises of a key pair, on one block that fits.\<close>

definition oaep_law :: "openssl \<Rightarrow> pkey \<Rightarrow> pkey \<Rightarrow> bool" where
  "oaep_law ssl pub priv \<longleftrightarrow> pkey_size ssl pub = pkey_size ssl priv
     \<and> (\<forall>p. length p \<le> pkey_size ssl pub - kRsaOaepSha1Overhead \<longrightarrow>
         (\<exists>c. oaep_encrypt ssl pub p = Some c \<and> length c = pkey_size ssl pub
            \<and> oaep_decrypt ssl priv c = Some p))"

text \<open>Block-wise decryption inverts block-wise encryption, whatever the length.\<close>

lemma rsa_blocks_inverse:
  assumes f: "\<And>p. length p \<le> n \<Longrightarrow> \<exists>c. f p = Some c \<and> length c = m \<and> g c = Some p"
    and "0 < n" and "0 < m"
  shows "\<exists>c. rsa_blocks n f xs = Some c \<and> length c mod m = 0 \<and> rsa_blocks m g c = Some xs"
proof (induction "length xs" arbitrary: xs rule: less_induct)
  case less
  show ?case
  proof (cases "xs = []")
    case True
    then show ?thesis by (subst rsa_blocks.simps, subst (2) rsa_blocks.simps) simp
  next
    case False
    obtain c where c: "f (take n xs) = Some c" "length c = m" "g c = Some (take n xs)"
      using f [of "take n xs"] by auto
    obtain cs where cs: "rsa_blocks n f (drop n xs) = Some cs" "length cs mod m = 0"
      "rsa_blocks m g cs = Some (drop n xs)"
      using less [of "drop n xs"] False \<open>0 < n\<close> by auto
    have "rsa_blocks n f xs = Some (c @ cs)"
      using \<open>0 < n\<close> by (subst rsa_blocks.simps) (simp add: False c cs)
    moreover have "c @ cs \<noteq> []" using c(2) assms(3) by auto
    then have "rsa_blocks m g (c @ cs) = Some xs"
      using assms(3) c cs by (subst rsa_blocks.simps) auto
    ultimately show ?thesis using c(2) cs(2) by simp
  qed
qed

lemma RsaOaep_roundtrip:
  assumes "oaep_law ssl pub priv" and "kRsaOaepSha1Overhead < pkey_size ssl pub"
  shows "\<exists>c. RsaOaepEncrypt ssl (Some pub) p = Some c \<and> RsaOaepDecrypt ssl (Some priv) c = Some p"
proof -
  let ?n = "pkey_size ssl pub - kRsaOaepSha1Overhead"
  have "\<exists>c. oaep_encrypt ssl pub p = Some c \<and> length c = pkey_size ssl priv \<and> oaep_decrypt ssl priv c = Some p"
    if "length p \<le> ?n" for p
    using assms(1) that by (auto simp: oaep_law_def)
  moreover have "pkey_size ssl pub = pkey_size ssl priv"
    using assms(1) by (simp add: oaep_law_def)
  ultimately show ?thesis
    using rsa_blocks_inverse [of ?n "oaep_encrypt ssl pub" "pkey_size ssl priv" "oaep_decrypt ssl priv" p]
      assms(2)
    by (auto simp: RsaOaepEncrypt_def RsaOaepDecrypt_def KeySizeBytes_def mod_eq_0_iff_dvd)
qed

end
