(* ===== verification/Ua_Secure_Channel.thy ===== *)
theory Ua_Secure_Channel
  imports Ua_Secure_Messages Ua_Crypto
begin

text \<open>
  The server side of the SecureChannel, second half of
  \<^verbatim>\<open>opcua/transport/binary/secure_channel.cpp\<close>: the channel as a record of its members, the
  handling of OPN, MSG and CLO frames under SecurityPolicy None and Basic256Sha256, and the
  builders of outbound frames. A handler returns its \<open>Result\<close> with the new channel; it is
  \<open>None\<close> where the code would read outside a buffer.
\<close>

section \<open>State\<close>

record server_config =
  cfg_private_key :: private_key
  certificate_der :: bytes
  certificate_thumbprint :: bytes
  allow_none :: bool
  allow_basic256sha256 :: bool
  validate_client_certificate :: "(bytes \<Rightarrow> status) option"
  has_nonce_generator :: bool

text \<open>
  What a call sees of the outside: the OpenSSL of the call, the clock, and what the
  configured nonce generator returns if it is asked.
\<close>

record channel_env =
  env_ssl :: openssl
  env_now :: u64
  env_generated_nonce :: "bytes option"

record secure_channel =
  sc_config :: "server_config option"
  channel_id :: u32
  token_id :: u32
  previous_token_id :: u32
  next_sequence_number :: u32
  opened :: bool
  basic256_active :: bool
  inbound_keys :: derived_keys
  outbound_keys :: derived_keys
  server_nonce :: bytes
  client_certificate_der :: bytes

record channel_result =
  outbound_frame :: "bytes option"
  service_payload :: "bytes option"
  res_request_id :: "u32 option"
  close_transport :: bool
  graceful_close :: bool

definition make_secure_channel :: "server_config option \<Rightarrow> u32 \<Rightarrow> secure_channel" where
  "make_secure_channel config cid = \<lparr>sc_config = config, channel_id = cid, token_id = 1,
     previous_token_id = 0, next_sequence_number = 1, opened = False, basic256_active = False,
     inbound_keys = no_keys, outbound_keys = no_keys, server_nonce = [],
     client_certificate_der = []\<rparr>"

definition MakeSecureChannelServerConfig :: "openssl \<Rightarrow> certificate \<Rightarrow> private_key \<Rightarrow> bool
    \<Rightarrow> (bytes \<Rightarrow> status) option \<Rightarrow> server_config option" where
  "MakeSecureChannelServerConfig ssl cert key none validate =
     (case cert of
        None \<Rightarrow> Some \<lparr>cfg_private_key = key, certificate_der = [], certificate_thumbprint = [],
          allow_none = none, allow_basic256sha256 = False,
          validate_client_certificate = validate, has_nonce_generator = False\<rparr>
      | Some _ \<Rightarrow> do {
          der \<leftarrow> CertificateDer ssl cert;
          thumb \<leftarrow> CertificateThumbprint ssl cert;
          Some \<lparr>cfg_private_key = key, certificate_der = der, certificate_thumbprint = thumb,
            allow_none = none, allow_basic256sha256 = (key \<noteq> None),
            validate_client_certificate = validate, has_nonce_generator = False\<rparr> })"

definition no_result :: channel_result where
  "no_result = \<lparr>outbound_frame = None, service_payload = None, res_request_id = None,
     close_transport = False, graceful_close = False\<rparr>"

definition close_result :: channel_result where
  "close_result = no_result\<lparr>close_transport := True\<rparr>"

section \<open>Outbound frames\<close>

definition open_response :: "channel_env \<Rightarrow> secure_channel \<Rightarrow> open_secure_channel_request \<Rightarrow> status
    \<Rightarrow> bytes \<Rightarrow> open_secure_channel_response" where
  "open_response env c request service_result nonce = \<lparr>
     osr_response_header = \<lparr>rsh_request_handle = rqh_request_handle (osq_request_header request),
       rsh_service_result = service_result\<rparr>,
     server_protocol_version = client_protocol_version request,
     security_token = \<lparr>cst_channel_id = channel_id c, cst_token_id = token_id c,
       cst_created_at = env_now env, cst_revised_lifetime = requested_lifetime request\<rparr>,
     osr_server_nonce = nonce\<rparr>"

definition BuildOpenResponse :: "channel_env \<Rightarrow> secure_conversation_message
    \<Rightarrow> open_secure_channel_request \<Rightarrow> status \<Rightarrow> secure_channel \<Rightarrow> bytes option \<times> secure_channel" where
  "BuildOpenResponse env request_message request service_result c =
     (EncodeSecureConversationMessage \<lparr>
        scm_frame_header = \<lparr>fh_message_type = SecureOpen, fh_chunk_type = kFinalChunk,
          fh_message_size = 0\<rparr>,
        secure_channel_id = channel_id c,
        scm_asymmetric = Some \<lparr>security_policy_uri = kSecurityPolicyNone, sender_certificate = [],
          receiver_certificate_thumbprint = []\<rparr>,
        scm_symmetric = None,
        scm_sequence_header = \<lparr>sequence_number = next_sequence_number c,
          request_id = request_id (scm_sequence_header request_message)\<rparr>,
        scm_body = EncodeOpenSecureChannelResponseBody
          (open_response env c request service_result [])\<rparr>,
      c\<lparr>next_sequence_number := next_sequence_number c + 1\<rparr>)"

definition pad_to :: "nat \<Rightarrow> nat \<Rightarrow> nat" where
  "pad_to block unpadded = (block - unpadded mod block) mod block"

definition padding :: "nat \<Rightarrow> bytes" where
  "padding n = replicate n (of_nat n) @ [of_nat n]"

definition secure_open_prefix :: "server_config \<Rightarrow> secure_channel \<Rightarrow> bytes \<Rightarrow> bytes" where
  "secure_open_prefix config c client_thumbprint =
     lit ''OPNF'' @ [0, 0, 0, 0] @ enc_u32 (channel_id c) @ enc_string kSecurityPolicyBasic256Sha256
     @ enc_byte_string (certificate_der config) @ enc_byte_string client_thumbprint"

definition BuildSecureOpenResponse :: "channel_env \<Rightarrow> server_config \<Rightarrow> open_secure_channel_request
    \<Rightarrow> u32 \<Rightarrow> private_key \<Rightarrow> bytes \<Rightarrow> bytes \<Rightarrow> secure_channel \<Rightarrow> bytes option \<times> secure_channel" where
  "BuildSecureOpenResponse env config request rid client_key client_thumbprint nonce c = (let
     ssl = env_ssl env;
     body = EncodeOpenSecureChannelResponseBody
       (open_response env c request (status_of_code Good) nonce);
     prefix = secure_open_prefix config c client_thumbprint;
     to_encrypt = enc_u32 (next_sequence_number c) @ enc_u32 rid @ body;
     client_key_bytes = KeySizeBytes ssl client_key;
     server_key_bytes = KeySizeBytes ssl (cfg_private_key config)
   in (if client_key_bytes \<le> kRsaOaepSha1Overhead \<or> server_key_bytes = 0 then None
       else (let
         plain_block = client_key_bytes - kRsaOaepSha1Overhead;
         pad_count = pad_to plain_block (length to_encrypt + 1 + server_key_bytes)
       in if pad_count > 255 then None
          else (let
            padded = to_encrypt @ padding pad_count;
            num_blocks = (length padded + server_key_bytes) div plain_block;
            prefix = stamp_size (length prefix + num_blocks * client_key_bytes) prefix
          in do {
            signature \<leftarrow> RsaPkcs1Sha256Sign ssl (cfg_private_key config) (prefix @ padded);
            ciphertext \<leftarrow> RsaOaepEncrypt ssl client_key (padded @ signature);
            Some (FixUpFrameSize (prefix @ ciphertext)) })),
      c\<lparr>next_sequence_number := next_sequence_number c + 1\<rparr>))"

definition secure_msg_header :: "secure_channel \<Rightarrow> nat \<Rightarrow> bytes" where
  "secure_msg_header c final_size =
     stamp_size final_size (lit ''MSGF'' @ [0, 0, 0, 0] @ enc_u32 (channel_id c) @ enc_u32 (token_id c))"

definition BuildSecureServiceResponse :: "openssl \<Rightarrow> u32 \<Rightarrow> bytes \<Rightarrow> secure_channel
    \<Rightarrow> bytes option \<times> secure_channel" where
  "BuildSecureServiceResponse ssl rid body c = (let
     payload = enc_u32 (next_sequence_number c) @ enc_u32 rid @ body;
     pad_count = pad_to kAesBlockSize (length payload + 1 + kHmacSha256TagSize)
   in (if pad_count > 255 then None
       else (let
         payload = payload @ padding pad_count;
         header = secure_msg_header c (16 + (length payload + kHmacSha256TagSize));
         signature = HmacSha256 ssl (signing_key (outbound_keys c)) (header @ payload)
       in do {
         ciphertext \<leftarrow> AesCbcEncrypt ssl (encrypting_key (outbound_keys c))
           (initialization_vector (outbound_keys c)) (payload @ signature);
         Some (FixUpFrameSize (header @ ciphertext)) }),
      c\<lparr>next_sequence_number := next_sequence_number c + 1\<rparr>))"

definition BuildServiceResponse :: "openssl \<Rightarrow> u32 \<Rightarrow> bytes \<Rightarrow> secure_channel \<Rightarrow> bytes \<times> secure_channel"
where
  "BuildServiceResponse ssl rid body c =
     (if basic256_active c
      then (case BuildSecureServiceResponse ssl rid body c of
              (Some framed, c) \<Rightarrow> (framed, c) | (None, c) \<Rightarrow> ([], c))
      else (case EncodeSecureConversationMessage \<lparr>
              scm_frame_header = \<lparr>fh_message_type = SecureMessage, fh_chunk_type = kFinalChunk,
                fh_message_size = 0\<rparr>,
              secure_channel_id = channel_id c, scm_asymmetric = None,
              scm_symmetric = Some (token_id c),
              scm_sequence_header = \<lparr>sequence_number = next_sequence_number c, request_id = rid\<rparr>,
              scm_body = body\<rparr> of
              Some frame \<Rightarrow> frame | None \<Rightarrow> [],
            c\<lparr>next_sequence_number := next_sequence_number c + 1\<rparr>))"

section \<open>Inbound frames\<close>

definition HandleOpenNone :: "channel_env \<Rightarrow> bytes \<Rightarrow> secure_channel \<Rightarrow> channel_result \<times> secure_channel"
where
  "HandleOpenNone env frame c =
     (case DecodeSecureConversationMessage frame of
        None \<Rightarrow> (close_result, c)
      | Some message \<Rightarrow>
        (case DecodeOpenSecureChannelRequestBody (scm_body message) of
           None \<Rightarrow> (close_result, c)
         | Some request \<Rightarrow> (let
             supported = security_mode request = ModeNone
               \<and> (case scm_asymmetric message of
                    None \<Rightarrow> False | Some a \<Rightarrow> security_policy_uri a = kSecurityPolicyNone);
             c = (if supported \<and> request_type request = RequestRenew
                  then c\<lparr>previous_token_id := token_id c, token_id := token_id c + 1\<rparr> else c);
             (response, c) = BuildOpenResponse env message request
               (if supported then status_of_code Good else status_of_code Bad) c;
             c = (if supported then c\<lparr>opened := True\<rparr> else c)
           in (no_result\<lparr>outbound_frame := response\<rparr>, c))))"

text \<open>The asymmetric layer of a secured OPN: thumbprint, certificate, decryption, signature.\<close>

definition client_public_key :: "openssl \<Rightarrow> server_config \<Rightarrow> asymmetric_security_header
    \<Rightarrow> (private_key \<times> certificate) option" where
  "client_public_key ssl config header =
     (if receiver_certificate_thumbprint header \<noteq> certificate_thumbprint config then None
      else if sender_certificate header = [] then None
      else if (case validate_client_certificate config of
                 None \<Rightarrow> False | Some v \<Rightarrow> status_bad (v (sender_certificate header))) then None
      else do {
        cert \<leftarrow> LoadDerCertificate ssl (sender_certificate header);
        key \<leftarrow> CertificatePublicKey ssl cert;
        Some (key, cert) })"

definition open_signed_plaintext :: "openssl \<Rightarrow> server_config \<Rightarrow> private_key \<Rightarrow> bytes \<Rightarrow> nat
    \<Rightarrow> (u32 \<times> bytes) option" where
  "open_signed_plaintext ssl config client_key frame header_end = do {
     plaintext \<leftarrow> RsaOaepDecrypt ssl (cfg_private_key config) (drop header_end frame);
     let signature_size = KeySizeBytes ssl client_key;
     if length plaintext < signature_size + 1 then None
     else do {
       let sig_begin = length plaintext - signature_size;
       if \<not> RsaPkcs1Sha256Verify ssl client_key (take header_end frame @ take sig_begin plaintext)
           (drop sig_begin plaintext) then None
       else do {
         let pad_size = unat (plaintext ! (sig_begin - 1));
         if sig_begin < 1 + pad_size + 8 then None
         else do {
           let body_end = sig_begin - 1 - pad_size;
           (_, d) \<leftarrow> decode_u32 (make_decoder (take 8 plaintext));
           (rid, _) \<leftarrow> decode_u32 d;
           Some (rid, take (body_end - 8) (drop 8 plaintext)) } } } }"

definition generate_server_nonce :: "channel_env \<Rightarrow> server_config \<Rightarrow> bytes option" where
  "generate_server_nonce env config =
     (if has_nonce_generator config
      then (case env_generated_nonce env of
              Some n \<Rightarrow> if length n \<noteq> 32 then None else Some n | None \<Rightarrow> None)
      else GenerateNonce (env_ssl env) 32)"

text \<open>The last part: nonces, token, response, keys.\<close>

definition complete_secure_open :: "channel_env \<Rightarrow> server_config \<Rightarrow> asymmetric_security_header
    \<Rightarrow> private_key \<Rightarrow> certificate \<Rightarrow> u32 \<Rightarrow> open_secure_channel_request \<Rightarrow> secure_channel
    \<Rightarrow> channel_result \<times> secure_channel" where
  "complete_secure_open env config header client_key client_cert rid request c =
     (case generate_server_nonce env config of
        None \<Rightarrow> (close_result, c)
      | Some nonce \<Rightarrow>
        if length (client_nonce request) \<noteq> 32 then (close_result, c)
        else (case CertificateThumbprint (env_ssl env) client_cert of
            None \<Rightarrow> (close_result, c)
          | Some thumb \<Rightarrow> (let
              c = (if request_type request = RequestRenew
                   then c\<lparr>token_id := token_id c + 1\<rparr> else c)
            in (case BuildSecureOpenResponse env config request rid client_key thumb nonce c of
                (None, c) \<Rightarrow> (close_result, c)
              | (Some response, c) \<Rightarrow>
                  (no_result\<lparr>outbound_frame := Some response\<rparr>,
                   c\<lparr>inbound_keys := DeriveBasic256Sha256Keys (env_ssl env) nonce (client_nonce request),
                     outbound_keys := DeriveBasic256Sha256Keys (env_ssl env) (client_nonce request) nonce,
                     server_nonce := nonce,
                     client_certificate_der := sender_certificate header,
                     basic256_active := True,
                     opened := True\<rparr>)))))"

text \<open>The decoding and checking part: everything up to the decoded request.\<close>

definition accept_secure_open :: "openssl \<Rightarrow> server_config \<Rightarrow> bytes \<Rightarrow> (asymmetric_security_header
    \<times> private_key \<times> certificate \<times> u32 \<times> open_secure_channel_request) option" where
  "accept_secure_open ssl config frame = do {
     (_, d) \<leftarrow> decode_u32 (make_decoder (drop 8 frame));
     (header, d) \<leftarrow> decode_asymmetric d;
     let header_end = 8 + d_offset d;
     if length frame \<le> header_end then None
     else do {
       (key, cert) \<leftarrow> client_public_key ssl config header;
       (rid, body) \<leftarrow> open_signed_plaintext ssl config key frame header_end;
       request \<leftarrow> DecodeOpenSecureChannelRequestBody body;
       if security_mode request \<noteq> ModeSignAndEncrypt then None
       else Some (header, key, cert, rid, request) } }"

definition HandleOpenSecure :: "channel_env \<Rightarrow> server_config \<Rightarrow> bytes \<Rightarrow> secure_channel
    \<Rightarrow> channel_result \<times> secure_channel" where
  "HandleOpenSecure env config frame c =
     (case accept_secure_open (env_ssl env) config frame of
        None \<Rightarrow> (close_result, c)
      | Some (header, key, cert, rid, request) \<Rightarrow>
          complete_secure_open env config header key cert rid request c)"

definition close_or_service :: "bool \<Rightarrow> bytes \<Rightarrow> u32 \<Rightarrow> secure_channel
    \<Rightarrow> channel_result \<times> secure_channel" where
  "close_or_service is_close body rid c =
     (if is_close
      then (close_result\<lparr>graceful_close := (DecodeCloseSecureChannelRequestBody body \<noteq> None)\<rparr>,
            c\<lparr>opened := False\<rparr>)
      else (no_result\<lparr>service_payload := Some body, res_request_id := Some rid\<rparr>, c))"

definition HandlePlainMessage :: "bytes \<Rightarrow> bool \<Rightarrow> secure_channel \<Rightarrow> channel_result \<times> secure_channel"
where
  "HandlePlainMessage frame is_close c =
     (case DecodeSecureConversationMessage frame of
        None \<Rightarrow> (close_result, c)
      | Some message \<Rightarrow>
        (case scm_symmetric message of
           None \<Rightarrow> (close_result, c)
         | Some tok \<Rightarrow>
             if secure_channel_id message \<noteq> channel_id c then (close_result, c)
             else if tok \<noteq> token_id c \<and> (previous_token_id c = 0 \<or> tok \<noteq> previous_token_id c)
             then (close_result, c)
             else close_or_service is_close (scm_body message)
               (request_id (scm_sequence_header message)) c))"

text \<open>
  The Basic256Sha256 path. A ciphertext whose plaintext is just a valid tag leaves no byte
  in front of it: the code then reads the padding size at index \<open>sig_begin - 1\<close>, which
  wraps around.
\<close>

definition HandleEncryptedMessage :: "openssl \<Rightarrow> bytes \<Rightarrow> bool \<Rightarrow> secure_channel
    \<Rightarrow> (channel_result \<times> secure_channel) option" where
  "HandleEncryptedMessage ssl frame is_close c =
     (if length frame < 16 then Some (close_result, c)
      else if load_u32 (drop 8 frame) \<noteq> channel_id c \<or> load_u32 (drop 12 frame) \<noteq> token_id c
      then Some (close_result, c)
      else (case AesCbcDecrypt ssl (encrypting_key (inbound_keys c))
              (initialization_vector (inbound_keys c)) (drop 16 frame) of
          None \<Rightarrow> Some (close_result, c)
        | Some decrypted \<Rightarrow>
          if length decrypted < kHmacSha256TagSize then Some (close_result, c)
          else (let
            sig_begin = length decrypted - kHmacSha256TagSize;
            expected_tag = HmacSha256 ssl (signing_key (inbound_keys c))
              (take 16 frame @ take sig_begin decrypted)
          in if expected_tag \<noteq> drop sig_begin decrypted then Some (close_result, c)
             else if sig_begin = 0 then None
             else (let pad_size = unat (decrypted ! (sig_begin - 1)) in
               if sig_begin < 1 + pad_size + 8 then Some (close_result, c)
               else (let body_end = sig_begin - 1 - pad_size in
                 Some (close_or_service is_close (take (body_end - 8) (drop 8 decrypted))
                   (load_u32 (drop 4 decrypted)) c))))))"

definition HandleSecureMessage :: "openssl \<Rightarrow> bytes \<Rightarrow> bool \<Rightarrow> secure_channel
    \<Rightarrow> (channel_result \<times> secure_channel) option" where
  "HandleSecureMessage ssl frame is_close c =
     (if \<not> opened c then Some (close_result, c)
      else if \<not> basic256_active c then Some (HandlePlainMessage frame is_close c)
      else HandleEncryptedMessage ssl frame is_close c)"

text \<open>
  The dispatch on the policy of an OPN frame, whose URI precedes the possibly encrypted
  body in the clear.
\<close>

definition peek_policy_uri :: "bytes \<Rightarrow> bytes option" where
  "peek_policy_uri frame = do {
     (_, d) \<leftarrow> decode_u32 (make_decoder (drop 8 frame));
     (uri, _) \<leftarrow> decode_string d;
     Some uri }"

definition none_allowed :: "secure_channel \<Rightarrow> bool" where
  "none_allowed c \<longleftrightarrow> (case sc_config c of None \<Rightarrow> True | Some config \<Rightarrow> allow_none config)"

definition HandleOpen :: "channel_env \<Rightarrow> bytes \<Rightarrow> secure_channel \<Rightarrow> channel_result \<times> secure_channel"
where
  "HandleOpen env frame c =
     (case peek_policy_uri frame of
        None \<Rightarrow> (close_result, c)
      | Some uri \<Rightarrow>
        if uri = kSecurityPolicyNone
        then (if none_allowed c then HandleOpenNone env frame c else (close_result, c))
        else (case sc_config c of
            None \<Rightarrow> (close_result, c)
          | Some config \<Rightarrow>
              if uri = kSecurityPolicyBasic256Sha256 \<and> allow_basic256sha256 config
                \<and> certificate_der config \<noteq> []
              then HandleOpenSecure env config frame c
              else (close_result, c)))"

definition HandleFrame :: "channel_env \<Rightarrow> bytes \<Rightarrow> secure_channel
    \<Rightarrow> (channel_result \<times> secure_channel) option" where
  "HandleFrame env frame c =
     (case DecodeFrameHeader frame of
        None \<Rightarrow> Some (close_result, c)
      | Some h \<Rightarrow>
        if unat (fh_message_size h) \<noteq> length frame then Some (close_result, c)
        else (case fh_message_type h of
            SecureOpen \<Rightarrow> Some (HandleOpen env frame c)
          | SecureMessage \<Rightarrow> HandleSecureMessage (env_ssl env) frame False c
          | SecureClose \<Rightarrow> HandleSecureMessage (env_ssl env) frame True c
          | _ \<Rightarrow> Some (close_result, c)))"

section \<open>Invariant of the channel\<close>

text \<open>
  The steps a connection takes on its channel: handling an inbound frame, and building a
  response to a service request at any later time.
\<close>

inductive channel_step :: "secure_channel \<Rightarrow> secure_channel \<Rightarrow> bool" where
  frame: "HandleFrame env frame c = Some (r, c') \<Longrightarrow> channel_step c c'"
| response: "BuildServiceResponse ssl rid body c = (bs, c') \<Longrightarrow> channel_step c c'"

definition certificate_accepted :: "server_config \<Rightarrow> bytes \<Rightarrow> bool" where
  "certificate_accepted config der \<longleftrightarrow> der \<noteq> [] \<and>
     (case validate_client_certificate config of None \<Rightarrow> True | Some v \<Rightarrow> \<not> status_bad (v der))"

definition secured :: "server_config \<Rightarrow> secure_channel \<Rightarrow> bool" where
  "secured config c \<longleftrightarrow> keys_ok (inbound_keys c) \<and> keys_ok (outbound_keys c)
     \<and> length (server_nonce c) = 32 \<and> allow_basic256sha256 config
     \<and> certificate_accepted config (client_certificate_der c)"

definition channel_inv :: "secure_channel \<Rightarrow> bool" where
  "channel_inv c \<longleftrightarrow>
     (basic256_active c \<longrightarrow> (\<exists>config. sc_config c = Some config \<and> secured config c))
     \<and> (opened c \<longrightarrow> basic256_active c \<or> none_allowed c)"

text \<open>The part of the state that only a secured open changes.\<close>

definition same_security :: "secure_channel \<Rightarrow> secure_channel \<Rightarrow> bool" where
  "same_security c c' \<longleftrightarrow> sc_config c' = sc_config c \<and> basic256_active c' = basic256_active c
     \<and> inbound_keys c' = inbound_keys c \<and> outbound_keys c' = outbound_keys c
     \<and> server_nonce c' = server_nonce c \<and> client_certificate_der c' = client_certificate_der c"

lemma same_security_secured: "same_security c c' \<Longrightarrow> secured config c' = secured config c"
  by (simp add: same_security_def secured_def)

lemma channel_inv_make: "channel_inv (make_secure_channel config cid)"
  by (simp add: channel_inv_def make_secure_channel_def)

lemma channel_inv_same:
  assumes "channel_inv c" and "same_security c c'"
    and "opened c' \<Longrightarrow> opened c \<or> basic256_active c \<or> none_allowed c"
  shows "channel_inv c'"
  using assms same_security_secured [OF assms(2)]
  by (auto simp: channel_inv_def same_security_def none_allowed_def)

lemma BuildServiceResponse_snd:
  "snd (BuildServiceResponse ssl rid body c) = c\<lparr>next_sequence_number := next_sequence_number c + 1\<rparr>"
  by (auto simp: BuildServiceResponse_def BuildSecureServiceResponse_def Let_def
      split: prod.splits option.splits)

lemma HandleOpenNone_same: "same_security c (snd (HandleOpenNone env frame c))"
  by (auto simp: HandleOpenNone_def BuildOpenResponse_def same_security_def Let_def
      split: option.split)

lemma client_public_key_accepts:
  "client_public_key ssl config header = Some (k, cert) \<Longrightarrow>
     certificate_accepted config (sender_certificate header)"
  by (auto simp: client_public_key_def certificate_accepted_def split: if_splits option.splits)

lemma generate_server_nonce_length: "generate_server_nonce env config = Some n \<Longrightarrow> length n = 32"
  by (auto simp: generate_server_nonce_def dest: length_GenerateNonce split: if_splits option.splits)

text \<open>
  A secured open either fails and touches at most the token and the sequence number, or
  leaves keys derived from the two nonces and a client certificate that was accepted.
\<close>

lemma BuildSecureOpenResponse_snd:
  "BuildSecureOpenResponse env config r rid k t n c = (x, c') \<Longrightarrow>
     c' = c\<lparr>next_sequence_number := next_sequence_number c + 1\<rparr>"
  by (simp add: BuildSecureOpenResponse_def Let_def)

lemma complete_secure_open_state:
  assumes "certificate_accepted config (sender_certificate header)" and "allow_basic256sha256 config"
    and "complete_secure_open env config header key cert rid request c = (r, c')"
  shows "same_security c c' \<and> opened c' = opened c
    \<or> sc_config c' = sc_config c \<and> basic256_active c' \<and> opened c' \<and> secured config c'"
  using assms
  by (auto simp: complete_secure_open_def Let_def same_security_def secured_def keys_ok_derive
      dest!: BuildSecureOpenResponse_snd dest: generate_server_nonce_length
      split: option.splits if_splits prod.splits)

lemma HandleOpenSecure_state:
  assumes "HandleOpenSecure env config frame c = (r, c')" and "allow_basic256sha256 config"
  shows "same_security c c' \<and> opened c' = opened c
    \<or> sc_config c' = sc_config c \<and> basic256_active c' \<and> opened c' \<and> secured config c'"
proof (cases "accept_secure_open (env_ssl env) config frame")
  case None
  then show ?thesis using assms by (simp add: HandleOpenSecure_def same_security_def)
next
  case (Some x)
  obtain header key cert rid request where x: "x = (header, key, cert, rid, request)"
    by (cases x)
  have "client_public_key (env_ssl env) config header = Some (key, cert)"
    using Some by (auto simp: accept_secure_open_def x Let_def Option.bind_eq_Some_conv split: if_splits)
  then have "certificate_accepted config (sender_certificate header)"
    by (rule client_public_key_accepts)
  moreover have "complete_secure_open env config header key cert rid request c = (r, c')"
    using assms(1) Some x by (simp add: HandleOpenSecure_def)
  ultimately show ?thesis using complete_secure_open_state assms(2) by blast
qed

lemma HandleSecureMessage_same:
  "HandleSecureMessage ssl frame b c = Some (r, c') \<Longrightarrow>
     same_security c c' \<and> (opened c' \<longrightarrow> opened c)"
  by (auto simp: HandleSecureMessage_def HandlePlainMessage_def HandleEncryptedMessage_def
      close_or_service_def same_security_def Let_def split: if_splits option.splits)

lemma HandleOpen_cases:
  assumes "HandleOpen env frame c = (r, c')"
  shows "(r = close_result \<and> c' = c) \<or> (HandleOpenNone env frame c = (r, c') \<and> none_allowed c)
    \<or> (\<exists>config. sc_config c = Some config \<and> allow_basic256sha256 config
         \<and> HandleOpenSecure env config frame c = (r, c'))"
proof (cases "peek_policy_uri frame")
  case (Some uri)
  then show ?thesis
    using assms
    by (cases "sc_config c") (simp_all add: HandleOpen_def split: if_split_asm)
qed (use assms in \<open>simp add: HandleOpen_def\<close>)

lemma HandleFrame_cases:
  assumes "HandleFrame env frame c = Some (r, c')"
  shows "(r = close_result \<and> c' = c) \<or> HandleOpen env frame c = (r, c')
    \<or> (\<exists>is_close. HandleSecureMessage (env_ssl env) frame is_close c = Some (r, c'))"
proof (cases "DecodeFrameHeader frame")
  case (Some h)
  then show ?thesis
    using assms
    by (cases "fh_message_type h") (auto simp: HandleFrame_def split: if_split_asm)
qed (use assms in \<open>simp add: HandleFrame_def\<close>)

lemma channel_inv_HandleOpen:
  assumes "HandleOpen env frame c = (r, c')" and inv: "channel_inv c"
  shows "channel_inv c'"
proof -
  consider "c' = c" | "HandleOpenNone env frame c = (r, c')" "none_allowed c"
    | config where "sc_config c = Some config" "allow_basic256sha256 config"
      "HandleOpenSecure env config frame c = (r, c')"
    using HandleOpen_cases [OF assms(1)] by blast
  then show ?thesis
  proof cases
    case 2
    have "same_security c c'" using HandleOpenNone_same [of c env frame] 2(1) by simp
    then show ?thesis using channel_inv_same [OF inv] 2(2) by blast
  next
    case (3 config)
    then show ?thesis
      using HandleOpenSecure_state [OF 3(3,2)] channel_inv_same [OF inv, of c']
      by (auto simp: channel_inv_def)
  qed (use inv in simp)
qed

lemma channel_inv_HandleFrame [inv_intros]:
  assumes "HandleFrame env frame c = Some (r, c')" and inv: "channel_inv c"
  shows "channel_inv c'"
  using HandleFrame_cases [OF assms(1)]
proof (elim disjE exE)
  assume "HandleOpen env frame c = (r, c')"
  then show ?thesis by (rule channel_inv_HandleOpen [OF _ inv])
next
  fix is_close assume "HandleSecureMessage (env_ssl env) frame is_close c = Some (r, c')"
  then show ?thesis
    using HandleSecureMessage_same channel_inv_same [OF inv] by blast
qed (use inv in simp)

lemma channel_inv_response [inv_intros]:
  assumes "BuildServiceResponse ssl rid body c = (bs, c')" and "channel_inv c"
  shows "channel_inv c'"
  using assms BuildServiceResponse_snd [of ssl rid body c]
  by (intro channel_inv_same [OF assms(2)]) (auto simp: same_security_def)

lemma channel_reachable_inv:
  "channel_step\<^sup>*\<^sup>* c c' \<Longrightarrow> channel_inv c \<Longrightarrow> channel_inv c'"
  by (induction rule: rtranclp_induct) (auto elim!: channel_step.cases intro: inv_intros)

section \<open>Who gets through\<close>

text \<open>
  Everything a delivered service payload certifies: the channel was open, and the message
  named it and one of its live tokens, or carried a valid tag under the inbound key.
\<close>

definition plain_authorized :: "secure_channel \<Rightarrow> bytes \<Rightarrow> bytes \<Rightarrow> bool" where
  "plain_authorized c frame payload \<longleftrightarrow>
     (\<exists>m tok. DecodeSecureConversationMessage frame = Some m \<and> scm_body m = payload
        \<and> secure_channel_id m = channel_id c \<and> scm_symmetric m = Some tok
        \<and> (tok = token_id c \<or> previous_token_id c \<noteq> 0 \<and> tok = previous_token_id c))"

definition tag_authorized :: "openssl \<Rightarrow> secure_channel \<Rightarrow> bytes \<Rightarrow> bytes \<Rightarrow> bool" where
  "tag_authorized ssl c frame payload \<longleftrightarrow>
     load_u32 (drop 8 frame) = channel_id c \<and> load_u32 (drop 12 frame) = token_id c
     \<and> (\<exists>plain tag pad. AesCbcDecrypt ssl (encrypting_key (inbound_keys c))
          (initialization_vector (inbound_keys c)) (drop 16 frame) = Some (plain @ tag)
        \<and> tag = HmacSha256 ssl (signing_key (inbound_keys c)) (take 16 frame @ plain)
        \<and> plain = take 8 plain @ payload @ pad)"

lemma close_result_no_payload [simp]:
  "service_payload close_result = None" "service_payload no_result = None"
  "outbound_frame no_result = None" "close_transport no_result = False"
  "close_transport close_result = True"
  by (simp_all add: close_result_def no_result_def)

lemma close_or_service_payload:
  "close_or_service b body rid c = (r, c') \<Longrightarrow> service_payload r = Some p \<Longrightarrow>
     \<not> b \<and> body = p \<and> c' = c \<and> res_request_id r = Some rid"
  by (auto simp: close_or_service_def split: if_splits)

lemma HandlePlainMessage_payload:
  assumes "HandlePlainMessage frame b c = (r, c')" and "service_payload r = Some p"
  shows "plain_authorized c frame p \<and> c' = c"
  using assms
  by (auto simp: HandlePlainMessage_def plain_authorized_def dest: close_or_service_payload
      split: option.splits if_splits)

lemma HandleEncryptedMessage_payload:
  assumes "HandleEncryptedMessage ssl frame b c = Some (r, c')" and "service_payload r = Some p"
  shows "tag_authorized ssl c frame p \<and> c' = c"
proof -
  obtain decrypted where dec: "AesCbcDecrypt ssl (encrypting_key (inbound_keys c))
      (initialization_vector (inbound_keys c)) (drop 16 frame) = Some decrypted"
    and ids: "load_u32 (drop 8 frame) = channel_id c" "load_u32 (drop 12 frame) = token_id c"
    using assms by (auto simp: HandleEncryptedMessage_def split: if_splits option.splits)
  define sb where "sb = length decrypted - 32"
  define n where "n = sb - 1 - unat (decrypted ! (sb - 1)) - 8"
  have tag: "drop sb decrypted
      = HmacSha256 ssl (signing_key (inbound_keys c)) (take 16 frame @ take sb decrypted)"
    and p: "p = take n (drop 8 decrypted)" and n: "n + 8 \<le> sb" and c': "c' = c"
    using assms dec ids
    by (auto simp: HandleEncryptedMessage_def Let_def sb_def n_def dest: close_or_service_payload
        split: if_splits)
  have "take sb decrypted = take 8 (take sb decrypted) @ p @ drop (n + 8) (take sb decrypted)"
  proof -
    have "p = take n (drop 8 (take sb decrypted))" using n p by (simp add: drop_take min_def)
    then show ?thesis by (metis append_take_drop_id drop_drop)
  qed
  moreover have "decrypted = take sb decrypted @ drop sb decrypted" by simp
  ultimately show ?thesis
    using dec ids tag c' unfolding tag_authorized_def by metis
qed

lemma HandleOpen_no_payload: "service_payload (fst (HandleOpen env frame c)) = None"
proof -
  have "service_payload (fst (HandleOpenNone env frame c)) = None"
    by (auto simp: HandleOpenNone_def Let_def BuildOpenResponse_def split: option.split)
  moreover have "service_payload (fst (HandleOpenSecure env config frame c)) = None" for config
    by (auto simp: HandleOpenSecure_def complete_secure_open_def Let_def
        split: option.split prod.split)
  ultimately show ?thesis by (simp add: HandleOpen_def split: option.split)
qed

lemma HandleFrame_payload:
  assumes "HandleFrame env frame c = Some (r, c')" and p: "service_payload r = Some p"
  shows "opened c \<and> c' = c \<and> (if basic256_active c then tag_authorized (env_ssl env) c frame p
    else plain_authorized c frame p)"
  using HandleFrame_cases [OF assms(1)]
proof (elim disjE exE)
  assume "HandleOpen env frame c = (r, c')"
  then show ?thesis using HandleOpen_no_payload [of env frame c] p by simp
next
  fix b assume h: "HandleSecureMessage (env_ssl env) frame b c = Some (r, c')"
  have o: "opened c" using h p by (auto simp: HandleSecureMessage_def split: if_splits)
  show ?thesis
  proof (cases "basic256_active c")
    case True
    then show ?thesis
      using h o HandleEncryptedMessage_payload [OF _ p] by (simp add: HandleSecureMessage_def)
  next
    case False
    then show ?thesis
      using h o HandlePlainMessage_payload [OF _ p] by (simp add: HandleSecureMessage_def)
  qed
qed (use p in simp)

section \<open>Token renewal under SecurityPolicy None\<close>

lemma HandleOpenNone_open:
  assumes "DecodeSecureConversationMessage frame = Some m"
    and "scm_asymmetric m = Some a" and "security_policy_uri a = kSecurityPolicyNone"
    and "DecodeOpenSecureChannelRequestBody (scm_body m) = Some rq" and "security_mode rq = ModeNone"
    and tok: "tok = (if request_type rq = RequestRenew then token_id c + 1 else token_id c)"
  shows "snd (HandleOpenNone env frame c) = c\<lparr>
      previous_token_id := (if request_type rq = RequestRenew then token_id c else previous_token_id c),
      token_id := tok, next_sequence_number := next_sequence_number c + 1, opened := True\<rparr>"
    and "outbound_frame (fst (HandleOpenNone env frame c))
      = fst (BuildOpenResponse env m rq (status_of_code Good) (c\<lparr>token_id := tok\<rparr>))"
  using assms by (simp_all add: HandleOpenNone_def BuildOpenResponse_def open_response_def Let_def)

lemma wire_len_policy: "wire_len kSecurityPolicyNone" "wire_len kSecurityPolicyBasic256Sha256"
  by (simp_all add: kSecurityPolicyNone_def kSecurityPolicyBasic256Sha256_def)

lemma length_response_body:
  "length (EncodeOpenSecureChannelResponseBody (open_response env c rq s nonce)) \<le> 100 + length nonce"
  by (simp add: EncodeOpenSecureChannelResponseBody_def AppendMessage_def AppendResponseHeader_def
      enc_byte_string_def open_response_def enc_node_id_def Let_def)

text \<open>The response a client reads back names the channel and the token it must use next.\<close>

lemma BuildOpenResponse_decodes:
  "\<exists>bs m. fst (BuildOpenResponse env rm rq (status_of_code Good) c) = Some bs
     \<and> DecodeSecureConversationMessage bs = Some m
     \<and> sequence_number (scm_sequence_header m) = next_sequence_number c
     \<and> request_id (scm_sequence_header m) = request_id (scm_sequence_header rm)
     \<and> fh_message_type (scm_frame_header m) = SecureOpen
     \<and> scm_asymmetric m = Some \<lparr>security_policy_uri = kSecurityPolicyNone, sender_certificate = [],
          receiver_certificate_thumbprint = []\<rparr>
     \<and> DecodeOpenSecureChannelResponseBody (scm_body m)
       = Some (open_response env c rq (status_of_code Good) [])"
proof -
  let ?body = "EncodeOpenSecureChannelResponseBody (open_response env c rq (status_of_code Good) [])"
  let ?m = "\<lparr>scm_frame_header = \<lparr>fh_message_type = SecureOpen, fh_chunk_type = kFinalChunk,
          fh_message_size = 0\<rparr>,
        secure_channel_id = channel_id c,
        scm_asymmetric = Some \<lparr>security_policy_uri = kSecurityPolicyNone, sender_certificate = [],
          receiver_certificate_thumbprint = []\<rparr>,
        scm_symmetric = None,
        scm_sequence_header = \<lparr>sequence_number = next_sequence_number c,
          request_id = request_id (scm_sequence_header rm)\<rparr>,
        scm_body = ?body\<rparr>"
  obtain bs where bs: "EncodeSecureConversationMessage ?m = Some bs"
    by (simp add: EncodeSecureConversationMessage_def enc_security_header_def Let_def)
  have ok: "scm_ok ?m" using wire_len_policy by (simp add: scm_ok_def)
  have "length bs = 8 + 4 + (4 + length kSecurityPolicyNone + 4 + 4) + 8 + length ?body"
    using bs by (auto simp: EncodeSecureConversationMessage_def enc_security_header_def Let_def
        enc_asymmetric_def enc_string_def enc_byte_string_def stamp_size_header)
  then have len: "length bs < 2 ^ 32"
    using length_response_body [of env c rq "status_of_code Good" "[]"]
    by (simp add: kSecurityPolicyNone_def)
  have "DecodeOpenSecureChannelResponseBody ?body = Some (open_response env c rq (status_of_code Good) [])"
    by (rule DecodeOpenResponse_Encode) (simp_all add: open_response_def)
  then show ?thesis
    using DecodeSecure_Encode [OF bs ok len] bs by (simp add: BuildOpenResponse_def)
qed

section \<open>The encrypted path round trip\<close>

lemma pad_to_multiple: "0 < b \<Longrightarrow> (n + pad_to b n) mod b = 0"
proof -
  assume b: "0 < b"
  have "(n + (b - n mod b)) mod b = 0"
  proof -
    have "n + (b - n mod b) = b * (n div b) + b"
      using mod_less_divisor [OF b, of n] mult_div_mod_eq [of b n] by linarith
    then show ?thesis by simp
  qed
  then show ?thesis by (simp add: pad_to_def mod_add_right_eq)
qed

lemma pad_to_less: "0 < b \<Longrightarrow> pad_to b n < b"
  by (simp add: pad_to_def)

lemma FixUp_idem:
  assumes "length (EncodeFrameHeader h @ rest) = n"
  shows "FixUpFrameSize (EncodeFrameHeader (h\<lparr>fh_message_size := of_nat n\<rparr>) @ rest)
    = EncodeFrameHeader (h\<lparr>fh_message_size := of_nat n\<rparr>) @ rest"
  using assms by (simp add: FixUpFrameSize_def stamp_size_header)

lemma secure_msg_header_eq:
  "secure_msg_header c n = EncodeFrameHeader \<lparr>fh_message_type = SecureMessage,
     fh_chunk_type = kFinalChunk, fh_message_size = of_nat n\<rparr> @ enc_u32 (channel_id c) @ enc_u32 (token_id c)"
proof -
  have "lit ''MSGF'' @ [0, 0, 0, 0] = EncodeFrameHeader \<lparr>fh_message_type = SecureMessage,
     fh_chunk_type = kFinalChunk, fh_message_size = 0\<rparr>"
    by (simp add: EncodeFrameHeader_def lit_def kFinalChunk_def enc_u32_def byte_at_def)
  then show ?thesis
    unfolding secure_msg_header_def by (metis append_assoc stamp_size_header frame_header.update_convs(3))
qed

text \<open>What the sender puts on the wire, spelled out.\<close>

lemma BuildSecureServiceResponse_frame:
  fixes rid :: u32 and body :: bytes and a :: secure_channel
  assumes law: "aes_law ssl" and keys: "keys_ok (outbound_keys a)"
  defines "head \<equiv> enc_u32 (next_sequence_number a) @ enc_u32 rid"
  defines "pad \<equiv> pad_to 16 (length (head @ body) + 1 + 32)"
  defines "plain \<equiv> head @ body @ padding pad"
  defines "header \<equiv> secure_msg_header a (16 + (length plain + 32))"
  defines "tag \<equiv> HmacSha256 ssl (signing_key (outbound_keys a)) (header @ plain)"
  shows "\<exists>cipher. BuildSecureServiceResponse ssl rid body a
      = (Some (header @ cipher), a\<lparr>next_sequence_number := next_sequence_number a + 1\<rparr>)
    \<and> AesCbcDecrypt ssl (encrypting_key (outbound_keys a))
        (initialization_vector (outbound_keys a)) cipher = Some (plain @ tag)
    \<and> length cipher = length plain + 32"
proof -
  have "(length (head @ body) + 1 + 32 + pad) mod 16 = 0"
    unfolding pad_def by (rule pad_to_multiple) simp
  moreover have "length (plain @ tag) = length (head @ body) + 1 + 32 + pad"
    by (simp add: plain_def padding_def tag_def)
  ultimately have m: "length (plain @ tag) mod 16 = 0" by simp
  obtain cipher where cipher: "aes_cbc_encrypt ssl (encrypting_key (outbound_keys a))
      (initialization_vector (outbound_keys a)) (plain @ tag) = Some cipher"
    "length cipher = length (plain @ tag)"
    "aes_cbc_decrypt ssl (encrypting_key (outbound_keys a))
      (initialization_vector (outbound_keys a)) cipher = Some (plain @ tag)"
    using law [unfolded aes_law_def, rule_format, OF _ _ m] keys by (auto simp: keys_ok_def)
  have pad: "pad < 16" unfolding pad_def by (rule pad_to_less) simp
  have pad_eq: "pad = pad_to 16 (41 + length body)" by (simp add: pad_def head_def)
  have fixup: "FixUpFrameSize (header @ cipher) = header @ cipher"
    using FixUp_idem [of "\<lparr>fh_message_type = SecureMessage, fh_chunk_type = kFinalChunk,
        fh_message_size = 0\<rparr>" "enc_u32 (channel_id a) @ enc_u32 (token_id a) @ cipher"
        "16 + (length plain + 32)"] cipher(2)
    by (simp add: header_def secure_msg_header_eq tag_def)
  have "BuildSecureServiceResponse ssl rid body a
      = (Some (header @ cipher), a\<lparr>next_sequence_number := next_sequence_number a + 1\<rparr>)"
    using pad m keys cipher(1) fixup
    by (simp add: BuildSecureServiceResponse_def Let_def pad_eq [symmetric] AesCbcEncrypt_def
        keys_ok_def plain_def tag_def header_def head_def)
  moreover have "AesCbcDecrypt ssl (encrypting_key (outbound_keys a))
      (initialization_vector (outbound_keys a)) cipher = Some (plain @ tag)"
    using cipher keys m by (simp add: AesCbcDecrypt_def keys_ok_def)
  ultimately show ?thesis using cipher(2) by (simp add: tag_def)
qed

text \<open>What the receiver does with a well-formed chunk.\<close>

lemma HandleEncryptedMessage_ok:
  assumes "16 \<le> length frame" and "load_u32 (drop 8 frame) = channel_id c"
    and "load_u32 (drop 12 frame) = token_id c"
    and dec: "AesCbcDecrypt ssl (encrypting_key (inbound_keys c)) (initialization_vector (inbound_keys c))
      (drop 16 frame) = Some (plain @ tag)"
    and tag: "tag = HmacSha256 ssl (signing_key (inbound_keys c)) (take 16 frame @ plain)"
    and plain: "plain = hdr @ body @ padding n" and hdr: "length hdr = 8" and n: "n < 256"
  shows "HandleEncryptedMessage ssl frame is_close c
    = Some (close_or_service is_close body (load_u32 (drop 4 (plain @ tag))) c)"
proof -
  have tl: "length tag = 32" by (simp add: tag)
  have pad: "unat (of_nat n :: byte) = n" using n by (intro unat_of_nat_small) simp
  have len: "length plain = 8 + length body + n + 1" by (simp add: plain hdr padding_def)
  have last: "(plain @ tag) ! (length plain - Suc 0) = of_nat n"
    by (simp add: nth_append plain padding_def)
  have body: "take (length plain - Suc n - 8) (drop 8 (plain @ tag)) = body"
    by (simp add: len) (simp add: plain hdr)
  show ?thesis
    using assms(1-3) dec tl last len body pad
    by (simp add: HandleEncryptedMessage_def Let_def tag [symmetric] del: append_assoc)
qed

text \<open>
  A peer that holds the same keys the other way round, on the same channel and token,
  recovers the body and the request id.
\<close>

lemma BuildServiceResponse_delivered:
  assumes law: "aes_law ssl" and a: "basic256_active a" "keys_ok (outbound_keys a)"
    and b: "opened b" "basic256_active b" "inbound_keys b = outbound_keys a"
      "channel_id b = channel_id a" "token_id b = token_id a"
    and env: "env_ssl env = ssl" and len: "length body < 2 ^ 31"
  shows "HandleFrame env (fst (BuildServiceResponse ssl rid body a)) b
    = Some (no_result\<lparr>service_payload := Some body, res_request_id := Some rid\<rparr>, b)"
proof -
  let ?head = "enc_u32 (next_sequence_number a) @ enc_u32 rid"
  let ?pad = "pad_to 16 (length (?head @ body) + 1 + 32)"
  let ?plain = "?head @ body @ padding ?pad"
  let ?n = "16 + (length ?plain + 32)"
  let ?header = "secure_msg_header a ?n"
  let ?tag = "HmacSha256 ssl (signing_key (outbound_keys a)) (?header @ ?plain)"
  obtain cipher where frame: "BuildSecureServiceResponse ssl rid body a
      = (Some (?header @ cipher), a\<lparr>next_sequence_number := next_sequence_number a + 1\<rparr>)"
    and dec: "AesCbcDecrypt ssl (encrypting_key (outbound_keys a))
        (initialization_vector (outbound_keys a)) cipher = Some (?plain @ ?tag)"
    and clen: "length cipher = length ?plain + 32"
    using BuildSecureServiceResponse_frame [OF law a(2), of rid body] by blast
  have pad: "?pad < 16" by (rule pad_to_less) simp
  have n: "unat (of_nat ?n :: u32) = ?n"
    using len pad by (intro unat_of_nat_small) (simp add: padding_def)
  have hl: "length ?header = 16" by (simp add: secure_msg_header_eq)
  have "8 \<le> (of_nat ?n :: u32)" using n by (simp add: word_le_nat_alt del: of_nat_add of_nat_Suc)
  then have hd: "DecodeFrameHeader (?header @ cipher) = Some \<lparr>fh_message_type = SecureMessage,
     fh_chunk_type = kFinalChunk, fh_message_size = of_nat ?n\<rparr>"
    unfolding secure_msg_header_eq append_assoc by (subst DecodeFrameHeader_Encode) simp_all
  have size: "unat (fh_message_size \<lparr>fh_message_type = SecureMessage,
     fh_chunk_type = kFinalChunk, fh_message_size = of_nat ?n\<rparr>) = length (?header @ cipher)"
    using n hl clen by simp
  have ids: "load_u32 (drop 8 (?header @ cipher)) = channel_id b"
    "load_u32 (drop 12 (?header @ cipher)) = token_id b"
    using b(4,5) by (simp_all add: secure_msg_header_eq drop_append [of 12])
  have body: "HandleEncryptedMessage ssl (?header @ cipher) False b
      = Some (close_or_service False body (load_u32 (drop 4 (?plain @ ?tag))) b)"
    using pad hl ids dec b(3)
    by (intro HandleEncryptedMessage_ok [where hdr = ?head and n = ?pad]) simp_all
  have rid: "load_u32 (drop 4 (?plain @ ?tag)) = rid" by simp
  have "HandleFrame env (?header @ cipher) b
      = Some (close_or_service False body (load_u32 (drop 4 (?plain @ ?tag))) b)"
    unfolding HandleFrame_def hd option.case size
    using b(1,2) env body by (simp add: HandleSecureMessage_def)
  then show ?thesis
    using a(1) frame rid by (simp add: BuildServiceResponse_def close_or_service_def)
qed

section \<open>Delivery on a plain channel\<close>

definition live_token :: "secure_channel \<Rightarrow> u32 \<Rightarrow> bool" where
  "live_token c tok \<longleftrightarrow> tok = token_id c \<or> previous_token_id c \<noteq> 0 \<and> tok = previous_token_id c"

lemma DecodeSecure_header:
  "DecodeSecureConversationMessage frame = Some m \<Longrightarrow>
     DecodeFrameHeader frame = Some (scm_frame_header m)
     \<and> unat (fh_message_size (scm_frame_header m)) = length frame"
  by (auto simp: DecodeSecureConversationMessage_def Option.bind_eq_Some_conv split: if_splits)

lemma HandleFrame_plain:
  assumes m: "DecodeSecureConversationMessage frame = Some m"
    and "fh_message_type (scm_frame_header m) = SecureMessage" and "opened c" "\<not> basic256_active c"
    and "secure_channel_id m = channel_id c" and "scm_symmetric m = Some tok" and "live_token c tok"
  shows "HandleFrame env frame c = Some (no_result\<lparr>service_payload := Some (scm_body m),
    res_request_id := Some (request_id (scm_sequence_header m))\<rparr>, c)"
  using assms(2-) DecodeSecure_header [OF m] m
  by (auto simp: HandleFrame_def HandleSecureMessage_def HandlePlainMessage_def close_or_service_def
      live_token_def)

lemma peek_policy_uri_decoded:
  assumes "DecodeSecureConversationMessage frame = Some m" and "scm_asymmetric m = Some a"
  shows "peek_policy_uri frame = Some (security_policy_uri a)"
  using assms
  by (auto simp: DecodeSecureConversationMessage_def peek_policy_uri_def decode_security_header_def
      decode_asymmetric_def Option.bind_eq_Some_conv split: if_splits)

text \<open>An OPN frame a client of SecurityPolicy None sends.\<close>

definition none_open :: "bytes \<Rightarrow> open_secure_channel_request \<Rightarrow> bool" where
  "none_open frame rq \<longleftrightarrow> (\<exists>m a. DecodeSecureConversationMessage frame = Some m
     \<and> fh_message_type (scm_frame_header m) = SecureOpen \<and> scm_asymmetric m = Some a
     \<and> security_policy_uri a = kSecurityPolicyNone
     \<and> DecodeOpenSecureChannelRequestBody (scm_body m) = Some rq \<and> security_mode rq = ModeNone)"

lemma HandleFrame_none_open:
  assumes "none_open frame rq" and "none_allowed c"
    and tok: "tok = (if request_type rq = RequestRenew then token_id c + 1 else token_id c)"
  shows "\<exists>r c'. HandleFrame env frame c = Some (r, c')
    \<and> c' = c\<lparr>previous_token_id := (if request_type rq = RequestRenew then token_id c else previous_token_id c),
        token_id := tok, next_sequence_number := next_sequence_number c + 1, opened := True\<rparr>
    \<and> (\<exists>bs resp rs. outbound_frame r = Some bs \<and> DecodeSecureConversationMessage bs = Some resp
        \<and> sequence_number (scm_sequence_header resp) = next_sequence_number c
        \<and> fh_message_type (scm_frame_header resp) = SecureOpen
        \<and> scm_asymmetric resp = Some \<lparr>security_policy_uri = kSecurityPolicyNone, sender_certificate = [],
             receiver_certificate_thumbprint = []\<rparr>
        \<and> DecodeOpenSecureChannelResponseBody (scm_body resp) = Some rs
        \<and> rs = open_response env (c\<lparr>token_id := tok\<rparr>) rq (status_of_code Good) [])"
proof -
  obtain m a where m: "DecodeSecureConversationMessage frame = Some m"
    "fh_message_type (scm_frame_header m) = SecureOpen" "scm_asymmetric m = Some a"
    "security_policy_uri a = kSecurityPolicyNone"
    "DecodeOpenSecureChannelRequestBody (scm_body m) = Some rq" "security_mode rq = ModeNone"
    using assms(1) by (auto simp: none_open_def)
  have h: "HandleFrame env frame c = Some (HandleOpenNone env frame c)"
    using DecodeSecure_header [OF m(1)] m(2) peek_policy_uri_decoded [OF m(1,3)] m(4) assms(2)
    by (simp add: HandleFrame_def HandleOpen_def)
  note o = HandleOpenNone_open [OF m(1,3,4,5,6) tok, of env]
  obtain bs resp where resp: "fst (BuildOpenResponse env m rq (status_of_code Good) (c\<lparr>token_id := tok\<rparr>)) = Some bs"
     "DecodeSecureConversationMessage bs = Some resp"
     "sequence_number (scm_sequence_header resp) = next_sequence_number c"
     "fh_message_type (scm_frame_header resp) = SecureOpen"
     "scm_asymmetric resp = Some \<lparr>security_policy_uri = kSecurityPolicyNone, sender_certificate = [],
        receiver_certificate_thumbprint = []\<rparr>"
     "DecodeOpenSecureChannelResponseBody (scm_body resp)
       = Some (open_response env (c\<lparr>token_id := tok\<rparr>) rq (status_of_code Good) [])"
    using BuildOpenResponse_decodes [of env m rq "c\<lparr>token_id := tok\<rparr>"] by auto
  show ?thesis
    using h o resp by (cases "HandleOpenNone env frame c") (auto simp: open_response_def)
qed

lemma reachable_config:
  "channel_step\<^sup>*\<^sup>* c c' \<Longrightarrow> sc_config c' = sc_config c"
proof (induction rule: rtranclp_induct)
  case (step y z)
  from step.hyps(2) have "sc_config z = sc_config y"
  proof cases
    case (frame env f r)
    then show ?thesis
      using HandleFrame_cases [OF frame] HandleOpen_cases [of env f y r z] HandleSecureMessage_same
        HandleOpenNone_same [of y env f] HandleOpenSecure_state
      unfolding same_security_def by (metis snd_conv)
  next
    case (response ssl rid body bs)
    then show ?thesis using BuildServiceResponse_snd [of ssl rid body y] by simp
  qed
  with step.IH show ?case by simp
qed simp

text \<open>
  Concrete pieces for runs: a client's OPN frame, a service frame, and a stand-in for
  OpenSSL whose ciphers are the identity.
\<close>

definition example_request :: "u32 \<Rightarrow> open_secure_channel_request" where
  "example_request rt = \<lparr>osq_request_header = \<lparr>rqh_request_handle = 1, rqh_return_diagnostics = 0,
     rqh_audit_entry_id = [], rqh_timeout_hint = 0\<rparr>, client_protocol_version = 0,
     request_type = rt, security_mode = ModeNone, client_nonce = [], requested_lifetime = 60000\<rparr>"

definition example_open :: "u32 \<Rightarrow> secure_conversation_message" where
  "example_open rt = \<lparr>scm_frame_header = \<lparr>fh_message_type = SecureOpen, fh_chunk_type = kFinalChunk,
       fh_message_size = 0\<rparr>, secure_channel_id = 0,
     scm_asymmetric = Some \<lparr>security_policy_uri = kSecurityPolicyNone, sender_certificate = [],
       receiver_certificate_thumbprint = []\<rparr>, scm_symmetric = None,
     scm_sequence_header = \<lparr>sequence_number = 1, request_id = 1\<rparr>,
     scm_body = EncodeOpenSecureChannelRequestBody (example_request rt)\<rparr>"

definition example_message :: "u32 \<Rightarrow> secure_conversation_message" where
  "example_message tok = \<lparr>scm_frame_header = \<lparr>fh_message_type = SecureMessage,
       fh_chunk_type = kFinalChunk, fh_message_size = 0\<rparr>, secure_channel_id = 1,
     scm_asymmetric = None, scm_symmetric = Some tok,
     scm_sequence_header = \<lparr>sequence_number = 2, request_id = 7\<rparr>, scm_body = [1, 2, 3]\<rparr>"

definition frame_of :: "secure_conversation_message \<Rightarrow> bytes" where
  "frame_of m = (case EncodeSecureConversationMessage m of Some f \<Rightarrow> f | None \<Rightarrow> [])"

definition null_ssl :: openssl where
  "null_ssl = \<lparr>pkey_size = \<lambda>_. 256, oaep_encrypt = \<lambda>_ p. Some p, oaep_decrypt = \<lambda>_ p. Some p,
     digest_sign = \<lambda>_ _. Some [], digest_verify = \<lambda>_ _ _. True, hmac_sha256 = \<lambda>_ _. 0,
     sha1 = \<lambda>_. 0, aes_cbc_encrypt = \<lambda>_ _ p. Some p, aes_cbc_decrypt = \<lambda>_ _ p. Some p,
     d2i_X509 = \<lambda>_. None, i2d_X509 = \<lambda>_. None, X509_get_pubkey = \<lambda>_. None,
     RAND_bytes = \<lambda>_. None\<rparr>"

definition null_env :: channel_env where
  "null_env = \<lparr>env_ssl = null_ssl, env_now = 0, env_generated_nonce = None\<rparr>"

lemma example_message_decodes:
  "DecodeSecureConversationMessage (frame_of (example_message tok)) =
     Some ((example_message tok)\<lparr>scm_frame_header := \<lparr>fh_message_type = SecureMessage,
       fh_chunk_type = kFinalChunk, fh_message_size = 27\<rparr>\<rparr>)"
proof -
  obtain f where f: "EncodeSecureConversationMessage (example_message tok) = Some f" "length f = 27"
    by (simp add: EncodeSecureConversationMessage_def enc_security_header_def Let_def
        stamp_size_header example_message_def)
  then show ?thesis
    using DecodeSecure_Encode [OF f(1)] by (simp add: frame_of_def scm_ok_def example_message_def)
qed

lemma example_open_is_open: "none_open (frame_of (example_open rt)) (example_request rt)"
proof -
  obtain f where f: "EncodeSecureConversationMessage (example_open rt) = Some f"
    and l: "length f = 8 + 4 + (4 + length kSecurityPolicyNone + 4 + 4) + 8
      + length (EncodeOpenSecureChannelRequestBody (example_request rt))"
    by (simp add: EncodeSecureConversationMessage_def enc_security_header_def Let_def
        stamp_size_header example_open_def enc_asymmetric_def enc_string_def enc_byte_string_def)
  have "length (EncodeOpenSecureChannelRequestBody (example_request rt)) \<le> 100"
    by (simp add: EncodeOpenSecureChannelRequestBody_def AppendMessage_def AppendRequestHeader_def
        example_request_def enc_node_id_def enc_string_def enc_byte_string_def)
  then have "length f < 2 ^ 32" by (simp add: l kSecurityPolicyNone_def)
  moreover have "scm_ok (example_open rt)"
    using wire_len_policy by (simp add: scm_ok_def example_open_def)
  moreover have "DecodeOpenSecureChannelRequestBody (EncodeOpenSecureChannelRequestBody (example_request rt))
      = Some (example_request rt)"
    by (rule DecodeOpenRequest_Encode) (simp_all add: example_request_def)
  ultimately show ?thesis
    using DecodeSecure_Encode [OF f] f
    by (simp add: none_open_def frame_of_def) (simp add: example_open_def example_request_def)
qed

section \<open>Properties\<close>

text \<open>
  C30. A frame yields a service payload only on an opened channel, and then the frame was
  authorised: under SecurityPolicy None it named this channel and a live token (the current
  one, or the one the last renewal superseded); under Basic256Sha256 it named the current
  token and its decrypted content carries the HMAC of header and plaintext under the inbound
  key. The channel itself is unchanged.
\<close>

theorem service_payload_authorized:
  assumes "HandleFrame env frame c = Some (r, c')" and "service_payload r = Some p"
  shows "opened c \<and> c' = c \<and> (if basic256_active c then tag_authorized (env_ssl env) c frame p
    else plain_authorized c frame p)"
  using assms by (rule HandleFrame_payload)

theorem service_payload_authorized_witness:
  "plain_authorized ((make_secure_channel None 1)\<lparr>opened := True\<rparr>) (frame_of (example_message 1)) [1, 2, 3]"
proof -
  let ?c = "(make_secure_channel None 1)\<lparr>opened := True\<rparr>"
  have c: "opened ?c" "\<not> basic256_active ?c" "channel_id ?c = 1" "live_token ?c 1"
    by (simp_all add: make_secure_channel_def live_token_def)
  have "HandleFrame null_env (frame_of (example_message 1)) ?c =
      Some (no_result\<lparr>service_payload := Some [1, 2, 3], res_request_id := Some 7\<rparr>, ?c)"
    using c HandleFrame_plain [OF example_message_decodes _ c(1,2) _ _ c(4), where env = null_env]
    by (simp add: example_message_def)
  from service_payload_authorized [OF this] show ?thesis using c by simp
qed

text \<open>
  C31. In every state a channel reaches, whatever frames arrive and responses are built: if
  the configuration forbids SecurityPolicy None, an opened channel is an encrypted one; and
  an encrypted channel has full-length keys and nonce, belongs to a server that offers
  Basic256Sha256, and holds a client certificate that the configured validation accepted.
\<close>

theorem channel_security_invariant:
  assumes "channel_step\<^sup>*\<^sup>* (make_secure_channel config cid) c"
  shows "(opened c \<longrightarrow> basic256_active c \<or> none_allowed (make_secure_channel config cid))
    \<and> (basic256_active c \<longrightarrow> (\<exists>cfg. config = Some cfg \<and> secured cfg c))"
proof -
  have "channel_inv c" using channel_reachable_inv [OF assms channel_inv_make] .
  moreover have "sc_config c = config"
    using reachable_config [OF assms] by (simp add: make_secure_channel_def)
  ultimately show ?thesis
    by (auto simp: channel_inv_def none_allowed_def make_secure_channel_def)
qed

theorem channel_security_invariant_witness:
  "\<exists>c. channel_step\<^sup>*\<^sup>* (make_secure_channel None 1) c \<and> opened c
     \<and> (opened c \<longrightarrow> basic256_active c \<or> none_allowed (make_secure_channel None 1))"
proof -
  have "none_allowed (make_secure_channel None 1)"
    by (simp add: none_allowed_def make_secure_channel_def)
  from HandleFrame_none_open [OF example_open_is_open this refl]
  obtain r c where "HandleFrame null_env (frame_of (example_open RequestIssue)) (make_secure_channel None 1)
      = Some (r, c)" and o: "opened c" by fastforce
  then have reach: "channel_step\<^sup>*\<^sup>* (make_secure_channel None 1) c" by (blast intro: channel_step.frame)
  then show ?thesis using channel_security_invariant [OF reach] o by blast
qed

text \<open>
  C32. Renewing the token of a plain channel that is open, so has a token other than 0: the response tells the client the new token,
  the channel moves on to it, and until the next renewal a message that carries either the
  new or the superseded token is still delivered, with its body and request id.
\<close>

theorem renewal_overlap:
  assumes "none_open frame rq" and "request_type rq = RequestRenew" and "none_allowed c"
    and "\<not> basic256_active c" and "token_id c \<noteq> 0"
  shows "\<exists>r c' bs resp rs. HandleFrame env frame c = Some (r, c') \<and> outbound_frame r = Some bs
    \<and> DecodeSecureConversationMessage bs = Some resp
    \<and> DecodeOpenSecureChannelResponseBody (scm_body resp) = Some rs
    \<and> cst_token_id (security_token rs) = token_id c + 1 \<and> token_id c' = token_id c + 1
    \<and> (\<forall>msg m tok. DecodeSecureConversationMessage msg = Some m \<longrightarrow>
         fh_message_type (scm_frame_header m) = SecureMessage \<longrightarrow>
         secure_channel_id m = channel_id c \<longrightarrow> scm_symmetric m = Some tok \<longrightarrow>
         tok \<in> {token_id c, token_id c + 1} \<longrightarrow>
         HandleFrame env msg c' = Some (no_result\<lparr>service_payload := Some (scm_body m),
           res_request_id := Some (request_id (scm_sequence_header m))\<rparr>, c'))"
proof -
  obtain r c' bs resp rs where h: "HandleFrame env frame c = Some (r, c')"
    and c': "c' = c\<lparr>previous_token_id := token_id c, token_id := token_id c + 1,
       next_sequence_number := next_sequence_number c + 1, opened := True\<rparr>"
    and o: "outbound_frame r = Some bs" "DecodeSecureConversationMessage bs = Some resp"
      "DecodeOpenSecureChannelResponseBody (scm_body resp) = Some rs"
      "cst_token_id (security_token rs) = token_id c + 1"
    using HandleFrame_none_open [OF assms(1,3) refl, of env] assms(2) by (auto simp: open_response_def)
  have "HandleFrame env msg c' = Some (no_result\<lparr>service_payload := Some (scm_body m),
           res_request_id := Some (request_id (scm_sequence_header m))\<rparr>, c')"
    if "DecodeSecureConversationMessage msg = Some m" "fh_message_type (scm_frame_header m) = SecureMessage"
      "secure_channel_id m = channel_id c" "scm_symmetric m = Some tok"
      "tok \<in> {token_id c, token_id c + 1}" for msg m tok
    using that assms(4,5) by (intro HandleFrame_plain [where tok = tok]) (auto simp: c' live_token_def)
  then show ?thesis using h o c' by auto
qed

theorem renewal_overlap_witness:
  "\<exists>r c'. HandleFrame null_env (frame_of (example_open RequestRenew)) (make_secure_channel None 1) = Some (r, c')
     \<and> token_id c' = 2
     \<and> HandleFrame null_env (frame_of (example_message 1)) c'
       = Some (no_result\<lparr>service_payload := Some [1, 2, 3], res_request_id := Some 7\<rparr>, c')"
proof -
  let ?c = "make_secure_channel None 1"
  have c: "none_allowed ?c" "\<not> basic256_active ?c" "token_id ?c \<noteq> 0" "channel_id ?c = 1" "token_id ?c = 1"
    by (simp_all add: none_allowed_def make_secure_channel_def)
  have "request_type (example_request RequestRenew) = RequestRenew" by (simp add: example_request_def)
  from renewal_overlap [OF example_open_is_open this c(1-3), of null_env] c(4,5)
    example_message_decodes [of 1]
  show ?thesis by (fastforce simp: example_message_def)
qed

text \<open>
  C33. Frame handling is defined on every frame in every state but one: a symmetric frame on
  an encrypted channel whose whole plaintext is the valid tag of its header. There the code
  reads the padding size one byte before the start of the decrypted buffer.
\<close>

theorem handle_frame_undefined_iff:
  "HandleFrame env frame c = None \<longleftrightarrow>
     (\<exists>h. DecodeFrameHeader frame = Some h \<and> unat (fh_message_size h) = length frame
        \<and> fh_message_type h \<in> {SecureMessage, SecureClose})
     \<and> opened c \<and> basic256_active c \<and> 16 \<le> length frame
     \<and> load_u32 (drop 8 frame) = channel_id c \<and> load_u32 (drop 12 frame) = token_id c
     \<and> AesCbcDecrypt (env_ssl env) (encrypting_key (inbound_keys c))
         (initialization_vector (inbound_keys c)) (drop 16 frame)
       = Some (HmacSha256 (env_ssl env) (signing_key (inbound_keys c)) (take 16 frame))"
proof -
  have enc: "HandleEncryptedMessage ssl frame b c = None \<longleftrightarrow> 16 \<le> length frame
     \<and> load_u32 (drop 8 frame) = channel_id c \<and> load_u32 (drop 12 frame) = token_id c
     \<and> AesCbcDecrypt ssl (encrypting_key (inbound_keys c))
         (initialization_vector (inbound_keys c)) (drop 16 frame)
       = Some (HmacSha256 ssl (signing_key (inbound_keys c)) (take 16 frame))" for ssl b
    by (auto simp: HandleEncryptedMessage_def Let_def split: option.splits)
  show ?thesis
  proof (cases "DecodeFrameHeader frame")
    case (Some h)
    then show ?thesis
      by (cases "fh_message_type h")
        (auto simp: HandleFrame_def HandleSecureMessage_def enc)
  qed (simp add: HandleFrame_def)
qed

end
