(* ===== verification/Ua_Tcp.thy ===== *)
theory Ua_Tcp
  imports Ua_Secure_Channel
begin

text \<open>
  The server side of one UA TCP connection, \<^verbatim>\<open>opcua/transport/binary/tcp_connection.cpp\<close>:
  cutting the byte stream into frames, the Hello handshake, handing secure-channel frames to
  the channel, and reassembling chunked messages. What the coroutines write to the transport
  and the service frames they start are the list of actions of a call. A call is \<open>None\<close>
  where the channel reads outside a buffer.
\<close>

section \<open>State\<close>

record tcp_connection =
  limits :: transport_limits
  max_frame_size :: nat
  hello_received :: bool
  tc_channel :: secure_channel
  partial_message :: bytes
  partial_request_id :: "u32 option"
  partial_chunk_count :: nat
  pending_service_frames :: nat
  frame_count :: nat

text \<open>
  \<open>frame_count\<close> is the number of frames handed to \<open>ProcessFrame\<close> so far; it selects the
  environment (clock, OpenSSL, nonce) the next one sees and is not a member of the class.
\<close>

datatype tcp_action = WriteBytes bytes | StartService bytes u32 bool bytes

type_synonym tcp_outcome = "(bool \<times> tcp_connection \<times> tcp_action list) option"

definition make_tcp_connection :: "transport_limits \<Rightarrow> nat \<Rightarrow> server_config option \<Rightarrow> tcp_connection" where
  "make_tcp_connection lim max_frame config = \<lparr>limits = lim, max_frame_size = max_frame,
     hello_received = False, tc_channel = make_secure_channel config 1, partial_message = [],
     partial_request_id = None, partial_chunk_count = 0, pending_service_frames = 0,
     frame_count = 0\<rparr>"

abbreviation kDefaultMaxChunkCount :: nat where "kDefaultMaxChunkCount \<equiv> 8192"

section \<open>Operations\<close>

definition WriteErrorAndClose :: "string \<Rightarrow> tcp_connection \<Rightarrow> tcp_outcome" where
  "WriteErrorAndClose reason t = Some (False, t,
     [WriteBytes (EncodeErrorMessage \<lparr>err_error = status_of_code Bad, err_reason = lit reason\<rparr>)])"

definition ResetReassembly :: "tcp_connection \<Rightarrow> tcp_connection" where
  "ResetReassembly t = t\<lparr>partial_message := [], partial_request_id := None, partial_chunk_count := 0\<rparr>"

definition StartServiceFrame :: "bytes \<Rightarrow> u32 \<Rightarrow> tcp_connection \<Rightarrow> tcp_connection \<times> tcp_action" where
  "StartServiceFrame payload rid t =
     (t\<lparr>pending_service_frames := pending_service_frames t + 1\<rparr>,
      StartService payload rid (basic256_active (tc_channel t)) (client_certificate_der (tc_channel t)))"

definition max_chunk_count :: "tcp_connection \<Rightarrow> nat" where
  "max_chunk_count t = (if lim_max_chunk_count (limits t) \<noteq> 0
     then unat (lim_max_chunk_count (limits t)) else kDefaultMaxChunkCount)"

definition max_message_bytes :: "tcp_connection \<Rightarrow> nat" where
  "max_message_bytes t = (if lim_max_message_size (limits t) \<noteq> 0
     then unat (lim_max_message_size (limits t)) else max_frame_size t)"

definition ProcessSecureMessageChunk :: "byte \<Rightarrow> bytes \<Rightarrow> u32 \<Rightarrow> tcp_connection \<Rightarrow> tcp_outcome" where
  "ProcessSecureMessageChunk chunk_type payload rid t =
     (if chunk_type = kAbortChunk then Some (True, ResetReassembly t, [])
      else if chunk_type \<noteq> kIntermediateChunk \<and> chunk_type \<noteq> kFinalChunk
      then WriteErrorAndClose ''Invalid UA Secure Conversation chunk type'' (ResetReassembly t)
      else if partial_chunk_count t + 1 > max_chunk_count t
      then WriteErrorAndClose ''UA Secure Conversation message exceeds max chunk count''
        (ResetReassembly t)
      else if length (partial_message t) + length payload > max_message_bytes t
      then WriteErrorAndClose ''UA Secure Conversation message too large'' (ResetReassembly t)
      else (let t = t\<lparr>partial_chunk_count := partial_chunk_count t + 1,
                partial_request_id := Some rid, partial_message := partial_message t @ payload\<rparr>
        in if chunk_type = kIntermediateChunk then Some (True, t, [])
           else (let (t', a) = StartServiceFrame (partial_message t) rid (ResetReassembly t)
             in Some (True, t', [a]))))"

definition ProcessHello :: "bytes \<Rightarrow> tcp_connection \<Rightarrow> tcp_outcome" where
  "ProcessHello frame t =
     (if hello_received t then WriteErrorAndClose ''Hello may only be sent once per connection'' t
      else (case DecodeHelloMessage frame of
          None \<Rightarrow> WriteErrorAndClose ''Malformed Hello message'' t
        | Some hello \<Rightarrow> (case NegotiateHello hello (limits t) of
            Inl e \<Rightarrow> Some (False, t, [WriteBytes (EncodeErrorMessage e)])
          | Inr ack \<Rightarrow> Some (True, t\<lparr>hello_received := True\<rparr>,
              [WriteBytes (EncodeAcknowledgeMessage ack)]))))"

definition ProcessSecureFrame :: "channel_env \<Rightarrow> byte \<Rightarrow> bytes \<Rightarrow> tcp_connection \<Rightarrow> tcp_outcome" where
  "ProcessSecureFrame env chunk_type frame t =
     (if \<not> hello_received t
      then WriteErrorAndClose ''SecureChannel traffic received before Hello/Acknowledge'' t
      else do {
        (result, channel) \<leftarrow> HandleFrame env frame (tc_channel t);
        let t = t\<lparr>tc_channel := channel\<rparr>;
        let written = (case outbound_frame result of
            Some f \<Rightarrow> if f \<noteq> [] then [WriteBytes f] else [] | None \<Rightarrow> []);
        if close_transport result then Some (False, t, written)
        else (case (service_payload result, res_request_id result) of
            (Some payload, Some rid) \<Rightarrow> do {
              (ok, t, acts) \<leftarrow> ProcessSecureMessageChunk chunk_type payload rid t;
              Some (ok, t, written @ acts) }
          | _ \<Rightarrow> Some (True, t, written)) })"

definition ProcessFrame :: "channel_env \<Rightarrow> bytes \<Rightarrow> tcp_connection \<Rightarrow> tcp_outcome" where
  "ProcessFrame env frame t =
     (case DecodeFrameHeader frame of
        None \<Rightarrow> WriteErrorAndClose ''Invalid UA TCP frame header'' t
      | Some h \<Rightarrow> (case fh_message_type h of
          Hello \<Rightarrow> ProcessHello frame t
        | SecureOpen \<Rightarrow> ProcessSecureFrame env (fh_chunk_type h) frame t
        | SecureMessage \<Rightarrow> ProcessSecureFrame env (fh_chunk_type h) frame t
        | SecureClose \<Rightarrow> ProcessSecureFrame env (fh_chunk_type h) frame t
        | _ \<Rightarrow> WriteErrorAndClose ''Unexpected UA TCP message type for server connection'' t))"

text \<open>
  The loop over the buffered bytes. It returns the bytes it leaves pending.
\<close>

function ProcessBufferedFrames :: "(nat \<Rightarrow> channel_env) \<Rightarrow> bytes \<Rightarrow> tcp_connection
    \<Rightarrow> (bool \<times> bytes \<times> tcp_connection \<times> tcp_action list) option" where
  "ProcessBufferedFrames envs pending t =
     (if length pending < 8 then Some (True, pending, t, [])
      else (case DecodeFrameHeader (take 8 pending) of
          None \<Rightarrow> map_option (\<lambda>(ok, t, acts). (ok, pending, t, acts))
            (WriteErrorAndClose ''Invalid UA TCP frame header'' t)
        | Some h \<Rightarrow>
          if unat (fh_message_size h) > max_frame_size t
          then map_option (\<lambda>(ok, t, acts). (ok, pending, t, acts))
            (WriteErrorAndClose ''UA TCP frame too large'' t)
          else if length pending < unat (fh_message_size h) then Some (True, pending, t, [])
          else (case ProcessFrame (envs (frame_count t)) (take (unat (fh_message_size h)) pending)
                  (t\<lparr>frame_count := frame_count t + 1\<rparr>) of
              None \<Rightarrow> None
            | Some (ok, t, acts) \<Rightarrow>
                if \<not> ok then Some (False, drop (unat (fh_message_size h)) pending, t, acts)
                else map_option (\<lambda>(ok, rest, t, acts'). (ok, rest, t, acts @ acts'))
                  (ProcessBufferedFrames envs (drop (unat (fh_message_size h)) pending) t))))"
  by pat_completeness auto

lemma header_size_pos: "DecodeFrameHeader bs = Some h \<Longrightarrow> 8 \<le> unat (fh_message_size h)"
  using DecodeFrameHeader_Some(2) by (fastforce simp: word_le_nat_alt)

termination ProcessBufferedFrames
  by (relation "measure (\<lambda>(envs, pending, t). length pending)") (auto dest: header_size_pos)

declare ProcessBufferedFrames.simps [simp del]

text \<open>One turn of the read loop of \<open>Run\<close>: what was read joins the pending bytes.\<close>

definition RunRead :: "(nat \<Rightarrow> channel_env) \<Rightarrow> bytes \<Rightarrow> bytes \<Rightarrow> tcp_connection
    \<Rightarrow> (bool \<times> bytes \<times> tcp_connection \<times> tcp_action list) option" where
  "RunRead envs chunk pending t =
     (if chunk = [] then Some (False, pending, t, [])
      else ProcessBufferedFrames envs (pending @ chunk) t)"

text \<open>
  The end of a started service frame: the handler's answer, if there is one, is framed and
  written, then the frame is accounted for.
\<close>

definition FinishServiceFrame :: "tcp_connection \<Rightarrow> tcp_connection" where
  "FinishServiceFrame t = (if pending_service_frames t = 0 then t
     else t\<lparr>pending_service_frames := pending_service_frames t - 1\<rparr>)"

definition CompleteServiceFrame :: "openssl \<Rightarrow> u32 \<Rightarrow> bytes option \<Rightarrow> tcp_connection
    \<Rightarrow> tcp_connection \<times> tcp_action list" where
  "CompleteServiceFrame ssl rid outbound t =
     (case outbound of
        Some body \<Rightarrow>
          if body \<noteq> [] then (let (frame, channel) = BuildServiceResponse ssl rid body (tc_channel t)
            in (FinishServiceFrame (t\<lparr>tc_channel := channel\<rparr>), [WriteBytes frame]))
          else (FinishServiceFrame t, [])
      | None \<Rightarrow> (FinishServiceFrame t, []))"

section \<open>Segmentation does not matter\<close>

text \<open>
  How the transport cuts the stream into reads changes nothing: what a first read leaves
  pending, continued with the second, is what the whole would have given.
\<close>

lemma PBF_short: "length pending < 8 \<Longrightarrow> ProcessBufferedFrames envs pending t = Some (True, pending, t, [])"
  by (subst ProcessBufferedFrames.simps) simp

lemma PBF_incomplete:
  "8 \<le> length pending \<Longrightarrow> DecodeFrameHeader (take 8 pending) = Some h \<Longrightarrow>
     unat (fh_message_size h) \<le> max_frame_size t \<Longrightarrow> length pending < unat (fh_message_size h) \<Longrightarrow>
     ProcessBufferedFrames envs pending t = Some (True, pending, t, [])"
  by (subst ProcessBufferedFrames.simps) simp

lemma PBF_frame:
  assumes "8 \<le> length pending" and "DecodeFrameHeader (take 8 pending) = Some h"
    and "unat (fh_message_size h) \<le> max_frame_size t" and "unat (fh_message_size h) \<le> length pending"
  shows "ProcessBufferedFrames envs pending t =
    (case ProcessFrame (envs (frame_count t)) (take (unat (fh_message_size h)) pending)
        (t\<lparr>frame_count := frame_count t + 1\<rparr>) of
       None \<Rightarrow> None
     | Some (ok, t, acts) \<Rightarrow>
         if \<not> ok then Some (False, drop (unat (fh_message_size h)) pending, t, acts)
         else map_option (\<lambda>(ok, rest, t, acts'). (ok, rest, t, acts @ acts'))
           (ProcessBufferedFrames envs (drop (unat (fh_message_size h)) pending) t))"
  using assms by (subst ProcessBufferedFrames.simps) simp

lemma PBF_rejected:
  assumes "8 \<le> length pending"
    and "DecodeFrameHeader (take 8 pending) = None
      \<or> (\<exists>h. DecodeFrameHeader (take 8 pending) = Some h \<and> max_frame_size t < unat (fh_message_size h))"
    and "ProcessBufferedFrames envs pending t = Some (ok, rest, t', acts)"
  shows "\<not> ok"
proof -
  have "ProcessBufferedFrames envs pending t
      \<in> {Some (False, pending, t, [WriteBytes (EncodeErrorMessage
          \<lparr>err_error = status_of_code Bad, err_reason = lit reason\<rparr>)]) | reason. True}"
    using assms(1,2) by (subst ProcessBufferedFrames.simps) (auto simp: WriteErrorAndClose_def)
  with assms(3) show ?thesis by auto
qed

lemma PBF_append:
  "ProcessBufferedFrames envs xs t = Some (True, rest, t', acts) \<Longrightarrow>
     ProcessBufferedFrames envs (xs @ ys) t =
       map_option (\<lambda>(ok, r, t'', acts'). (ok, r, t'', acts @ acts')) (ProcessBufferedFrames envs (rest @ ys) t')"
proof (induction "length xs" arbitrary: xs t acts rule: less_induct)
  case less
  consider (short) "length xs < 8"
    | (bad) "8 \<le> length xs" "DecodeFrameHeader (take 8 xs) = None
        \<or> (\<exists>h. DecodeFrameHeader (take 8 xs) = Some h \<and> max_frame_size t < unat (fh_message_size h))"
    | (part) h where "8 \<le> length xs" "DecodeFrameHeader (take 8 xs) = Some h"
        "unat (fh_message_size h) \<le> max_frame_size t" "length xs < unat (fh_message_size h)"
    | (full) h where "8 \<le> length xs" "DecodeFrameHeader (take 8 xs) = Some h"
        "unat (fh_message_size h) \<le> max_frame_size t" "unat (fh_message_size h) \<le> length xs"
    using not_le by (cases "DecodeFrameHeader (take 8 xs)") blast+
  then show ?case
  proof cases
    case (full h)
    let ?n = "unat (fh_message_size h)"
    obtain t1 a1 where f: "ProcessFrame (envs (frame_count t)) (take ?n xs)
        (t\<lparr>frame_count := frame_count t + 1\<rparr>) = Some (True, t1, a1)"
      and r: "map_option (\<lambda>(ok, rest, t, acts'). (ok, rest, t, a1 @ acts'))
        (ProcessBufferedFrames envs (drop ?n xs) t1) = Some (True, rest, t', acts)"
      using less.prems PBF_frame [OF full, of envs] by (auto split: option.splits if_splits)
    then obtain a2 where r2: "ProcessBufferedFrames envs (drop ?n xs) t1 = Some (True, rest, t', a2)"
      and a: "acts = a1 @ a2" by auto
    have "length (drop ?n xs) < length xs"
      using full header_size_pos [OF full(2)] by simp
    then have IH: "ProcessBufferedFrames envs (drop ?n xs @ ys) t1 = map_option
        (\<lambda>(ok, r, t'', acts'). (ok, r, t'', a2 @ acts')) (ProcessBufferedFrames envs (rest @ ys) t')"
      by (rule less.hyps [OF _ r2])
    have "ProcessBufferedFrames envs (xs @ ys) t = map_option
        (\<lambda>(ok, rest, t, acts'). (ok, rest, t, a1 @ acts')) (ProcessBufferedFrames envs (drop ?n xs @ ys) t1)"
      using full f by (subst PBF_frame [of _ h]) auto
    then show ?thesis
      unfolding IH a by (cases "ProcessBufferedFrames envs (rest @ ys) t'") auto
  next
    case short
    then show ?thesis using less.prems PBF_short by (auto simp: option.map_id)
  next
    case bad
    then show ?thesis using less.prems PBF_rejected by blast
  next
    case part
    then show ?thesis using less.prems PBF_incomplete by (auto simp: option.map_id)
  qed
qed

section \<open>Reassembly\<close>

text \<open>A run of chunks as the connection receives them.\<close>

fun feed_chunks :: "(byte \<times> bytes \<times> u32) list \<Rightarrow> tcp_connection \<Rightarrow> tcp_outcome" where
  "feed_chunks [] t = Some (True, t, [])"
| "feed_chunks ((k, p, rid) # cs) t = do {
     (ok, t, acts) \<leftarrow> ProcessSecureMessageChunk k p rid t;
     if \<not> ok then Some (False, t, acts)
     else do {
       (ok, t, acts') \<leftarrow> feed_chunks cs t;
       Some (ok, t, acts @ acts') } }"

lemma chunk_types_distinct [simp]:
  "kFinalChunk \<noteq> kAbortChunk" "kFinalChunk \<noteq> kIntermediateChunk" "kIntermediateChunk \<noteq> kAbortChunk"
  by (simp_all add: kFinalChunk_def kAbortChunk_def kIntermediateChunk_def)

lemma feed_message:
  "partial_chunk_count t + length ps + 1 \<le> max_chunk_count t \<Longrightarrow>
   length (partial_message t) + length (concat (map fst ps)) + length q \<le> max_message_bytes t \<Longrightarrow>
   feed_chunks (map (\<lambda>(p, r). (kIntermediateChunk, p, r)) ps @ [(kFinalChunk, q, rid)]) t =
     Some (True, (ResetReassembly t)\<lparr>pending_service_frames := pending_service_frames t + 1\<rparr>,
       [StartService (partial_message t @ concat (map fst ps) @ q) rid (basic256_active (tc_channel t))
          (client_certificate_der (tc_channel t))])"
proof (induction ps arbitrary: t)
  case Nil
  then show ?case
    by (simp add: ProcessSecureMessageChunk_def StartServiceFrame_def ResetReassembly_def Let_def)
next
  case (Cons x ps)
  obtain p r where x: "x = (p, r)" by (cases x)
  let ?t = "t\<lparr>partial_chunk_count := partial_chunk_count t + 1, partial_request_id := Some r,
      partial_message := partial_message t @ p\<rparr>"
  have lim: "max_chunk_count ?t = max_chunk_count t" "max_message_bytes ?t = max_message_bytes t"
    by (simp_all add: max_chunk_count_def max_message_bytes_def)
  have "ProcessSecureMessageChunk kIntermediateChunk p r t = Some (True, ?t, [])"
    using Cons.prems by (simp add: ProcessSecureMessageChunk_def Let_def x)
  moreover have "feed_chunks (map (\<lambda>(p, r). (kIntermediateChunk, p, r)) ps @ [(kFinalChunk, q, rid)]) ?t =
     Some (True, (ResetReassembly ?t)\<lparr>pending_service_frames := pending_service_frames ?t + 1\<rparr>,
       [StartService (partial_message ?t @ concat (map fst ps) @ q) rid (basic256_active (tc_channel ?t))
          (client_certificate_der (tc_channel ?t))])"
    by (rule Cons.IH) (use Cons.prems lim in \<open>simp_all add: x\<close>)
  ultimately show ?case by (simp add: x ResetReassembly_def)
qed

section \<open>Invariant of the connection\<close>

definition tcp_inv :: "tcp_connection \<Rightarrow> bool" where
  "tcp_inv t \<longleftrightarrow> length (partial_message t) \<le> max_message_bytes t
     \<and> partial_chunk_count t \<le> max_chunk_count t
     \<and> (partial_chunk_count t = 0 \<longrightarrow> partial_message t = [])
     \<and> (partial_request_id t = None \<longleftrightarrow> partial_chunk_count t = 0)
     \<and> channel_inv (tc_channel t)
     \<and> (opened (tc_channel t) \<longrightarrow> hello_received t)"

text \<open>An action the connection may take: a service frame only for an open, greeted channel.\<close>

definition action_ok :: "tcp_connection \<Rightarrow> tcp_action \<Rightarrow> bool" where
  "action_ok t a = (case a of
     WriteBytes _ \<Rightarrow> True
   | StartService payload _ secure cert \<Rightarrow> hello_received t \<and> opened (tc_channel t)
       \<and> length payload \<le> max_message_bytes t \<and> secure = basic256_active (tc_channel t)
       \<and> cert = client_certificate_der (tc_channel t))"

lemma ResetReassembly_simps [simp]:
  "partial_message (ResetReassembly t) = []" "partial_request_id (ResetReassembly t) = None"
  "partial_chunk_count (ResetReassembly t) = 0" "tc_channel (ResetReassembly t) = tc_channel t"
  "hello_received (ResetReassembly t) = hello_received t" "limits (ResetReassembly t) = limits t"
  "max_frame_size (ResetReassembly t) = max_frame_size t"
  by (simp_all add: ResetReassembly_def)

lemma limits_update [simp]:
  "max_chunk_count (t\<lparr>tc_channel := c\<rparr>) = max_chunk_count t"
  "max_chunk_count (t\<lparr>hello_received := b\<rparr>) = max_chunk_count t"
  "max_chunk_count (t\<lparr>partial_message := m\<rparr>) = max_chunk_count t"
  "max_chunk_count (t\<lparr>partial_request_id := i\<rparr>) = max_chunk_count t"
  "max_chunk_count (t\<lparr>partial_chunk_count := n\<rparr>) = max_chunk_count t"
  "max_chunk_count (t\<lparr>pending_service_frames := n\<rparr>) = max_chunk_count t"
  "max_chunk_count (t\<lparr>frame_count := n\<rparr>) = max_chunk_count t"
  "max_chunk_count (ResetReassembly t) = max_chunk_count t"
  "max_message_bytes (t\<lparr>tc_channel := c\<rparr>) = max_message_bytes t"
  "max_message_bytes (t\<lparr>hello_received := b\<rparr>) = max_message_bytes t"
  "max_message_bytes (t\<lparr>partial_message := m\<rparr>) = max_message_bytes t"
  "max_message_bytes (t\<lparr>partial_request_id := i\<rparr>) = max_message_bytes t"
  "max_message_bytes (t\<lparr>partial_chunk_count := n\<rparr>) = max_message_bytes t"
  "max_message_bytes (t\<lparr>pending_service_frames := n\<rparr>) = max_message_bytes t"
  "max_message_bytes (t\<lparr>frame_count := n\<rparr>) = max_message_bytes t"
  "max_message_bytes (ResetReassembly t) = max_message_bytes t"
  by (simp_all add: max_chunk_count_def max_message_bytes_def)

lemma tcp_inv_make: "tcp_inv (make_tcp_connection lim n config)"
  by (simp add: tcp_inv_def make_tcp_connection_def channel_inv_make)
     (simp add: make_secure_channel_def)

lemma ProcessSecureMessageChunk_inv:
  assumes "ProcessSecureMessageChunk k p rid t = Some (ok, t', acts)"
    and inv: "tcp_inv t" and "hello_received t" "opened (tc_channel t)"
  shows "tcp_inv t' \<and> list_all (action_ok t') acts"
proof -
  have reset: "tcp_inv (ResetReassembly t)" using inv by (simp add: tcp_inv_def)
  show ?thesis
    using assms(1)
    unfolding ProcessSecureMessageChunk_def WriteErrorAndClose_def StartServiceFrame_def Let_def
    by (simp split: if_split_asm; elim conjE; hypsubst)
      (use reset assms(2-4) in \<open>simp_all add: tcp_inv_def action_ok_def\<close>)
qed

lemma HandleFrame_opened:
  assumes "HandleFrame env frame c = Some (r, c')" and "service_payload r = Some p"
  shows "opened c'"
  using HandleFrame_payload [OF assms] by simp

lemma ProcessSecureFrame_inv:
  assumes "ProcessSecureFrame env k frame t = Some (ok, t', acts)" and inv: "tcp_inv t"
  shows "tcp_inv t' \<and> list_all (action_ok t') acts"
proof (cases "hello_received t")
  case False
  then show ?thesis
    using assms by (auto simp: ProcessSecureFrame_def WriteErrorAndClose_def action_ok_def)
next
  case True
  then obtain r c' where h: "HandleFrame env frame (tc_channel t) = Some (r, c')"
    using assms(1) by (auto simp: ProcessSecureFrame_def Option.bind_eq_Some_conv)
  have c': "channel_inv c'" using channel_inv_HandleFrame [OF h] inv by (simp add: tcp_inv_def)
  let ?t = "t\<lparr>tc_channel := c'\<rparr>"
  have t: "tcp_inv ?t"
    using inv True c' by (simp add: tcp_inv_def)
  show ?thesis
  proof (cases "\<not> close_transport r \<and> service_payload r \<noteq> None \<and> res_request_id r \<noteq> None")
    case False
    then have "t' = ?t \<and> list_all (action_ok t') acts"
      using assms(1) h \<open>hello_received t\<close>
      by (auto simp: ProcessSecureFrame_def Let_def action_ok_def split: option.splits if_splits)
    with t show ?thesis by blast
  next
    case True
    then obtain p rid where p: "service_payload r = Some p" "res_request_id r = Some rid" by auto
    obtain acts' where "ProcessSecureMessageChunk k p rid ?t = Some (ok, t', acts')"
      and "acts = (case outbound_frame r of
            Some f \<Rightarrow> if f \<noteq> [] then [WriteBytes f] else [] | None \<Rightarrow> []) @ acts'"
      using assms(1) h p True \<open>hello_received t\<close>
      by (auto simp: ProcessSecureFrame_def Let_def Option.bind_eq_Some_conv)
    then show ?thesis
      using ProcessSecureMessageChunk_inv [OF _ t] HandleFrame_opened [OF h p(1)] \<open>hello_received t\<close>
      by (auto simp: action_ok_def split: option.splits)
  qed
qed

lemma ProcessFrame_inv [inv_intros]:
  assumes "ProcessFrame env frame t = Some (ok, t', acts)" and inv: "tcp_inv t"
  shows "tcp_inv t' \<and> list_all (action_ok t') acts"
proof -
  have hello: "tcp_inv t' \<and> list_all (action_ok t') acts"
    if "ProcessHello frame t = Some (ok, t', acts)"
    using that inv
    unfolding ProcessHello_def WriteErrorAndClose_def
    by (auto simp: action_ok_def tcp_inv_def split: if_split_asm option.split_asm sum.split_asm)
  have err: "tcp_inv t' \<and> list_all (action_ok t') acts"
    if "WriteErrorAndClose reason t = Some (ok, t', acts)" for reason
    using that inv by (auto simp: WriteErrorAndClose_def action_ok_def)
  show ?thesis
  proof (cases "DecodeFrameHeader frame")
    case None
    then show ?thesis using assms(1) err by (simp add: ProcessFrame_def)
  next
    case (Some h)
    then show ?thesis
      using assms(1) hello err ProcessSecureFrame_inv [OF _ inv]
      by (cases "fh_message_type h") (auto simp: ProcessFrame_def)
  qed
qed

lemma CompleteServiceFrame_inv [inv_intros]:
  assumes "CompleteServiceFrame ssl rid out t = (t', acts)" and "tcp_inv t"
  shows "tcp_inv t'"
proof (cases "out = None \<or> out = Some []")
  case True
  then have "t' = FinishServiceFrame t" using assms(1) by (auto simp: CompleteServiceFrame_def)
  with assms(2) show ?thesis
    by (auto simp: FinishServiceFrame_def tcp_inv_def)
next
  case False
  then obtain body where body: "out = Some body" "body \<noteq> []" by auto
  obtain frame c where b: "BuildServiceResponse ssl rid body (tc_channel t) = (frame, c)"
    by (cases "BuildServiceResponse ssl rid body (tc_channel t)")
  have "opened c = opened (tc_channel t)"
    using BuildServiceResponse_snd [of ssl rid body "tc_channel t"] b by simp
  moreover have "channel_inv c"
    using channel_inv_response [OF b] assms(2) by (simp add: tcp_inv_def)
  moreover have "t' = FinishServiceFrame (t\<lparr>tc_channel := c\<rparr>)"
    using assms(1) body b by (auto simp: CompleteServiceFrame_def)
  ultimately show ?thesis
    using assms(2)
    by (auto simp: FinishServiceFrame_def tcp_inv_def)
qed

lemma tcp_inv_frame_count [simp]: "tcp_inv (t\<lparr>frame_count := n\<rparr>) = tcp_inv t"
  by (simp add: tcp_inv_def)

text \<open>The steps of a connection: a frame off the wire, or the end of a service frame.\<close>

inductive tcp_step :: "tcp_connection \<Rightarrow> tcp_action list \<Rightarrow> tcp_connection \<Rightarrow> bool" where
  frame: "ProcessFrame env frame (t\<lparr>frame_count := frame_count t + 1\<rparr>) = Some (ok, t', acts)
    \<Longrightarrow> tcp_step t acts t'"
| complete: "CompleteServiceFrame ssl rid out t = (t', acts) \<Longrightarrow> tcp_step t acts t'"

inductive tcp_reachable :: "tcp_connection \<Rightarrow> tcp_connection \<Rightarrow> bool" where
  start: "tcp_reachable t t"
| step: "tcp_reachable t t' \<Longrightarrow> tcp_step t' acts t'' \<Longrightarrow> tcp_reachable t t''"

inductive_cases tcp_stepE: "tcp_step t acts t'"

lemma tcp_step_inv: "tcp_step t acts t' \<Longrightarrow> tcp_inv t \<Longrightarrow> tcp_inv t' \<and> list_all (action_ok t') acts"
proof (elim tcp_stepE)
  fix ssl rid out assume c: "tcp_inv t" "CompleteServiceFrame ssl rid out t = (t', acts)"
  then have "list_all (action_ok t') acts"
    by (auto simp: CompleteServiceFrame_def action_ok_def split: option.splits if_splits prod.splits)
  with c show ?thesis using CompleteServiceFrame_inv by blast
qed (auto dest: ProcessFrame_inv)

lemma tcp_reachable_inv: "tcp_reachable t t' \<Longrightarrow> tcp_inv t \<Longrightarrow> tcp_inv t'"
  by (induction rule: tcp_reachable.induct) (auto dest: tcp_step_inv)

text \<open>A first Hello is answered and the connection goes on with what follows it.\<close>

lemma PBF_hello:
  assumes "wire_len (hel_endpoint_url hel)" and "\<not> hello_received t"
    and "NegotiateHello hel (limits t) = Inr ack"
    and "length (EncodeHelloMessage hel) \<le> max_frame_size t"
  shows "ProcessBufferedFrames envs (EncodeHelloMessage hel @ ys) t =
    map_option (\<lambda>(ok, r, t', acts). (ok, r, t', WriteBytes (EncodeAcknowledgeMessage ack) # acts))
      (ProcessBufferedFrames envs ys (t\<lparr>frame_count := frame_count t + 1, hello_received := True\<rparr>))"
proof -
  let ?f = "EncodeHelloMessage hel"
  obtain h where h: "DecodeFrameHeader ?f = Some h" "fh_message_type h = Hello"
    "unat (fh_message_size h) = length ?f"
    using hello_codec.enc_frame [OF assms(1)] .
  have h8: "DecodeFrameHeader (take 8 (?f @ ys)) = Some h" "8 \<le> length ?f"
    using DecodeFrameHeader_Some(3) [OF h(1), of "[]"] DecodeFrameHeader_Some(1) [OF h(1)] by simp_all
  have "ProcessFrame env ?f (t\<lparr>frame_count := frame_count t + 1\<rparr>) = Some (True,
      t\<lparr>frame_count := frame_count t + 1, hello_received := True\<rparr>, [WriteBytes (EncodeAcknowledgeMessage ack)])" for env
    using h assms(2,3) hello_codec.dec_enc [OF assms(1)] by (simp add: ProcessFrame_def ProcessHello_def)
  then show ?thesis
    using h h8 assms(4) by (subst PBF_frame [OF _ h8(1)]) simp_all
qed

definition example_hello :: hello_message where
  "example_hello = \<lparr>hel_protocol_version = 0, hel_receive_buffer_size = 8192,
     hel_send_buffer_size = 8192, hel_max_message_size = 0, hel_max_chunk_count = 0,
     hel_endpoint_url = []\<rparr>"

definition example_tcp :: tcp_connection where
  "example_tcp = make_tcp_connection \<lparr>lim_protocol_version = 0, lim_receive_buffer_size = 65535,
     lim_send_buffer_size = 65535, lim_max_message_size = 0, lim_max_chunk_count = 0\<rparr> 1000 None"

section \<open>Properties\<close>

text \<open>
  C34. How the transport cuts the byte stream into reads does not matter: processing what the
  first read left pending together with the next bytes gives the frames, the actions and the
  state that processing all bytes at once gives.
\<close>

theorem segmentation_independent:
  assumes "ProcessBufferedFrames envs xs t = Some (True, rest, t', acts)"
  shows "ProcessBufferedFrames envs (xs @ ys) t =
    map_option (\<lambda>(ok, r, t'', acts'). (ok, r, t'', acts @ acts')) (ProcessBufferedFrames envs (rest @ ys) t')"
  using assms by (rule PBF_append)

theorem segmentation_independent_witness:
  "\<exists>ack t'. ProcessBufferedFrames (\<lambda>_. null_env) ((EncodeHelloMessage example_hello @ [77, 83]) @ [71]) example_tcp
     = Some (True, [77, 83, 71], t', [WriteBytes (EncodeAcknowledgeMessage ack)]) \<and> hello_received t'"
proof -
  obtain ack where n: "NegotiateHello example_hello (limits example_tcp) = Inr ack"
    by (simp add: NegotiateHello_def example_hello_def)
  have l: "length (EncodeHelloMessage example_hello) \<le> max_frame_size example_tcp"
    by (simp add: EncodeHelloMessage_def EncodeWithHeader_def example_hello_def example_tcp_def
        make_tcp_connection_def enc_string_def)
  have t: "\<not> hello_received example_tcp" "wire_len (hel_endpoint_url example_hello)"
    by (simp_all add: example_tcp_def make_tcp_connection_def example_hello_def)
  have p: "ProcessBufferedFrames (\<lambda>_. null_env) (EncodeHelloMessage example_hello @ [77, 83]) example_tcp
      = Some (True, [77, 83], example_tcp\<lparr>frame_count := frame_count example_tcp + 1, hello_received := True\<rparr>,
          [WriteBytes (EncodeAcknowledgeMessage ack)])"
    using PBF_hello [OF t(2,1) n l, of "\<lambda>_. null_env" "[77, 83]"] by (simp add: PBF_short)
  from segmentation_independent [OF this, of "[71]"] show ?thesis by (auto simp: PBF_short)
qed

text \<open>
  C35. Reassembly is exact: intermediate chunks followed by a final one, within the chunk-count
  and size limits, start exactly one service frame, whose payload is the concatenation of the
  chunk bodies in order and whose request id is the final chunk's, and reset the reassembly
  state. The request ids of the intermediate chunks play no part.
\<close>

theorem reassembly_exact:
  assumes "partial_message t = []" and "partial_chunk_count t = 0"
    and "length ps + 1 \<le> max_chunk_count t"
    and "length (concat (map fst ps)) + length q \<le> max_message_bytes t"
  shows "feed_chunks (map (\<lambda>(p, r). (kIntermediateChunk, p, r)) ps @ [(kFinalChunk, q, rid)]) t =
    Some (True, (ResetReassembly t)\<lparr>pending_service_frames := pending_service_frames t + 1\<rparr>,
      [StartService (concat (map fst ps) @ q) rid (basic256_active (tc_channel t))
         (client_certificate_der (tc_channel t))])"
  using feed_message [of t ps q rid] assms by simp

theorem reassembly_exact_witness:
  "\<exists>t'. feed_chunks [(kIntermediateChunk, [1], 5), (kIntermediateChunk, [2, 3], 6), (kFinalChunk, [4], 7)] example_tcp
     = Some (True, t', [StartService [1, 2, 3, 4] 7 False []])"
  using reassembly_exact [of example_tcp "[([1], 5), ([2, 3], 6)]" "[4]" 7]
  by (simp add: example_tcp_def make_tcp_connection_def max_chunk_count_def max_message_bytes_def
      make_secure_channel_def)

text \<open>
  C36. In every state a connection reaches, by frames and by service completions in any order,
  the partial message stays within the message-size limit and the chunk count within the
  chunk limit, the secure channel satisfies its invariant and is open only after Hello; and
  every service frame it starts is within the size limit, comes after Hello on an open
  channel, and is labelled with the channel's security and client certificate.
\<close>

theorem connection_invariant:
  assumes "tcp_reachable (make_tcp_connection lim n config) t" and "tcp_step t acts t'"
  shows "length (partial_message t') \<le> max_message_bytes t' \<and> partial_chunk_count t' \<le> max_chunk_count t'
    \<and> channel_inv (tc_channel t') \<and> (opened (tc_channel t') \<longrightarrow> hello_received t')
    \<and> list_all (action_ok t') acts"
  using tcp_step_inv [OF assms(2) tcp_reachable_inv [OF assms(1) tcp_inv_make]]
  by (simp add: tcp_inv_def)

theorem connection_invariant_witness:
  "\<exists>acts t'. tcp_step example_tcp acts t' \<and> hello_received t'
     \<and> length (partial_message t') \<le> max_message_bytes t' \<and> list_all (action_ok t') acts"
proof -
  obtain ack where n: "NegotiateHello example_hello (limits example_tcp) = Inr ack"
    by (simp add: NegotiateHello_def example_hello_def)
  have w: "wire_len (hel_endpoint_url example_hello)" by (simp add: example_hello_def)
  obtain h where h: "DecodeFrameHeader (EncodeHelloMessage example_hello) = Some h" "fh_message_type h = Hello"
    using hello_codec.enc_frame [OF w] by blast
  have "ProcessFrame null_env (EncodeHelloMessage example_hello)
      (example_tcp\<lparr>frame_count := frame_count example_tcp + 1\<rparr>) = Some (True,
      example_tcp\<lparr>frame_count := frame_count example_tcp + 1, hello_received := True\<rparr>,
      [WriteBytes (EncodeAcknowledgeMessage ack)])"
    using h n hello_codec.dec_enc [OF w]
    by (simp add: ProcessFrame_def ProcessHello_def example_tcp_def make_tcp_connection_def)
  then have s: "tcp_step example_tcp [WriteBytes (EncodeAcknowledgeMessage ack)]
      (example_tcp\<lparr>frame_count := frame_count example_tcp + 1, hello_received := True\<rparr>)"
    by (rule tcp_step.frame)
  have "tcp_reachable example_tcp example_tcp" by (rule tcp_reachable.start)
  from connection_invariant [OF this [unfolded example_tcp_def] s [unfolded example_tcp_def]] s
  show ?thesis unfolding example_tcp_def by fastforce
qed

text \<open>
  C37. The order of the handshake: before Hello any secure-channel frame, and after it any
  second Hello, is answered with one Error message and the end of the connection, and leaves
  the channel untouched; message types a server never receives are refused the same way.
\<close>

theorem handshake_order:
  assumes "DecodeFrameHeader frame = Some h"
    and "if hello_received t then fh_message_type h \<in> {Hello, Acknowledge, ErrorType, ReverseHello}
      else fh_message_type h \<noteq> Hello"
  shows "\<exists>reason. ProcessFrame env frame t = Some (False, t, [WriteBytes (EncodeErrorMessage
    \<lparr>err_error = status_of_code Bad, err_reason = lit reason\<rparr>)])"
  using assms
  by (cases "fh_message_type h")
    (auto simp: ProcessFrame_def ProcessHello_def ProcessSecureFrame_def WriteErrorAndClose_def
      split: if_splits)

theorem handshake_order_witness:
  "\<exists>reason. ProcessFrame null_env (frame_of (example_message 1)) example_tcp = Some (False, example_tcp,
     [WriteBytes (EncodeErrorMessage \<lparr>err_error = status_of_code Bad, err_reason = lit reason\<rparr>)])"
proof (rule handshake_order)
  show "DecodeFrameHeader (frame_of (example_message 1)) = Some \<lparr>fh_message_type = SecureMessage,
       fh_chunk_type = kFinalChunk, fh_message_size = 27\<rparr>"
    using DecodeSecure_header [OF example_message_decodes [of 1]] by simp
qed (simp add: example_tcp_def make_tcp_connection_def)

end
