(* ===== verification/Ua_Client_Secure.thy ===== *)
theory Ua_Client_Secure
  imports Ua_Secure_Channel
begin

text \<open>
  The client side of the SecureChannel, \<^verbatim>\<open>transport/binary/client_secure_channel.{h,cpp}\<close>, and
  its composition with the server side of \<open>Ua_Secure_Channel\<close>. An operation that writes to
  the transport returns the frame it writes; \<open>BeginOpen\<close> and \<open>FinishOpen\<close> are the two halves of
  \<open>OpenSecureChannel\<close> around its write and read, and \<open>ReadChunk\<close> is one round of the loop of
  \<open>ReadServiceResponse\<close>. A failing \<open>StatusOr\<close> is \<open>Inl\<close> of its status; the outer \<open>None\<close> is where
  the C++ is undefined.
\<close>

section \<open>State\<close>

record client_security =
  cs_policy_uri :: bytes
  cs_security_mode :: u32
  cs_client_certificate :: certificate
  cs_private_key :: private_key
  cs_server_certificate :: certificate
  cs_nonce_generator :: bool

definition no_security :: client_security where
  "no_security = \<lparr>cs_policy_uri = kSecurityPolicyNone, cs_security_mode = ModeNone,
     cs_client_certificate = None, cs_private_key = None, cs_server_certificate = None,
     cs_nonce_generator = False\<rparr>"

text \<open>\<open>renew_at\<close> is a point of the steady clock, in milliseconds.\<close>

record client_channel =
  security :: client_security
  cc_opened :: bool
  cc_channel_id :: u32
  cc_token_id :: u32
  revised_lifetime_ms :: u32
  renew_at :: int
  cc_next_sequence_number :: u32
  cc_next_request_id :: u32
  client_keys :: derived_keys
  server_keys :: derived_keys
  cc_client_nonce :: bytes

definition ClientSecureChannel :: "client_security \<Rightarrow> client_channel" where
  "ClientSecureChannel s = \<lparr>security = s, cc_opened = False, cc_channel_id = 0, cc_token_id = 0,
     revised_lifetime_ms = 0, renew_at = 0, cc_next_sequence_number = 1, cc_next_request_id = 1,
     client_keys = no_keys, server_keys = no_keys, cc_client_nonce = []\<rparr>"

definition UsesBasic256Sha256 :: "client_channel \<Rightarrow> bool" where
  "UsesBasic256Sha256 c \<longleftrightarrow> cs_policy_uri (security c) \<noteq> kSecurityPolicyNone
     \<and> cs_security_mode (security c) \<noteq> ModeNone"

definition UsesSignAndEncrypt :: "client_channel \<Rightarrow> bool" where
  "UsesSignAndEncrypt c \<longleftrightarrow> cs_security_mode (security c) = ModeSignAndEncrypt"

definition NextRequestId :: "client_channel \<Rightarrow> u32 \<times> client_channel" where
  "NextRequestId c = (cc_next_request_id c, c\<lparr>cc_next_request_id := cc_next_request_id c + 1\<rparr>)"

definition kRsaSha256SignatureUri :: bytes where
  "kRsaSha256SignatureUri = lit ''http://www.w3.org/2001/04/xmldsig-more#rsa-sha256''"

definition bad_status :: status where "bad_status = status_of_code Bad"

definition or_bad :: "'a option \<Rightarrow> status + 'a" where
  "or_bad x = (case x of None \<Rightarrow> Inl bad_status | Some v \<Rightarrow> Inr v)"

text \<open>The algorithm and the signature; both empty on an unsecured channel.\<close>

definition SignClientData :: "openssl \<Rightarrow> bytes \<Rightarrow> client_channel \<Rightarrow> status + bytes \<times> bytes" where
  "SignClientData ssl data c =
     (if \<not> UsesBasic256Sha256 c then Inr ([], [])
      else if cs_private_key (security c) = None then Inl bad_status
      else map_sum id (Pair kRsaSha256SignatureUri)
             (or_bad (RsaPkcs1Sha256Sign ssl (cs_private_key (security c)) data)))"

section \<open>The OPN frame\<close>

definition open_request :: "u32 \<Rightarrow> u32 \<Rightarrow> bytes \<Rightarrow> u32 \<Rightarrow> client_channel \<Rightarrow> open_secure_channel_request" where
  "open_request handle rt nonce lifetime c = \<lparr>
     osq_request_header = \<lparr>rqh_request_handle = handle, rqh_return_diagnostics = 0,
       rqh_audit_entry_id = [], rqh_timeout_hint = 0\<rparr>,
     client_protocol_version = 0, request_type = rt,
     security_mode = cs_security_mode (security c), client_nonce = nonce,
     requested_lifetime = lifetime\<rparr>"

definition open_header :: "openssl \<Rightarrow> client_channel \<Rightarrow> asymmetric_security_header" where
  "open_header ssl c = (let s = security c in \<lparr>
     security_policy_uri = cs_policy_uri s,
     sender_certificate = (if UsesBasic256Sha256 c
       then (case CertificateDer ssl (cs_client_certificate s) of Some der \<Rightarrow> der | None \<Rightarrow> []) else []),
     receiver_certificate_thumbprint = (if UsesBasic256Sha256 c
       then (case CertificateThumbprint ssl (cs_server_certificate s) of Some t \<Rightarrow> t | None \<Rightarrow> []) else [])\<rparr>)"

definition open_message :: "openssl \<Rightarrow> u32 \<Rightarrow> u32 \<Rightarrow> u32 \<Rightarrow> u32 \<Rightarrow> bytes \<Rightarrow> u32 \<Rightarrow> client_channel
    \<Rightarrow> secure_conversation_message" where
  "open_message ssl rid handle rt cid nonce lifetime c = \<lparr>
     scm_frame_header = \<lparr>fh_message_type = SecureOpen, fh_chunk_type = kFinalChunk, fh_message_size = 0\<rparr>,
     secure_channel_id = cid, scm_asymmetric = Some (open_header ssl c), scm_symmetric = None,
     scm_sequence_header = \<lparr>sequence_number = cc_next_sequence_number c, request_id = rid\<rparr>,
     scm_body = EncodeOpenSecureChannelRequestBody (open_request handle rt nonce lifetime c)\<rparr>"

definition BuildPlaintextOpenFrame :: "openssl \<Rightarrow> u32 \<Rightarrow> u32 \<Rightarrow> u32 \<Rightarrow> u32 \<Rightarrow> bytes \<Rightarrow> u32 \<Rightarrow> client_channel
    \<Rightarrow> bytes option \<times> client_channel" where
  "BuildPlaintextOpenFrame ssl rid handle rt cid nonce lifetime c =
     (EncodeSecureConversationMessage (open_message ssl rid handle rt cid nonce lifetime c),
      c\<lparr>cc_next_sequence_number := cc_next_sequence_number c + 1\<rparr>)"

text \<open>
  Padding, signature and encryption of the part after the security header. A block size
  below the overhead wraps around in the code and asks for more than 255 padding bytes; one
  equal to it divides by zero.
\<close>

definition seal_open :: "openssl \<Rightarrow> private_key \<Rightarrow> private_key \<Rightarrow> bytes \<Rightarrow> bytes \<Rightarrow> bytes option option" where
  "seal_open ssl own_key peer_key prefix plain = (let
     peer_key_bytes = KeySizeBytes ssl peer_key;
     signature_size = KeySizeBytes ssl own_key
   in if peer_key_bytes < kRsaOaepSha1Overhead then Some None
      else if peer_key_bytes = kRsaOaepSha1Overhead then None
      else (let
        plain_block = peer_key_bytes - kRsaOaepSha1Overhead;
        pad_count = pad_to plain_block (length plain + 1 + signature_size)
      in if pad_count > 255 then Some None
         else (let
           to_encrypt = plain @ padding pad_count;
           num_blocks = (length to_encrypt + signature_size) div plain_block;
           prefix = stamp_size (length prefix + num_blocks * peer_key_bytes) prefix
         in Some (do {
           signature \<leftarrow> RsaPkcs1Sha256Sign ssl own_key (prefix @ to_encrypt);
           ciphertext \<leftarrow> RsaOaepEncrypt ssl peer_key (to_encrypt @ signature);
           Some (FixUpFrameSize (prefix @ ciphertext)) }))))"

text \<open>\<open>CertificatePublicKey(..)->KeySizeBytes()\<close> is undefined when there is no public key.\<close>

definition BuildAsymmetricBasic256Sha256OpenFrame :: "openssl \<Rightarrow> u32 \<Rightarrow> u32 \<Rightarrow> u32 \<Rightarrow> u32 \<Rightarrow> bytes \<Rightarrow> u32
    \<Rightarrow> client_channel \<Rightarrow> (bytes option \<times> client_channel) option" where
  "BuildAsymmetricBasic256Sha256OpenFrame ssl rid handle rt cid nonce lifetime c = (let s = security c in
     case BuildPlaintextOpenFrame ssl rid handle rt cid nonce lifetime c of
       (None, c) \<Rightarrow> None
     | (Some frame, c) \<Rightarrow>
        (case (CertificateDer ssl (cs_client_certificate s), CertificateThumbprint ssl (cs_server_certificate s)) of
           (Some der, Some thumb) \<Rightarrow> (let
              prefix = take 8 frame @ enc_u32 cid @ enc_string (cs_policy_uri s)
                @ enc_byte_string der @ enc_byte_string thumb
            in if length frame \<le> length prefix then Some (None, c)
               else (case CertificatePublicKey ssl (cs_server_certificate s) of
                   None \<Rightarrow> None
                 | Some server_key \<Rightarrow> map_option (\<lambda>sealed. (sealed, c))
                     (seal_open ssl (cs_private_key s) server_key prefix (drop (length prefix) frame))))
         | _ \<Rightarrow> Some (None, c)))"

text \<open>The plaintext of a signed and encrypted OPN response: header, sequence header, body.\<close>

definition DecodeAsymmetricBasic256Sha256OpenFrame :: "openssl \<Rightarrow> bytes \<Rightarrow> client_channel
    \<Rightarrow> (asymmetric_security_header \<times> sequence_header \<times> bytes) option" where
  "DecodeAsymmetricBasic256Sha256OpenFrame ssl frame c =
     (if length frame < 8 then None
      else do {
        (_, d) \<leftarrow> decode_u32 (make_decoder (drop 8 frame));
        (header, d) \<leftarrow> decode_asymmetric d;
        let header_end = 8 + d_offset d;
        if header_end \<ge> length frame then None
        else do {
          plaintext \<leftarrow> RsaOaepDecrypt ssl (cs_private_key (security c)) (drop header_end frame);
          server_pub \<leftarrow> CertificatePublicKey ssl (cs_server_certificate (security c));
          let signature_size = KeySizeBytes ssl server_pub;
          if length plaintext < signature_size + 1 then None
          else do {
            let sig_begin = length plaintext - signature_size;
            if \<not> RsaPkcs1Sha256Verify ssl server_pub (take header_end frame @ take sig_begin plaintext)
                (drop sig_begin plaintext) then None
            else do {
              let pad_size = unat (plaintext ! (sig_begin - 1));
              if sig_begin < 1 + pad_size then None
              else do {
                let body_end = sig_begin - 1 - pad_size;
                if body_end < 8 then None
                else do {
                  (sn, d) \<leftarrow> decode_u32 (make_decoder (take 8 plaintext));
                  (rid, _) \<leftarrow> decode_u32 d;
                  Some (header, \<lparr>sequence_number = sn, request_id = rid\<rparr>,
                    take (body_end - 8) (drop 8 plaintext)) } } } } } })"

section \<open>Opening and renewing\<close>

text \<open>\<open>generated\<close> is what the configured generator returns when it is asked.\<close>

definition GenerateClientNonce :: "openssl \<Rightarrow> status + bytes \<Rightarrow> client_channel \<Rightarrow> status + bytes" where
  "GenerateClientNonce ssl generated c =
     (if cs_nonce_generator (security c)
      then (case generated of Inl e \<Rightarrow> Inl e
            | Inr nonce \<Rightarrow> if length nonce \<noteq> 32 then Inl bad_status else Inr nonce)
      else map_sum id (resize 32) (or_bad (RAND_bytes ssl 32)))"

definition ShouldRenew :: "int \<Rightarrow> client_channel \<Rightarrow> bool" where
  "ShouldRenew now c \<longleftrightarrow> cc_opened c \<and> renew_at c \<le> now"

definition ArmRenewalTimer :: "int \<Rightarrow> u32 \<Rightarrow> client_channel \<Rightarrow> client_channel" where
  "ArmRenewalTimer now lifetime c = c\<lparr>revised_lifetime_ms := lifetime,
     renew_at := (if lifetime = 0 then 0 else now + int (max 1 (unat lifetime * 3 div 4)))\<rparr>"

text \<open>Up to the write: the frame to write, or the status that ends the call.\<close>

definition BeginOpen :: "openssl \<Rightarrow> status + bytes \<Rightarrow> u32 \<Rightarrow> u32 \<Rightarrow> client_channel
    \<Rightarrow> ((status + bytes) \<times> client_channel) option" where
  "BeginOpen ssl generated rt lifetime c = (let
     (rid, c) = NextRequestId c;
     cid = (if rt = RequestRenew then cc_channel_id c else 0)
   in if UsesBasic256Sha256 c
      then (case GenerateClientNonce ssl generated c of
          Inl e \<Rightarrow> Some (Inl e, c)
        | Inr nonce \<Rightarrow> map_option (map_prod or_bad id)
            (BuildAsymmetricBasic256Sha256OpenFrame ssl rid rid rt cid nonce lifetime
              (c\<lparr>cc_client_nonce := nonce\<rparr>)))
      else Some (map_prod or_bad id (BuildPlaintextOpenFrame ssl rid rid rt cid [] lifetime c)))"

definition open_response_body :: "openssl \<Rightarrow> bytes \<Rightarrow> client_channel \<Rightarrow> open_secure_channel_response option" where
  "open_response_body ssl frame c =
     (if UsesBasic256Sha256 c
      then do {
        (_, _, body) \<leftarrow> DecodeAsymmetricBasic256Sha256OpenFrame ssl frame c;
        DecodeOpenSecureChannelResponseBody body }
      else do {
        message \<leftarrow> DecodeSecureConversationMessage frame;
        header \<leftarrow> scm_asymmetric message;
        if fh_message_type (scm_frame_header message) \<noteq> SecureOpen
           \<or> security_policy_uri header \<noteq> kSecurityPolicyNone then None
        else DecodeOpenSecureChannelResponseBody (scm_body message) })"

text \<open>From the frame read: the status of the call and the channel after it.\<close>

definition FinishOpen :: "openssl \<Rightarrow> int \<Rightarrow> bytes \<Rightarrow> client_channel \<Rightarrow> status \<times> client_channel" where
  "FinishOpen ssl now frame c =
     (case open_response_body ssl frame c of
        None \<Rightarrow> (bad_status, c)
      | Some response \<Rightarrow> (let result = rsh_service_result (osr_response_header response) in
          if status_bad result then (result, c)
          else (let
            token = security_token response;
            c = ArmRenewalTimer now (cst_revised_lifetime token)
              (c\<lparr>cc_channel_id := cst_channel_id token, cc_token_id := cst_token_id token\<rparr>);
            c = (if UsesBasic256Sha256 c then c\<lparr>
                client_keys := DeriveBasic256Sha256Keys ssl (osr_server_nonce response) (cc_client_nonce c),
                server_keys := DeriveBasic256Sha256Keys ssl (cc_client_nonce c) (osr_server_nonce response)\<rparr>
              else c)
          in (status_of_code Good, c\<lparr>cc_opened := True\<rparr>))))"

text \<open>\<open>exchange\<close> is the transport: what is read once the frame was written, or its failure.\<close>

definition OpenSecureChannel :: "openssl \<Rightarrow> status + bytes \<Rightarrow> int \<Rightarrow> (bytes \<Rightarrow> status + bytes) \<Rightarrow> u32 \<Rightarrow> u32
    \<Rightarrow> client_channel \<Rightarrow> (status \<times> client_channel) option" where
  "OpenSecureChannel ssl generated now exchange rt lifetime c =
     (case BeginOpen ssl generated rt lifetime c of
        None \<Rightarrow> None
      | Some (Inl e, c) \<Rightarrow> Some (e, c)
      | Some (Inr frame, c) \<Rightarrow> (case exchange frame of
          Inl e \<Rightarrow> Some (e, c)
        | Inr answer \<Rightarrow> Some (FinishOpen ssl now answer c)))"

definition Open :: "openssl \<Rightarrow> status + bytes \<Rightarrow> int \<Rightarrow> (bytes \<Rightarrow> status + bytes) \<Rightarrow> u32 \<Rightarrow> client_channel
    \<Rightarrow> (status \<times> client_channel) option" where
  "Open ssl generated now exchange = OpenSecureChannel ssl generated now exchange RequestIssue"

definition Renew :: "openssl \<Rightarrow> status + bytes \<Rightarrow> int \<Rightarrow> (bytes \<Rightarrow> status + bytes) \<Rightarrow> u32 \<Rightarrow> client_channel
    \<Rightarrow> (status \<times> client_channel) option" where
  "Renew ssl generated now exchange lifetime c =
     (if \<not> cc_opened c then Some (status_of_code Bad_NoCommunication, c)
      else OpenSecureChannel ssl generated now exchange RequestRenew lifetime c)"

definition RenewIfNeeded :: "openssl \<Rightarrow> status + bytes \<Rightarrow> int \<Rightarrow> int \<Rightarrow> (bytes \<Rightarrow> status + bytes) \<Rightarrow> client_channel
    \<Rightarrow> (status \<times> client_channel) option" where
  "RenewIfNeeded ssl generated now later exchange c =
     (if \<not> ShouldRenew now c then Some (status_of_code Good, c)
      else Renew ssl generated later exchange (revised_lifetime_ms c) c)"

section \<open>Requests and responses\<close>

definition symmetric_header :: "message_type \<Rightarrow> nat \<Rightarrow> client_channel \<Rightarrow> bytes option" where
  "symmetric_header t final_size c = do {
     tag \<leftarrow> (case t of SecureMessage \<Rightarrow> Some (lit ''MSGF'') | SecureClose \<Rightarrow> Some (lit ''CLOF'') | _ \<Rightarrow> None);
     Some (stamp_size final_size
       (tag @ [0, 0, 0, 0] @ enc_u32 (cc_channel_id c) @ enc_u32 (cc_token_id c))) }"

definition BuildSymmetricBasic256Sha256Frame :: "openssl \<Rightarrow> message_type \<Rightarrow> u32 \<Rightarrow> bytes \<Rightarrow> client_channel
    \<Rightarrow> bytes option \<times> client_channel" where
  "BuildSymmetricBasic256Sha256Frame ssl t rid body c = (let
     payload = enc_u32 (cc_next_sequence_number c) @ enc_u32 rid @ body;
     pad_count = pad_to kAesBlockSize (length payload + 1 + kHmacSha256TagSize)
   in (if pad_count > 255 then None
       else do {
         let payload = payload @ padding pad_count;
         header \<leftarrow> symmetric_header t (16 + (length payload + kHmacSha256TagSize)) c;
         let signature = HmacSha256 ssl (signing_key (client_keys c)) (header @ payload);
         ciphertext \<leftarrow> AesCbcEncrypt ssl (encrypting_key (client_keys c))
           (initialization_vector (client_keys c)) (payload @ signature);
         Some (FixUpFrameSize (header @ ciphertext)) },
      c\<lparr>cc_next_sequence_number := cc_next_sequence_number c + 1\<rparr>))"

text \<open>A plaintext that is only a tag is read one byte before its start, as in the server.\<close>

definition DecodeSymmetricBasic256Sha256Frame :: "openssl \<Rightarrow> bytes \<Rightarrow> client_channel
    \<Rightarrow> (status + u32 \<times> bytes) option" where
  "DecodeSymmetricBasic256Sha256Frame ssl frame c =
     (if length frame < 16 then Some (Inl bad_status)
      else if load_u32 (drop 8 frame) \<noteq> cc_channel_id c \<or> load_u32 (drop 12 frame) \<noteq> cc_token_id c
      then Some (Inl bad_status)
      else (case AesCbcDecrypt ssl (encrypting_key (server_keys c))
              (initialization_vector (server_keys c)) (drop 16 frame) of
          None \<Rightarrow> Some (Inl bad_status)
        | Some decrypted \<Rightarrow>
          if length decrypted < kHmacSha256TagSize then Some (Inl bad_status)
          else (let
            sig_begin = length decrypted - kHmacSha256TagSize;
            expected_tag = HmacSha256 ssl (signing_key (server_keys c))
              (take 16 frame @ take sig_begin decrypted)
          in if expected_tag \<noteq> drop sig_begin decrypted then Some (Inl bad_status)
             else if sig_begin = 0 then None
             else (let pad_size = unat (decrypted ! (sig_begin - 1)) in
               if sig_begin < 1 + pad_size + 8 then Some (Inl bad_status)
               else (let body_end = sig_begin - 1 - pad_size in
                 Some (Inr (load_u32 (drop 4 decrypted), take (body_end - 8) (drop 8 decrypted))))))))"

definition plain_message :: "message_type \<Rightarrow> u32 \<Rightarrow> bytes \<Rightarrow> client_channel \<Rightarrow> secure_conversation_message" where
  "plain_message t rid body c = \<lparr>
     scm_frame_header = \<lparr>fh_message_type = t, fh_chunk_type = kFinalChunk, fh_message_size = 0\<rparr>,
     secure_channel_id = cc_channel_id c, scm_asymmetric = None, scm_symmetric = Some (cc_token_id c),
     scm_sequence_header = \<lparr>sequence_number = cc_next_sequence_number c, request_id = rid\<rparr>,
     scm_body = body\<rparr>"

definition frame_for :: "openssl \<Rightarrow> message_type \<Rightarrow> u32 \<Rightarrow> bytes \<Rightarrow> client_channel
    \<Rightarrow> (status + bytes) \<times> client_channel" where
  "frame_for ssl t rid body c =
     map_prod or_bad id
       (if UsesSignAndEncrypt c then BuildSymmetricBasic256Sha256Frame ssl t rid body c
        else (EncodeSecureConversationMessage (plain_message t rid body c),
              c\<lparr>cc_next_sequence_number := cc_next_sequence_number c + 1\<rparr>))"

text \<open>The frame that is written, whose result is then that of the write; or the status.\<close>

definition SendServiceRequest :: "openssl \<Rightarrow> u32 \<Rightarrow> bytes \<Rightarrow> client_channel \<Rightarrow> (status + bytes) \<times> client_channel" where
  "SendServiceRequest ssl rid body c =
     (if \<not> cc_opened c then (Inl (status_of_code Bad_NoCommunication), c)
      else frame_for ssl SecureMessage rid body c)"

definition DecodeServiceMessageChunk :: "openssl \<Rightarrow> bytes \<Rightarrow> client_channel \<Rightarrow> (status + u32 \<times> bytes) option" where
  "DecodeServiceMessageChunk ssl frame c =
     (if UsesSignAndEncrypt c then DecodeSymmetricBasic256Sha256Frame ssl frame c
      else Some (or_bad (do {
        message \<leftarrow> DecodeSecureConversationMessage frame;
        token \<leftarrow> scm_symmetric message;
        if fh_message_type (scm_frame_header message) \<noteq> SecureMessage
           \<or> secure_channel_id message \<noteq> cc_channel_id c \<or> token \<noteq> cc_token_id c then None
        else Some (request_id (scm_sequence_header message), scm_body message) })))"

abbreviation kMaxResponseChunks :: nat where "kMaxResponseChunks \<equiv> 8192"
abbreviation kMaxResponseBytes :: nat where "kMaxResponseBytes \<equiv> 64 * 1024 * 1024"

text \<open>The loop of \<open>ReadServiceResponse\<close>: reading chunk \<open>n\<close> with \<open>reassembled\<close> so far, or done.\<close>

datatype reading =
  Reading (chunk_index: nat) (reassembled: bytes)
| ReadDone "status + u32 \<times> bytes"

definition ReadChunk :: "openssl \<Rightarrow> client_channel \<Rightarrow> nat \<Rightarrow> bytes \<Rightarrow> status + bytes \<Rightarrow> reading option" where
  "ReadChunk ssl c n acc input =
     (if n \<ge> kMaxResponseChunks then Some (ReadDone (Inl bad_status))
      else case input of
        Inl e \<Rightarrow> Some (ReadDone (Inl e))
      | Inr frame \<Rightarrow>
          if length frame < 4 then Some (ReadDone (Inl bad_status))
          else if frame ! 3 \<noteq> kIntermediateChunk \<and> frame ! 3 \<noteq> kFinalChunk
          then Some (ReadDone (Inl bad_status))
          else (case DecodeServiceMessageChunk ssl frame c of
              None \<Rightarrow> None
            | Some (Inl e) \<Rightarrow> Some (ReadDone (Inl e))
            | Some (Inr (rid, body)) \<Rightarrow>
                if length acc + length body > kMaxResponseBytes then Some (ReadDone (Inl bad_status))
                else if frame ! 3 = kFinalChunk then Some (ReadDone (Inr (rid, acc @ body)))
                else Some (Reading (Suc n) (acc @ body))))"

text \<open>The loop over the frames the transport delivers: the result and the frames not read.\<close>

fun read_chunks :: "openssl \<Rightarrow> client_channel \<Rightarrow> reading \<Rightarrow> (status + bytes) list
    \<Rightarrow> (reading \<times> (status + bytes) list) option" where
  "read_chunks ssl c (ReadDone r) inputs = Some (ReadDone r, inputs)"
| "read_chunks ssl c (Reading n acc) [] =
     (if n \<ge> kMaxResponseChunks then Some (ReadDone (Inl bad_status), []) else Some (Reading n acc, []))"
| "read_chunks ssl c (Reading n acc) (input # inputs) =
     (if n \<ge> kMaxResponseChunks then Some (ReadDone (Inl bad_status), input # inputs)
      else do { r \<leftarrow> ReadChunk ssl c n acc input; read_chunks ssl c r inputs })"

definition ReadServiceResponse :: "openssl \<Rightarrow> client_channel \<Rightarrow> (status + bytes) list
    \<Rightarrow> (reading \<times> (status + bytes) list) option" where
  "ReadServiceResponse ssl c inputs =
     (if \<not> cc_opened c then Some (ReadDone (Inl (status_of_code Bad_NoCommunication)), inputs)
      else read_chunks ssl c (Reading 0 []) inputs)"

definition Close :: "openssl \<Rightarrow> client_channel \<Rightarrow> (status + bytes) option \<times> client_channel" where
  "Close ssl c =
     (if \<not> cc_opened c then (None, c)
      else (let
        (rid, c) = NextRequestId c;
        body = EncodeCloseSecureChannelRequestBody \<lparr>rqh_request_handle = rid,
          rqh_return_diagnostics = 0, rqh_audit_entry_id = [], rqh_timeout_hint = 0\<rparr>;
        (framed, c) = frame_for ssl SecureClose rid body c
      in (Some framed, c\<lparr>cc_opened := False\<rparr>)))"

section \<open>The client as the other end\<close>

text \<open>
  Once opened, the client is a secure channel with the keys the other way round. Its frames
  are those such a channel builds, and what it accepts is what such a channel accepts.
\<close>

definition mirror :: "client_channel \<Rightarrow> secure_channel" where
  "mirror c = \<lparr>sc_config = None, channel_id = cc_channel_id c, token_id = cc_token_id c,
     previous_token_id = 0, next_sequence_number = cc_next_sequence_number c, opened = cc_opened c,
     basic256_active = UsesSignAndEncrypt c, inbound_keys = server_keys c, outbound_keys = client_keys c,
     server_nonce = [], client_certificate_der = []\<rparr>"

lemma mirror_simps [simp]:
  "channel_id (mirror c) = cc_channel_id c" "token_id (mirror c) = cc_token_id c"
  "next_sequence_number (mirror c) = cc_next_sequence_number c" "opened (mirror c) = cc_opened c"
  "basic256_active (mirror c) = UsesSignAndEncrypt c"
  "inbound_keys (mirror c) = server_keys c" "outbound_keys (mirror c) = client_keys c"
  by (simp_all add: mirror_def)

lemma symmetric_frame_mirror:
  "fst (BuildSymmetricBasic256Sha256Frame ssl SecureMessage rid body c)
     = fst (BuildSecureServiceResponse ssl rid body (mirror c))"
  by (simp add: BuildSymmetricBasic256Sha256Frame_def BuildSecureServiceResponse_def Let_def
      symmetric_header_def secure_msg_header_def)

lemma SendServiceRequest_mirror:
  assumes "SendServiceRequest ssl rid body c = (Inr frame, c')"
  shows "frame = fst (BuildServiceResponse ssl rid body (mirror c))"
  using assms symmetric_frame_mirror [of ssl rid body c]
  by (auto simp: SendServiceRequest_def frame_for_def or_bad_def map_prod_def BuildServiceResponse_def
      plain_message_def split: if_splits option.splits prod.splits)

lemma DecodeSymmetric_mirror:
  "HandleEncryptedMessage ssl frame False (mirror c) =
     map_option (\<lambda>r. case r of Inl _ \<Rightarrow> (close_result, mirror c)
       | Inr (rid, body) \<Rightarrow> (no_result\<lparr>service_payload := Some body, res_request_id := Some rid\<rparr>, mirror c))
     (DecodeSymmetricBasic256Sha256Frame ssl frame c)"
  by (simp add: HandleEncryptedMessage_def DecodeSymmetricBasic256Sha256Frame_def Let_def
      close_or_service_def split: option.split)

text \<open>A frame the mirror delivers is a chunk the client decodes.\<close>

lemma chunk_delivered:
  assumes "HandleFrame env frame (mirror c)
      = Some (no_result\<lparr>service_payload := Some body, res_request_id := Some rid\<rparr>, s)"
    and "env_ssl env = ssl"
  shows "DecodeServiceMessageChunk ssl frame c = Some (Inr (rid, body))"
proof -
  obtain h where h: "DecodeFrameHeader frame = Some h" and "unat (fh_message_size h) = length frame"
    and "fh_message_type h = SecureMessage"
    and m: "HandleSecureMessage ssl frame False (mirror c)
      = Some (no_result\<lparr>service_payload := Some body, res_request_id := Some rid\<rparr>, s)"
    using assms HandleOpen_no_payload [of env frame "mirror c"]
    by (auto simp: HandleFrame_def HandleSecureMessage_def close_result_def no_result_def
        HandlePlainMessage_def HandleEncryptedMessage_def close_or_service_def Let_def
        split: option.splits message_type.splits if_splits)
  show ?thesis
  proof (cases "UsesSignAndEncrypt c")
    case True
    have "HandleEncryptedMessage ssl frame False (mirror c)
        = Some (no_result\<lparr>service_payload := Some body, res_request_id := Some rid\<rparr>, s)"
      using m True by (simp add: HandleSecureMessage_def close_result_def no_result_def split: if_splits)
    then obtain r where "DecodeSymmetricBasic256Sha256Frame ssl frame c = Some r"
      and r: "(case r of Inl _ \<Rightarrow> (close_result, mirror c)
       | Inr (rid, body) \<Rightarrow> (no_result\<lparr>service_payload := Some body, res_request_id := Some rid\<rparr>, mirror c))
        = (no_result\<lparr>service_payload := Some body, res_request_id := Some rid\<rparr>, s)"
      unfolding DecodeSymmetric_mirror by auto
    moreover from r have "r = Inr (rid, body)"
      by (cases r) (auto simp: close_result_def no_result_def)
    ultimately show ?thesis using True by (simp add: DecodeServiceMessageChunk_def)
  next
    case False
    with m h \<open>fh_message_type h = SecureMessage\<close> show ?thesis
      by (auto simp: HandleSecureMessage_def HandlePlainMessage_def DecodeServiceMessageChunk_def
          close_result_def no_result_def close_or_service_def or_bad_def mirror_def
          dest: DecodeSecure_header split: if_splits option.splits)
  qed
qed

lemma nth_frame: "(EncodeFrameHeader h @ rest) ! 3 = fh_chunk_type h"
proof -
  have "length (EncodeMessageType (fh_message_type h)) = 3" by simp
  then show ?thesis by (simp add: EncodeFrameHeader_def nth_append)
qed

lemma plain_response_frame:
  fixes rid :: u32 and ssl :: openssl
  assumes "\<not> basic256_active a" and "length body < 2 ^ 31"
  defines "frame \<equiv> fst (BuildServiceResponse ssl rid body a)"
  shows "\<exists>m. DecodeSecureConversationMessage frame = Some m
      \<and> fh_message_type (scm_frame_header m) = SecureMessage \<and> secure_channel_id m = channel_id a
      \<and> scm_symmetric m = Some (token_id a) \<and> scm_body m = body
      \<and> request_id (scm_sequence_header m) = rid"
    and "4 \<le> length frame \<and> frame ! 3 = kFinalChunk"
proof -
  let ?h = "\<lparr>fh_message_type = SecureMessage, fh_chunk_type = kFinalChunk, fh_message_size = 0\<rparr>"
  let ?m = "\<lparr>scm_frame_header = ?h, secure_channel_id = channel_id a, scm_asymmetric = None,
      scm_symmetric = Some (token_id a),
      scm_sequence_header = \<lparr>sequence_number = next_sequence_number a, request_id = rid\<rparr>, scm_body = body\<rparr>"
  obtain f where f: "EncodeSecureConversationMessage ?m = Some f"
    by (simp add: EncodeSecureConversationMessage_def enc_security_header_def Let_def)
  have frame: "frame = f" using f assms(1) by (simp add: frame_def BuildServiceResponse_def)
  have eq: "f = EncodeFrameHeader (?h\<lparr>fh_message_size := of_nat (length f)\<rparr>) @ enc_u32 (channel_id a)
      @ enc_u32 (token_id a) @ enc_u32 (next_sequence_number a) @ enc_u32 rid @ body"
    using EncodeSecure_eq [OF f] by (auto simp: enc_security_header_def)
  have "length f = 24 + length body" by (subst eq) simp
  then have "length f < 2 ^ 32" using assms(2) by simp
  from DecodeSecure_Encode [OF f _ this]
  show "\<exists>m. DecodeSecureConversationMessage frame = Some m
      \<and> fh_message_type (scm_frame_header m) = SecureMessage \<and> secure_channel_id m = channel_id a
      \<and> scm_symmetric m = Some (token_id a) \<and> scm_body m = body
      \<and> request_id (scm_sequence_header m) = rid"
    by (simp add: frame scm_ok_def)
  show "4 \<le> length frame \<and> frame ! 3 = kFinalChunk"
    unfolding frame by (subst (1 2) eq) (simp add: nth_frame)
qed

section \<open>A linked pair\<close>

text \<open>What a completed handshake leaves: the two ends agree on ids and keys.\<close>

definition linked :: "client_channel \<times> secure_channel \<Rightarrow> bool" where
  "linked = (\<lambda>(c, s). cc_opened c \<and> opened s \<and> cc_channel_id c = channel_id s \<and> cc_token_id c = token_id s
     \<and> basic256_active s = UsesSignAndEncrypt c
     \<and> (UsesSignAndEncrypt c \<longrightarrow> keys_ok (client_keys c) \<and> keys_ok (server_keys c)
          \<and> inbound_keys s = client_keys c \<and> outbound_keys s = server_keys c))"

text \<open>One end builds, the other handles, whichever policy they agreed on.\<close>

lemma built_is_delivered:
  assumes "aes_law ssl" and "env_ssl env = ssl" and "length body < 2 ^ 31" and "opened b"
    and "basic256_active b = basic256_active a" and "channel_id b = channel_id a" "token_id b = token_id a"
    and "basic256_active a \<Longrightarrow> keys_ok (outbound_keys a) \<and> inbound_keys b = outbound_keys a"
  shows "HandleFrame env (fst (BuildServiceResponse ssl rid body a)) b
    = Some (no_result\<lparr>service_payload := Some body, res_request_id := Some rid\<rparr>, b)"
proof (cases "basic256_active a")
  case True
  then show ?thesis using assms by (intro BuildServiceResponse_delivered) auto
next
  case False
  from plain_response_frame(1) [OF this assms(3), of ssl rid]
  obtain m where m: "DecodeSecureConversationMessage (fst (BuildServiceResponse ssl rid body a)) = Some m"
    "fh_message_type (scm_frame_header m) = SecureMessage" "secure_channel_id m = channel_id a"
    "scm_symmetric m = Some (token_id a)" "scm_body m = body" "request_id (scm_sequence_header m) = rid"
    by auto
  have "live_token b (token_id a)" using assms(7) by (simp add: live_token_def)
  with HandleFrame_plain [OF m(1,2) assms(4) _ _ m(4)] m(3,5,6) False assms(5,6) show ?thesis by simp
qed

lemma response_final_chunk:
  assumes "aes_law ssl" and "basic256_active a \<Longrightarrow> keys_ok (outbound_keys a)" and "length body < 2 ^ 31"
  shows "4 \<le> length (fst (BuildServiceResponse ssl rid body a))
    \<and> fst (BuildServiceResponse ssl rid body a) ! 3 = kFinalChunk"
proof (cases "basic256_active a")
  case True
  from BuildSecureServiceResponse_frame [OF assms(1) assms(2) [OF True], of rid body]
  show ?thesis using True by (auto simp: BuildServiceResponse_def secure_msg_header_eq nth_frame)
qed (use plain_response_frame(2) assms(3) in blast)

lemma SendServiceRequest_sends:
  assumes "aes_law ssl" and "cc_opened c" and "UsesSignAndEncrypt c \<Longrightarrow> keys_ok (client_keys c)"
  shows "\<exists>frame. SendServiceRequest ssl rid body c
    = (Inr frame, c\<lparr>cc_next_sequence_number := cc_next_sequence_number c + 1\<rparr>)"
proof (cases "UsesSignAndEncrypt c")
  case True
  obtain f where "fst (BuildSecureServiceResponse ssl rid body (mirror c)) = Some f"
    using BuildSecureServiceResponse_frame [of ssl "mirror c" rid body] assms(1) assms(3) [OF True] by auto
  with True assms(2) show ?thesis
    by (auto simp: SendServiceRequest_def frame_for_def or_bad_def symmetric_frame_mirror [symmetric]
        BuildSymmetricBasic256Sha256Frame_def Let_def)
next
  case False
  then show ?thesis using assms(2)
    by (simp add: SendServiceRequest_def frame_for_def or_bad_def plain_message_def
        EncodeSecureConversationMessage_def enc_security_header_def Let_def)
qed

text \<open>A request all the way to the server, and a response all the way back.\<close>

definition ask :: "openssl \<Rightarrow> channel_env \<Rightarrow> u32 \<Rightarrow> bytes \<Rightarrow> client_channel \<times> secure_channel
    \<Rightarrow> ((u32 \<times> bytes) \<times> client_channel \<times> secure_channel) option" where
  "ask ssl env rid body = (\<lambda>(c, s). case SendServiceRequest ssl rid body c of
       (Inl _, _) \<Rightarrow> None
     | (Inr frame, c) \<Rightarrow> do {
         (r, s) \<leftarrow> HandleFrame env frame s;
         rid \<leftarrow> res_request_id r;
         body \<leftarrow> service_payload r;
         Some ((rid, body), c, s) })"

definition answer :: "openssl \<Rightarrow> u32 \<Rightarrow> bytes \<Rightarrow> client_channel \<times> secure_channel
    \<Rightarrow> ((u32 \<times> bytes) \<times> client_channel \<times> secure_channel) option" where
  "answer ssl rid body = (\<lambda>(c, s). case BuildServiceResponse ssl rid body s of (frame, s) \<Rightarrow>
     (case ReadServiceResponse ssl c [Inr frame] of
        Some (ReadDone (Inr received), []) \<Rightarrow> Some (received, c, s)
      | _ \<Rightarrow> None))"

lemma ask_exact:
  assumes "aes_law ssl" and "env_ssl env = ssl" and "linked w" and "length body \<le> kMaxResponseBytes"
  shows "\<exists>w'. ask ssl env rid body w = Some ((rid, body), w') \<and> linked w'"
proof -
  obtain c s where w: "w = (c, s)" by (cases w)
  have "cc_opened c" and "UsesSignAndEncrypt c \<Longrightarrow> keys_ok (client_keys c)"
    using assms(3) by (auto simp: w linked_def)
  from SendServiceRequest_sends [OF assms(1) this]
  obtain frame where f: "SendServiceRequest ssl rid body c
      = (Inr frame, c\<lparr>cc_next_sequence_number := cc_next_sequence_number c + 1\<rparr>)" by blast
  have "HandleFrame env (fst (BuildServiceResponse ssl rid body (mirror c))) s
      = Some (no_result\<lparr>service_payload := Some body, res_request_id := Some rid\<rparr>, s)"
    using assms by (intro built_is_delivered) (auto simp: w linked_def)
  then have "HandleFrame env frame s
      = Some (no_result\<lparr>service_payload := Some body, res_request_id := Some rid\<rparr>, s)"
    using SendServiceRequest_mirror [OF f] by simp
  then show ?thesis using f assms(3) by (simp add: ask_def w linked_def UsesSignAndEncrypt_def)
qed

lemma answer_exact:
  assumes "aes_law ssl" and "linked w" and "length body \<le> kMaxResponseBytes"
  shows "\<exists>w'. answer ssl rid body w = Some ((rid, body), w') \<and> linked w'"
proof -
  obtain c s where w: "w = (c, s)" by (cases w)
  obtain frame where f: "BuildServiceResponse ssl rid body s
      = (frame, s\<lparr>next_sequence_number := next_sequence_number s + 1\<rparr>)"
    using BuildServiceResponse_snd [of ssl rid body s] by (metis prod.collapse)
  let ?env = "\<lparr>env_ssl = ssl, env_now = 0, env_generated_nonce = None\<rparr>"
  have "HandleFrame ?env (fst (BuildServiceResponse ssl rid body s)) (mirror c)
      = Some (no_result\<lparr>service_payload := Some body, res_request_id := Some rid\<rparr>, mirror c)"
    using assms by (intro built_is_delivered) (auto simp: w linked_def)
  then have d: "DecodeServiceMessageChunk ssl frame c = Some (Inr (rid, body))"
    using chunk_delivered f by fastforce
  have "4 \<le> length frame \<and> frame ! 3 = kFinalChunk"
    using response_final_chunk [of ssl s body rid] assms f by (auto simp: w linked_def)
  with d assms(2,3) have "ReadServiceResponse ssl c [Inr frame] = Some (ReadDone (Inr (rid, body)), [])"
    by (simp add: ReadServiceResponse_def ReadChunk_def w linked_def)
  then show ?thesis using f assms(2) by (simp add: answer_def w linked_def)
qed

text \<open>
  A whole conversation, in any order of requests and responses. What it needs of the two
  directions is the contract of a duplex link.
\<close>

datatype turn = Ask u32 bytes | Answer u32 bytes

fun talk :: "(u32 \<Rightarrow> bytes \<Rightarrow> 'w \<Rightarrow> ((u32 \<times> bytes) \<times> 'w) option)
    \<Rightarrow> (u32 \<Rightarrow> bytes \<Rightarrow> 'w \<Rightarrow> ((u32 \<times> bytes) \<times> 'w) option) \<Rightarrow> turn list \<Rightarrow> 'w \<Rightarrow> (turn list \<times> 'w) option" where
  "talk up down [] w = Some ([], w)"
| "talk up down (Ask rid body # turns) w = do {
     ((rid, body), w) \<leftarrow> up rid body w;
     (heard, w) \<leftarrow> talk up down turns w;
     Some (Ask rid body # heard, w) }"
| "talk up down (Answer rid body # turns) w = do {
     ((rid, body), w) \<leftarrow> down rid body w;
     (heard, w) \<leftarrow> talk up down turns w;
     Some (Answer rid body # heard, w) }"

fun turn_body :: "turn \<Rightarrow> bytes" where
  "turn_body (Ask rid body) = body" | "turn_body (Answer rid body) = body"

locale duplex =
  fixes up down :: "u32 \<Rightarrow> bytes \<Rightarrow> 'w \<Rightarrow> ((u32 \<times> bytes) \<times> 'w) option"
    and joined :: "'w \<Rightarrow> bool" and fits :: "bytes \<Rightarrow> bool"
  assumes up_exact: "joined w \<Longrightarrow> fits body \<Longrightarrow> \<exists>w'. up rid body w = Some ((rid, body), w') \<and> joined w'"
    and down_exact: "joined w \<Longrightarrow> fits body \<Longrightarrow> \<exists>w'. down rid body w = Some ((rid, body), w') \<and> joined w'"
begin

lemma all_heard:
  "joined w \<Longrightarrow> list_all (fits \<circ> turn_body) turns \<Longrightarrow>
     \<exists>w'. talk up down turns w = Some (turns, w') \<and> joined w'"
proof (induction turns arbitrary: w)
  case (Cons t turns)
  then obtain rid body where "t = Ask rid body \<or> t = Answer rid body" and b: "fits body"
    by (cases t) auto
  then show ?case
  proof (elim disjE)
    assume t: "t = Ask rid body"
    obtain w1 where w1: "up rid body w = Some ((rid, body), w1)" "joined w1"
      using up_exact [OF Cons.prems(1) b] by blast
    then obtain w2 where "talk up down turns w1 = Some (turns, w2)" "joined w2"
      using Cons.IH [OF w1(2)] Cons.prems(2) by auto
    with w1 show ?thesis by (simp add: t)
  next
    assume t: "t = Answer rid body"
    obtain w1 where w1: "down rid body w = Some ((rid, body), w1)" "joined w1"
      using down_exact [OF Cons.prems(1) b] by blast
    then obtain w2 where "talk up down turns w1 = Some (turns, w2)" "joined w2"
      using Cons.IH [OF w1(2)] Cons.prems(2) by auto
    with w1 show ?thesis by (simp add: t)
  qed
qed simp

end

text \<open>The channel pair as such a link, for an OpenSSL that decrypts what it encrypted.\<close>

interpretation channel: duplex "ask ssl env" "answer ssl"
    "\<lambda>w. linked w \<and> aes_law ssl \<and> env_ssl env = ssl" "\<lambda>body. length body \<le> kMaxResponseBytes"
  for ssl env
  by unfold_locales (use ask_exact answer_exact in blast)+

section \<open>A sealed OPN frame\<close>

text \<open>What RSA-PKCS#1 signatures promise of a key pair, and the pairs the stack can use.\<close>

definition sign_law :: "openssl \<Rightarrow> pkey \<Rightarrow> pkey \<Rightarrow> bool" where
  "sign_law ssl priv pub \<longleftrightarrow> (\<forall>d. \<exists>s. digest_sign ssl priv d = Some s \<and> length s = pkey_size ssl priv
     \<and> digest_verify ssl pub d s)"

text \<open>
  A block of plaintext is at most 256 bytes, so that the padding has a size the single
  PaddingSize byte can hold: the builders refuse to pad further.
\<close>

definition key_pair :: "openssl \<Rightarrow> pkey \<Rightarrow> pkey \<Rightarrow> bool" where
  "key_pair ssl priv pub \<longleftrightarrow> oaep_law ssl pub priv \<and> sign_law ssl priv pub
     \<and> kRsaOaepSha1Overhead < pkey_size ssl pub \<and> pkey_size ssl pub \<le> 256 + kRsaOaepSha1Overhead"

lemma rsa_blocks_length:
  assumes "\<And>p. length p \<le> n \<Longrightarrow> \<exists>c. f p = Some c \<and> length c = m" and "0 < n"
  shows "length xs mod n = 0 \<Longrightarrow> rsa_blocks n f xs = Some c \<Longrightarrow> length c = length xs div n * m"
proof (induction "length xs" arbitrary: xs c rule: less_induct)
  case less
  show ?case
  proof (cases "xs = []")
    case True
    with less.prems show ?thesis by (subst (asm) rsa_blocks.simps) simp
  next
    case False
    then obtain b bs where b: "f (take n xs) = Some b" and bs: "rsa_blocks n f (drop n xs) = Some bs"
      and c: "c = b @ bs"
      using less.prems(2) assms(2) by (subst (asm) rsa_blocks.simps) (auto simp: Option.bind_eq_Some_conv)
    have n: "n \<le> length xs" using False less.prems(1) by (metis length_0_conv mod_less not_less)
    have "length b = m" using assms(1) [of "take n xs"] b by auto
    moreover have "length bs = length (drop n xs) div n * m"
      using less.hyps [of "drop n xs" bs] n assms(2) less.prems(1) False bs
      by (simp add: mod_if le_mod_geq)
    moreover have "length xs div n = Suc ((length xs - n) div n)"
      using n assms(2) by (simp add: le_div_geq)
    ultimately show ?thesis by (simp add: c)
  qed
qed

lemma RsaOaepEncrypt_length:
  assumes "oaep_law ssl pub priv" and "kRsaOaepSha1Overhead < pkey_size ssl pub"
    and "length p mod (pkey_size ssl pub - kRsaOaepSha1Overhead) = 0"
    and "RsaOaepEncrypt ssl (Some pub) p = Some c"
  shows "length c = length p div (pkey_size ssl pub - kRsaOaepSha1Overhead) * pkey_size ssl pub"
proof (rule rsa_blocks_length)
  show "\<exists>c. oaep_encrypt ssl pub q = Some c \<and> length c = pkey_size ssl pub"
    if "length q \<le> pkey_size ssl pub - kRsaOaepSha1Overhead" for q
    using assms(1) that by (auto simp: oaep_law_def)
  show "rsa_blocks (pkey_size ssl pub - kRsaOaepSha1Overhead) (oaep_encrypt ssl pub) p = Some c"
    using assms(2,4) by (simp add: RsaOaepEncrypt_def KeySizeBytes_def)
qed (use assms in auto)

text \<open>
  Sealing with one's own key for a peer: the peer decrypts the plaintext, the padding and a
  signature that verifies over the header it sees, whose size field is the final one.
\<close>

lemma seal_open_frame:
  fixes h :: frame_header and rest plain :: bytes
  assumes own: "key_pair ssl own ownpub" and peer: "key_pair ssl peerpriv peer"
  obtains cipher sig pad hdr where
    "hdr = EncodeFrameHeader (h\<lparr>fh_message_size := of_nat (8 + length rest + length cipher)\<rparr>) @ rest"
    and "seal_open ssl (Some own) (Some peer) (EncodeFrameHeader h @ rest) plain = Some (Some (hdr @ cipher))"
    and "pad < 256" and "length sig = pkey_size ssl ownpub" and "cipher \<noteq> []"
    and "RsaOaepDecrypt ssl (Some peerpriv) cipher = Some (plain @ padding pad @ sig)"
    and "digest_verify ssl ownpub (hdr @ plain @ padding pad) sig"
    and "length cipher \<le> (length plain + 555) * 298"
proof -
  let ?block = "pkey_size ssl peer - kRsaOaepSha1Overhead"
  let ?pad = "pad_to ?block (length plain + 1 + pkey_size ssl own)"
  let ?text = "plain @ padding ?pad"
  let ?n = "(length ?text + pkey_size ssl own) div ?block * pkey_size ssl peer"
  let ?hdr = "EncodeFrameHeader (h\<lparr>fh_message_size := of_nat (8 + length rest + ?n)\<rparr>) @ rest"
  have sizes: "0 < ?block" "?block \<le> 256" "pkey_size ssl own = pkey_size ssl ownpub" "pkey_size ssl own \<le> 298"
    "oaep_law ssl peer peerpriv" "kRsaOaepSha1Overhead < pkey_size ssl peer" "pkey_size ssl peer \<le> 298"
    using own peer by (auto simp: key_pair_def oaep_law_def)
  have pad: "?pad < 256" using pad_to_less [OF sizes(1), of "length plain + 1 + pkey_size ssl own"] sizes(2) by simp
  obtain sig where sig: "digest_sign ssl own (?hdr @ ?text) = Some sig" "length sig = pkey_size ssl own"
    "digest_verify ssl ownpub (?hdr @ ?text) sig"
    using own by (auto simp: key_pair_def sign_law_def)
  have total: "length (?text @ sig) = length plain + 1 + pkey_size ssl own + ?pad"
    using sig(2) by (simp add: padding_def)
  then have whole: "length (?text @ sig) mod ?block = 0" using pad_to_multiple [OF sizes(1)] by metis
  obtain cipher where c: "RsaOaepEncrypt ssl (Some peer) (?text @ sig) = Some cipher"
    "RsaOaepDecrypt ssl (Some peerpriv) cipher = Some (?text @ sig)"
    using RsaOaep_roundtrip [OF sizes(5,6)] by blast
  have n: "length cipher = ?n"
    using RsaOaepEncrypt_length [OF sizes(5,6) whole c(1)] sig(2) by (simp add: add.assoc)
  have "0 < length (?text @ sig) div ?block"
    using whole sizes(1) total by (metis One_nat_def add_gr_0 add_is_0 div_eq_0_iff gr0I less_numeral_extra(1) mod_less)
  then have ne: "cipher \<noteq> []" using n sig(2) sizes(6) by (auto simp: RsaOaepEncrypt_length [OF sizes(5,6) whole c(1)] dest: arg_cong [of _ _ length])
  have "FixUpFrameSize (?hdr @ cipher) = ?hdr @ cipher"
    using FixUp_idem [of h "rest @ cipher" "8 + length rest + ?n"] n by simp
  then have "seal_open ssl (Some own) (Some peer) (EncodeFrameHeader h @ rest) plain = Some (Some (?hdr @ cipher))"
    using pad sizes sig(1) c(1)
    by (simp add: seal_open_def Let_def KeySizeBytes_def RsaPkcs1Sha256Sign_def stamp_size_header add.assoc)
  moreover have "?n \<le> (length plain + 555) * 298"
  proof -
    have "(length ?text + pkey_size ssl own) div ?block \<le> length plain + 555"
      using pad sizes(4) by (intro order_trans [OF div_le_dividend]) (simp add: padding_def)
    then show ?thesis using sizes(7) by (rule mult_le_mono)
  qed
  ultimately show thesis
    using that [OF _ _ pad _ ne, of ?hdr sig] n sig(2,3) sizes(3) c(2) by simp
qed

text \<open>The clear part of an OPN frame is read back, and its end is where the ciphertext starts.\<close>

lemma open_prefix_decodes:
  assumes frame: "frame = EncodeFrameHeader h @ enc_u32 cid @ enc_asymmetric a @ cipher" and "cipher \<noteq> []"
    and "wire_len (security_policy_uri a)" "wire_len (sender_certificate a)"
      "wire_len (receiver_certificate_thumbprint a)"
  obtains d1 d2 where "decode_u32 (make_decoder (drop 8 frame)) = Some (cid, d1)"
    and "decode_asymmetric d1 = Some (a, d2)" and "8 + d_offset d2 = length frame - length cipher"
proof -
  have "remaining (make_decoder (drop 8 frame)) = enc_u32 cid @ enc_asymmetric a @ cipher" by (simp add: frame)
  from reads_then_u32 [OF this] obtain d1 where d1: "decode_u32 (make_decoder (drop 8 frame)) = Some (cid, d1)"
    "remaining d1 = enc_asymmetric a @ cipher" .
  obtain d2 where d2: "decode_asymmetric d1 = Some (a, d2)" "remaining d2 = cipher"
    using reads_asymmetric [OF d1(2) assms(3-5)] by (auto simp: reads_def)
  have "d_bytes d2 = drop 8 frame"
    using d1(1) d2(1) by (auto simp: decode_asymmetric_def Option.bind_eq_Some_conv dest!: decode_keeps_bytes)
  then have "length (drop (d_offset d2) (drop 8 frame)) = length cipher" using d2(2) by (simp add: remaining_def)
  then have "length frame - (8 + d_offset d2) = length cipher" by simp
  moreover have "0 < length cipher" using assms(2) by simp
  ultimately have "8 + d_offset d2 = length frame - length cipher" by linarith
  with d1(1) d2(1) show thesis by (rule that)
qed

lemma seal_size_ok:
  assumes "8 + length rest + length cipher < 2 ^ 32"
  shows "DecodeFrameHeader ((EncodeFrameHeader (h\<lparr>fh_message_size := of_nat (8 + length rest + length cipher)\<rparr>) @ rest) @ cipher)
      = Some (h\<lparr>fh_message_size := of_nat (8 + length rest + length cipher)\<rparr>)"
    and "unat (of_nat (8 + length rest + length cipher) :: u32) = 8 + length rest + length cipher"
proof -
  show u: "unat (of_nat (8 + length rest + length cipher) :: u32) = 8 + length rest + length cipher"
    using assms by (intro unat_of_nat_small) simp
  have "8 \<le> (of_nat (8 + length rest + length cipher) :: u32)"
    using u by (simp add: word_le_nat_alt del: of_nat_add)
  then show "DecodeFrameHeader ((EncodeFrameHeader (h\<lparr>fh_message_size := of_nat (8 + length rest + length cipher)\<rparr>) @ rest) @ cipher)
      = Some (h\<lparr>fh_message_size := of_nat (8 + length rest + length cipher)\<rparr>)"
    unfolding append_assoc by (intro DecodeFrameHeader_Encode) simp
qed

text \<open>A plaintext as both sides find it after decryption.\<close>

lemma sealed_plaintext:
  fixes body sig :: bytes and sn rid :: u32 and pad :: nat
  assumes "pad < 256"
  defines "plaintext \<equiv> (enc_u32 sn @ enc_u32 rid @ body) @ padding pad @ sig"
  defines "sig_begin \<equiv> length plaintext - length sig"
  shows "length sig + 1 \<le> length plaintext" "drop sig_begin plaintext = sig"
    "take sig_begin plaintext = (enc_u32 sn @ enc_u32 rid @ body) @ padding pad"
    "unat (plaintext ! (sig_begin - 1)) = pad" "9 + pad \<le> sig_begin"
    "take (sig_begin - 1 - pad - 8) (drop 8 plaintext) = body"
    "\<exists>d d'. decode_u32 (make_decoder (take 8 plaintext)) = Some (sn, d) \<and> decode_u32 d = Some (rid, d')"
proof -
  have sb: "sig_begin = 8 + length body + pad + 1" by (simp add: sig_begin_def plaintext_def padding_def)
  show "length sig + 1 \<le> length plaintext" "9 + pad \<le> sig_begin"
    by (simp_all add: plaintext_def padding_def sb)
  show "drop sig_begin plaintext = sig" "take sig_begin plaintext = (enc_u32 sn @ enc_u32 rid @ body) @ padding pad"
    by (simp_all add: sb plaintext_def padding_def)
  have "plaintext ! (sig_begin - 1) = of_nat pad" by (simp add: sb plaintext_def padding_def nth_append)
  then show "unat (plaintext ! (sig_begin - 1)) = pad"
    using assms(1) by (simp add: unat_of_nat_small)
  show "take (sig_begin - 1 - pad - 8) (drop 8 plaintext) = body" by (simp add: sb plaintext_def)
  have "remaining (make_decoder (take 8 plaintext)) = enc_u32 sn @ enc_u32 rid @ []"
    by (simp add: plaintext_def)
  then show "\<exists>d d'. decode_u32 (make_decoder (take 8 plaintext)) = Some (sn, d) \<and> decode_u32 d = Some (rid, d')"
    by (metis reads_then_u32)
qed

section \<open>The handshake\<close>

text \<open>
  A client and a server that can open an encrypted channel: each holds the private key of a
  usable pair whose public key is in the certificate the other side knows, certificates
  survive their DER form, and the server accepts the one of the client.
\<close>

definition secure_setup :: "openssl \<Rightarrow> server_config \<Rightarrow> client_security \<Rightarrow> bool" where
  "secure_setup ssl config s \<longleftrightarrow> cs_policy_uri s = kSecurityPolicyBasic256Sha256
     \<and> cs_security_mode s = ModeSignAndEncrypt \<and> allow_basic256sha256 config
     \<and> (\<exists>cx der cx' der' ckey cpub. cs_client_certificate s = Some cx \<and> cs_private_key s = Some ckey
          \<and> i2d_X509 ssl cx = Some der \<and> der \<noteq> [] \<and> wire_len der \<and> d2i_X509 ssl der = Some cx'
          \<and> i2d_X509 ssl cx' = Some der' \<and> der' \<noteq> [] \<and> X509_get_pubkey ssl cx' = Some cpub
          \<and> key_pair ssl ckey cpub \<and> certificate_accepted config der)
     \<and> (\<exists>sx skey spub. cs_server_certificate s = Some sx \<and> cfg_private_key config = Some skey
          \<and> i2d_X509 ssl sx = Some (certificate_der config) \<and> certificate_der config \<noteq> []
          \<and> wire_len (certificate_der config)
          \<and> CertificateThumbprint ssl (Some sx) = Some (certificate_thumbprint config)
          \<and> X509_get_pubkey ssl sx = Some spub \<and> key_pair ssl skey spub)"

definition compatible :: "openssl \<Rightarrow> client_security \<Rightarrow> secure_channel \<Rightarrow> bool" where
  "compatible ssl s c \<longleftrightarrow>
     (cs_policy_uri s = kSecurityPolicyNone \<and> cs_security_mode s = ModeNone \<and> none_allowed c
        \<and> \<not> basic256_active c)
     \<or> (\<exists>config. sc_config c = Some config \<and> secure_setup ssl config s)"

lemma length_thumbprint: "CertificateThumbprint ssl cert = Some t \<Longrightarrow> length t = 20"
  by (auto simp: CertificateThumbprint_def Option.bind_eq_Some_conv)

lemma policies_differ [simp]: "kSecurityPolicyBasic256Sha256 \<noteq> kSecurityPolicyNone"
  by (simp add: kSecurityPolicyBasic256Sha256_def kSecurityPolicyNone_def lit_def)

abbreviation open_frame_header :: frame_header where
  "open_frame_header \<equiv> \<lparr>fh_message_type = SecureOpen, fh_chunk_type = kFinalChunk, fh_message_size = 0\<rparr>"

lemma secure_open_prefix_eq:
  "secure_open_prefix config c thumb = EncodeFrameHeader open_frame_header @ enc_u32 (channel_id c)
     @ enc_asymmetric \<lparr>security_policy_uri = kSecurityPolicyBasic256Sha256,
         sender_certificate = certificate_der config, receiver_certificate_thumbprint = thumb\<rparr>"
  by (simp add: secure_open_prefix_def enc_asymmetric_def EncodeFrameHeader_def lit_def kFinalChunk_def
      enc_u32_def byte_at_def)

text \<open>The response builder of the server seals like the request builder of the client.\<close>

lemma BuildSecureOpenResponse_seals:
  assumes "kRsaOaepSha1Overhead < KeySizeBytes (env_ssl env) client_key"
    and "0 < KeySizeBytes (env_ssl env) (cfg_private_key config)"
  shows "seal_open (env_ssl env) (cfg_private_key config) client_key (secure_open_prefix config c thumb)
      (enc_u32 (next_sequence_number c) @ enc_u32 rid
       @ EncodeOpenSecureChannelResponseBody (open_response env c request (status_of_code Good) nonce))
    = Some (fst (BuildSecureOpenResponse env config request rid client_key thumb nonce c))"
  using assms by (simp add: BuildSecureOpenResponse_def seal_open_def Let_def)

lemma length_request_body:
  "length (EncodeOpenSecureChannelRequestBody (open_request handle rt nonce lifetime c)) \<le> 100 + length nonce"
  by (simp add: EncodeOpenSecureChannelRequestBody_def AppendMessage_def AppendRequestHeader_def
      enc_byte_string_def enc_string_def open_request_def enc_node_id_def)

lemma length_asymmetric:
  "length (enc_asymmetric a) = 12 + length (security_policy_uri a) + length (sender_certificate a)
     + length (receiver_certificate_thumbprint a)"
  by (simp add: enc_asymmetric_def enc_string_def enc_byte_string_def)

lemma BuildAsymmetric_seals:
  fixes c :: client_channel
  defines "s \<equiv> security c"
  assumes "UsesBasic256Sha256 c" and der: "CertificateDer ssl (cs_client_certificate s) = Some der"
    and thumb: "CertificateThumbprint ssl (cs_server_certificate s) = Some thumb"
    and pub: "CertificatePublicKey ssl (cs_server_certificate s) = Some (Some spub)"
    and keys: "cs_private_key s = Some ckey" "key_pair ssl ckey cpub" "key_pair ssl skey spub"
  obtains cipher sig pad hdr where
    "hdr = EncodeFrameHeader (open_frame_header\<lparr>fh_message_size := of_nat (8 + length (enc_u32 cid @ enc_asymmetric
         \<lparr>security_policy_uri = cs_policy_uri s, sender_certificate = der,
          receiver_certificate_thumbprint = thumb\<rparr>) + length cipher)\<rparr>) @ (enc_u32 cid @ enc_asymmetric
         \<lparr>security_policy_uri = cs_policy_uri s, sender_certificate = der,
          receiver_certificate_thumbprint = thumb\<rparr>)"
    and "BuildAsymmetricBasic256Sha256OpenFrame ssl rid handle rt cid nonce lifetime c
      = Some (Some (hdr @ cipher), c\<lparr>cc_next_sequence_number := cc_next_sequence_number c + 1\<rparr>)"
    and "pad < 256" and "length sig = pkey_size ssl cpub" and "cipher \<noteq> []"
    and "RsaOaepDecrypt ssl (Some skey) cipher = Some ((enc_u32 (cc_next_sequence_number c) @ enc_u32 rid
      @ EncodeOpenSecureChannelRequestBody (open_request handle rt nonce lifetime c)) @ padding pad @ sig)"
    and "digest_verify ssl cpub (hdr @ (enc_u32 (cc_next_sequence_number c) @ enc_u32 rid
      @ EncodeOpenSecureChannelRequestBody (open_request handle rt nonce lifetime c)) @ padding pad) sig"
    and "length cipher \<le> (length nonce + 663) * 298"
proof -
  let ?m = "open_message ssl rid handle rt cid nonce lifetime c"
  let ?a = "\<lparr>security_policy_uri = cs_policy_uri s, sender_certificate = der,
          receiver_certificate_thumbprint = thumb\<rparr>"
  let ?plain = "enc_u32 (cc_next_sequence_number c) @ enc_u32 rid
      @ EncodeOpenSecureChannelRequestBody (open_request handle rt nonce lifetime c)"
  have a: "open_header ssl c = ?a" using assms(2) der thumb by (simp add: open_header_def s_def)
  obtain f where f: "EncodeSecureConversationMessage ?m = Some f"
    by (simp add: EncodeSecureConversationMessage_def enc_security_header_def Let_def open_message_def)
  let ?h = "open_frame_header\<lparr>fh_message_size := of_nat (length f)\<rparr>"
  have frame: "f = EncodeFrameHeader ?h @ (enc_u32 cid @ enc_asymmetric ?a) @ ?plain"
    using EncodeSecure_eq [OF f] by (auto simp: enc_security_header_def open_message_def a)
  have t8: "take 8 f = EncodeFrameHeader ?h" using arg_cong [OF frame, of "take 8"] by simp
  have prefix: "take 8 f @ enc_u32 cid @ enc_string (cs_policy_uri s) @ enc_byte_string der @ enc_byte_string thumb
      = EncodeFrameHeader ?h @ (enc_u32 cid @ enc_asymmetric ?a)"
    unfolding t8 by (simp add: enc_asymmetric_def)
  have plain: "drop (length (EncodeFrameHeader ?h @ (enc_u32 cid @ enc_asymmetric ?a))) f = ?plain"
    using arg_cong [OF frame, of "drop (length (EncodeFrameHeader ?h @ (enc_u32 cid @ enc_asymmetric ?a)))"] by simp
  have longer: "\<not> length f \<le> length (EncodeFrameHeader ?h @ (enc_u32 cid @ enc_asymmetric ?a))"
    using arg_cong [OF frame, of length] by simp
  have len: "length ?plain + 555 \<le> length nonce + 663"
    using length_request_body [of handle rt nonce lifetime c] by simp
  obtain cipher sig pad hdr where seal:
    "hdr = EncodeFrameHeader (?h\<lparr>fh_message_size := of_nat (8 + length (enc_u32 cid @ enc_asymmetric ?a) + length cipher)\<rparr>)
       @ (enc_u32 cid @ enc_asymmetric ?a)"
    "seal_open ssl (Some ckey) (Some spub) (EncodeFrameHeader ?h @ (enc_u32 cid @ enc_asymmetric ?a)) ?plain
       = Some (Some (hdr @ cipher))"
    "pad < 256" "length sig = pkey_size ssl cpub" "cipher \<noteq> []"
    "RsaOaepDecrypt ssl (Some skey) cipher = Some (?plain @ padding pad @ sig)"
    "digest_verify ssl cpub (hdr @ ?plain @ padding pad) sig"
    "length cipher \<le> (length ?plain + 555) * 298"
    by (rule seal_open_frame [OF keys(2,3)])
  have "BuildAsymmetricBasic256Sha256OpenFrame ssl rid handle rt cid nonce lifetime c
      = Some (Some (hdr @ cipher), c\<lparr>cc_next_sequence_number := cc_next_sequence_number c + 1\<rparr>)"
    unfolding BuildAsymmetricBasic256Sha256OpenFrame_def BuildPlaintextOpenFrame_def f Let_def s_def [symmetric]
      option.case prod.case der thumb prefix if_not_P [OF longer] pub plain keys(1) seal(2) by simp
  moreover have "length cipher \<le> (length nonce + 663) * 298"
    using seal(8) mult_le_mono1 [OF len, of 298] by linarith
  ultimately show thesis using that seal(1,3-7) by simp
qed

text \<open>What the server makes of it.\<close>

lemma accept_secure_open_sealed:
  fixes plain :: bytes
  assumes a: "a = \<lparr>security_policy_uri = uri, sender_certificate = der, receiver_certificate_thumbprint = certificate_thumbprint config\<rparr>"
    and hdr: "hdr = EncodeFrameHeader h @ enc_u32 cid @ enc_asymmetric a"
    and lens: "wire_len uri" "wire_len der" "length (certificate_thumbprint config) = 20"
    and accepted: "certificate_accepted config der"
    and cert: "d2i_X509 ssl der = Some cx" "X509_get_pubkey ssl cx = Some cpub"
    and seal: "pad < 256" "length sig = pkey_size ssl cpub" "cipher \<noteq> []"
      "RsaOaepDecrypt ssl (cfg_private_key config) cipher = Some ((enc_u32 sn @ enc_u32 rid
        @ EncodeOpenSecureChannelRequestBody rq) @ padding pad @ sig)"
      "digest_verify ssl cpub (hdr @ (enc_u32 sn @ enc_u32 rid @ EncodeOpenSecureChannelRequestBody rq) @ padding pad) sig"
    and rq: "DecodeOpenSecureChannelRequestBody (EncodeOpenSecureChannelRequestBody rq) = Some rq"
      "security_mode rq = ModeSignAndEncrypt"
  shows "accept_secure_open ssl config (hdr @ cipher) = Some (a, Some cpub, Some cx, rid, rq)"
proof -
  let ?f = "hdr @ cipher"
  let ?plain = "(enc_u32 sn @ enc_u32 rid @ EncodeOpenSecureChannelRequestBody rq) @ padding pad @ sig"
  have f: "?f = EncodeFrameHeader h @ enc_u32 cid @ enc_asymmetric a @ cipher" by (simp add: hdr)
  obtain d1 d2 where d: "decode_u32 (make_decoder (drop 8 ?f)) = Some (cid, d1)"
    "decode_asymmetric d1 = Some (a, d2)" "8 + d_offset d2 = length ?f - length cipher"
    by (rule open_prefix_decodes [OF f seal(3)]) (use lens in \<open>auto simp: a\<close>)
  have end': "8 + d_offset d2 = length hdr" using d(3) by simp
  have key: "client_public_key ssl config a = Some (Some cpub, Some cx)"
    using accepted cert
    by (auto simp: client_public_key_def a certificate_accepted_def LoadDerCertificate_def CertificatePublicKey_def
        split: option.splits)
  note p = sealed_plaintext [OF seal(1), where sn = sn and rid = rid and sig = sig
      and body = "EncodeOpenSecureChannelRequestBody rq"]
  have "open_signed_plaintext ssl config (Some cpub) ?f (length hdr)
      = Some (rid, EncodeOpenSecureChannelRequestBody rq)"
    using p(1-6) p(7) seal(2,4,5)
    by (auto simp: open_signed_plaintext_def KeySizeBytes_def RsaPkcs1Sha256Verify_def Let_def)
  then show ?thesis
    using d(1,2) end' seal(3) key rq by (simp add: accept_secure_open_def Let_def)
qed

text \<open>What the client makes of the answer.\<close>

lemma DecodeAsymmetric_sealed:
  assumes a: "wire_len (security_policy_uri a)" "wire_len (sender_certificate a)" "wire_len (receiver_certificate_thumbprint a)"
    and hdr: "hdr = EncodeFrameHeader h @ enc_u32 cid @ enc_asymmetric a"
    and pub: "CertificatePublicKey ssl (cs_server_certificate (security c)) = Some (Some spub)"
    and seal: "pad < 256" "length sig = pkey_size ssl spub" "cipher \<noteq> []"
      "RsaOaepDecrypt ssl (cs_private_key (security c)) cipher = Some ((enc_u32 sn @ enc_u32 rid @ body) @ padding pad @ sig)"
      "digest_verify ssl spub (hdr @ (enc_u32 sn @ enc_u32 rid @ body) @ padding pad) sig"
  shows "DecodeAsymmetricBasic256Sha256OpenFrame ssl (hdr @ cipher) c
    = Some (a, \<lparr>sequence_number = sn, request_id = rid\<rparr>, body)"
proof -
  let ?f = "hdr @ cipher"
  have f: "?f = EncodeFrameHeader h @ enc_u32 cid @ enc_asymmetric a @ cipher" by (simp add: hdr)
  obtain d1 d2 where d: "decode_u32 (make_decoder (drop 8 ?f)) = Some (cid, d1)"
    "decode_asymmetric d1 = Some (a, d2)" "8 + d_offset d2 = length ?f - length cipher"
    by (rule open_prefix_decodes [OF f seal(3) a])
  have end': "8 + d_offset d2 = length hdr" using d(3) by simp
  have "\<not> length ?f < 8" by (simp add: hdr)
  note p = sealed_plaintext [OF seal(1), where sn = sn and rid = rid and sig = sig and body = body]
  show ?thesis
    unfolding DecodeAsymmetricBasic256Sha256OpenFrame_def if_not_P [OF \<open>\<not> length ?f < 8\<close>]
    using d(1,2) end' seal(2-5) pub p(1-6) p(7)
    by (auto simp: KeySizeBytes_def RsaPkcs1Sha256Verify_def Let_def)
qed

lemma GenerateClientNonce_length: "GenerateClientNonce ssl g c = Inr nonce \<Longrightarrow> length nonce = 32"
  by (auto simp: GenerateClientNonce_def or_bad_def split: if_splits sum.splits option.splits)

lemma GenerateClientNonce_cong: "security c' = security c \<Longrightarrow> GenerateClientNonce ssl g c' = GenerateClientNonce ssl g c"
  by (simp add: GenerateClientNonce_def)

text \<open>The server answers a sealed request with a sealed response, and derives the keys.\<close>

lemma complete_secure_open_sealed:
  fixes c :: secure_channel
  assumes "key_pair ssl ckey cpub" "key_pair ssl skey spub" and ssl: "env_ssl env = ssl"
    and cfg: "cfg_private_key config = Some skey"
    and nonces: "generate_server_nonce env config = Some n" "length (client_nonce rq) = 32"
    and thumb: "CertificateThumbprint ssl cert = Some t"
  defines "c1 \<equiv> c\<lparr>token_id := (if request_type rq = RequestRenew then token_id c + 1 else token_id c)\<rparr>"
  obtains cipher sig pad hdr h where
    "hdr = EncodeFrameHeader h @ enc_u32 (channel_id c) @ enc_asymmetric
       \<lparr>security_policy_uri = kSecurityPolicyBasic256Sha256, sender_certificate = certificate_der config,
        receiver_certificate_thumbprint = t\<rparr>"
    and "complete_secure_open env config a (Some cpub) cert rid rq c =
      (no_result\<lparr>outbound_frame := Some (hdr @ cipher)\<rparr>, c1\<lparr>next_sequence_number := next_sequence_number c + 1,
         inbound_keys := DeriveBasic256Sha256Keys ssl n (client_nonce rq),
         outbound_keys := DeriveBasic256Sha256Keys ssl (client_nonce rq) n, server_nonce := n,
         client_certificate_der := sender_certificate a, basic256_active := True, opened := True\<rparr>)"
    and "pad < 256" and "length sig = pkey_size ssl spub" and "cipher \<noteq> []"
    and "RsaOaepDecrypt ssl (Some ckey) cipher = Some ((enc_u32 (next_sequence_number c) @ enc_u32 rid
      @ EncodeOpenSecureChannelResponseBody (open_response env c1 rq (status_of_code Good) n)) @ padding pad @ sig)"
    and "digest_verify ssl spub (hdr @ (enc_u32 (next_sequence_number c) @ enc_u32 rid
      @ EncodeOpenSecureChannelResponseBody (open_response env c1 rq (status_of_code Good) n)) @ padding pad) sig"
proof -
  let ?plain = "enc_u32 (next_sequence_number c) @ enc_u32 rid
      @ EncodeOpenSecureChannelResponseBody (open_response env c1 rq (status_of_code Good) n)"
  let ?rest = "enc_u32 (channel_id c) @ enc_asymmetric
       \<lparr>security_policy_uri = kSecurityPolicyBasic256Sha256, sender_certificate = certificate_der config,
        receiver_certificate_thumbprint = t\<rparr>"
  obtain cipher sig pad hdr where seal:
    "hdr = EncodeFrameHeader (open_frame_header\<lparr>fh_message_size := of_nat (8 + length ?rest + length cipher)\<rparr>) @ ?rest"
    "seal_open ssl (Some skey) (Some cpub) (EncodeFrameHeader open_frame_header @ ?rest) ?plain = Some (Some (hdr @ cipher))"
    "pad < 256" "length sig = pkey_size ssl spub" "cipher \<noteq> []"
    "RsaOaepDecrypt ssl (Some ckey) cipher = Some (?plain @ padding pad @ sig)"
    "digest_verify ssl spub (hdr @ ?plain @ padding pad) sig"
    "length cipher \<le> (length ?plain + 555) * 298"
    by (rule seal_open_frame [OF assms(2,1)])
  have sizes: "kRsaOaepSha1Overhead < KeySizeBytes ssl (Some cpub)" "0 < KeySizeBytes ssl (Some skey)"
    using assms(1,2) by (auto simp: key_pair_def KeySizeBytes_def oaep_law_def)
  have c1: "next_sequence_number c1 = next_sequence_number c" "channel_id c1 = channel_id c"
    by (simp_all add: c1_def)
  have "fst (BuildSecureOpenResponse env config rq rid (Some cpub) t n c1) = Some (hdr @ cipher)"
    using BuildSecureOpenResponse_seals [of env "Some cpub" config c1 t rid rq n] sizes seal(2)
    by (simp add: ssl cfg secure_open_prefix_eq c1)
  then have build: "BuildSecureOpenResponse env config rq rid (Some cpub) t n c1
      = (Some (hdr @ cipher), c1\<lparr>next_sequence_number := next_sequence_number c + 1\<rparr>)"
    using BuildSecureOpenResponse_snd [of env config rq rid "Some cpub" t n c1] c1(1)
    by (cases "BuildSecureOpenResponse env config rq rid (Some cpub) t n c1") auto
  have "(if request_type rq = RequestRenew then c\<lparr>token_id := token_id c + 1\<rparr> else c) = c1"
    by (simp add: c1_def)
  then have "complete_secure_open env config a (Some cpub) cert rid rq c =
      (no_result\<lparr>outbound_frame := Some (hdr @ cipher)\<rparr>, c1\<lparr>next_sequence_number := next_sequence_number c + 1,
         inbound_keys := DeriveBasic256Sha256Keys ssl n (client_nonce rq),
         outbound_keys := DeriveBasic256Sha256Keys ssl (client_nonce rq) n, server_nonce := n,
         client_certificate_der := sender_certificate a, basic256_active := True, opened := True\<rparr>)"
    using nonces thumb build by (simp add: complete_secure_open_def ssl Let_def)
  from that [OF seal(1) this seal(3-7)] show thesis by simp
qed

text \<open>One exchange of the handshake, from the request of the client to its reading of the answer.\<close>

definition handshake :: "openssl \<Rightarrow> status + bytes \<Rightarrow> int \<Rightarrow> channel_env \<Rightarrow> u32 \<Rightarrow> u32
    \<Rightarrow> client_channel \<times> secure_channel \<Rightarrow> (status \<times> client_channel \<times> secure_channel) option" where
  "handshake ssl generated now env rt lifetime = (\<lambda>(c, s).
     case BeginOpen ssl generated rt lifetime c of
       Some (Inr frame, c) \<Rightarrow> do {
         (r, s) \<leftarrow> HandleFrame env frame s;
         answer \<leftarrow> outbound_frame r;
         let (st, c) = FinishOpen ssl now answer c;
         Some (st, c, s) }
     | _ \<Rightarrow> None)"

lemma handshake_None:
  assumes "cs_policy_uri (security c) = kSecurityPolicyNone" "cs_security_mode (security c) = ModeNone"
    and "none_allowed s" "\<not> basic256_active s" and "env_ssl env = ssl"
  shows "\<exists>c' s'. handshake ssl g now env rt lifetime (c, s) = Some (status_of_code Good, c', s') \<and> linked (c', s')
    \<and> security c' = security c \<and> sc_config s' = sc_config s"
proof -
  have uses: "\<not> UsesBasic256Sha256 x" "\<not> UsesSignAndEncrypt x" if "security x = security c" for x
    using assms(1,2) that by (simp_all add: UsesBasic256Sha256_def UsesSignAndEncrypt_def)
  let ?rid = "cc_next_request_id c"
  let ?c0 = "c\<lparr>cc_next_request_id := ?rid + 1\<rparr>"
  let ?cid = "if rt = RequestRenew then cc_channel_id (c\<lparr>cc_next_request_id := ?rid + 1\<rparr>) else 0"
  let ?m = "open_message ssl ?rid ?rid rt ?cid [] lifetime ?c0"
  let ?rq = "open_request ?rid rt [] lifetime ?c0"
  let ?c1 = "?c0\<lparr>cc_next_sequence_number := cc_next_sequence_number c + 1\<rparr>"
  obtain f where f: "EncodeSecureConversationMessage ?m = Some f"
    by (simp add: EncodeSecureConversationMessage_def enc_security_header_def Let_def open_message_def)
  have a: "open_header ssl ?c0 = \<lparr>security_policy_uri = kSecurityPolicyNone, sender_certificate = [],
      receiver_certificate_thumbprint = []\<rparr>"
    using uses [of ?c0] assms(1) by (simp add: open_header_def Let_def)
  have "length f = 8 + 4 + length (enc_asymmetric (open_header ssl ?c0)) + 8 + length (EncodeOpenSecureChannelRequestBody ?rq)"
    using f by (auto simp: EncodeSecureConversationMessage_def enc_security_header_def Let_def open_message_def stamp_size_header)
  then have "length f < 2 ^ 32"
    using length_request_body [of ?rid rt "[]" lifetime ?c0] by (simp add: a length_asymmetric kSecurityPolicyNone_def)
  then have m: "DecodeSecureConversationMessage f
      = Some (?m\<lparr>scm_frame_header := (scm_frame_header ?m)\<lparr>fh_message_size := of_nat (length f)\<rparr>\<rparr>)"
    using DecodeSecure_Encode [OF f] wire_len_policy by (simp add: scm_ok_def open_message_def a)
  have rq: "DecodeOpenSecureChannelRequestBody (EncodeOpenSecureChannelRequestBody ?rq) = Some ?rq"
    by (rule DecodeOpenRequest_Encode) (simp_all add: open_request_def)
  have "none_open f ?rq"
    using m rq assms(2) by (simp add: none_open_def open_message_def a) (simp add: open_request_def)
  from HandleFrame_none_open [OF this assms(3) refl, of env]
  obtain r s' bs resp where h: "HandleFrame env f s = Some (r, s')" "outbound_frame r = Some bs"
    and resp: "DecodeSecureConversationMessage bs = Some resp" "fh_message_type (scm_frame_header resp) = SecureOpen"
      "scm_asymmetric resp = Some \<lparr>security_policy_uri = kSecurityPolicyNone, sender_certificate = [],
             receiver_certificate_thumbprint = []\<rparr>"
      "DecodeOpenSecureChannelResponseBody (scm_body resp)
        = Some (open_response env (s\<lparr>token_id := token_id s'\<rparr>) ?rq (status_of_code Good) [])"
    and s': "opened s'" "channel_id s' = channel_id s" "basic256_active s' = basic256_active s" "sc_config s' = sc_config s"
    by auto
  have b: "BeginOpen ssl g rt lifetime c = Some (Inr f, ?c1)"
    using uses [of ?c0] f by (simp add: BeginOpen_def NextRequestId_def BuildPlaintextOpenFrame_def or_bad_def Let_def
        split del: if_split)
  have "open_response_body ssl bs ?c1 = Some (open_response env (s\<lparr>token_id := token_id s'\<rparr>) ?rq (status_of_code Good) [])"
    using uses [of ?c1] resp by (simp add: open_response_body_def)
  then have "\<exists>c'. FinishOpen ssl now bs ?c1 = (status_of_code Good, c') \<and> cc_opened c' \<and> security c' = security c
      \<and> cc_channel_id c' = channel_id s \<and> cc_token_id c' = token_id s'"
    using uses [of ?c1]
    by (simp add: FinishOpen_def ArmRenewalTimer_def open_response_def Let_def UsesBasic256Sha256_def)
  then show ?thesis
    using h b s' assms(4) uses by (fastforce simp: handshake_def linked_def)
qed

lemma HandleFrame_sealed:
  assumes hdr: "hdr = EncodeFrameHeader (open_frame_header\<lparr>fh_message_size := of_nat (8 + length rest + length cipher)\<rparr>) @ rest"
    and "cipher \<noteq> []" and rest: "rest = enc_u32 cid @ enc_asymmetric a" and size: "8 + length rest + length cipher < 2 ^ 32"
    and s: "sc_config s = Some config" "allow_basic256sha256 config" "certificate_der config \<noteq> []"
    and a: "security_policy_uri a = kSecurityPolicyBasic256Sha256 \<and> wire_len (sender_certificate a)
      \<and> wire_len (receiver_certificate_thumbprint a)"
    and acc: "accept_secure_open ssl config (hdr @ cipher) = Some (a, key, cert, rid, rq)" and ssl: "env_ssl env = ssl"
  shows "HandleFrame env (hdr @ cipher) s = Some (complete_secure_open env config a key cert rid rq s)"
proof -
  have f: "hdr @ cipher = EncodeFrameHeader (open_frame_header\<lparr>fh_message_size := of_nat (8 + length rest + length cipher)\<rparr>)
      @ enc_u32 cid @ enc_asymmetric a @ cipher" by (simp add: hdr rest)
  obtain d1 d2 where "decode_u32 (make_decoder (drop 8 (hdr @ cipher))) = Some (cid, d1)"
    "decode_asymmetric d1 = Some (a, d2)"
    by (rule open_prefix_decodes [OF f assms(2)]) (use a wire_len_policy in auto)
  then have peek: "peek_policy_uri (hdr @ cipher) = Some kSecurityPolicyBasic256Sha256"
    using a by (auto simp: peek_policy_uri_def decode_asymmetric_def Option.bind_eq_Some_conv)
  have "HandleFrame env (hdr @ cipher) s = Some (HandleOpen env (hdr @ cipher) s)"
    unfolding HandleFrame_def using seal_size_ok(1) [OF size, of open_frame_header] seal_size_ok(2) [OF size]
    by (simp add: hdr)
  then show ?thesis
    using peek s acc by (simp add: HandleOpen_def HandleOpenSecure_def ssl)
qed

lemma handshake_secure:
  assumes ready: "secure_setup ssl config (security c)" and s: "sc_config s = Some config" and ssl: "env_ssl env = ssl"
    and n: "GenerateClientNonce ssl g c = Inr nonce" "generate_server_nonce env config = Some n"
  shows "\<exists>c' s'. handshake ssl g now env rt lifetime (c, s) = Some (status_of_code Good, c', s') \<and> linked (c', s')
    \<and> security c' = security c \<and> sc_config s' = sc_config s"
proof -
  let ?sec = "security c"
  obtain cx der cx' der' ckey cpub where client: "cs_client_certificate ?sec = Some cx" "cs_private_key ?sec = Some ckey"
      "i2d_X509 ssl cx = Some der" "der \<noteq> []" "wire_len der" "d2i_X509 ssl der = Some cx'"
      "i2d_X509 ssl cx' = Some der'" "der' \<noteq> []" "X509_get_pubkey ssl cx' = Some cpub"
      "key_pair ssl ckey cpub" "certificate_accepted config der"
    using ready unfolding secure_setup_def by blast
  obtain sx skey spub where server: "cs_server_certificate ?sec = Some sx" "cfg_private_key config = Some skey"
      "certificate_der config \<noteq> []" "wire_len (certificate_der config)"
      "CertificateThumbprint ssl (Some sx) = Some (certificate_thumbprint config)"
      "X509_get_pubkey ssl sx = Some spub" "key_pair ssl skey spub"
    using ready unfolding secure_setup_def by blast
  have policy: "cs_policy_uri ?sec = kSecurityPolicyBasic256Sha256" "cs_security_mode ?sec = ModeSignAndEncrypt"
      "allow_basic256sha256 config" using ready by (simp_all add: secure_setup_def)
  have uses: "UsesBasic256Sha256 x" "UsesSignAndEncrypt x" if "security x = ?sec" for x
    using policy(1,2) that by (simp_all add: UsesBasic256Sha256_def UsesSignAndEncrypt_def)
  let ?rid = "cc_next_request_id c"
  let ?c0 = "c\<lparr>cc_next_request_id := ?rid + 1, cc_client_nonce := nonce\<rparr>"
  let ?cid = "if rt = RequestRenew then cc_channel_id (c\<lparr>cc_next_request_id := ?rid + 1\<rparr>) else 0"
  let ?rq = "open_request ?rid rt nonce lifetime ?c0"
  let ?c1 = "?c0\<lparr>cc_next_sequence_number := cc_next_sequence_number ?c0 + 1\<rparr>"
  let ?a = "\<lparr>security_policy_uri = kSecurityPolicyBasic256Sha256, sender_certificate = der,
      receiver_certificate_thumbprint = certificate_thumbprint config\<rparr>"
  let ?rest = "enc_u32 ?cid @ enc_asymmetric ?a"
  have certs: "CertificateDer ssl (cs_client_certificate (security ?c0)) = Some der"
      "CertificateThumbprint ssl (cs_server_certificate (security ?c0)) = Some (certificate_thumbprint config)"
      "CertificatePublicKey ssl (cs_server_certificate (security ?c0)) = Some (Some spub)"
      "cs_private_key (security ?c0) = Some ckey"
    using client server by (simp_all add: CertificateDer_def CertificatePublicKey_def)
  have pol: "cs_policy_uri (security ?c0) = kSecurityPolicyBasic256Sha256" using policy(1) by simp
  have n32: "length nonce = 32" using GenerateClientNonce_length [OF n(1)] .
  have t20: "length (certificate_thumbprint config) = 20" using length_thumbprint [OF server(5)] .
  obtain cipher sig pad hdr where req:
    "hdr = EncodeFrameHeader (open_frame_header\<lparr>fh_message_size := of_nat (8 + length ?rest + length cipher)\<rparr>) @ ?rest"
    "BuildAsymmetricBasic256Sha256OpenFrame ssl ?rid ?rid rt ?cid nonce lifetime ?c0 = Some (Some (hdr @ cipher), ?c1)"
    "pad < 256" "length sig = pkey_size ssl cpub" "cipher \<noteq> []"
    "RsaOaepDecrypt ssl (Some skey) cipher = Some ((enc_u32 (cc_next_sequence_number ?c0) @ enc_u32 ?rid
      @ EncodeOpenSecureChannelRequestBody ?rq) @ padding pad @ sig)"
    "digest_verify ssl cpub (hdr @ (enc_u32 (cc_next_sequence_number ?c0) @ enc_u32 ?rid
      @ EncodeOpenSecureChannelRequestBody ?rq) @ padding pad) sig"
    "length cipher \<le> (length nonce + 663) * 298"
    by (rule BuildAsymmetric_seals [OF uses(1) certs client(10) server(7), unfolded pol,
          where cid = ?cid and rid = ?rid and handle = ?rid and rt = rt and nonce = nonce and lifetime = lifetime]) simp
  have b: "BeginOpen ssl g rt lifetime c = Some (Inr (hdr @ cipher), ?c1)"
    using uses(1) [of "c\<lparr>cc_next_request_id := ?rid + 1\<rparr>"] req(2) n(1)
      GenerateClientNonce_cong [of "c\<lparr>cc_next_request_id := ?rid + 1\<rparr>" c]
    by (simp add: BeginOpen_def NextRequestId_def or_bad_def Let_def split del: if_split)
  have acc: "accept_secure_open ssl config (hdr @ cipher) = Some (?a, Some cpub, Some cx', ?rid, ?rq)"
  proof (rule accept_secure_open_sealed [OF refl req(1) wire_len_policy(2) client(5) t20 client(11,6,9) req(3-5) _ req(7)])
    show "DecodeOpenSecureChannelRequestBody (EncodeOpenSecureChannelRequestBody ?rq) = Some ?rq"
      by (rule DecodeOpenRequest_Encode) (simp_all add: open_request_def n32)
    show "security_mode ?rq = ModeSignAndEncrypt" using policy(2) by (simp add: open_request_def)
  qed (use req(6) server(2) in simp)
  have h: "HandleFrame env (hdr @ cipher) s = Some (complete_secure_open env config ?a (Some cpub) (Some cx') ?rid ?rq s)"
  proof (rule HandleFrame_sealed [OF _ req(5) _ _ s policy(3) server(3) _ acc ssl])
    show "hdr = EncodeFrameHeader (open_frame_header\<lparr>fh_message_size := of_nat (8 + length ?rest + length cipher)\<rparr>) @ ?rest"
      by (rule req(1))
    have "length cipher \<le> 207110" using req(8) by (simp add: n32)
    then show "8 + length ?rest + length cipher < 2 ^ 32"
      using client(5) t20 by (simp add: length_asymmetric kSecurityPolicyBasic256Sha256_def)
  qed (use client(5) t20 wire_len_policy in auto)
  obtain t where t: "CertificateThumbprint ssl (Some cx') = Some t"
    using client(7,8) by (simp add: CertificateThumbprint_def CertificateDer_def)
  have n32': "length (client_nonce ?rq) = 32" "client_nonce ?rq = nonce" by (simp_all add: open_request_def n32)
  let ?s1 = "s\<lparr>token_id := (if request_type ?rq = RequestRenew then token_id s + 1 else token_id s)\<rparr>"
  let ?rs = "open_response env ?s1 ?rq (status_of_code Good) n"
  obtain cipher2 sig2 pad2 hdr2 h2 where resp:
    "hdr2 = EncodeFrameHeader h2 @ enc_u32 (channel_id s) @ enc_asymmetric
       \<lparr>security_policy_uri = kSecurityPolicyBasic256Sha256, sender_certificate = certificate_der config,
        receiver_certificate_thumbprint = t\<rparr>"
    "complete_secure_open env config ?a (Some cpub) (Some cx') ?rid ?rq s =
      (no_result\<lparr>outbound_frame := Some (hdr2 @ cipher2)\<rparr>, ?s1\<lparr>next_sequence_number := next_sequence_number s + 1,
         inbound_keys := DeriveBasic256Sha256Keys ssl n (client_nonce ?rq),
         outbound_keys := DeriveBasic256Sha256Keys ssl (client_nonce ?rq) n, server_nonce := n,
         client_certificate_der := sender_certificate ?a, basic256_active := True, opened := True\<rparr>)"
    "pad2 < 256" "length sig2 = pkey_size ssl spub" "cipher2 \<noteq> []"
    "RsaOaepDecrypt ssl (Some ckey) cipher2 = Some ((enc_u32 (next_sequence_number s) @ enc_u32 ?rid
      @ EncodeOpenSecureChannelResponseBody ?rs) @ padding pad2 @ sig2)"
    "digest_verify ssl spub (hdr2 @ (enc_u32 (next_sequence_number s) @ enc_u32 ?rid
      @ EncodeOpenSecureChannelResponseBody ?rs) @ padding pad2) sig2"
    by (rule complete_secure_open_sealed [OF client(10) server(7) ssl server(2) n(2) n32'(1) t])
  have "DecodeAsymmetricBasic256Sha256OpenFrame ssl (hdr2 @ cipher2) ?c1 =
      Some (\<lparr>security_policy_uri = kSecurityPolicyBasic256Sha256, sender_certificate = certificate_der config,
        receiver_certificate_thumbprint = t\<rparr>, \<lparr>sequence_number = next_sequence_number s, request_id = ?rid\<rparr>,
        EncodeOpenSecureChannelResponseBody ?rs)"
    by (rule DecodeAsymmetric_sealed [OF _ _ _ resp(1) _ resp(3-5) _ resp(7)])
      (use certs server(4) wire_len_policy length_thumbprint [OF t] resp(6) in simp_all)
  moreover have "DecodeOpenSecureChannelResponseBody (EncodeOpenSecureChannelResponseBody ?rs) = Some ?rs"
    by (rule DecodeOpenResponse_Encode)
      (use generate_server_nonce_length [OF n(2)] in \<open>simp_all add: open_response_def\<close>)
  ultimately have "open_response_body ssl (hdr2 @ cipher2) ?c1 = Some ?rs"
    using uses(1) [of ?c1] by (simp add: open_response_body_def)
  then have "\<exists>c'. FinishOpen ssl now (hdr2 @ cipher2) ?c1 = (status_of_code Good, c') \<and> cc_opened c'
      \<and> security c' = security c \<and> cc_channel_id c' = channel_id s \<and> cc_token_id c' = token_id ?s1
      \<and> client_keys c' = DeriveBasic256Sha256Keys ssl n nonce \<and> server_keys c' = DeriveBasic256Sha256Keys ssl nonce n"
    using uses(1) by (simp add: FinishOpen_def ArmRenewalTimer_def open_response_def Let_def)
  then show ?thesis
    using h b resp(2) uses(2) n32'(2) keys_ok_derive by (fastforce simp: handshake_def linked_def)
qed

section \<open>Reading a response\<close>

definition authentic_chunk :: "openssl \<Rightarrow> client_channel \<Rightarrow> byte \<Rightarrow> bytes \<Rightarrow> u32 \<times> bytes \<Rightarrow> bool" where
  "authentic_chunk ssl c t frame p \<longleftrightarrow> 4 \<le> length frame \<and> frame ! 3 = t
     \<and> DecodeServiceMessageChunk ssl frame c = Some (Inr p)
     \<and> (if UsesSignAndEncrypt c then tag_authorized ssl (mirror c) frame (snd p)
        else plain_authorized (mirror c) frame (snd p))"

lemma decoded_chunk_authentic:
  assumes "DecodeServiceMessageChunk ssl frame c = Some (Inr p)"
  shows "if UsesSignAndEncrypt c then tag_authorized ssl (mirror c) frame (snd p)
    else plain_authorized (mirror c) frame (snd p)"
proof (cases "UsesSignAndEncrypt c")
  case True
  with assms have "HandleEncryptedMessage ssl frame False (mirror c)
      = Some (no_result\<lparr>service_payload := Some (snd p), res_request_id := Some (fst p)\<rparr>, mirror c)"
    by (simp add: DecodeSymmetric_mirror DecodeServiceMessageChunk_def split: prod.split)
  from HandleEncryptedMessage_payload [OF this] True show ?thesis by simp
next
  case False
  with assms show ?thesis
    by (auto simp: DecodeServiceMessageChunk_def or_bad_def plain_authorized_def Option.bind_eq_Some_conv
        split: option.splits if_splits)
qed

lemma authentic_chunk_iff:
  "authentic_chunk ssl c t frame p \<longleftrightarrow> 4 \<le> length frame \<and> frame ! 3 = t
     \<and> DecodeServiceMessageChunk ssl frame c = Some (Inr p)"
  using decoded_chunk_authentic [of ssl frame c p] by (auto simp: authentic_chunk_def)

lemma chunk_types: "kIntermediateChunk \<noteq> kFinalChunk" "kFinalChunk \<noteq> kIntermediateChunk"
  by (simp_all add: kIntermediateChunk_def kFinalChunk_def)

lemma ReadChunk_done:
  "ReadChunk ssl c n acc input = Some (ReadDone (Inr (rid, body))) \<longleftrightarrow> n < kMaxResponseChunks
     \<and> (\<exists>f p. input = Inr f \<and> authentic_chunk ssl c kFinalChunk f p \<and> rid = fst p \<and> body = acc @ snd p
          \<and> length body \<le> kMaxResponseBytes)"
  by (auto simp: ReadChunk_def authentic_chunk_iff chunk_types not_less not_le split: sum.splits option.splits prod.splits if_splits)

lemma ReadChunk_more:
  "ReadChunk ssl c n acc input = Some (Reading n' acc') \<longleftrightarrow> n < kMaxResponseChunks \<and> n' = Suc n
     \<and> (\<exists>f p. input = Inr f \<and> authentic_chunk ssl c kIntermediateChunk f p \<and> acc' = acc @ snd p
          \<and> length acc' \<le> kMaxResponseBytes)"
  by (auto simp: ReadChunk_def authentic_chunk_iff chunk_types not_less not_le split: sum.splits option.splits prod.splits if_splits)

lemma read_chunks_done:
  "length acc \<le> kMaxResponseBytes \<Longrightarrow>
   read_chunks ssl c (Reading n acc) inputs = Some (ReadDone (Inr (rid, body)), rest) \<longleftrightarrow>
     (\<exists>fs parts f p. inputs = map Inr fs @ Inr f # rest \<and> n + length fs < kMaxResponseChunks
        \<and> list_all2 (authentic_chunk ssl c kIntermediateChunk) fs parts
        \<and> authentic_chunk ssl c kFinalChunk f p \<and> rid = fst p
        \<and> body = acc @ concat (map snd parts) @ snd p \<and> length body \<le> kMaxResponseBytes)"
  (is "_ \<Longrightarrow> ?run n acc inputs \<longleftrightarrow> (\<exists>fs parts f p. ?chunks n acc inputs fs parts f p)")
proof (induction inputs arbitrary: n acc)
  case Nil
  then show ?case by simp
next
  case (Cons input inputs)
  note IH = Cons.IH
  show ?case
  proof
    assume run: "?run n acc (input # inputs)"
    then have n: "n < kMaxResponseChunks" by (auto split: if_splits)
    with run obtain r where r: "ReadChunk ssl c n acc input = Some r"
      and rest: "read_chunks ssl c r inputs = Some (ReadDone (Inr (rid, body)), rest)"
      by (auto simp: Option.bind_eq_Some_conv)
    show "\<exists>fs parts f p. ?chunks n acc (input # inputs) fs parts f p"
    proof (cases r)
      case (Reading n' acc')
      with r obtain f p where f: "input = Inr f" "authentic_chunk ssl c kIntermediateChunk f p"
        "acc' = acc @ snd p" "length acc' \<le> kMaxResponseBytes" "n' = Suc n" by (auto simp: ReadChunk_more)
      with rest Cons.IH [OF f(4), of n'] Reading obtain fs parts f' p' where "?chunks n' acc' inputs fs parts f' p'" by auto
      with f have "?chunks n acc (input # inputs) (f # fs) (p # parts) f' p'" by auto
      then show ?thesis by blast
    next
      case (ReadDone x)
      with r rest obtain f p where "input = Inr f" "authentic_chunk ssl c kFinalChunk f p" "rid = fst p"
        "body = acc @ snd p" "length body \<le> kMaxResponseBytes" "rest = inputs" by (auto simp: ReadChunk_done)
      with n have "?chunks n acc (input # inputs) [] [] f p" by simp
      then show ?thesis by blast
    qed
  next
    assume "\<exists>fs parts f p. ?chunks n acc (input # inputs) fs parts f p"
    then obtain fs parts f p where ch: "?chunks n acc (input # inputs) fs parts f p" by blast
    show "?run n acc (input # inputs)"
    proof (cases fs)
      case Nil
      with ch have "ReadChunk ssl c n acc input = Some (ReadDone (Inr (rid, body)))" by (auto simp: ReadChunk_done)
      with ch Nil show ?thesis by simp
    next
      case (Cons f1 fs1)
      with ch obtain p1 parts1 where parts: "parts = p1 # parts1" by (auto simp: list_all2_Cons1)
      let ?acc = "acc @ snd p1"
      from ch Cons parts have len: "length ?acc \<le> kMaxResponseBytes" by auto
      from ch Cons parts have "ReadChunk ssl c n acc input = Some (Reading (Suc n) ?acc)"
        using len unfolding ReadChunk_more by (intro conjI exI [of _ f1] exI [of _ p1]) auto
      moreover from ch Cons parts have "?chunks (Suc n) ?acc inputs fs1 parts1 f p" by auto
      then have "?run (Suc n) ?acc inputs" using IH [OF len] by blast
      ultimately show ?thesis using ch Cons by simp
    qed
  qed
qed

section \<open>Properties\<close>

text \<open>
  C11. A client and a server with compatible configurations complete the OpenSecureChannel
  exchange, whether it opens or renews, under SecurityPolicy None and under Basic256Sha256, there
  with RSA keys of at most 298 bytes, whose padding length fits the one byte it is written in:
  the client ends with a good status, and the two ends hold the same channel and token and,
  when encrypted, each other's keys. They stay compatible, so that renewals can go on.
\<close>

theorem handshake_links:
  assumes "compatible ssl (security c) s" and "env_ssl env = ssl"
    and "UsesBasic256Sha256 c \<Longrightarrow> (\<exists>nonce. GenerateClientNonce ssl g c = Inr nonce)
      \<and> (\<forall>config. sc_config s = Some config \<longrightarrow> generate_server_nonce env config \<noteq> None)"
  shows "\<exists>c' s'. handshake ssl g now env rt lifetime (c, s) = Some (status_of_code Good, c', s')
    \<and> linked (c', s') \<and> compatible ssl (security c') s'"
  using assms(1) [unfolded compatible_def]
proof (elim disjE exE conjE)
  assume none: "cs_policy_uri (security c) = kSecurityPolicyNone" "cs_security_mode (security c) = ModeNone"
    "none_allowed s" "\<not> basic256_active s"
  obtain c' s' where h: "handshake ssl g now env rt lifetime (c, s) = Some (status_of_code Good, c', s')"
    "linked (c', s')" "security c' = security c" "sc_config s' = sc_config s"
    using handshake_None [OF none assms(2), of g now rt lifetime] by blast
  have "none_allowed s'" "\<not> basic256_active s'"
    using h none by (simp_all add: none_allowed_def linked_def UsesSignAndEncrypt_def)
  with h none show ?thesis by (auto simp: compatible_def)
next
  fix config assume cfg: "sc_config s = Some config" "secure_setup ssl config (security c)"
  then have "UsesBasic256Sha256 c" by (simp add: secure_setup_def UsesBasic256Sha256_def)
  with assms(3) cfg(1) obtain nonce n where "GenerateClientNonce ssl g c = Inr nonce"
    "generate_server_nonce env config = Some n" by fastforce
  from handshake_secure [OF cfg(2,1) assms(2) this] cfg show ?thesis
    unfolding compatible_def by metis
qed

text \<open>
  A setup that satisfies the laws: blocks are their length and the plaintext, filled up to
  the size of the key, and a signature is a row of zeros.
\<close>

definition toy_ssl :: openssl where
  "toy_ssl = null_ssl\<lparr>oaep_encrypt := \<lambda>_ p. Some (of_nat (length p) # p @ replicate (255 - length p) 0),
     oaep_decrypt := \<lambda>_ c. Some (take (unat (hd c)) (tl c)),
     digest_sign := \<lambda>_ _. Some (replicate 256 0), d2i_X509 := \<lambda>_. Some 1, i2d_X509 := \<lambda>_. Some [1],
     X509_get_pubkey := \<lambda>_. Some 1, RAND_bytes := \<lambda>n. Some (replicate n 7)\<rparr>"

definition toy_config :: server_config where
  "toy_config = \<lparr>cfg_private_key = Some 2, certificate_der = [1],
     certificate_thumbprint = map (\<lambda>i. byte_at i (0 :: 160 word)) [0..<20], allow_none = False,
     allow_basic256sha256 = True, validate_client_certificate = None, has_nonce_generator = False\<rparr>"

definition toy_security :: client_security where
  "toy_security = \<lparr>cs_policy_uri = kSecurityPolicyBasic256Sha256, cs_security_mode = ModeSignAndEncrypt,
     cs_client_certificate = Some 1, cs_private_key = Some 1, cs_server_certificate = Some 1,
     cs_nonce_generator = False\<rparr>"

lemma toy_key_pair: "key_pair toy_ssl priv pub"
proof -
  have "unat (of_nat (length p) :: byte) = length p" if "length p \<le> 214" for p :: bytes
    using that by (intro unat_of_nat_small) simp
  then show ?thesis by (simp add: key_pair_def oaep_law_def sign_law_def toy_ssl_def null_ssl_def)
qed

lemma toy_setup: "secure_setup toy_ssl toy_config toy_security"
  using toy_key_pair
  by (simp add: secure_setup_def toy_security_def toy_config_def certificate_accepted_def
      CertificateThumbprint_def CertificateDer_def)
    (simp add: toy_ssl_def null_ssl_def)

lemma toy_nonces:
  "GenerateClientNonce toy_ssl (Inl bad_status) (ClientSecureChannel toy_security) = Inr (resize 32 (replicate 32 7))"
  "generate_server_nonce (null_env\<lparr>env_ssl := toy_ssl\<rparr>) toy_config = Some (resize 32 (replicate 32 7))"
  by (simp_all add: GenerateClientNonce_def ClientSecureChannel_def toy_security_def or_bad_def toy_ssl_def
      generate_server_nonce_def toy_config_def GenerateNonce_def)

lemma toy_linked: "\<exists>w. linked w"
proof -
  have "secure_setup toy_ssl toy_config (security (ClientSecureChannel toy_security))"
    using toy_setup by (simp add: ClientSecureChannel_def)
  from handshake_secure [OF this _ _ toy_nonces, of "make_secure_channel (Some toy_config) 1" 0 RequestIssue 0]
  show ?thesis by (auto simp: make_secure_channel_def)
qed

theorem handshake_links_witness:
  "\<exists>c' s'. handshake toy_ssl (Inl bad_status) 0 (null_env\<lparr>env_ssl := toy_ssl\<rparr>) RequestIssue 60000
      (ClientSecureChannel toy_security, make_secure_channel (Some toy_config) 1) = Some (status_of_code Good, c', s')
    \<and> linked (c', s') \<and> UsesSignAndEncrypt (ClientSecureChannel toy_security)"
proof -
  have "compatible toy_ssl (security (ClientSecureChannel toy_security)) (make_secure_channel (Some toy_config) 1)"
    using toy_setup by (simp add: compatible_def ClientSecureChannel_def make_secure_channel_def)
  moreover have "UsesSignAndEncrypt (ClientSecureChannel toy_security)"
    by (simp add: UsesSignAndEncrypt_def ClientSecureChannel_def toy_security_def)
  ultimately show ?thesis
    using handshake_links [of toy_ssl "ClientSecureChannel toy_security" "make_secure_channel (Some toy_config) 1"
        "null_env\<lparr>env_ssl := toy_ssl\<rparr>" "Inl bad_status" 0 RequestIssue 60000]
    by (auto simp: make_secure_channel_def toy_nonces)
qed

text \<open>
  C12. Two linked ends understand each other exactly: in whatever order requests and responses
  alternate, every request the client sends is the payload the server hands up, every
  response the server builds is what the client reads, with the same id and body, up to the
  64 MiB a client accepts; and they stay linked.
\<close>

theorem conversation_exact:
  assumes "linked w" and "aes_law ssl" and "env_ssl env = ssl"
    and "list_all (\<lambda>t. length (turn_body t) \<le> kMaxResponseBytes) turns"
  shows "\<exists>w'. talk (ask ssl env) (answer ssl) turns w = Some (turns, w') \<and> linked w'"
  using channel.all_heard [of w ssl env turns] assms by (auto simp: comp_def)

theorem conversation_exact_witness:
  "\<exists>w w'. talk (ask toy_ssl (null_env\<lparr>env_ssl := toy_ssl\<rparr>)) (answer toy_ssl) [Ask 1 [5], Ask 2 [], Answer 2 [6, 7]] w
     = Some ([Ask 1 [5], Ask 2 [], Answer 2 [6, 7]], w')"
proof -
  obtain c s where "linked (c, s)" using toy_linked by auto
  moreover have "aes_law toy_ssl" by (simp add: aes_law_def toy_ssl_def null_ssl_def)
  ultimately show ?thesis
    using conversation_exact [of "(c, s)" toy_ssl "null_env\<lparr>env_ssl := toy_ssl\<rparr>" "[Ask 1 [5], Ask 2 [], Answer 2 [6, 7]]"]
    by auto
qed

text \<open>
  C13. The client reads a response exactly from a run of intermediate chunks and a final one,
  fewer than 8193 in all: the body is their bodies in order, at most 64 MiB, nothing behind
  the final chunk is touched, and every one of them was authentic, that is carried the HMAC
  of header and plaintext under the key of the server (encrypted) or named this channel and
  the current token (plain).
\<close>

theorem response_authentic:
  "ReadServiceResponse ssl c inputs = Some (ReadDone (Inr (rid, body)), rest) \<longleftrightarrow>
     cc_opened c \<and> (\<exists>fs parts f p. inputs = map Inr fs @ Inr f # rest \<and> length fs < kMaxResponseChunks
        \<and> list_all2 (authentic_chunk ssl c kIntermediateChunk) fs parts
        \<and> authentic_chunk ssl c kFinalChunk f p \<and> rid = fst p
        \<and> body = concat (map snd parts) @ snd p \<and> length body \<le> kMaxResponseBytes)"
  using read_chunks_done [of "[]" ssl c 0 inputs rid body rest]
  by (simp add: ReadServiceResponse_def)

end
