(* ===== verification/Ua_Client_Channel.thy ===== *)
theory Ua_Client_Channel
  imports Ua_Client_Secure Ua_Tcp
begin

text \<open>
  The client between its secure channel and its session: \<^verbatim>\<open>transport/binary/client_transport.cpp\<close>
  (the frames of a byte stream and the Hello exchange), \<^verbatim>\<open>transport/binary/client_connection.cpp\<close>,
  and \<^verbatim>\<open>client/client_channel.{h,cpp}\<close> (which response belongs to which request, and whose turn
  it is to send). The bodies of service messages are opaque: \<open>'q\<close> for requests, \<open>'b\<close> for
  responses; the service codec is a parameter. A coroutine is cut at its waits: \<open>Receive\<close> either
  returns or leaves an entry in \<open>pending_responses\<close>, and \<open>ReadLoopStep\<close> is one round of the read
  loop, with the completions it triggers.
\<close>

section \<open>Transport\<close>

record client_transport =
  ct_endpoint_url :: bytes
  ct_limits :: transport_limits
  ct_max_frame_size :: nat
  ct_open :: bool
  ct_acknowledge :: acknowledge_message
  ct_pending_bytes :: bytes

definition ClientTransport :: "bytes \<Rightarrow> transport_limits \<Rightarrow> nat \<Rightarrow> client_transport" where
  "ClientTransport url lim max_size = \<lparr>ct_endpoint_url = url, ct_limits = lim, ct_max_frame_size = max_size,
     ct_open = False, ct_acknowledge = \<lparr>ack_protocol_version = 0, ack_receive_buffer_size = 0,
       ack_send_buffer_size = 0, ack_max_message_size = 0, ack_max_chunk_count = 0\<rparr>, ct_pending_bytes = []\<rparr>"

text \<open>The check at the head of the loop of \<open>ReadFrame\<close>: a result, or more bytes are needed.\<close>

datatype frame_read = FrameReady "status + bytes" | NeedBytes

definition NextFrame :: "client_transport \<Rightarrow> frame_read \<times> client_transport" where
  "NextFrame t = (let pending = ct_pending_bytes t in
     if length pending < 8 then (NeedBytes, t)
     else case DecodeFrameHeader (take 8 pending) of
       None \<Rightarrow> (FrameReady (Inl bad_status), t)
     | Some h \<Rightarrow>
         let size = unat (fh_message_size h) in
         if size < 8 \<or> size > ct_max_frame_size t then (FrameReady (Inl bad_status), t)
         else if size \<le> length pending
         then (FrameReady (Inr (take size pending)), t\<lparr>ct_pending_bytes := drop size pending\<rparr>)
         else (NeedBytes, t))"

text \<open>
  The whole loop over what the reads of the transport return, \<open>None\<close> for a failure; with the
  reads left over.
\<close>

fun ReadFrame :: "bytes option list \<Rightarrow> client_transport \<Rightarrow> frame_read \<times> bytes option list \<times> client_transport" where
  "ReadFrame ins t = (case NextFrame t of
       (FrameReady r, t) \<Rightarrow> (FrameReady r, ins, t)
     | (NeedBytes, t) \<Rightarrow> (case ins of
           [] \<Rightarrow> (NeedBytes, [], t)
         | None # ins \<Rightarrow> (FrameReady (Inl (status_of_code Bad_NoCommunication)), ins, t)
         | Some bs # ins \<Rightarrow>
             if bs = [] then (FrameReady (Inl (status_of_code Bad_NoCommunication)), ins, t)
             else ReadFrame ins (t\<lparr>ct_pending_bytes := ct_pending_bytes t @ bs\<rparr>)))"

declare ReadFrame.simps [simp del]

definition hello_of :: "client_transport \<Rightarrow> hello_message" where
  "hello_of t = \<lparr>hel_protocol_version = lim_protocol_version (ct_limits t),
     hel_receive_buffer_size = lim_receive_buffer_size (ct_limits t),
     hel_send_buffer_size = lim_send_buffer_size (ct_limits t),
     hel_max_message_size = lim_max_message_size (ct_limits t),
     hel_max_chunk_count = lim_max_chunk_count (ct_limits t), hel_endpoint_url = ct_endpoint_url t\<rparr>"

text \<open>
  \<open>Connect\<close> once the Hello is written and the first frame was read. The argument \<open>exchange\<close> of
  the whole operation stands for the transport: given the Hello it returns the first frame, or
  the status with which opening, writing or reading failed.
\<close>

definition FinishConnect :: "bytes \<Rightarrow> client_transport \<Rightarrow> status \<times> client_transport" where
  "FinishConnect frame t = (case DecodeFrameHeader frame of
       None \<Rightarrow> (bad_status, t)
     | Some h \<Rightarrow> (case fh_message_type h of
           Acknowledge \<Rightarrow> (case DecodeAcknowledgeMessage frame of
               None \<Rightarrow> (bad_status, t)
             | Some ack \<Rightarrow> (status_of_code Good, t\<lparr>ct_acknowledge := ack, ct_open := True\<rparr>))
         | ErrorType \<Rightarrow> (case DecodeErrorMessage frame of
               Some e \<Rightarrow> (err_error e, t)
             | None \<Rightarrow> (status_of_code Bad_NoCommunication, t))
         | _ \<Rightarrow> (bad_status, t)))"

definition Connect :: "(bytes \<Rightarrow> status + bytes) \<Rightarrow> client_transport \<Rightarrow> status \<times> client_transport" where
  "Connect exchange t = (case exchange (EncodeHelloMessage (hello_of t)) of
       Inl e \<Rightarrow> (e, t)
     | Inr frame \<Rightarrow> FinishConnect frame t)"

definition WriteFrame :: "bool \<Rightarrow> status" where
  "WriteFrame written = (if \<not> written then status_of_code Bad_NoCommunication else status_of_code Good)"

definition CloseTransport :: "client_transport \<Rightarrow> client_transport" where
  "CloseTransport t = t\<lparr>ct_open := False\<rparr>"

section \<open>Connection\<close>

text \<open>
  \<^verbatim>\<open>ClientConnection\<close>: the transport and the secure channel together, and the service codec
  (\<open>encode\<close>, \<open>decode\<close>) between typed messages and the bodies the secure channel carries.
\<close>

definition OpenConnection :: "openssl \<Rightarrow> status + bytes \<Rightarrow> int \<Rightarrow> (bytes \<Rightarrow> status + bytes) \<Rightarrow> u32
    \<Rightarrow> client_transport \<times> client_channel \<Rightarrow> (status \<times> client_transport \<times> client_channel) option" where
  "OpenConnection ssl generated now exchange lifetime = (\<lambda>(t, conn).
     case Connect exchange t of (st, t) \<Rightarrow>
       if status_bad st then Some (st, t, conn)
       else (case Open ssl generated now exchange lifetime conn of
           None \<Rightarrow> None
         | Some (st, conn) \<Rightarrow> Some (st, t, conn)))"

text \<open>Closing writes the frame of the secure channel, if it builds one, and answers Good whatever happens.\<close>

definition CloseConnection :: "openssl \<Rightarrow> client_transport \<times> client_channel
    \<Rightarrow> status \<times> bytes option \<times> client_transport \<times> client_channel" where
  "CloseConnection ssl = (\<lambda>(t, conn). let (framed, conn) = Close ssl conn in
     (status_of_code Good, (case framed of Some (Inr frame) \<Rightarrow> Some frame | _ \<Rightarrow> None), CloseTransport t, conn))"

definition SendRequest :: "openssl \<Rightarrow> ('q \<Rightarrow> node_id \<Rightarrow> u32 \<Rightarrow> bytes option) \<Rightarrow> u32 \<Rightarrow> u32 \<Rightarrow> 'q \<Rightarrow> node_id
    \<Rightarrow> client_channel \<Rightarrow> (status + bytes) \<times> client_channel" where
  "SendRequest ssl encode rid handle request token conn =
     (case encode request token handle of
        None \<Rightarrow> (Inl bad_status, conn)
      | Some body \<Rightarrow> SendServiceRequest ssl rid body conn)"

text \<open>
  \<open>ReadResponse\<close> over the frames that follow; the value in the middle is \<open>None\<close> while the frames
  so far are not a whole response.
\<close>

definition ReadResponse :: "openssl \<Rightarrow> (bytes \<Rightarrow> (u32 \<times> 'b) option) \<Rightarrow> client_channel \<Rightarrow> (status + bytes) list
    \<Rightarrow> ((status + u32 \<times> u32 \<times> 'b) option \<times> (status + bytes) list) option" where
  "ReadResponse ssl decode conn inputs = (case ReadServiceResponse ssl conn inputs of
       None \<Rightarrow> None
     | Some (Reading _ _, inputs) \<Rightarrow> Some (None, inputs)
     | Some (ReadDone (Inl e), inputs) \<Rightarrow> Some (Some (Inl e), inputs)
     | Some (ReadDone (Inr (rid, body)), inputs) \<Rightarrow>
         (case decode body of
            None \<Rightarrow> Some (Some (Inl bad_status), inputs)
          | Some (handle, body) \<Rightarrow> Some (Some (Inr (rid, handle, body)), inputs)))"

section \<open>Whose turn and whose response\<close>

record 'b channel_state =
  ch_authentication_token :: node_id
  next_request_handle :: u32
  buffered_responses :: "(u32 \<times> u32 \<times> 'b) list"
  pending_responses :: "(u32 \<times> u32) list"
  read_loop_running :: bool
  login_complete :: bool
  send_in_progress :: bool
  send_waiters :: "nat list"

definition ClientChannel :: "node_id \<Rightarrow> 'b channel_state" where
  "ClientChannel token = \<lparr>ch_authentication_token = token, next_request_handle = 1, buffered_responses = [],
     pending_responses = [], read_loop_running = False, login_complete = False, send_in_progress = False,
     send_waiters = []\<rparr>"

definition NextRequestHandle :: "'b channel_state \<Rightarrow> u32 \<times> 'b channel_state" where
  "NextRequestHandle c = (next_request_handle c, c\<lparr>next_request_handle := next_request_handle c + 1\<rparr>)"

definition set_authentication_token :: "node_id \<Rightarrow> 'b channel_state \<Rightarrow> 'b channel_state" where
  "set_authentication_token token c = c\<lparr>ch_authentication_token := token\<rparr>"

definition MarkLoginComplete :: "'b channel_state \<Rightarrow> 'b channel_state" where
  "MarkLoginComplete c = c\<lparr>login_complete := True\<rparr>"

text \<open>One round of the loop of \<open>WaitForSendTurn\<close> for the coroutine \<open>who\<close>: it has the turn, or waits.\<close>

definition WaitForSendTurn :: "nat \<Rightarrow> 'b channel_state \<Rightarrow> bool \<times> 'b channel_state" where
  "WaitForSendTurn who c =
     (if \<not> send_in_progress c then (True, c\<lparr>send_in_progress := True\<rparr>)
      else (False, c\<lparr>send_waiters := send_waiters c @ [who]\<rparr>))"

text \<open>The coroutine that is woken, if any: it runs another round later.\<close>

definition ReleaseSendTurn :: "'b channel_state \<Rightarrow> nat option \<times> 'b channel_state" where
  "ReleaseSendTurn c = (let c = c\<lparr>send_in_progress := False\<rparr> in
     case send_waiters c of [] \<Rightarrow> (None, c) | who # ws \<Rightarrow> (Some who, c\<lparr>send_waiters := ws\<rparr>))"

text \<open>
  \<open>Send\<close> once it has the turn, over the secure channel of the connection: renewal while no
  response is pending, then the request under a fresh id. \<open>write\<close> is the result of writing the
  frame to the transport.
\<close>

definition SendInTurn :: "openssl \<Rightarrow> status + bytes \<Rightarrow> int \<Rightarrow> int \<Rightarrow> (bytes \<Rightarrow> status + bytes) \<Rightarrow> (bytes \<Rightarrow> status)
    \<Rightarrow> ('q \<Rightarrow> node_id \<Rightarrow> u32 \<Rightarrow> bytes option) \<Rightarrow> u32 \<Rightarrow> 'q \<Rightarrow> 'b channel_state \<times> client_channel
    \<Rightarrow> ((status + u32) \<times> nat option \<times> 'b channel_state \<times> client_channel) option" where
  "SendInTurn ssl generated now later exchange write encode handle request = (\<lambda>(c, conn).
     (let release = (\<lambda>r conn. let (woken, c) = ReleaseSendTurn c in Some (r, woken, c, conn));
          send = (\<lambda>conn. let (rid, conn) = NextRequestId conn in
            case SendRequest ssl encode rid handle request (ch_authentication_token c) conn of
              (Inl e, conn) \<Rightarrow> release (if status_bad e then Inl e else Inr rid) conn
            | (Inr frame, conn) \<Rightarrow> (let st = write frame in
                release (if status_bad st then Inl st else Inr rid) conn))
      in if pending_responses c = [] \<and> ShouldRenew now conn
         then (case RenewIfNeeded ssl generated now later exchange conn of
             None \<Rightarrow> None
           | Some (st, conn) \<Rightarrow> if status_bad st then release (Inl st) conn else send conn)
         else send conn))"

definition EnsureReadLoop :: "'b channel_state \<Rightarrow> 'b channel_state" where
  "EnsureReadLoop c = (if read_loop_running c then c else c\<lparr>read_loop_running := True\<rparr>)"

datatype 'b receive_result = Received "status + 'b" | Waiting

definition Receive :: "u32 \<Rightarrow> u32 \<Rightarrow> 'b channel_state \<Rightarrow> 'b receive_result \<times> 'b channel_state" where
  "Receive rid handle c = (case map_of (buffered_responses c) rid of
       Some (h, body) \<Rightarrow>
         if h \<noteq> handle then (Received (Inl bad_status), c)
         else (Received (Inr body), c\<lparr>buffered_responses := AList.delete rid (buffered_responses c)\<rparr>)
     | None \<Rightarrow> (Waiting, EnsureReadLoop (c\<lparr>pending_responses := AList.update rid handle (pending_responses c)\<rparr>)))"

text \<open>\<open>Call\<close> once its \<open>Send\<close> returned.\<close>

definition Call :: "status + u32 \<Rightarrow> u32 \<Rightarrow> 'b channel_state \<Rightarrow> 'b receive_result \<times> 'b channel_state" where
  "Call sent handle c = (case sent of Inl e \<Rightarrow> (Received (Inl e), c) | Inr rid \<Rightarrow> Receive rid handle c)"

text \<open>What a \<open>Receive\<close> does when it is woken, its result having been stored before.\<close>

definition ResumeReceive :: "u32 \<Rightarrow> 'b channel_state \<Rightarrow> 'b channel_state" where
  "ResumeReceive rid c = c\<lparr>pending_responses := AList.delete rid (pending_responses c)\<rparr>"

definition DeliverResponse :: "u32 \<times> u32 \<times> 'b \<Rightarrow> 'b channel_state
    \<Rightarrow> (u32 \<times> (status + 'b)) list \<times> 'b channel_state" where
  "DeliverResponse = (\<lambda>(rid, handle, body) c. case map_of (pending_responses c) rid of
       Some h \<Rightarrow> ([(rid, if handle \<noteq> h then Inl bad_status else Inr body)],
                   c\<lparr>pending_responses := AList.delete rid (pending_responses c)\<rparr>)
     | None \<Rightarrow> ([], c\<lparr>buffered_responses :=
         (if map_of (buffered_responses c) rid = None then buffered_responses c @ [(rid, handle, body)]
          else buffered_responses c)\<rparr>))"

definition FailPendingResponses :: "status \<Rightarrow> 'b channel_state \<Rightarrow> (u32 \<times> (status + 'b)) list \<times> 'b channel_state" where
  "FailPendingResponses st c = (map (\<lambda>(rid, _). (rid, Inl st)) (pending_responses c), c\<lparr>pending_responses := []\<rparr>)"

text \<open>The end of \<open>RunReadLoop\<close>, and one round of it: what the connection read, or its failure.\<close>

definition EndReadLoop :: "'b channel_state \<Rightarrow> 'b channel_state" where
  "EndReadLoop c = (let c = c\<lparr>read_loop_running := False\<rparr> in
     if pending_responses c \<noteq> [] then EnsureReadLoop c else c)"

definition loop_head :: "'b channel_state \<Rightarrow> 'b channel_state" where
  "loop_head c = (if pending_responses c = [] then EndReadLoop c else c)"

definition ReadLoopStep :: "status + u32 \<times> u32 \<times> 'b \<Rightarrow> 'b channel_state
    \<Rightarrow> (u32 \<times> (status + 'b)) list \<times> 'b channel_state" where
  "ReadLoopStep input c = (case input of
       Inl st \<Rightarrow> map_prod id EndReadLoop (FailPendingResponses st c)
     | Inr frame \<Rightarrow> map_prod id loop_head (DeliverResponse frame c))"

section \<open>Which response belongs to which request\<close>

text \<open>
  A run of the channel: calls of \<open>Receive\<close> (each for an id of its own), frames and failures the
  read loop gets, and the later moments of the other coroutines. \<open>w_asked\<close> are the calls,
  \<open>w_frames\<close> the responses read, \<open>w_results\<close> what the calls were given, \<open>w_failures\<close> the failures.
\<close>

record 'b client_world =
  w_chan :: "'b channel_state"
  w_asked :: "(u32 \<times> u32) list"
  w_frames :: "(u32 \<times> u32 \<times> 'b) list"
  w_results :: "(u32 \<times> (status + 'b)) list"
  w_failures :: "status list"

inductive client_step :: "'b client_world \<Rightarrow> 'b client_world \<Rightarrow> bool" where
  cw_receive: "Receive rid h (w_chan w) = (r, c) \<Longrightarrow> rid \<notin> fst ` set (w_asked w) \<Longrightarrow>
    client_step w (w\<lparr>w_chan := c, w_asked := w_asked w @ [(rid, h)],
      w_results := w_results w @ (case r of Received x \<Rightarrow> [(rid, x)] | Waiting \<Rightarrow> [])\<rparr>)"
| cw_read: "ReadLoopStep (Inr (rid, h, body)) (w_chan w) = (woken, c) \<Longrightarrow> read_loop_running (w_chan w) \<Longrightarrow>
    pending_responses (w_chan w) \<noteq> [] \<Longrightarrow> rid \<notin> fst ` set (w_frames w) \<Longrightarrow>
    client_step w (w\<lparr>w_chan := c, w_frames := w_frames w @ [(rid, h, body)], w_results := w_results w @ woken\<rparr>)"
| cw_fail: "ReadLoopStep (Inl st) (w_chan w) = (woken, c) \<Longrightarrow> read_loop_running (w_chan w) \<Longrightarrow>
    client_step w (w\<lparr>w_chan := c, w_results := w_results w @ woken, w_failures := w_failures w @ [st]\<rparr>)"
| cw_loop: "read_loop_running (w_chan w) \<Longrightarrow> client_step w (w\<lparr>w_chan := loop_head (w_chan w)\<rparr>)"
| cw_resume: "rid \<in> fst ` set (w_results w) \<Longrightarrow>
    client_step w (w\<lparr>w_chan := ResumeReceive rid (w_chan w)\<rparr>)"

definition client_start :: "node_id \<Rightarrow> 'b client_world" where
  "client_start token = \<lparr>w_chan = ClientChannel token, w_asked = [], w_frames = [], w_results = [], w_failures = []\<rparr>"

definition waiting_inv :: "'b client_world \<Rightarrow> bool" where
  "waiting_inv w \<longleftrightarrow> (let pend = pending_responses (w_chan w) in
     set pend \<subseteq> set (w_asked w) \<and> distinct (map fst pend)
     \<and> fst ` set pend \<inter> fst ` set (w_results w) = {}
     \<and> fst ` set (w_asked w) = fst ` set pend \<union> fst ` set (w_results w)
     \<and> fst ` set pend \<inter> fst ` set (w_frames w) = {}
     \<and> (pend \<noteq> [] \<longrightarrow> read_loop_running (w_chan w)))"

definition buffer_inv :: "'b client_world \<Rightarrow> bool" where
  "buffer_inv w \<longleftrightarrow> (let buf = buffered_responses (w_chan w) in
     set buf \<subseteq> set (w_frames w) \<and> distinct (map fst buf)
     \<and> fst ` set (w_frames w) \<subseteq> fst ` set buf \<union> fst ` set (w_results w))"

definition result_inv :: "'b client_world \<Rightarrow> bool" where
  "result_inv w \<longleftrightarrow> distinct (map fst (w_asked w)) \<and> distinct (map fst (w_frames w)) \<and> distinct (map fst (w_results w))
     \<and> (\<forall>rid body. (rid, Inr body) \<in> set (w_results w) \<longrightarrow>
          (\<exists>h. (rid, h) \<in> set (w_asked w) \<and> (rid, h, body) \<in> set (w_frames w)))
     \<and> (w_failures w = [] \<longrightarrow> (\<forall>rid st. (rid, Inl st) \<in> set (w_results w) \<longrightarrow>
          (\<exists>h h' body. (rid, h) \<in> set (w_asked w) \<and> (rid, h', body) \<in> set (w_frames w) \<and> h \<noteq> h')))"

lemmas channel_defs = ReadLoopStep_def DeliverResponse_def FailPendingResponses_def loop_head_def EndReadLoop_def
  EnsureReadLoop_def

lemma update_new_key: "k \<notin> fst ` set xs \<Longrightarrow> AList.update k v xs = xs @ [(k, v)]"
  by (induction xs) auto

lemma delete_keys: "fst ` set (AList.delete k xs) = fst ` set xs - {k}"
  by (force simp: AList.delete_eq)

lemma delete_subset: "set (AList.delete k xs) \<subseteq> set xs" "distinct (map fst xs) \<Longrightarrow> distinct (map fst (AList.delete k xs))"
  by (auto simp: AList.delete_eq distinct_map_filter)

lemma receive_inv:
  fixes w :: "'b client_world"
  assumes "waiting_inv w" "buffer_inv w" "result_inv w"
    and r: "Receive rid h (w_chan w) = (r, c)" "rid \<notin> fst ` set (w_asked w)"
  defines "w' \<equiv> w\<lparr>w_chan := c, w_asked := w_asked w @ [(rid, h)],
      w_results := w_results w @ (case r of Received x \<Rightarrow> [(rid, x)] | Waiting \<Rightarrow> [])\<rparr>"
  shows "waiting_inv w' \<and> buffer_inv w' \<and> result_inv w'"
proof -
  have fresh: "rid \<notin> fst ` set (w_results w)" "rid \<notin> fst ` set (pending_responses (w_chan w))"
    using assms(1) r(2) by (auto simp: waiting_inv_def Let_def)
  show ?thesis
  proof (cases "map_of (buffered_responses (w_chan w)) rid")
    case None
    then have c: "r = Waiting" "c = EnsureReadLoop ((w_chan w)\<lparr>pending_responses :=
        AList.update rid h (pending_responses (w_chan w))\<rparr>)"
      using r(1) by (auto simp: Receive_def)
    have buf: "rid \<notin> fst ` set (buffered_responses (w_chan w))" using None by (simp add: map_of_eq_None_iff)
    then have "rid \<notin> fst ` set (w_frames w)" using assms(2) fresh(1) by (auto simp: buffer_inv_def Let_def)
    moreover have "waiting_inv w'"
      using assms(1) calculation fresh
      by (auto simp: w'_def c waiting_inv_def Let_def EnsureReadLoop_def update_new_key)
    moreover have "buffer_inv w'"
      using assms(2) by (simp add: w'_def c buffer_inv_def Let_def EnsureReadLoop_def)
    moreover have "result_inv w'"
      using assms(3) r(2) by (simp add: w'_def c result_inv_def) blast
    ultimately show ?thesis by simp
  next
    case (Some hb)
    obtain h' body where hb: "hb = (h', body)" by (cases hb)
    have inb: "(rid, h', body) \<in> set (buffered_responses (w_chan w))" using Some hb by (simp add: map_of_SomeD)
    then have inf: "(rid, h', body) \<in> set (w_frames w)" using assms(2) by (auto simp: buffer_inv_def Let_def)
    show ?thesis
    proof (cases "h' = h")
      case True
      then have c: "r = Received (Inr body)" "c = (w_chan w)\<lparr>buffered_responses :=
          AList.delete rid (buffered_responses (w_chan w))\<rparr>"
        using r(1) Some hb by (auto simp: Receive_def)
      have "waiting_inv w'"
        using assms(1) fresh inf by (auto simp: w'_def c waiting_inv_def Let_def)
      moreover have "buffer_inv w'"
        using assms(2) delete_subset(1) [of rid "buffered_responses (w_chan w)"] delete_subset(2) [of "buffered_responses (w_chan w)" rid]
        by (auto simp: w'_def c buffer_inv_def Let_def delete_keys)
      moreover have "result_inv w'"
        using assms(3) r(2) fresh(1) inf True by (simp add: w'_def c result_inv_def) blast
      ultimately show ?thesis by simp
    next
      case False
      then have c: "r = Received (Inl bad_status)" "c = w_chan w"
        using r(1) Some hb by (auto simp: Receive_def)
      have "waiting_inv w'"
        using assms(1) fresh by (auto simp: w'_def c waiting_inv_def Let_def)
      moreover have "buffer_inv w'"
        using assms(2) by (auto simp: w'_def c buffer_inv_def Let_def)
      moreover have "result_inv w'"
        using assms(3) r(2) fresh(1) inf False by (simp add: w'_def c result_inv_def) blast
      ultimately show ?thesis by simp
    qed
  qed
qed

text \<open>The loop head and the end of the loop touch only the flag, and only when nobody waits.\<close>

lemma loop_head_simps [simp]:
  "pending_responses (loop_head c) = pending_responses c" "buffered_responses (loop_head c) = buffered_responses c"
  "pending_responses (EndReadLoop c) = pending_responses c" "buffered_responses (EndReadLoop c) = buffered_responses c"
  by (simp_all add: channel_defs Let_def)

lemma loop_head_running: "pending_responses c \<noteq> [] \<Longrightarrow> read_loop_running (loop_head c) = read_loop_running c"
  by (simp add: loop_head_def)

lemma read_inv:
  fixes w :: "'b client_world"
  assumes "waiting_inv w" "buffer_inv w" "result_inv w"
    and r: "ReadLoopStep (Inr (rid, h, body)) (w_chan w) = (woken, c)" "read_loop_running (w_chan w)"
      "rid \<notin> fst ` set (w_frames w)"
  defines "w' \<equiv> w\<lparr>w_chan := c, w_frames := w_frames w @ [(rid, h, body)], w_results := w_results w @ woken\<rparr>"
  shows "waiting_inv w' \<and> buffer_inv w' \<and> result_inv w'"
proof (cases "map_of (pending_responses (w_chan w)) rid")
  case None
  let ?buf = "buffered_responses (w_chan w)"
  have "rid \<notin> fst ` set ?buf" using assms(2) r(3) by (auto simp: buffer_inv_def Let_def)
  then have c: "woken = []" "c = loop_head ((w_chan w)\<lparr>buffered_responses := ?buf @ [(rid, h, body)]\<rparr>)"
    using r(1) None by (auto simp: ReadLoopStep_def DeliverResponse_def map_of_eq_None_iff)
  have "waiting_inv w'"
    using assms(1) None by (auto simp: w'_def c waiting_inv_def Let_def map_of_eq_None_iff loop_head_running)
  moreover have "buffer_inv w'"
    using assms(2) \<open>rid \<notin> fst ` set ?buf\<close> by (auto simp: w'_def c buffer_inv_def Let_def)
  moreover have "result_inv w'"
    using assms(3) r(3) by (simp add: w'_def c result_inv_def) blast
  ultimately show ?thesis by simp
next
  case (Some h0)
  let ?pend = "pending_responses (w_chan w)"
  have mem: "(rid, h0) \<in> set ?pend" using Some by (simp add: map_of_SomeD)
  then have key: "rid \<in> fst ` set ?pend" by force
  have asked: "(rid, h0) \<in> set (w_asked w)" and new: "rid \<notin> fst ` set (w_results w)"
    using assms(1) mem key unfolding waiting_inv_def Let_def by blast+
  have c: "woken = [(rid, if h \<noteq> h0 then Inl bad_status else Inr body)]"
    "c = loop_head ((w_chan w)\<lparr>pending_responses := AList.delete rid ?pend\<rparr>)"
    using r(1) Some by (auto simp: ReadLoopStep_def DeliverResponse_def)
  have keys: "fst ` set (AList.delete rid ?pend) = fst ` set ?pend - {rid}" by (rule delete_keys)
  have P: "pending_responses (w_chan w') = AList.delete rid ?pend" "w_asked w' = w_asked w"
    "fst ` set (w_results w') = insert rid (fst ` set (w_results w))"
    "fst ` set (w_frames w') = insert rid (fst ` set (w_frames w))"
    by (simp_all add: w'_def c)
  have run: "AList.delete rid ?pend \<noteq> [] \<longrightarrow> read_loop_running (w_chan w')"
    using r(2) by (simp add: w'_def c loop_head_running)
  have "waiting_inv w'"
    unfolding waiting_inv_def Let_def P keys
    using assms(1) [unfolded waiting_inv_def Let_def] key run
      delete_subset(1) [of rid ?pend] delete_subset(2) [of ?pend rid] by (intro conjI) blast+
  moreover have "buffer_inv w'"
    using assms(2) by (auto simp: w'_def c buffer_inv_def Let_def)
  moreover have "result_inv w'"
    using assms(3) r(3) asked new by (simp add: w'_def c result_inv_def split: if_split) blast
  ultimately show ?thesis by simp
qed

lemma fail_inv:
  fixes w :: "'b client_world"
  assumes "waiting_inv w" "buffer_inv w" "result_inv w"
    and r: "ReadLoopStep (Inl st) (w_chan w) = (woken, c)"
  defines "w' \<equiv> w\<lparr>w_chan := c, w_results := w_results w @ woken, w_failures := w_failures w @ [st]\<rparr>"
  shows "waiting_inv w' \<and> buffer_inv w' \<and> result_inv w'"
proof -
  let ?pend = "pending_responses (w_chan w)"
  have c: "woken = map (\<lambda>(rid, _). (rid, Inl st)) ?pend" "c = EndReadLoop ((w_chan w)\<lparr>pending_responses := []\<rparr>)"
    using r by (auto simp: ReadLoopStep_def FailPendingResponses_def)
  have keys: "map fst woken = map fst ?pend" by (simp add: c(1) split_def comp_def)
  then have kset: "fst ` set woken = fst ` set ?pend" by (metis set_map)
  have "waiting_inv w'"
    using assms(1) kset by (auto simp: w'_def c(2) waiting_inv_def Let_def image_Un)
  moreover have "buffer_inv w'"
    using assms(2) by (auto simp: w'_def c(2) buffer_inv_def Let_def)
  moreover have "result_inv w'"
  proof -
    have "Inr body \<notin> snd ` set woken" for body by (auto simp: c(1))
    then have "(rid, Inr body) \<notin> set woken" for rid body by force
    moreover have "distinct (map fst (w_results w @ woken))"
      using assms(1,3) keys kset by (auto simp: waiting_inv_def result_inv_def Let_def)
    ultimately show ?thesis using assms(3) by (simp add: w'_def result_inv_def)
  qed
  ultimately show ?thesis by simp
qed

lemma client_step_inv:
  assumes "client_step w w'" and "waiting_inv w \<and> buffer_inv w \<and> result_inv w"
  shows "waiting_inv w' \<and> buffer_inv w' \<and> result_inv w'"
  using assms(1)
proof cases
  case (cw_receive rid h r c)
  then show ?thesis using receive_inv assms(2) by blast
next
  case (cw_read rid h body woken c)
  then show ?thesis using read_inv [OF _ _ _ cw_read(2,3,5)] assms(2) by simp
next
  case (cw_fail st woken c)
  then show ?thesis using fail_inv [OF _ _ _ cw_fail(2)] assms(2) by simp
next
  case cw_loop
  then show ?thesis
    using assms(2) by (auto simp: waiting_inv_def buffer_inv_def result_inv_def Let_def loop_head_running)
next
  case (cw_resume rid)
  then have "rid \<notin> fst ` set (pending_responses (w_chan w))" using assms(2) by (auto simp: waiting_inv_def Let_def)
  then have "AList.delete rid (pending_responses (w_chan w)) = pending_responses (w_chan w)"
    by (simp add: delete_id)
  with cw_resume show ?thesis
    using assms(2) by (simp add: ResumeReceive_def waiting_inv_def buffer_inv_def result_inv_def)
qed

lemma client_reachable_inv:
  "client_step\<^sup>*\<^sup>* (client_start token) w \<Longrightarrow> waiting_inv w \<and> buffer_inv w \<and> result_inv w"
proof (induction rule: rtranclp_induct)
  case base
  show ?case by (simp add: waiting_inv_def buffer_inv_def result_inv_def client_start_def ClientChannel_def)
next
  case (step y z)
  then show ?case using client_step_inv by blast
qed

lemma result_invD:
  assumes "result_inv w"
  shows "distinct (map fst (w_asked w))" "distinct (map fst (w_frames w))" "distinct (map fst (w_results w))"
    "(rid, Inr body) \<in> set (w_results w) \<Longrightarrow> \<exists>h. (rid, h) \<in> set (w_asked w) \<and> (rid, h, body) \<in> set (w_frames w)"
    "w_failures w = [] \<Longrightarrow> (rid, Inl st) \<in> set (w_results w) \<Longrightarrow>
      \<exists>h h' body. (rid, h) \<in> set (w_asked w) \<and> (rid, h', body) \<in> set (w_frames w) \<and> h \<noteq> h'"
  using assms unfolding result_inv_def by blast+

lemma answered_when_read:
  assumes "waiting_inv w" "result_inv w" "w_failures w = []"
    and a: "(rid, h) \<in> set (w_asked w)" and f: "(rid, h, body) \<in> set (w_frames w)"
  shows "(rid, Inr body) \<in> set (w_results w)"
proof -
  note da = result_invD(1) [OF assms(2)] and df = result_invD(2) [OF assms(2)]
  have apart: "fst ` set (pending_responses (w_chan w)) \<inter> fst ` set (w_frames w) = {}"
    and all: "fst ` set (w_asked w) = fst ` set (pending_responses (w_chan w)) \<union> fst ` set (w_results w)"
    using assms(1) unfolding waiting_inv_def Let_def by blast+
  have "rid \<in> fst ` set (w_asked w)" using image_eqI [OF _ a, of _ fst] by simp
  moreover have "rid \<in> fst ` set (w_frames w)" using image_eqI [OF _ f, of _ fst] by simp
  ultimately have "rid \<in> fst ` set (w_results w)" using apart unfolding all by blast
  then obtain x where x: "(rid, x) \<in> set (w_results w)" by auto
  show ?thesis
  proof (cases x)
    case (Inl st)
    with x obtain h1 h2 b where
      c: "(rid, h1) \<in> set (w_asked w)" "(rid, h2, b) \<in> set (w_frames w)" "h1 \<noteq> h2"
      using result_invD(5) [OF assms(2,3)] by blast
    show ?thesis using eq_key_imp_eq_value [OF da a c(1)] eq_key_imp_eq_value [OF df f c(2)] c(3) by simp
  next
    case (Inr b)
    with x obtain h1 where c: "(rid, h1, b) \<in> set (w_frames w)"
      using result_invD(4) [OF assms(2)] by blast
    show ?thesis using eq_key_imp_eq_value [OF df f c] x Inr by simp
  qed
qed

lemma waiting_is_registered:
  assumes "waiting_inv w" "result_inv w" and a: "(rid, h) \<in> set (w_asked w)" and n: "rid \<notin> fst ` set (w_results w)"
  shows "(rid, h) \<in> set (pending_responses (w_chan w)) \<and> read_loop_running (w_chan w)"
proof -
  have sub: "set (pending_responses (w_chan w)) \<subseteq> set (w_asked w)"
    and run: "pending_responses (w_chan w) \<noteq> [] \<longrightarrow> read_loop_running (w_chan w)"
    and all: "fst ` set (w_asked w) = fst ` set (pending_responses (w_chan w)) \<union> fst ` set (w_results w)"
    using assms(1) by (simp_all add: waiting_inv_def Let_def)
  have "rid \<in> fst ` set (w_asked w)" using a by force
  with all n obtain h' where p: "(rid, h') \<in> set (pending_responses (w_chan w))" by auto
  from eq_key_imp_eq_value [OF result_invD(1) [OF assms(2)] a] p sub have "h' = h" by auto
  with p run show ?thesis by (cases "pending_responses (w_chan w)") auto
qed

section \<open>Whose turn it is\<close>

text \<open>
  The sends of a channel: \<open>t_holding\<close> are the coroutines between getting the turn and giving
  it back, \<open>t_woken\<close> those that were woken and have not run yet. Anyone may ask at any time, in
  particular before a woken one runs.
\<close>

record 'b turn_world =
  t_chan :: "'b channel_state"
  t_holding :: "nat list"
  t_woken :: "nat list"

definition take_turn :: "nat \<Rightarrow> 'b turn_world \<Rightarrow> 'b turn_world" where
  "take_turn who w = (let (got, c) = WaitForSendTurn who (t_chan w) in
     w\<lparr>t_chan := c, t_holding := (if got then [who] else []) @ t_holding w\<rparr>)"

definition give_turn :: "nat \<Rightarrow> 'b turn_world \<Rightarrow> 'b turn_world" where
  "give_turn who w = (let (woken, c) = ReleaseSendTurn (t_chan w) in
     w\<lparr>t_chan := c, t_holding := remove1 who (t_holding w),
       t_woken := t_woken w @ (case woken of None \<Rightarrow> [] | Some x \<Rightarrow> [x])\<rparr>)"

inductive turn_step :: "'b turn_world \<Rightarrow> 'b turn_world \<Rightarrow> bool" where
  ts_ask: "turn_step w (take_turn who w)"
| ts_retry: "who \<in> set (t_woken w) \<Longrightarrow> turn_step w (take_turn who (w\<lparr>t_woken := remove1 who (t_woken w)\<rparr>))"
| ts_give: "who \<in> set (t_holding w) \<Longrightarrow> turn_step w (give_turn who w)"

definition turn_start :: "node_id \<Rightarrow> 'b turn_world" where
  "turn_start token = \<lparr>t_chan = ClientChannel token, t_holding = [], t_woken = []\<rparr>"

definition turn_inv :: "'b turn_world \<Rightarrow> bool" where
  "turn_inv w \<longleftrightarrow> length (t_holding w) = (if send_in_progress (t_chan w) then 1 else 0)
     \<and> (send_waiters (t_chan w) \<noteq> [] \<longrightarrow> t_holding w \<noteq> [] \<or> t_woken w \<noteq> [])"

lemma take_turn_inv: "length (t_holding w) = (if send_in_progress (t_chan w) then 1 else 0) \<Longrightarrow> turn_inv (take_turn who w)"
  by (auto simp: turn_inv_def take_turn_def WaitForSendTurn_def Let_def)

lemma turn_step_inv: "turn_step w w' \<Longrightarrow> turn_inv w \<Longrightarrow> turn_inv w'"
proof (induction rule: turn_step.induct)
  case (ts_give who w)
  then have "t_holding w = [who]" "send_in_progress (t_chan w)"
    by (auto simp: turn_inv_def length_Suc_conv split: if_splits)
  then show ?case
    by (auto simp: turn_inv_def give_turn_def ReleaseSendTurn_def Let_def split: list.splits)
next
  case (ts_ask w who)
  then show ?case by (intro take_turn_inv) (simp add: turn_inv_def)
next
  case (ts_retry who w)
  then show ?case by (intro take_turn_inv) (simp add: turn_inv_def)
qed

lemma turn_reachable_inv: "turn_step\<^sup>*\<^sup>* (turn_start token) w \<Longrightarrow> turn_inv w"
  by (induction rule: rtranclp_induct)
    (auto simp: turn_inv_def turn_start_def ClientChannel_def dest: turn_step_inv)

section \<open>The frames of a stream\<close>

definition stream_frame :: "nat \<Rightarrow> bytes \<Rightarrow> bool" where
  "stream_frame max_size f \<longleftrightarrow> 8 \<le> length f \<and> length f \<le> max_size
     \<and> (case DecodeFrameHeader (take 8 f) of None \<Rightarrow> False | Some h \<Rightarrow> unat (fh_message_size h) = length f)"

text \<open>\<open>n\<close> calls of \<open>ReadFrame\<close>, one after the other.\<close>

fun read_frames :: "nat \<Rightarrow> bytes option list \<Rightarrow> client_transport \<Rightarrow> frame_read list \<times> bytes option list \<times> client_transport" where
  "read_frames 0 ins t = ([], ins, t)"
| "read_frames (Suc n) ins t = (let (r, ins, t) = ReadFrame ins t; (rs, ins, t) = read_frames n ins t in (r # rs, ins, t))"

lemma NextFrame_complete:
  assumes "stream_frame (ct_max_frame_size t) f" and "ct_pending_bytes t = f @ rest"
  shows "NextFrame t = (FrameReady (Inr f), t\<lparr>ct_pending_bytes := rest\<rparr>)"
  using assms by (auto simp: NextFrame_def stream_frame_def Let_def split: option.splits)

lemma NextFrame_partial:
  assumes "stream_frame (ct_max_frame_size t) f" and "f = ct_pending_bytes t @ missing" and "missing \<noteq> []"
  shows "NextFrame t = (NeedBytes, t)"
proof (cases "length (ct_pending_bytes t) < 8")
  case True
  then show ?thesis by (simp add: NextFrame_def Let_def)
next
  case False
  then have "take 8 f = take 8 (ct_pending_bytes t)" by (simp add: assms(2))
  with assms False show ?thesis
    by (auto simp: NextFrame_def stream_frame_def Let_def split: option.splits)
qed

lemma ReadFrame_next:
  assumes "stream_frame (ct_max_frame_size t) f" and "ct_pending_bytes t @ concat chunks = f @ rest" and "[] \<notin> set chunks"
  shows "\<exists>chunks' pend. ReadFrame (map Some chunks) t = (FrameReady (Inr f), map Some chunks', t\<lparr>ct_pending_bytes := pend\<rparr>)
    \<and> pend @ concat chunks' = rest \<and> [] \<notin> set chunks'"
  using assms
proof (induction chunks arbitrary: t)
  case Nil
  then show ?case using NextFrame_complete [of t f rest] by (subst ReadFrame.simps) (auto intro!: exI [of _ "[]"])
next
  case (Cons bs chunks)
  show ?case
  proof (cases "length f \<le> length (ct_pending_bytes t)")
    case True
    then obtain rest' where p: "ct_pending_bytes t = f @ rest'"
      using Cons.prems(2) by (metis append_eq_append_conv_if append_take_drop_id)
    with Cons.prems have "rest' @ concat (bs # chunks) = rest" by simp
    with NextFrame_complete [OF Cons.prems(1) p] Cons.prems(3) show ?thesis
      by (subst ReadFrame.simps) (auto intro!: exI [of _ "bs # chunks"])
  next
    case False
    then obtain missing where p: "f = ct_pending_bytes t @ missing"
      using Cons.prems(2) by (metis append_eq_append_conv_if append_take_drop_id nle_le)
    with False have "missing \<noteq> []" by auto
    let ?t = "t\<lparr>ct_pending_bytes := ct_pending_bytes t @ bs\<rparr>"
    have "\<exists>chunks' pend. ReadFrame (map Some chunks) ?t = (FrameReady (Inr f), map Some chunks', ?t\<lparr>ct_pending_bytes := pend\<rparr>)
        \<and> pend @ concat chunks' = rest \<and> [] \<notin> set chunks'"
      using Cons.prems by (intro Cons.IH) auto
    moreover have "ReadFrame (map Some (bs # chunks)) t = ReadFrame (map Some chunks) ?t"
      using NextFrame_partial [OF Cons.prems(1) p \<open>missing \<noteq> []\<close>] Cons.prems(3) by (subst ReadFrame.simps) auto
    ultimately show ?thesis by auto
  qed
qed

lemma read_frames_stream:
  assumes "list_all (stream_frame (ct_max_frame_size t)) fs" and "ct_pending_bytes t @ concat chunks = concat fs @ rest"
    and "[] \<notin> set chunks"
  shows "\<exists>chunks' pend. read_frames (length fs) (map Some chunks) t
      = (map (FrameReady \<circ> Inr) fs, map Some chunks', t\<lparr>ct_pending_bytes := pend\<rparr>) \<and> pend @ concat chunks' = rest"
  using assms
proof (induction fs arbitrary: t chunks)
  case Nil
  then show ?case by (auto intro!: exI [of _ chunks] exI [of _ "ct_pending_bytes t"])
next
  case (Cons f fs)
  from ReadFrame_next [of t f chunks "concat fs @ rest"] Cons.prems obtain chunks1 pend1 where
    r: "ReadFrame (map Some chunks) t = (FrameReady (Inr f), map Some chunks1, t\<lparr>ct_pending_bytes := pend1\<rparr>)"
    "pend1 @ concat chunks1 = concat fs @ rest" "[] \<notin> set chunks1" by auto
  from Cons.IH [of "t\<lparr>ct_pending_bytes := pend1\<rparr>" chunks1] r Cons.prems(1) obtain chunks2 pend2 where
    "read_frames (length fs) (map Some chunks1) (t\<lparr>ct_pending_bytes := pend1\<rparr>)
      = (map (FrameReady \<circ> Inr) fs, map Some chunks2, t\<lparr>ct_pending_bytes := pend2\<rparr>)"
    "pend2 @ concat chunks2 = rest" by auto
  with r(1) show ?case by (auto simp: Let_def)
qed

section \<open>Properties\<close>

text \<open>
  C14. Whatever order responses arrive in, and whether they arrive before or after someone waits
  for them: a call of Receive is given at most one result; a body it is given is that of the
  response read under its request id and handle; in a run without a read failure, in which the
  server answers each id once, it is given the body of that response as soon as it was read; and
  a call that has no result yet is registered with a running read loop.
\<close>

theorem responses_correlated:
  assumes "client_step\<^sup>*\<^sup>* (client_start token) w"
  shows "distinct (map fst (w_results w))
    \<and> (\<forall>rid body. (rid, Inr body) \<in> set (w_results w) \<longrightarrow>
         (\<exists>h. (rid, h) \<in> set (w_asked w) \<and> (rid, h, body) \<in> set (w_frames w)))
    \<and> (w_failures w = [] \<longrightarrow> (\<forall>rid h body. (rid, h) \<in> set (w_asked w) \<longrightarrow> (rid, h, body) \<in> set (w_frames w) \<longrightarrow>
         (rid, Inr body) \<in> set (w_results w)))
    \<and> (\<forall>rid h. (rid, h) \<in> set (w_asked w) \<longrightarrow> rid \<in> fst ` set (w_results w)
         \<or> (rid, h) \<in> set (pending_responses (w_chan w)) \<and> read_loop_running (w_chan w))"
proof -
  have inv: "waiting_inv w" "result_inv w" using client_reachable_inv [OF assms] by auto
  show ?thesis
    using result_invD(3,4) [OF inv(2)] answered_when_read [OF inv] waiting_is_registered [OF inv]
    by (intro conjI) blast+
qed

text \<open>Two requests answered in the opposite order.\<close>

definition example_client :: "nat \<Rightarrow> bytes client_world" where
  "example_client n = (let
     w0 = client_start null_node_id;
     w1 = w0\<lparr>w_chan := snd (Receive 1 11 (w_chan w0)), w_asked := [(1, 11)]\<rparr>;
     w2 = w1\<lparr>w_chan := snd (ReadLoopStep (Inr (2, 12, [8])) (w_chan w1)), w_frames := [(2, 12, [8])]\<rparr>;
     w3 = w2\<lparr>w_chan := snd (Receive 2 12 (w_chan w2)), w_asked := [(1, 11), (2, 12)], w_results := [(2, Inr [8])]\<rparr>
   in if n = 0 then w0 else if n = 1 then w1 else if n = 2 then w2 else w3)"

lemmas example_client_simps = example_client_def client_start_def ClientChannel_def Receive_def EnsureReadLoop_def
  ReadLoopStep_def DeliverResponse_def loop_head_def

lemma example_client_reaches: "client_step\<^sup>*\<^sup>* (client_start null_node_id) (example_client 3)"
proof -
  have s1: "client_step (client_start null_node_id) (example_client 1)"
    using cw_receive [of 1 11 "client_start null_node_id :: bytes client_world"]
    by (simp add: example_client_simps)
  have s2: "client_step (example_client 1) (example_client 2)"
    using cw_read [of 2 12 "[8]" "example_client 1"] by (simp add: example_client_simps)
  have s3: "client_step (example_client 2) (example_client 3)"
    using cw_receive [of 2 12 "example_client 2"] by (simp add: example_client_simps)
  show ?thesis by (rule s3 s2 s1 rtranclp.rtrancl_refl rtranclp.rtrancl_into_rtrancl)+
qed

theorem responses_correlated_witness:
  "(2, Inr [8]) \<in> set (w_results (example_client 3))
   \<and> (1, 11) \<in> set (pending_responses (w_chan (example_client 3))) \<and> read_loop_running (w_chan (example_client 3))"
proof -
  have "w_failures (example_client 3) = []" "(2, 12) \<in> set (w_asked (example_client 3))"
    "(2, 12, [8]) \<in> set (w_frames (example_client 3))" "(1, 11) \<in> set (w_asked (example_client 3))"
    "1 \<notin> fst ` set (w_results (example_client 3))"
    by (simp_all add: example_client_simps)
  then show ?thesis using responses_correlated [OF example_client_reaches] by blast
qed

text \<open>
  Only one send at a time uses the connection, and nobody waits for nothing: while a send
  waits for its turn, another one has it or has been woken to take it.
\<close>

lemma send_turn_exclusive:
  assumes "turn_step\<^sup>*\<^sup>* (turn_start token) w"
  shows "length (t_holding w) \<le> 1 \<and> (send_waiters (t_chan w) \<noteq> [] \<longrightarrow> t_holding w \<noteq> [] \<or> t_woken w \<noteq> [])"
  using turn_reachable_inv [OF assms] by (auto simp: turn_inv_def split: if_splits)

text \<open>
  The client finds the frames of a stream however the transport cuts it: successive calls
  of ReadFrame return the frames in order, and what they leave is the rest of the stream.
\<close>

lemma client_stream_exact:
  assumes "list_all (stream_frame (ct_max_frame_size t)) fs" and "ct_pending_bytes t = []"
    and "concat chunks = concat fs @ rest" and "[] \<notin> set chunks"
  shows "\<exists>chunks' pend. read_frames (length fs) (map Some chunks) t
      = (map (FrameReady \<circ> Inr) fs, map Some chunks', t\<lparr>ct_pending_bytes := pend\<rparr>) \<and> pend @ concat chunks' = rest"
  using read_frames_stream [OF assms(1) _ assms(4)] assms(2,3) by simp

text \<open>
  Client and server agree on the connection: the answer of a fresh server connection to
  the Hello of the client is either the Acknowledge it negotiated, with which the client is
  open and knows exactly those limits, or, when the client offers an empty buffer, an Error
  that ends the connection on both sides.
\<close>

lemma connect_agrees:
  assumes "wire_len (ct_endpoint_url t)" and "\<not> hello_received srv"
  shows "\<exists>ok srv' bs st t'. ProcessFrame env (EncodeHelloMessage (hello_of t)) srv = Some (ok, srv', [WriteBytes bs])
    \<and> FinishConnect bs t = (st, t') \<and> hello_received srv' = ok \<and> ct_open t' = (ok \<or> ct_open t)
    \<and> (if ok then st = status_of_code Good \<and> NegotiateHello (hello_of t) (limits srv) = Inr (ct_acknowledge t')
       else st = status_of_code Bad \<and> t' = t
         \<and> (lim_receive_buffer_size (ct_limits t) = 0 \<or> lim_send_buffer_size (ct_limits t) = 0))"
proof -
  have url: "wire_len (hel_endpoint_url (hello_of t))" using assms(1) by (simp add: hello_of_def)
  obtain h where h: "DecodeFrameHeader (EncodeHelloMessage (hello_of t)) = Some h" "fh_message_type h = Hello"
    using hello_codec.enc_frame [OF url] by blast
  have p: "ProcessFrame env (EncodeHelloMessage (hello_of t)) srv = (case NegotiateHello (hello_of t) (limits srv) of
        Inl e \<Rightarrow> Some (False, srv, [WriteBytes (EncodeErrorMessage e)])
      | Inr ack \<Rightarrow> Some (True, srv\<lparr>hello_received := True\<rparr>, [WriteBytes (EncodeAcknowledgeMessage ack)]))"
    using h assms(2) hello_codec.dec_enc [OF url] by (simp add: ProcessFrame_def ProcessHello_def)
  show ?thesis
  proof (cases "NegotiateHello (hello_of t) (limits srv)")
    case (Inl e)
    then have e: "e = \<lparr>err_error = status_of_code Bad, err_reason = lit ''Client transport buffers must be non-zero''\<rparr>"
      "lim_receive_buffer_size (ct_limits t) = 0 \<or> lim_send_buffer_size (ct_limits t) = 0"
      by (auto simp: NegotiateHello_def hello_of_def split: if_splits)
    obtain h where "DecodeFrameHeader (EncodeErrorMessage e) = Some h" "fh_message_type h = ErrorType"
      using error_codec.enc_frame [of e] e(1) by auto
    moreover have "DecodeErrorMessage (EncodeErrorMessage e) = Some e" by (rule DecodeError_Encode) (simp add: e(1))
    ultimately have "FinishConnect (EncodeErrorMessage e) t = (status_of_code Bad, t)"
      by (simp add: FinishConnect_def e(1))
    with p Inl e(2) assms(2) show ?thesis by (auto simp: bad_status_def)
  next
    case (Inr ack)
    obtain h where "DecodeFrameHeader (EncodeAcknowledgeMessage ack) = Some h" "fh_message_type h = Acknowledge"
      using acknowledge_codec.enc_frame [of ack] by auto
    then have "FinishConnect (EncodeAcknowledgeMessage ack) t
        = (status_of_code Good, t\<lparr>ct_acknowledge := ack, ct_open := True\<rparr>)"
      by (simp add: FinishConnect_def DecodeAcknowledge_Encode)
    with p Inr show ?thesis by auto
  qed
qed

end
