(* ===== verification/Ua_Time.thy ===== *)
theory Ua_Time
  imports Ua_Types Complex_Main
begin

text \<open>
  Durations and instants: \<^verbatim>\<open>types/duration.{h,cpp}\<close> (a Duration is a Double of
  milliseconds) and \<^verbatim>\<open>base/time_base.h\<close> with \<^verbatim>\<open>types/date_time.h\<close> (an instant is a signed
  64-bit count of 100 ns ticks). Doubles are kept as their 64 bits in messages and read
  by \<open>f64_of_bits\<close>; arithmetic rounds to nearest, ties to even, as IEEE 754 binary64
  does. The sign of a zero is not kept: no operation below distinguishes the two zeros
  (the divisors and factors are positive constants). The conversion of a double that is
  out of the range of \<^verbatim>\<open>int64_t\<close> is undefined in C++; \<open>cast_int64\<close> gives the value the
  x86-64 conversion instruction gives, the least \<^verbatim>\<open>int64_t\<close>.
\<close>

section \<open>Doubles\<close>

datatype f64 = NaN | Infinity bool | Finite rat

function ilog2 :: "int \<Rightarrow> int" where
  "ilog2 n = (if n < 2 then 0 else ilog2 (n div 2) + 1)"
  by auto
termination by (relation "measure nat") auto

declare ilog2.simps [simp del]

definition pow2 :: "int \<Rightarrow> rat" where
  "pow2 i = (if 0 \<le> i then 2 ^ nat i else 1 / 2 ^ nat (- i))"

text \<open>The exponent of the binade of a positive rational \<open>p / q\<close>.\<close>

definition binade :: "rat \<Rightarrow> int" where
  "binade a = (let (p, q) = quotient_of a;
                   e = ilog2 p - ilog2 q
               in if pow2 e \<le> a then e else e - 1)"

definition round_even :: "rat \<Rightarrow> int" where
  "round_even a = (let n = \<lfloor>a\<rfloor>; r = a - of_int n in
     if r < 1 / 2 then n else if 1 / 2 < r then n + 1 else if even n then n else n + 1)"

definition rnd :: "rat \<Rightarrow> f64" where
  "rnd x = (if x = 0 then Finite 0 else
     let a = \<bar>x\<bar>; e = max (binade a) (- 1022); u = pow2 (e - 52);
         m = round_even (a / u); v = of_int m * u
     in if 1023 < e \<or> (e = 1023 \<and> m = 2 ^ 53) then Infinity (x < 0)
        else Finite (if x < 0 then - v else v))"

definition f64_of_bits :: "u64 \<Rightarrow> f64" where
  "f64_of_bits w = (let n = uint w; neg = 2 ^ 63 \<le> n; e = (n div 2 ^ 52) mod 2048;
       m = n mod 2 ^ 52; s = (if neg then - 1 else 1 :: rat)
     in if e = 2047 then (if m = 0 then Infinity neg else NaN)
        else if e = 0 then Finite (s * of_int m * pow2 (- 1074))
        else Finite (s * of_int (2 ^ 52 + m) * pow2 (e - 1075)))"

fun f64_neg :: "f64 \<Rightarrow> f64" where
  "f64_neg NaN = NaN" | "f64_neg (Infinity s) = Infinity (\<not> s)" | "f64_neg (Finite x) = Finite (- x)"

fun f64_abs :: "f64 \<Rightarrow> f64" where
  "f64_abs NaN = NaN" | "f64_abs (Infinity s) = Infinity False" | "f64_abs (Finite x) = Finite \<bar>x\<bar>"

fun f64_add :: "f64 \<Rightarrow> f64 \<Rightarrow> f64" where
  "f64_add (Finite x) (Finite y) = rnd (x + y)"
| "f64_add (Infinity s) (Finite _) = Infinity s"
| "f64_add (Finite _) (Infinity s) = Infinity s"
| "f64_add (Infinity s) (Infinity t) = (if s = t then Infinity s else NaN)"
| "f64_add _ _ = NaN"

definition f64_sub :: "f64 \<Rightarrow> f64 \<Rightarrow> f64" where
  "f64_sub x y = f64_add x (f64_neg y)"

text \<open>Multiplication and division by a positive integer constant of the source.\<close>

fun f64_scale :: "f64 \<Rightarrow> int \<Rightarrow> f64" where
  "f64_scale (Finite x) c = rnd (x * of_int c)" | "f64_scale y c = y"

fun f64_over :: "f64 \<Rightarrow> int \<Rightarrow> f64" where
  "f64_over (Finite x) c = rnd (x / of_int c)" | "f64_over y c = y"

fun f64_le :: "f64 \<Rightarrow> f64 \<Rightarrow> bool" where
  "f64_le NaN _ = False" | "f64_le _ NaN = False"
| "f64_le (Infinity s) (Infinity t) = (s \<or> \<not> t)"
| "f64_le (Infinity s) (Finite _) = s"
| "f64_le (Finite _) (Infinity t) = (\<not> t)"
| "f64_le (Finite x) (Finite y) = (x \<le> y)"

fun f64_less :: "f64 \<Rightarrow> f64 \<Rightarrow> bool" where
  "f64_less NaN _ = False" | "f64_less _ NaN = False"
| "f64_less (Infinity s) (Infinity t) = (s \<and> \<not> t)"
| "f64_less (Infinity s) (Finite _) = s"
| "f64_less (Finite _) (Infinity t) = (\<not> t)"
| "f64_less (Finite x) (Finite y) = (x < y)"

definition f64_of_int :: "int \<Rightarrow> f64" where
  "f64_of_int n = rnd (of_int n)"

definition trunc :: "rat \<Rightarrow> int" where
  "trunc x = (if x < 0 then - \<lfloor>- x\<rfloor> else \<lfloor>x\<rfloor>)"

abbreviation int64_min :: int where "int64_min \<equiv> - (2 ^ 63)"
abbreviation int64_max :: int where "int64_max \<equiv> 2 ^ 63 - 1"

fun cast_int64 :: "f64 \<Rightarrow> int" where
  "cast_int64 (Finite x) = (if int64_min \<le> trunc x \<and> trunc x \<le> int64_max then trunc x else int64_min)"
| "cast_int64 _ = int64_min"

section \<open>Duration and DateTime\<close>

text \<open>A Duration is its double of milliseconds; \<open>duration_zero\<close> is \<open>Duration{}\<close>.\<close>

type_synonym duration = f64
type_synonym date_time = u64

abbreviation duration_zero :: duration where "duration_zero \<equiv> Finite 0"

definition FromMilliseconds :: "int \<Rightarrow> duration" where
  "FromMilliseconds ms = f64_of_int ms"

definition FromMicrosecondsD :: "f64 \<Rightarrow> duration" where
  "FromMicrosecondsD us = f64_over us 1000"

definition FromSeconds :: "int \<Rightarrow> duration" where
  "FromSeconds secs = f64_scale (f64_of_int secs) 1000"

definition FromMinutes :: "int \<Rightarrow> duration" where
  "FromMinutes minutes = (if minutes = 2 ^ 31 - 1 then Infinity False
     else f64_scale (f64_scale (f64_of_int minutes) 60) 1000)"

definition FromHours :: "int \<Rightarrow> duration" where
  "FromHours hours = (if hours = 2 ^ 31 - 1 then Infinity False
     else f64_scale (f64_scale (f64_scale (f64_of_int hours) 60) 60) 1000)"

definition InMicrosecondsF :: "duration \<Rightarrow> f64" where
  "InMicrosecondsF d = f64_scale d 1000"

definition SaturatingTrunc :: "f64 \<Rightarrow> int" where
  "SaturatingTrunc v = (if v = NaN then 0
     else if f64_le (f64_of_int int64_max) v then int64_max
     else if f64_le v (f64_of_int int64_min) then int64_min
     else cast_int64 v)"

definition InMilliseconds :: "duration \<Rightarrow> int" where
  "InMilliseconds d = SaturatingTrunc d"

definition SaturatedAdd :: "duration \<Rightarrow> int \<Rightarrow> int" where
  "SaturatedAdd delta val = (let a = SaturatingTrunc (InMicrosecondsF delta) in
     if 0 < a \<and> 0 < val \<and> int64_max - val < a then int64_max
     else if a < 0 \<and> val < 0 \<and> a < int64_min - val then int64_min
     else a + val)"

text \<open>\<open>TimeBase<DateTime, 10>\<close>: ten ticks per microsecond.\<close>

definition time_minus :: "date_time \<Rightarrow> date_time \<Rightarrow> duration" where
  "time_minus t s = FromMicrosecondsD
     (f64_over (f64_sub (f64_of_int (sint t)) (f64_of_int (sint s))) 10)"

definition time_plus :: "date_time \<Rightarrow> duration \<Rightarrow> date_time" where
  "time_plus t delta = word_of_int (SaturatedAdd (f64_scale delta 10) (sint t))"

definition time_less :: "date_time \<Rightarrow> date_time \<Rightarrow> bool" where
  "time_less t s \<longleftrightarrow> sint t < sint s"

definition time_le :: "date_time \<Rightarrow> date_time \<Rightarrow> bool" where
  "time_le t s \<longleftrightarrow> sint t \<le> sint s"

end
