(* ===== verification/Ua_Subscription.thy ===== *)
theory Ua_Subscription
  imports Ua_Time "HOL-Library.AList"
begin

text \<open>
  \<^verbatim>\<open>session/server_subscription.{h,cpp}\<close> with the message types it uses
  (\<^verbatim>\<open>message.h\<close>): the monitored items of one subscription, the queue of pending
  notifications, the publish cycle with its keep-alives, and the retransmission queue of
  Republish and Acknowledge.

  The state is the record \<open>subscription\<close>. The backing subscription is a service of the
  embedding server: the answer of the \<open>n\<close>-th call of \<open>create_subscription_\<close> is a
  parameter, and what the code asks of the backing object (\<open>AddItems\<close>, \<open>RemoveItems\<close>,
  \<open>Close\<close>, each from a coroutine nobody waits for) is the list \<open>backing_calls\<close>; its
  answers come back as calls of \<open>OnBindResult\<close>, \<open>OnNotifications\<close> and
  \<open>OnSubscriptionError\<close>. An item carries the identity of the object behind its shared
  pointer, so that an expired \<open>std::weak_ptr\<close> is one whose identity is no longer in
  \<open>items\<close>. \<open>items\<close> lists the entries of the \<open>std::unordered_map\<close> in insertion order; the
  iteration order of the code is unspecified.
\<close>

section \<open>Message types\<close>

type_synonym double = u64

abbreviation Disabled :: u32 where "Disabled \<equiv> 0"
abbreviation Sampling :: u32 where "Sampling \<equiv> 1"
abbreviation Reporting :: u32 where "Reporting \<equiv> 2"

abbreviation Absolute :: u32 where "Absolute \<equiv> 1"

abbreviation AttributeId_EventNotifier :: u32 where "AttributeId_EventNotifier \<equiv> 12"
abbreviation AttributeId_Value :: u32 where "AttributeId_Value \<equiv> 13"

datatype read_value_id = ReadValueId (rv_node_id: node_id) (rv_attribute_id: u32)

text \<open>A filter other than a DataChangeFilter is carried as JSON the server never reads.\<close>

datatype monitoring_filter =
  DataChangeFilter (trigger: u32) (deadband_type: u32) (deadband_value: double)
| JsonFilter bytes

record monitoring_parameters =
  client_handle :: u32
  sampling_interval_ms :: double
  mon_filter :: "monitoring_filter option"
  queue_size :: u32
  discard_oldest :: bool

record item_create_request =
  item_to_monitor :: read_value_id
  index_range :: "bytes option"
  req_monitoring_mode :: u32
  requested_parameters :: monitoring_parameters

datatype item_create_result = ItemCreateResult (cr_status: status) (cr_item_id: u32)
  (cr_sampling_interval_ms: double) (cr_queue_size: u32)

datatype item_modify_result = ItemModifyResult (mr_status: status)
  (mr_sampling_interval_ms: double) (mr_queue_size: u32)

record subscription_parameters =
  publishing_interval_ms :: double
  lifetime_count :: u32
  max_keep_alive_count :: u32
  max_notifications_per_publish :: u32
  publishing_enabled :: bool
  priority :: byte

datatype modify_subscription_response = ModifySubscriptionResponse (ms_status: status)
  (ms_publishing_interval_ms: double) (ms_lifetime_count: u32) (ms_max_keep_alive_count: u32)

datatype notification_data =
  DataChangeNotification "(u32 \<times> data_value) list"
| EventNotificationList "(u32 \<times> variant list) list"
| StatusChangeNotification status_code

datatype item_notification =
  MonitoredItemNotification u32 data_value
| EventFieldList u32 "variant list"

fun notified_handle :: "item_notification \<Rightarrow> u32" where
  "notified_handle (MonitoredItemNotification h _) = h"
| "notified_handle (EventFieldList h _) = h"

datatype notification_message = NotificationMessage (sequence_number: u32)
  (publish_time: date_time) (notification_data: "notification_data list")

abbreviation empty_message :: notification_message where
  "empty_message \<equiv> NotificationMessage 0 0 []"

record publish_response =
  pr_status :: status
  pr_subscription_id :: u32
  pr_results :: "status_code list"
  more_notifications :: bool
  pr_message :: notification_message
  available_sequence_numbers :: "u32 list"

abbreviation publish_status :: "status_code \<Rightarrow> publish_response" where
  "publish_status c \<equiv> \<lparr>pr_status = status_of_code c, pr_subscription_id = 0, pr_results = [],
     more_notifications = False, pr_message = empty_message, available_sequence_numbers = []\<rparr>"

datatype republish_response =
  RepublishResponse (rp_status: status) (rp_message: notification_message)

section \<open>State\<close>

record item =
  monitored_item_id :: u32
  it_item_to_monitor :: read_value_id
  it_index_range :: "bytes option"
  monitoring_mode :: u32
  it_parameters :: monitoring_parameters
  monitored_item_status :: status_code
  backing_client_handle :: u32
  backing_item_id :: u32
  binding_requested :: bool
  last_reported_value :: "data_value option"
  object_identity :: nat

datatype backing_call =
  AddItems "nat option" u32 item_create_request
| RemoveItems u32
| CloseBacking status

datatype backing_state = NoBacking | Backing (backing_closed: bool)

record subscription =
  subscription_id :: u32
  sub_parameters :: subscription_parameters
  backing :: backing_state
  next_monitored_item_id :: u32
  next_backing_client_handle :: u32
  next_sequence_number :: u32
  initial_message_sent :: bool
  last_publish_time :: "date_time option"
  items :: "(u32 \<times> item) list"
  pending_notifications :: "(u32 \<times> notification_data) list"
  retransmit_queue :: "notification_message list"
  retained_notifications :: nat
  next_object :: nat
  create_calls :: nat
  backing_calls :: "backing_call list"

abbreviation kMaxRetransmitQueueNotifications :: nat where
  "kMaxRetransmitQueueNotifications \<equiv> 1024"
abbreviation kMaxNotificationsPerPublishResponse :: nat where
  "kMaxNotificationsPerPublishResponse \<equiv> 1000"
abbreviation kDefaultKeepAliveCount :: u32 where "kDefaultKeepAliveCount \<equiv> 3"

section \<open>Parameters and the publish cycle\<close>

definition IsAttributeEventNotifier :: "u32 \<Rightarrow> bool" where
  "IsAttributeEventNotifier a \<longleftrightarrow> a = AttributeId_EventNotifier"

definition IsSupportedMonitoredAttribute :: "u32 \<Rightarrow> bool" where
  "IsSupportedMonitoredAttribute a \<longleftrightarrow> a = AttributeId_Value \<or> IsAttributeEventNotifier a"

definition ReviseParameters :: "subscription_parameters \<Rightarrow> subscription_parameters" where
  "ReviseParameters p =
     (let p = (if max_keep_alive_count p = 0
               then p\<lparr>max_keep_alive_count := kDefaultKeepAliveCount\<rparr> else p);
          min_lifetime_count = 3 * max_keep_alive_count p
      in if lifetime_count p < min_lifetime_count
         then p\<lparr>lifetime_count := min_lifetime_count\<rparr> else p)"

definition ServerSubscription :: "u32 \<Rightarrow> subscription_parameters \<Rightarrow> date_time \<Rightarrow> subscription" where
  "ServerSubscription sid p start = \<lparr>subscription_id = sid, sub_parameters = ReviseParameters p,
     backing = NoBacking, next_monitored_item_id = 1, next_backing_client_handle = 1,
     next_sequence_number = 1, initial_message_sent = False, last_publish_time = Some start,
     items = [], pending_notifications = [], retransmit_queue = [], retained_notifications = 0,
     next_object = 0, create_calls = 0, backing_calls = []\<rparr>"

definition HasPendingNotifications :: "subscription \<Rightarrow> bool" where
  "HasPendingNotifications s \<longleftrightarrow> pending_notifications s \<noteq> []"

definition Modify :: "u32 \<Rightarrow> subscription_parameters \<Rightarrow> subscription
    \<Rightarrow> modify_subscription_response \<times> subscription" where
  "Modify sid p s =
     (if sid \<noteq> subscription_id s
      then (ModifySubscriptionResponse (status_of_code Bad_SubscriptionIdInvalid) 0 0 0, s)
      else let q = ReviseParameters p in
        (ModifySubscriptionResponse (status_of_code Good) (publishing_interval_ms q)
           (lifetime_count q) (max_keep_alive_count q), s\<lparr>sub_parameters := q\<rparr>))"

definition SetPublishingEnabled :: "bool \<Rightarrow> subscription \<Rightarrow> subscription" where
  "SetPublishingEnabled b s = s\<lparr>sub_parameters := (sub_parameters s)\<lparr>publishing_enabled := b\<rparr>\<rparr>"

definition wrap_int64 :: "int \<Rightarrow> int" where
  "wrap_int64 n = sint (word_of_int n :: u64)"

definition PublishingInterval :: "subscription \<Rightarrow> duration" where
  "PublishingInterval s = FromMilliseconds
     (max 1 (cast_int64 (f64_of_bits (publishing_interval_ms (sub_parameters s)))))"

text \<open>The product is an \<^verbatim>\<open>int64_t\<close>, whose overflow is taken to wrap.\<close>

definition KeepAliveInterval :: "subscription \<Rightarrow> duration" where
  "KeepAliveInterval s = FromMilliseconds (wrap_int64
     (InMilliseconds (PublishingInterval s) *
      max 1 (uint (max_keep_alive_count (sub_parameters s)))))"

definition IsPublishReady :: "date_time \<Rightarrow> subscription \<Rightarrow> bool" where
  "IsPublishReady now s = (case last_publish_time s of None \<Rightarrow> False
     | Some published \<Rightarrow> (let elapsed = time_minus now published; pend = pending_notifications s \<noteq> [];
           enabled = publishing_enabled (sub_parameters s) in
         if initial_message_sent s \<and> enabled \<and> pend then f64_le (PublishingInterval s) elapsed
         else if \<not> initial_message_sent s then f64_le (PublishingInterval s) elapsed
         else if \<not> enabled \<or> \<not> pend then f64_le (KeepAliveInterval s) elapsed
         else if pend then f64_le (PublishingInterval s) elapsed
         else f64_le (KeepAliveInterval s) elapsed))"

definition PrimePublishCycle :: "date_time \<Rightarrow> subscription \<Rightarrow> subscription" where
  "PrimePublishCycle now s =
     (if \<not> publishing_enabled (sub_parameters s) \<or> last_publish_time s \<noteq> None then s
      else s\<lparr>last_publish_time := Some now\<rparr>)"

definition NextPublishDeadline :: "subscription \<Rightarrow> date_time option" where
  "NextPublishDeadline s = (case last_publish_time s of None \<Rightarrow> None
     | Some published \<Rightarrow>
         if \<not> initial_message_sent s then Some (time_plus published (PublishingInterval s))
         else Some (time_plus published
           (if publishing_enabled (sub_parameters s) \<and> pending_notifications s \<noteq> []
            then PublishingInterval s else KeepAliveInterval s)))"

section \<open>Publishing, Republish and Acknowledge\<close>

definition AvailableSequenceNumbers :: "subscription \<Rightarrow> u32 list" where
  "AvailableSequenceNumbers s = map sequence_number (retransmit_queue s)"

text \<open>The eviction loop of \<open>TryPublish\<close>: the oldest messages go, the last one never.\<close>

fun evict :: "notification_message list \<Rightarrow> nat \<Rightarrow> notification_message list \<times> nat" where
  "evict (m # m' # q) n =
     (if kMaxRetransmitQueueNotifications < n
      then evict (m' # q) (n - length (notification_data m)) else (m # m' # q, n))"
| "evict q n = (q, n)"

definition publish_count :: "subscription \<Rightarrow> nat" where
  "publish_count s = (let limit = max_notifications_per_publish (sub_parameters s);
       requested = (if limit = 0 then length (pending_notifications s) else unat limit)
     in min (min requested kMaxNotificationsPerPublishResponse)
            (length (pending_notifications s)))"

definition publish_keep_alive :: "date_time \<Rightarrow> subscription \<Rightarrow> publish_response \<times> subscription" where
  "publish_keep_alive now s =
     (\<lparr>pr_status = status_of_code Good, pr_subscription_id = subscription_id s, pr_results = [],
       more_notifications = False, pr_message = NotificationMessage (next_sequence_number s) now [],
       available_sequence_numbers = AvailableSequenceNumbers s\<rparr>,
      s\<lparr>last_publish_time := Some now, initial_message_sent := True\<rparr>)"

definition publish_data :: "date_time \<Rightarrow> subscription \<Rightarrow> publish_response \<times> subscription" where
  "publish_data now s = (let k = publish_count s;
       message = NotificationMessage (next_sequence_number s) now
         (map snd (take k (pending_notifications s)));
       (q, n) = evict (retransmit_queue s @ [message])
         (retained_notifications s + length (notification_data message));
       s' = s\<lparr>pending_notifications := drop k (pending_notifications s),
              next_sequence_number := next_sequence_number s + 1,
              retransmit_queue := q, retained_notifications := n,
              last_publish_time := Some now, initial_message_sent := True\<rparr>
     in (\<lparr>pr_status = status_of_code Good, pr_subscription_id = subscription_id s,
          pr_results = [], more_notifications = pending_notifications s' \<noteq> [],
          pr_message = message, available_sequence_numbers = AvailableSequenceNumbers s'\<rparr>, s'))"

definition TryPublish :: "date_time \<Rightarrow> subscription \<Rightarrow> publish_response option \<times> subscription" where
  "TryPublish now s0 = (let s = PrimePublishCycle now s0 in
     if \<not> (publishing_enabled (sub_parameters s) \<and> pending_notifications s \<noteq> [])
     then (if \<not> IsPublishReady now s then (None, s)
           else let (r, s') = publish_keep_alive now s in (Some r, s'))
     else if \<not> IsPublishReady now s then (None, s)
     else let (r, s') = publish_data now s in (Some r, s'))"

definition Republish :: "u32 \<Rightarrow> subscription \<Rightarrow> republish_response" where
  "Republish n s = (case find (\<lambda>m. sequence_number m = n) (retransmit_queue s) of
       None \<Rightarrow> RepublishResponse (status_of_code Bad_MessageNotAvailable) empty_message
     | Some m \<Rightarrow> RepublishResponse (status_of_code Good) m)"

text \<open>Erasing the first message of a sequence number, as \<open>std::find_if\<close> finds it.\<close>

fun erase_message :: "u32 \<Rightarrow> notification_message list \<Rightarrow> notification_message list" where
  "erase_message n [] = []"
| "erase_message n (m # q) = (if sequence_number m = n then q else m # erase_message n q)"

definition Acknowledge1 :: "u32 \<Rightarrow> subscription \<Rightarrow> status_code \<times> subscription" where
  "Acknowledge1 n s = (case find (\<lambda>m. sequence_number m = n) (retransmit_queue s) of
       None \<Rightarrow> (Bad_SequenceNumberUnknown, s)
     | Some m \<Rightarrow> (Good, s\<lparr>retained_notifications :=
           retained_notifications s - length (notification_data m),
         retransmit_queue := erase_message n (retransmit_queue s)\<rparr>))"

fun Acknowledge :: "u32 list \<Rightarrow> subscription \<Rightarrow> status_code list \<times> subscription" where
  "Acknowledge [] s = ([], s)"
| "Acknowledge (n # ns) s = (let (c, s1) = Acknowledge1 n s; (cs, s2) = Acknowledge ns s1
     in (c # cs, s2))"

section \<open>The notification queue\<close>

definition source_indices :: "u32 \<Rightarrow> (u32 \<times> notification_data) list \<Rightarrow> nat list" where
  "source_indices k q = filter (\<lambda>i. fst (q ! i) = k) [0..<length q]"

definition erase_at :: "nat \<Rightarrow> 'a list \<Rightarrow> 'a list" where
  "erase_at i xs = take i xs @ drop (Suc i) xs"

definition EnforceQueueLimit :: "item \<Rightarrow> subscription \<Rightarrow> subscription" where
  "EnforceQueueLimit it s = (let limit = max 1 (unat (queue_size (it_parameters it)));
       indices = source_indices (monitored_item_id it) (pending_notifications s) in
     if length indices \<le> limit then s
     else if \<not> discard_oldest (it_parameters it)
       then s\<lparr>pending_notifications := erase_at (last indices) (pending_notifications s)\<rparr>
     else s\<lparr>pending_notifications := erase_at (hd indices) (pending_notifications s)\<rparr>)"

definition QueueNotification :: "item \<Rightarrow> notification_data \<Rightarrow> subscription \<Rightarrow> subscription" where
  "QueueNotification it d s = EnforceQueueLimit it
     (s\<lparr>pending_notifications := pending_notifications s @ [(monitored_item_id it, d)]\<rparr>)"

text \<open>
  \<open>Variant::get(Int64&)\<close> and \<open>Variant::get(Double&)\<close>; a \<^verbatim>\<open>Float\<close> is in neither switch.
\<close>

fun variant_get_int64 :: "variant \<Rightarrow> int option" where
  "variant_get_int64 (Scalar (BBool b)) = Some (if b then 1 else 0)"
| "variant_get_int64 (Scalar (BInt8 v)) = Some (sint v)"
| "variant_get_int64 (Scalar (BUInt8 v)) = Some (uint v)"
| "variant_get_int64 (Scalar (BInt16 v)) = Some (sint v)"
| "variant_get_int64 (Scalar (BUInt16 v)) = Some (uint v)"
| "variant_get_int64 (Scalar (BInt32 v)) = Some (sint v)"
| "variant_get_int64 (Scalar (BUInt32 v)) = Some (uint v)"
| "variant_get_int64 (Scalar (BInt64 v)) = Some (sint v)"
| "variant_get_int64 (Scalar (BUInt64 v)) = Some (sint v)"
| "variant_get_int64 (Scalar (BDouble v)) = Some (cast_int64 (f64_of_bits v))"
| "variant_get_int64 _ = None"

fun variant_get_double :: "variant \<Rightarrow> f64 option" where
  "variant_get_double (Scalar (BBool b)) = Some (Finite (if b then 1 else 0))"
| "variant_get_double (Scalar (BDouble v)) = Some (f64_of_bits v)"
| "variant_get_double v = map_option f64_of_int (variant_get_int64 v)"

definition PassesDeadband :: "item \<Rightarrow> data_value \<Rightarrow> bool" where
  "PassesDeadband it dv = (case mon_filter (it_parameters it) of
       Some (DataChangeFilter _ dt bits) \<Rightarrow>
         (if dt \<noteq> Absolute \<or> f64_le (f64_of_bits bits) (Finite 0) then True
          else case last_reported_value it of None \<Rightarrow> True
          | Some old \<Rightarrow>
             (if dv_status_code old \<noteq> dv_status_code dv then True
              else case (variant_get_double (dv_value old), variant_get_double (dv_value dv)) of
                (Some previous, Some current) \<Rightarrow>
                  f64_le (f64_of_bits bits) (f64_abs (f64_sub current previous))
              | _ \<Rightarrow> True))
     | _ \<Rightarrow> True)"

text \<open>Writing an item back under its id is the update of the object it stands for.\<close>

definition store_item :: "item \<Rightarrow> subscription \<Rightarrow> subscription" where
  "store_item it s = s\<lparr>items := AList.update (monitored_item_id it) it (items s)\<rparr>"

definition QueueDataChange :: "item \<Rightarrow> data_value \<Rightarrow> subscription \<Rightarrow> subscription" where
  "QueueDataChange it dv s =
     (if monitoring_mode it \<noteq> Reporting then s
      else if \<not> PassesDeadband it dv then s
      else QueueNotification it (DataChangeNotification [(client_handle (it_parameters it), dv)])
             (store_item (it\<lparr>last_reported_value := Some dv\<rparr>) s))"

definition QueueEventFields :: "item \<Rightarrow> variant list \<Rightarrow> subscription \<Rightarrow> subscription" where
  "QueueEventFields it event_fields s =
     (if monitoring_mode it \<noteq> Reporting then s
      else QueueNotification it
        (EventNotificationList [(client_handle (it_parameters it), event_fields)]) s)"

definition QueueItemStatus :: "date_time \<Rightarrow> item \<Rightarrow> status \<Rightarrow> subscription \<Rightarrow> subscription" where
  "QueueItemStatus now it st s =
     (if IsAttributeEventNotifier (rv_attribute_id (it_item_to_monitor it))
      then QueueNotification it (StatusChangeNotification (status_code st)) s
      else QueueDataChange it (DataValue null_variant 0 0 now (status_code st)) s)"

section \<open>The backing subscription\<close>

definition call_backing :: "backing_call \<Rightarrow> subscription \<Rightarrow> subscription" where
  "call_backing c s = s\<lparr>backing_calls := backing_calls s @ [c]\<rparr>"

text \<open>\<open>create n\<close> is the answer of the \<open>n\<close>-th call of \<open>create_subscription_\<close>: an error or none.\<close>

definition StartBackingSubscription :: "(nat \<Rightarrow> status option) \<Rightarrow> subscription
    \<Rightarrow> status \<times> subscription" where
  "StartBackingSubscription create s =
     (if backing s \<noteq> NoBacking then (status_of_code Good, s)
      else let s1 = s\<lparr>create_calls := create_calls s + 1\<rparr> in
        case create (create_calls s) of
          Some st \<Rightarrow> (st, s1)
        | None \<Rightarrow> (status_of_code Good, s1\<lparr>backing := Backing False\<rparr>))"

text \<open>
  The release of a backing item is recorded when it is asked for. The coroutine that makes the call
  drops it when the backing subscription was closed in between, which ends all its items.
\<close>

definition RemoveBackingItem :: "u32 \<Rightarrow> subscription \<Rightarrow> subscription" where
  "RemoveBackingItem k s =
     (if k = 0 \<or> backing s = NoBacking then s else call_backing (RemoveItems k) s)"

definition CloseBackingSubscription :: "status \<Rightarrow> subscription \<Rightarrow> subscription" where
  "CloseBackingSubscription st s = (case backing s of NoBacking \<Rightarrow> s
     | Backing is_closed \<Rightarrow> if is_closed then s
         else call_backing (CloseBacking st) (s\<lparr>backing := Backing True\<rparr>))"

definition destroy :: "subscription \<Rightarrow> subscription" where
  "destroy s = CloseBackingSubscription (status_of_code Bad_NoCommunication) s"

text \<open>What \<open>AddBackingItems\<close> and \<open>BindItem\<close> make of the answer of \<open>AddItems\<close>.\<close>

definition bind_answer :: "item_create_result list \<Rightarrow> subscription \<Rightarrow> item_create_result" where
  "bind_answer answers s = (case backing s of
       Backing False \<Rightarrow> (case answers of
           [] \<Rightarrow> ItemCreateResult (status_of_code Bad) 0 0 0 | r # _ \<Rightarrow> r)
     | _ \<Rightarrow> ItemCreateResult (status_of_code Bad_NoCommunication) 0 0 0)"

definition RebindItem :: "(nat \<Rightarrow> status option) \<Rightarrow> item \<Rightarrow> subscription
    \<Rightarrow> item \<times> subscription" where
  "RebindItem create it s =
     (if \<not> IsSupportedMonitoredAttribute (rv_attribute_id (it_item_to_monitor it))
      then (it\<lparr>monitored_item_status := Bad_AttributeIdInvalid\<rparr>, s)
      else let (st, s1) = StartBackingSubscription create s in
        if status_bad st then (it\<lparr>monitored_item_status := status_code st\<rparr>, s1)
        else let s2 = RemoveBackingItem (backing_item_id it) s1;
          h = next_backing_client_handle s2;
          it' = it\<lparr>binding_requested := True, backing_item_id := 0,
                   monitored_item_status := Good, backing_client_handle := h\<rparr>;
          weak_item = map_option object_identity (map_of (items s2) (monitored_item_id it));
          request = \<lparr>item_to_monitor = it_item_to_monitor it, index_range = it_index_range it,
            req_monitoring_mode = monitoring_mode it,
            requested_parameters = (it_parameters it)\<lparr>client_handle := h\<rparr>\<rparr>
        in (it', call_backing (AddItems weak_item h request)
                   (s2\<lparr>next_backing_client_handle := h + 1\<rparr>)))"

definition find_object :: "nat option \<Rightarrow> subscription \<Rightarrow> item option" where
  "find_object w s = (case w of None \<Rightarrow> None
     | Some k \<Rightarrow> find (\<lambda>it. object_identity it = k) (map snd (items s)))"

definition OnBindResult :: "date_time \<Rightarrow> nat option \<Rightarrow> u32 \<Rightarrow> item_create_result
    \<Rightarrow> subscription \<Rightarrow> subscription" where
  "OnBindResult now weak_item h r s =
     (let stale = (if \<not> status_bad (cr_status r) then RemoveBackingItem (cr_item_id r) s else s) in
      case find_object weak_item s of None \<Rightarrow> stale
      | Some it \<Rightarrow>
         if backing_client_handle it \<noteq> h then stale
         else let it1 = it\<lparr>monitored_item_status := status_code (cr_status r)\<rparr> in
           if status_bad (cr_status r)
           then QueueItemStatus now it1 (cr_status r) (store_item it1 s)
           else store_item (it1\<lparr>backing_item_id := cr_item_id r\<rparr>) s)"

definition OnNotification :: "item_notification \<Rightarrow> subscription \<Rightarrow> subscription" where
  "OnNotification n s =
     (case find (\<lambda>it. backing_client_handle it = notified_handle n) (map snd (items s)) of
       None \<Rightarrow> s
     | Some it \<Rightarrow> (case n of MonitoredItemNotification _ dv \<Rightarrow> QueueDataChange it dv s
         | EventFieldList _ event_fields \<Rightarrow> QueueEventFields it event_fields s))"

definition OnNotifications :: "item_notification list \<Rightarrow> subscription \<Rightarrow> subscription" where
  "OnNotifications ns s = fold OnNotification ns s"

definition OnSubscriptionError :: "date_time \<Rightarrow> status \<Rightarrow> subscription \<Rightarrow> subscription" where
  "OnSubscriptionError now st s = fold (\<lambda>it. QueueItemStatus now it st) (map snd (items s)) s"

text \<open>One round of \<open>ReadBackingSubscriptionLoop\<close>; the flag tells whether the loop goes on.\<close>

definition ReadBackingSubscription :: "date_time \<Rightarrow> status + item_notification list
    \<Rightarrow> subscription \<Rightarrow> bool \<times> subscription" where
  "ReadBackingSubscription now answer s = (case backing s of
       Backing False \<Rightarrow> (case answer of
           Inl st \<Rightarrow> (False, OnSubscriptionError now st s)
         | Inr ns \<Rightarrow> (True, OnNotifications ns s))
     | _ \<Rightarrow> (False, s))"

section \<open>Monitored items\<close>

definition new_item :: "item_create_request \<Rightarrow> subscription \<Rightarrow> item" where
  "new_item r s = \<lparr>monitored_item_id = next_monitored_item_id s,
     it_item_to_monitor = item_to_monitor r, it_index_range = index_range r,
     monitoring_mode = req_monitoring_mode r, it_parameters = requested_parameters r,
     monitored_item_status = Bad, backing_client_handle = 0, backing_item_id = 0,
     binding_requested = False, last_reported_value = None, object_identity = next_object s\<rparr>"

definition take_item_id :: "subscription \<Rightarrow> subscription" where
  "take_item_id s = s\<lparr>next_monitored_item_id := next_monitored_item_id s + 1,
     next_object := next_object s + 1\<rparr>"

text \<open>\<open>emplace\<close> keeps an entry that is already there; \<open>RebindItem\<close> then works on an item outside the map.\<close>

definition CreateMonitoredItem :: "(nat \<Rightarrow> status option) \<Rightarrow> item_create_request \<Rightarrow> subscription
    \<Rightarrow> item_create_result \<times> subscription" where
  "CreateMonitoredItem create r s =
     (let it = new_item r s; k = monitored_item_id it;
          fresh = (map_of (items s) k = None); s1 = take_item_id s;
          (it', s2) = RebindItem create it (if fresh then store_item it s1 else s1);
          s3 = (if fresh then store_item it' s2 else s2);
          ok = (monitored_item_status it' = Good)
      in (ItemCreateResult (status_of_code (monitored_item_status it')) (if ok then k else 0)
            (sampling_interval_ms (it_parameters it'))
            (max 1 (queue_size (it_parameters it'))),
          if ok then s3 else s3\<lparr>items := AList.delete k (items s3)\<rparr>))"

fun CreateItems :: "(nat \<Rightarrow> status option) \<Rightarrow> item_create_request list \<Rightarrow> subscription
    \<Rightarrow> item_create_result list \<times> subscription" where
  "CreateItems create [] s = ([], s)"
| "CreateItems create (r # rs) s = (let (x, s1) = CreateMonitoredItem create r s;
     (xs, s2) = CreateItems create rs s1 in (x # xs, s2))"

definition CreateMonitoredItems :: "(nat \<Rightarrow> status option) \<Rightarrow> u32 \<Rightarrow> item_create_request list
    \<Rightarrow> subscription \<Rightarrow> (status \<times> item_create_result list) \<times> subscription" where
  "CreateMonitoredItems create sid rs s =
     (if sid \<noteq> subscription_id s then ((status_of_code Bad_SubscriptionIdInvalid, []), s)
      else let (xs, s') = CreateItems create rs s in ((status_of_code Good, xs), s'))"

definition ModifyMonitoredItem :: "(nat \<Rightarrow> status option) \<Rightarrow> u32 \<times> monitoring_parameters
    \<Rightarrow> subscription \<Rightarrow> item_modify_result \<times> subscription" where
  "ModifyMonitoredItem create r s = (case map_of (items s) (fst r) of
       None \<Rightarrow> (ItemModifyResult (status_of_code Bad_MonitoredItemIdInvalid) 0 0, s)
     | Some it \<Rightarrow> (let it1 = it\<lparr>it_parameters := snd r\<rparr>;
           (it', s1) = RebindItem create it1 (store_item it1 s)
         in (ItemModifyResult (status_of_code (monitored_item_status it'))
               (sampling_interval_ms (it_parameters it'))
               (max 1 (queue_size (it_parameters it'))), store_item it' s1)))"

fun ModifyItems :: "(nat \<Rightarrow> status option) \<Rightarrow> (u32 \<times> monitoring_parameters) list \<Rightarrow> subscription
    \<Rightarrow> item_modify_result list \<times> subscription" where
  "ModifyItems create [] s = ([], s)"
| "ModifyItems create (r # rs) s = (let (x, s1) = ModifyMonitoredItem create r s;
     (xs, s2) = ModifyItems create rs s1 in (x # xs, s2))"

definition ModifyMonitoredItems :: "(nat \<Rightarrow> status option) \<Rightarrow> u32
    \<Rightarrow> (u32 \<times> monitoring_parameters) list \<Rightarrow> subscription
    \<Rightarrow> (status \<times> item_modify_result list) \<times> subscription" where
  "ModifyMonitoredItems create sid rs s =
     (if sid \<noteq> subscription_id s then ((status_of_code Bad_SubscriptionIdInvalid, []), s)
      else let (xs, s') = ModifyItems create rs s in ((status_of_code Good, xs), s'))"

fun DeleteItems :: "u32 list \<Rightarrow> subscription \<Rightarrow> status list \<times> subscription" where
  "DeleteItems [] s = ([], s)"
| "DeleteItems (k # ks) s = (case map_of (items s) k of
       None \<Rightarrow> (let (xs, s') = DeleteItems ks s
                in (status_of_code Bad_MonitoredItemIdInvalid # xs, s'))
     | Some it \<Rightarrow> (let s1 = RemoveBackingItem (backing_item_id it) s;
           (xs, s') = DeleteItems ks (s1\<lparr>items := AList.delete k (items s1)\<rparr>)
         in (status_of_code Good # xs, s')))"

definition DeleteMonitoredItems :: "u32 \<Rightarrow> u32 list \<Rightarrow> subscription
    \<Rightarrow> (status \<times> status list) \<times> subscription" where
  "DeleteMonitoredItems sid ks s =
     (if sid \<noteq> subscription_id s then ((status_of_code Bad_SubscriptionIdInvalid, []), s)
      else let (xs, s') = DeleteItems ks s in
        ((status_of_code Good, xs), s'\<lparr>pending_notifications :=
           filter (\<lambda>q. fst q \<notin> set ks) (pending_notifications s')\<rparr>))"

fun SetModes :: "u32 \<Rightarrow> u32 list \<Rightarrow> subscription \<Rightarrow> status list \<times> subscription" where
  "SetModes mode [] s = ([], s)"
| "SetModes mode (k # ks) s = (case map_of (items s) k of
       None \<Rightarrow> (let (xs, s') = SetModes mode ks s
                in (status_of_code Bad_MonitoredItemIdInvalid # xs, s'))
     | Some it \<Rightarrow> (let (xs, s') = SetModes mode ks
           (s\<lparr>items := AList.update k (it\<lparr>monitoring_mode := mode\<rparr>) (items s)\<rparr>)
         in (status_of_code Good # xs, s')))"

definition SetMonitoringMode :: "u32 \<Rightarrow> u32 \<Rightarrow> u32 list \<Rightarrow> subscription
    \<Rightarrow> (status \<times> status list) \<times> subscription" where
  "SetMonitoringMode sid mode ks s =
     (if sid \<noteq> subscription_id s then ((status_of_code Bad_SubscriptionIdInvalid, []), s)
      else let (xs, s') = SetModes mode ks s in ((status_of_code Good, xs), s'))"

section \<open>Facts about the parameters\<close>

lemma revised_keep_alive_pos: "max_keep_alive_count (ReviseParameters p) \<noteq> 0"
  by (simp add: ReviseParameters_def Let_def)

lemma revised_keep_alive:
  "max_keep_alive_count (ReviseParameters p) =
     (if max_keep_alive_count p = 0 then kDefaultKeepAliveCount else max_keep_alive_count p)"
  by (simp add: ReviseParameters_def Let_def)

lemma revised_lifetime:
  "lifetime_count (ReviseParameters p) =
     max (lifetime_count p) (3 * max_keep_alive_count (ReviseParameters p))"
  by (auto simp: ReviseParameters_def Let_def max_def)

lemma unat_triple:
  fixes c :: u32 assumes "unat c \<le> 1431655765" shows "unat (3 * c) = 3 * unat c"
proof -
  have "3 * unat c < 2 ^ LENGTH(32)" using assms by simp
  moreover have "unat (3 * c) = (3 * unat c) mod 2 ^ LENGTH(32)"
    by (simp add: unat_word_ariths)
  ultimately show ?thesis by simp
qed

section \<open>Facts about the notification queue\<close>

abbreviation of_item :: "u32 \<Rightarrow> (u32 \<times> notification_data) list \<Rightarrow> (u32 \<times> notification_data) list" where
  "of_item k q \<equiv> filter (\<lambda>n. fst n = k) q"

abbreviation not_of_item :: "u32 \<Rightarrow> (u32 \<times> notification_data) list
    \<Rightarrow> (u32 \<times> notification_data) list" where
  "not_of_item k q \<equiv> filter (\<lambda>n. fst n \<noteq> k) q"

lemma source_indices_Nil [simp]: "source_indices k [] = []"
  by (simp add: source_indices_def)

lemma source_indices_snoc:
  "source_indices k (q @ [n]) = source_indices k q @ (if fst n = k then [length q] else [])"
proof -
  have "filter (\<lambda>i. fst ((q @ [n]) ! i) = k) [0..<length q] =
        filter (\<lambda>i. fst (q ! i) = k) [0..<length q]"
    by (rule filter_cong) (auto simp: nth_append)
  then show ?thesis by (simp add: source_indices_def)
qed

lemma length_source_indices: "length (source_indices k q) = length (of_item k q)"
  by (induction q rule: rev_induct) (auto simp: source_indices_snoc)

lemma source_indices_bound: "i \<in> set (source_indices k q) \<Longrightarrow> i < length q \<and> fst (q ! i) = k"
  by (auto simp: source_indices_def)

text \<open>Erasing the first index of an item erases its oldest notification and nothing else.\<close>

lemma erase_first_source:
  assumes "of_item k q \<noteq> []"
  shows "of_item k (erase_at (hd (source_indices k q)) q) = tl (of_item k q)
       \<and> not_of_item k (erase_at (hd (source_indices k q)) q) = not_of_item k q"
  using assms
proof (induction q rule: rev_induct)
  case (snoc n q)
  show ?case
  proof (cases "of_item k q = []")
    case True
    then have "source_indices k q = []"
      using length_source_indices [of k q] by simp
    moreover have "fst n = k" using snoc.prems True by (simp split: if_splits)
    ultimately show ?thesis using True
      by (simp add: source_indices_snoc erase_at_def)
  next
    case False
    then have ne: "source_indices k q \<noteq> []"
      using length_source_indices [of k q] by auto
    have lt: "hd (source_indices k q) < length q"
      using source_indices_bound [OF hd_in_set [OF ne]] by simp
    have e: "erase_at (hd (source_indices k (q @ [n]))) (q @ [n]) =
          erase_at (hd (source_indices k q)) q @ [n]"
      using ne lt by (simp add: source_indices_snoc erase_at_def)
    show ?thesis unfolding e using snoc.IH [OF False] False by (simp add: tl_append split: list.split)
  qed
qed simp

lemma erase_last_source:
  assumes "of_item k q \<noteq> []"
  shows "of_item k (erase_at (last (source_indices k q)) q) = butlast (of_item k q)
       \<and> not_of_item k (erase_at (last (source_indices k q)) q) = not_of_item k q"
  using assms
proof (induction q rule: rev_induct)
  case (snoc n q)
  show ?case
  proof (cases "fst n = k")
    case True
    then show ?thesis by (simp add: source_indices_snoc erase_at_def)
  next
    case False
    then have ne: "source_indices k q \<noteq> []" and q: "of_item k q \<noteq> []"
      using snoc.prems length_source_indices [of k q] by auto
    have lt: "last (source_indices k q) < length q"
      using source_indices_bound [OF last_in_set [OF ne]] by simp
    have e: "erase_at (last (source_indices k (q @ [n]))) (q @ [n]) =
          erase_at (last (source_indices k q)) q @ [n]"
      using False lt by (simp add: source_indices_snoc erase_at_def)
    show ?thesis unfolding e using snoc.IH [OF q] False by simp
  qed
qed simp

text \<open>
  The bounded queue an item sees: append, and when it is over its limit drop the oldest
  entry or, if \<open>discard_oldest\<close> is off, the entry just appended.
\<close>

definition bounded_append :: "item \<Rightarrow> (u32 \<times> notification_data) list \<Rightarrow> notification_data
    \<Rightarrow> (u32 \<times> notification_data) list" where
  "bounded_append it q d = (let q' = q @ [(monitored_item_id it, d)] in
     if length q' \<le> max 1 (unat (queue_size (it_parameters it))) then q'
     else if discard_oldest (it_parameters it) then tl q' else q)"

lemma queue_notification_other_fields [simp]:
  "retransmit_queue (QueueNotification it d s) = retransmit_queue s"
  "retained_notifications (QueueNotification it d s) = retained_notifications s"
  "next_sequence_number (QueueNotification it d s) = next_sequence_number s"
  "items (QueueNotification it d s) = items s"
  "backing (QueueNotification it d s) = backing s"
  "backing_calls (QueueNotification it d s) = backing_calls s"
  "next_object (QueueNotification it d s) = next_object s"
  "next_monitored_item_id (QueueNotification it d s) = next_monitored_item_id s"
  "next_backing_client_handle (QueueNotification it d s) = next_backing_client_handle s"
  "subscription_id (QueueNotification it d s) = subscription_id s"
  by (simp_all add: QueueNotification_def EnforceQueueLimit_def Let_def)

lemma queue_notification_queue:
  fixes it s d
  defines "k \<equiv> monitored_item_id it" and "q \<equiv> pending_notifications s"
    and "q' \<equiv> pending_notifications (QueueNotification it d s)"
  shows "of_item k q' = bounded_append it (of_item k q) d \<and> not_of_item k q' = not_of_item k q"
proof -
  let ?r = "q @ [(k, d)]"
  have r: "of_item k ?r = of_item k q @ [(k, d)]" "not_of_item k ?r = not_of_item k q" by simp_all
  have ne: "of_item k ?r \<noteq> []" by simp
  have len: "length (source_indices k ?r) = length (of_item k q @ [(k, d)])"
    by (simp only: length_source_indices r)
  show ?thesis
    using erase_first_source [OF ne] erase_last_source [OF ne]
    by (simp add: q'_def QueueNotification_def EnforceQueueLimit_def Let_def bounded_append_def
        len r del: filter_append flip: k_def q_def)
qed

section \<open>Facts about the retransmission queue\<close>

definition total_retained :: "notification_message list \<Rightarrow> nat" where
  "total_retained q = sum_list (map (\<lambda>m. length (notification_data m)) q)"

lemma total_retained_simps [simp]:
  "total_retained [] = 0"
  "total_retained (m # q) = length (notification_data m) + total_retained q"
  "total_retained (q @ r) = total_retained q + total_retained r"
  by (simp_all add: total_retained_def)

lemma evict_total:
  assumes "evict q (total_retained q) = (q', n)" shows "n = total_retained q'"
  using assms by (induction q "total_retained q" rule: evict.induct) (auto split: if_split_asm)

lemma evict_suffix:
  assumes "evict q n = (q', n')" shows "\<exists>p. q = p @ q'"
  using assms
proof (induction q n rule: evict.induct)
  case (1 m m' q n)
  then show ?case
    by (cases "kMaxRetransmitQueueNotifications < n") (auto intro: exI [of _ "m # p" for p])
qed auto

lemma evict_keeps_last:
  assumes "evict (q @ [m]) n = (q', n')" shows "\<exists>r. q' = r @ [m]"
proof -
  have ne: "evict q n = (q', n') \<Longrightarrow> q \<noteq> [] \<Longrightarrow> q' \<noteq> []" for q n q' n'
    by (induction q n rule: evict.induct) (auto split: if_split_asm)
  obtain p where p: "q @ [m] = p @ q'" using evict_suffix [OF assms] by blast
  have "q' \<noteq> []" using ne [OF assms] by simp
  then show ?thesis using p by (metis append_butlast_last_id last_appendR last_snoc)
qed

lemma evict_bound:
  assumes "evict q (total_retained q) = (q', n)"
    and "\<forall>m\<in>set q. length (notification_data m) \<le> kMaxRetransmitQueueNotifications"
  shows "n \<le> kMaxRetransmitQueueNotifications"
  using assms by (induction q "total_retained q" rule: evict.induct) (auto split: if_split_asm)

lemma evict_fits:
  assumes "n \<le> kMaxRetransmitQueueNotifications" shows "evict q n = (q, n)"
  using assms by (cases "(q, n)" rule: evict.cases) auto

text \<open>Everything held is counted, the count is bounded, and no held message is empty.\<close>

definition retransmit_inv :: "subscription \<Rightarrow> bool" where
  "retransmit_inv s \<longleftrightarrow>
     retained_notifications s = total_retained (retransmit_queue s) \<and>
     retained_notifications s \<le> kMaxRetransmitQueueNotifications \<and>
     (\<forall>m\<in>set (retransmit_queue s). notification_data m \<noteq> [] \<and>
        length (notification_data m) \<le> kMaxNotificationsPerPublishResponse)"

lemma retransmit_inv_cong:
  assumes "retransmit_queue s' = retransmit_queue s"
    and "retained_notifications s' = retained_notifications s"
  shows "retransmit_inv s' = retransmit_inv s"
  using assms by (simp add: retransmit_inv_def)

lemma publish_count_le:
  "publish_count s \<le> length (pending_notifications s)"
  "publish_count s \<le> kMaxNotificationsPerPublishResponse"
  by (simp_all add: publish_count_def Let_def)

lemma publish_count_pos: "pending_notifications s \<noteq> [] \<Longrightarrow> 0 < publish_count s"
  by (simp add: publish_count_def Let_def unat_gt_0)

lemma publish_data_inv:
  assumes "retransmit_inv s" "pending_notifications s \<noteq> []"
  shows "retransmit_inv (snd (publish_data now s))"
proof -
  let ?k = "publish_count s"
  let ?m = "NotificationMessage (next_sequence_number s) now (map snd (take ?k (pending_notifications s)))"
  obtain q n where e: "evict (retransmit_queue s @ [?m])
      (total_retained (retransmit_queue s @ [?m])) = (q, n)" by force
  have len: "length (notification_data ?m) = ?k" using publish_count_le [of s] by simp
  have ok: "\<forall>m\<in>set (retransmit_queue s @ [?m]). notification_data m \<noteq> [] \<and>
      length (notification_data m) \<le> kMaxNotificationsPerPublishResponse"
    using assms publish_count_le [of s] publish_count_pos [OF assms(2)]
    by (auto simp: retransmit_inv_def)
  have n: "n \<le> kMaxRetransmitQueueNotifications"
    by (rule evict_bound [OF e]) (use ok in force)
  have sub: "set q \<subseteq> set (retransmit_queue s @ [?m])"
    using evict_suffix [OF e] by (metis Un_upper2 set_append)
  have "retained_notifications s + length (notification_data ?m) =
      total_retained (retransmit_queue s @ [?m])"
    using assms(1) by (simp add: retransmit_inv_def)
  then have s': "retransmit_queue (snd (publish_data now s)) = q"
      "retained_notifications (snd (publish_data now s)) = n"
    by (simp_all only: publish_data_def Let_def e prod.case) simp_all
  show ?thesis unfolding retransmit_inv_def s'
    using evict_total [OF e] n ok sub by blast
qed

lemma publish_data_newest:
  "\<exists>r. retransmit_queue (snd (publish_data now s)) = r @ [pr_message (fst (publish_data now s))]"
proof -
  let ?m = "NotificationMessage (next_sequence_number s) now
    (map snd (take (publish_count s) (pending_notifications s)))"
  obtain q n where e: "evict (retransmit_queue s @ [?m])
      (retained_notifications s + length (notification_data ?m)) = (q, n)" by force
  then show ?thesis using evict_keeps_last [OF e]
    by (simp only: publish_data_def Let_def e prod.case) simp
qed

lemma publish_data_suffix:
  "\<exists>p. retransmit_queue s @ [pr_message (fst (publish_data now s))] =
        p @ retransmit_queue (snd (publish_data now s))"
proof -
  let ?m = "NotificationMessage (next_sequence_number s) now
    (map snd (take (publish_count s) (pending_notifications s)))"
  obtain q n where e: "evict (retransmit_queue s @ [?m])
      (retained_notifications s + length (notification_data ?m)) = (q, n)" by force
  then show ?thesis using evict_suffix [OF e]
    by (simp only: publish_data_def Let_def e prod.case) simp
qed

lemma publish_keep_alive_simps [simp]:
  "retransmit_queue (snd (publish_keep_alive now s)) = retransmit_queue s"
  "retained_notifications (snd (publish_keep_alive now s)) = retained_notifications s"
  "pending_notifications (snd (publish_keep_alive now s)) = pending_notifications s"
  "next_sequence_number (snd (publish_keep_alive now s)) = next_sequence_number s"
  by (simp_all add: publish_keep_alive_def)

lemma prime_simps [simp]:
  "retransmit_queue (PrimePublishCycle now s) = retransmit_queue s"
  "retained_notifications (PrimePublishCycle now s) = retained_notifications s"
  "pending_notifications (PrimePublishCycle now s) = pending_notifications s"
  "next_sequence_number (PrimePublishCycle now s) = next_sequence_number s"
  "sub_parameters (PrimePublishCycle now s) = sub_parameters s"
  "subscription_id (PrimePublishCycle now s) = subscription_id s"
  by (simp_all add: PrimePublishCycle_def)

lemma ready_primed: "IsPublishReady now s \<Longrightarrow> PrimePublishCycle now s = s"
  by (auto simp: IsPublishReady_def PrimePublishCycle_def split: option.splits)

text \<open>What \<open>TryPublish\<close> does to a ready subscription, and to one that is not.\<close>

lemma try_publish_ready:
  assumes "IsPublishReady now s"
  shows "TryPublish now s =
    (if publishing_enabled (sub_parameters s) \<and> pending_notifications s \<noteq> []
     then (Some (fst (publish_data now s)), snd (publish_data now s))
     else (Some (fst (publish_keep_alive now s)), snd (publish_keep_alive now s)))"
  using assms by (simp add: TryPublish_def Let_def ready_primed split_beta)

lemma try_publish_cases:
  "TryPublish now s = (None, PrimePublishCycle now s) \<or>
   (let s1 = PrimePublishCycle now s in
      publishing_enabled (sub_parameters s1) \<and> pending_notifications s1 \<noteq> [] \<and>
      TryPublish now s = (Some (fst (publish_data now s1)), snd (publish_data now s1))) \<or>
   (let s1 = PrimePublishCycle now s in
      TryPublish now s = (Some (fst (publish_keep_alive now s1)), snd (publish_keep_alive now s1)))"
  by (simp add: TryPublish_def Let_def split_beta)

lemma retransmit_inv_prime [simp]: "retransmit_inv (PrimePublishCycle now s) = retransmit_inv s"
  by (rule retransmit_inv_cong) simp_all

lemma retransmit_inv_keep_alive [simp]:
  "retransmit_inv (snd (publish_keep_alive now s)) = retransmit_inv s"
  by (rule retransmit_inv_cong) simp_all

lemma try_publish_inv:
  assumes "retransmit_inv s" shows "retransmit_inv (snd (TryPublish now s))"
  using try_publish_cases [of now s] assms publish_data_inv [of "PrimePublishCycle now s" now]
  by (auto simp: Let_def)

lemma find_message_total:
  assumes "find (\<lambda>m. sequence_number m = n) q = Some m"
  shows "total_retained (erase_message n q) = total_retained q - length (notification_data m)
       \<and> length (notification_data m) \<le> total_retained q"
  using assms by (induction q) (auto split: if_split_asm)

lemma set_erase_message: "set (erase_message n q) \<subseteq> set q"
  by (induction q) auto

lemma acknowledge1_inv:
  assumes "retransmit_inv s" shows "retransmit_inv (snd (Acknowledge1 n s))"
proof (cases "find (\<lambda>m. sequence_number m = n) (retransmit_queue s)")
  case (Some m)
  then show ?thesis
    using assms find_message_total [OF Some] set_erase_message [of n "retransmit_queue s"]
    by (auto simp: Acknowledge1_def retransmit_inv_def)
qed (use assms in \<open>simp add: Acknowledge1_def\<close>)

lemma acknowledge_inv: "retransmit_inv s \<Longrightarrow> retransmit_inv (snd (Acknowledge ns s))"
  by (induction ns arbitrary: s) (auto simp: Let_def split_beta intro: acknowledge1_inv)

section \<open>Bindings on the backing subscription\<close>

text \<open>
  What the backing subscription holds for the items: an item id with the handle of its
  last bind and the backing item id it holds (0 when it holds none). All the other
  fields of an item are of no concern to it.
\<close>

definition item_view :: "item \<Rightarrow> u32 \<times> u32 \<times> u32" where
  "item_view it = (monitored_item_id it, backing_client_handle it, backing_item_id it)"

definition view :: "subscription \<Rightarrow> (u32 \<times> u32 \<times> u32 \<times> u32) list" where
  "view s = map (\<lambda>(k, it). (k, item_view it)) (items s)"

fun add_handle :: "backing_call \<Rightarrow> u32 list" where
  "add_handle (AddItems _ h _) = [h]" | "add_handle _ = []"

definition add_handles :: "backing_call list \<Rightarrow> u32 list" where
  "add_handles cs = concat (map add_handle cs)"

lemma add_handles_simps [simp]:
  "add_handles [] = []" "add_handles (c # cs) = add_handle c @ add_handles cs"
  "add_handles (cs @ ds) = add_handles cs @ add_handles ds"
  by (simp_all add: add_handles_def)

lemma view_update [simp]:
  "map (\<lambda>(k, it). (k, item_view it)) (AList.update k it xs) =
   AList.update k (item_view it) (map (\<lambda>(k, it). (k, item_view it)) xs)"
  by (induction xs) auto

lemma view_delete [simp]:
  "map (\<lambda>(k, it). (k, item_view it)) (AList.delete k xs) =
   AList.delete k (map (\<lambda>(k, it). (k, item_view it)) xs)"
  by (induction xs) (auto simp: AList.delete_eq)

lemma view_items [simp]:
  "view (s\<lparr>items := AList.update k it (items s)\<rparr>) = AList.update k (item_view it) (view s)"
  "view (s\<lparr>items := AList.delete k (items s)\<rparr>) = AList.delete k (view s)"
  by (simp_all add: view_def)

lemma view_map_of: "map_of (view s) k = map_option item_view (map_of (items s) k)"
  by (simp add: view_def map_of_map)

lemma update_same: "map_of xs k = Some v \<Longrightarrow> AList.update k v xs = xs"
  by (induction xs) auto

definition frame :: "subscription \<Rightarrow> _" where
  "frame s = (view s, backing s, backing_calls s, next_object s, next_monitored_item_id s,
     next_backing_client_handle s)"

lemma view_store_item [simp]:
  "view (store_item it s) = AList.update (monitored_item_id it) (item_view it) (view s)"
  by (simp add: view_def store_item_def)

lemma store_item_simps [simp]:
  "backing (store_item it s) = backing s" "backing_calls (store_item it s) = backing_calls s"
  "next_object (store_item it s) = next_object s"
  "next_monitored_item_id (store_item it s) = next_monitored_item_id s"
  "next_backing_client_handle (store_item it s) = next_backing_client_handle s"
  "retransmit_queue (store_item it s) = retransmit_queue s"
  "retained_notifications (store_item it s) = retained_notifications s"
  "subscription_id (store_item it s) = subscription_id s"
  by (simp_all add: store_item_def)

lemma frame_store_item:
  assumes "map_of (view s) (monitored_item_id it) = Some (item_view it)"
  shows "frame (store_item it s) = frame s"
  using assms by (simp add: frame_def update_same)

lemma frame_queue_notification [simp]: "frame (QueueNotification it d s) = frame s"
  by (simp add: frame_def view_def)

lemma item_view_simps [simp]:
  "item_view (it\<lparr>last_reported_value := v\<rparr>) = item_view it"
  "item_view (it\<lparr>monitored_item_status := c\<rparr>) = item_view it"
  "item_view (it\<lparr>monitoring_mode := n\<rparr>) = item_view it"
  "item_view (it\<lparr>it_parameters := q\<rparr>) = item_view it"
  by (simp_all add: item_view_def)

lemma frame_queue_data_change:
  assumes "map_of (view s) (monitored_item_id it) = Some (item_view it)"
  shows "frame (QueueDataChange it dv s) = frame s"
  using frame_store_item [of s "it\<lparr>last_reported_value := Some dv\<rparr>"] assms
  by (simp add: QueueDataChange_def)

lemma frame_queue_item_status:
  assumes "map_of (view s) (monitored_item_id it) = Some (item_view it)"
  shows "frame (QueueItemStatus now it st s) = frame s"
  using frame_queue_data_change [OF assms] by (simp add: QueueItemStatus_def)

lemma frame_queue_event_fields [simp]: "frame (QueueEventFields it event_fields s) = frame s"
  by (simp add: QueueEventFields_def)

text \<open>The keys of the item map are the ids of its items, each once.\<close>

definition keyed :: "(u32 \<times> u32 \<times> u32 \<times> u32) list \<Rightarrow> bool" where
  "keyed vs \<longleftrightarrow> distinct (map fst vs) \<and> (\<forall>(k, i, h, b)\<in>set vs. i = k)"

lemma keyed_lookup:
  assumes "keyed (view s)" "it \<in> set (map snd (items s))"
  shows "map_of (view s) (monitored_item_id it) = Some (item_view it)"
proof -
  obtain k where k: "(k, it) \<in> set (items s)" using assms(2) by auto
  then have v: "(k, item_view it) \<in> set (view s)" by (force simp: view_def)
  have "monitored_item_id it = k" using assms(1) v
    by (auto simp: keyed_def item_view_def)
  then show ?thesis using assms(1) v by (simp add: keyed_def)
qed

lemma find_in_set: "find P xs = Some x \<Longrightarrow> x \<in> set xs \<and> P x"
  by (induction xs) (auto split: if_split_asm)

lemma frame_on_notification:
  assumes "keyed (view s)" shows "frame (OnNotification n s) = frame s"
proof (cases "find (\<lambda>it. backing_client_handle it = notified_handle n) (map snd (items s))")
  case (Some it)
  then have "map_of (view s) (monitored_item_id it) = Some (item_view it)"
    using keyed_lookup [OF assms] find_in_set [OF Some] by blast
  then show ?thesis using Some
    by (simp add: OnNotification_def frame_queue_data_change split: item_notification.split)
qed (simp add: OnNotification_def)

lemma view_frame: "frame s' = frame s \<Longrightarrow> view s' = view s"
  by (simp add: frame_def)

lemma frame_fold:
  assumes "\<And>x t. x \<in> set xs \<Longrightarrow> view t = view s \<Longrightarrow> frame (f x t) = frame t"
    and "view t = view s"
  shows "frame (fold f xs t) = frame t"
  using assms
proof (induction xs arbitrary: t)
  case (Cons x xs)
  have 1: "frame (f x t) = frame t" by (rule Cons.prems) (use Cons.prems(2) in simp_all)
  have "frame (fold f xs (f x t)) = frame (f x t)"
    by (rule Cons.IH) (use Cons.prems view_frame [OF 1] in simp_all)
  then show ?case using 1 by simp
qed simp

lemma frame_on_notifications:
  assumes "keyed (view s)" shows "frame (OnNotifications ns s) = frame s"
  unfolding OnNotifications_def
  by (rule frame_fold [where s = s]) (simp_all add: assms frame_on_notification)

lemma frame_on_subscription_error:
  assumes "keyed (view s)" shows "frame (OnSubscriptionError now st s) = frame s"
  unfolding OnSubscriptionError_def
  by (rule frame_fold [where s = s])
     (simp_all add: frame_queue_item_status keyed_lookup [OF assms, simplified])

lemma frame_read:
  assumes "keyed (view s)"
  shows "frame (snd (ReadBackingSubscription now answer s)) = frame s"
  using frame_on_notifications [OF assms] frame_on_subscription_error [OF assms]
  by (auto simp: ReadBackingSubscription_def split: backing_state.split bool.split sum.split)

lemma frame_publish [simp]: "frame (snd (TryPublish now s)) = frame s"
  by (simp add: frame_def view_def TryPublish_def publish_keep_alive_def publish_data_def
      PrimePublishCycle_def Let_def split_beta)

lemma frame_acknowledge1 [simp]: "frame (snd (Acknowledge1 n s)) = frame s"
  by (simp add: Acknowledge1_def frame_def view_def split: option.split)

lemma frame_acknowledge [simp]: "frame (snd (Acknowledge ns s)) = frame s"
  by (induction ns arbitrary: s) (simp_all add: Let_def split_beta)

lemma frame_simple [simp]:
  "frame (PrimePublishCycle now s) = frame s"
  "frame (snd (Modify sid p s)) = frame s"
  "frame (SetPublishingEnabled b s) = frame s"
  by (simp_all add: frame_def view_def PrimePublishCycle_def Modify_def SetPublishingEnabled_def
      Let_def)

lemma frame_set_modes [simp]: "frame (snd (SetModes mode ks s)) = frame s"
proof (induction ks arbitrary: s)
  case (Cons k ks)
  have "map_of (items s) k = Some it \<Longrightarrow>
      frame (s\<lparr>items := AList.update k (it\<lparr>monitoring_mode := mode\<rparr>) (items s)\<rparr>) = frame s" for it
    using view_map_of [of s k] by (simp add: frame_def update_same)
  then show ?case using Cons.IH by (simp add: Let_def split_beta split: option.split)
qed simp

text \<open>
  The invariant of the bindings. \<open>A\<close> are the handles whose bind has been answered, \<open>G\<close> the
  backing item ids that successful answers handed out. An id that was handed out is held
  by an item or has been released.
\<close>

definition bind_inv :: "subscription \<Rightarrow> u32 set \<Rightarrow> u32 set \<Rightarrow> bool" where
  "bind_inv s A G \<longleftrightarrow>
     keyed (view s) \<and>
     (\<forall>(k, i, h, b)\<in>set (view s). unat k \<le> next_object s \<and>
        h \<in> set (add_handles (backing_calls s)) \<and> (b \<noteq> 0 \<longrightarrow> h \<in> A)) \<and>
     distinct (map (\<lambda>(k, i, h, b). h) (view s)) \<and>
     next_monitored_item_id s = of_nat (Suc (next_object s)) \<and>
     next_backing_client_handle s = of_nat (Suc (length (add_handles (backing_calls s)))) \<and>
     (\<forall>h\<in>set (add_handles (backing_calls s)).
        unat h \<le> length (add_handles (backing_calls s))) \<and>
     A \<subseteq> set (add_handles (backing_calls s)) \<and>
     (add_handles (backing_calls s) \<noteq> [] \<longrightarrow> backing s \<noteq> NoBacking) \<and>
     (\<forall>g\<in>G. g = 0 \<or> RemoveItems g \<in> set (backing_calls s) \<or>
        (\<exists>(k, i, h, b)\<in>set (view s). b = g))"

definition no_wrap :: "subscription \<Rightarrow> bool" where
  "no_wrap s \<longleftrightarrow> next_object s < 2 ^ 32 - 1 \<and>
     length (add_handles (backing_calls s)) < 2 ^ 32 - 1"

lemma bind_inv_frame: "frame s' = frame s \<Longrightarrow> bind_inv s' A G = bind_inv s A G"
  by (simp add: bind_inv_def frame_def)

lemma no_wrap_frame: "frame s' = frame s \<Longrightarrow> no_wrap s' = no_wrap s"
  by (simp add: no_wrap_def frame_def)

lemma bind_inv_keyed: "bind_inv s A G \<Longrightarrow> keyed (view s)"
  by (simp add: bind_inv_def)

lemma unat_of_nat32: "n < 2 ^ 32 \<Longrightarrow> unat (of_nat n :: u32) = n"
  by (rule unat_of_nat_small) simp

text \<open>
  A \<open>StatusOr\<close> without a value carries a bad status (\<^verbatim>\<open>types/status_or.h\<close>), so a failed
  call of \<open>create_subscription_\<close> answers with one.
\<close>

definition create_ok :: "(nat \<Rightarrow> status option) \<Rightarrow> bool" where
  "create_ok create \<longleftrightarrow> (\<forall>n st. create n = Some st \<longrightarrow> status_bad st)"

lemma bad_status_code:
  assumes "status_bad st" shows "status_code st \<noteq> Good"
proof
  assume "status_code st = Good"
  then have "drop_bit 14 (drop_bit 16 (full_code st)) = 0" by (simp add: status_code_def)
  then have "drop_bit 30 (full_code st) = 0" by simp
  with assms show False by (simp add: status_bad_def severity_def severity_of_def)
qed

lemma start_backing:
  assumes "create_ok create" "StartBackingSubscription create s = (st, s1)"
  shows "items s1 = items s \<and> next_object s1 = next_object s \<and>
    next_monitored_item_id s1 = next_monitored_item_id s \<and>
    next_backing_client_handle s1 = next_backing_client_handle s \<and>
    backing_calls s1 = backing_calls s \<and>
    (if status_bad st then frame s1 = frame s else backing s1 \<noteq> NoBacking)"
  using assms
  by (auto simp: StartBackingSubscription_def frame_def view_def Let_def create_ok_def
      split: if_split_asm option.split_asm)

text \<open>The two ways \<open>RebindItem\<close> can go.\<close>

definition rebound :: "item \<Rightarrow> subscription \<Rightarrow> item \<Rightarrow> subscription \<Rightarrow> bool" where
  "rebound it s it' s' \<longleftrightarrow>
     monitored_item_status it' = Good \<and>
     item_view it' = (monitored_item_id it, next_backing_client_handle s, 0) \<and>
     items s' = items s \<and> next_object s' = next_object s \<and>
     next_monitored_item_id s' = next_monitored_item_id s \<and>
     next_backing_client_handle s' = next_backing_client_handle s + 1 \<and>
     backing s' \<noteq> NoBacking \<and>
     (\<exists>w r. backing_calls s' = backing_calls s @
        (if backing_item_id it = 0 then [] else [RemoveItems (backing_item_id it)]) @
        [AddItems w (next_backing_client_handle s) r])"

lemma rebind_cases:
  assumes "create_ok create" "RebindItem create it s = (it', s')"
  shows "rebound it s it' s' \<or> (item_view it' = item_view it \<and> frame s' = frame s \<and>
     items s' = items s \<and> monitored_item_status it' \<noteq> Good)"
proof (cases "IsSupportedMonitoredAttribute (rv_attribute_id (it_item_to_monitor it))")
  case False
  then show ?thesis using assms by (auto simp: RebindItem_def)
next
  case True
  obtain st s1 where st: "StartBackingSubscription create s = (st, s1)" by force
  note s1 = start_backing [OF assms(1) st]
  show ?thesis
  proof (cases "status_bad st")
    case True
    then have "status_code st \<noteq> Good" by (rule bad_status_code)
    then show ?thesis
      using True assms st s1 \<open>IsSupportedMonitoredAttribute _\<close> by (auto simp: RebindItem_def)
  next
    case False
    then show ?thesis
      using assms st s1 \<open>IsSupportedMonitoredAttribute _\<close>
      by (auto simp: RebindItem_def rebound_def RemoveBackingItem_def call_backing_def Let_def
          item_view_def)
  qed
qed

lemma set_alist_update:
  assumes "distinct (map fst xs)"
  shows "set (AList.update k v xs) = insert (k, v) {x \<in> set xs. fst x \<noteq> k}"
  using assms by (induction xs) force+

lemma distinct_map_alist_update:
  assumes "distinct (map f xs)" "f (k, v) \<notin> f ` set xs"
  shows "distinct (map f (AList.update k v xs))"
proof -
  have "f ` set (AList.update k v xs) \<subseteq> insert (f (k, v)) (f ` set xs)" for xs
    by (induction xs) auto
  note sub = this
  show ?thesis using assms
  proof (induction xs)
    case (Cons x xs)
    then show ?case using sub [of xs] by (cases x) auto
  qed simp
qed

lemma distinct_map_alist_delete:
  "distinct (map f xs) \<Longrightarrow> distinct (map f (AList.delete k xs))"
  by (induction xs) (auto simp: AList.delete_eq)

lemma set_alist_delete: "set (AList.delete k xs) = {x \<in> set xs. fst x \<noteq> k}"
  by (auto simp: AList.delete_eq)

lemma keyed_update: "keyed vs \<Longrightarrow> keyed (AList.update k (k, v) vs)"
  by (auto simp: keyed_def distinct_update set_alist_update)

lemma next_handle_fresh:
  assumes "bind_inv s A G" "length (add_handles (backing_calls s)) < 2 ^ 32 - 1"
  shows "next_backing_client_handle s \<notin> set (add_handles (backing_calls s))"
    and "unat (next_backing_client_handle s) = Suc (length (add_handles (backing_calls s)))"
proof -
  show u: "unat (next_backing_client_handle s) = Suc (length (add_handles (backing_calls s)))"
    using assms unat_of_nat32 [of "Suc (length (add_handles (backing_calls s)))"]
    by (simp add: bind_inv_def)
  show "next_backing_client_handle s \<notin> set (add_handles (backing_calls s))"
    using assms(1) u by (auto simp: bind_inv_def)
qed

lemma bind_inv_rebind:
  assumes inv: "bind_inv s A G"
    and k: "(\<exists>h. map_of (view s) k = Some (k, h, b)) \<or>
           (map_of (view s) k = None \<and> b = 0 \<and> unat k \<le> next_object s)"
    and view': "view s' = AList.update k (k, next_backing_client_handle s, 0) (view s)"
    and calls': "backing_calls s' = backing_calls s @ (if b = 0 then [] else [RemoveItems b]) @
        [AddItems w (next_backing_client_handle s) r]"
    and rest: "next_object s' = next_object s"
        "next_monitored_item_id s' = next_monitored_item_id s"
        "next_backing_client_handle s' = next_backing_client_handle s + 1"
        "backing s' \<noteq> NoBacking"
    and nw: "no_wrap s'"
  shows "bind_inv s' A G"
proof -
  let ?h = "next_backing_client_handle s"
  have dist: "distinct (map fst (view s))" using inv by (simp add: bind_inv_def keyed_def)
  have hs: "add_handles (backing_calls s') = add_handles (backing_calls s) @ [?h]"
    using calls' by simp
  have nws: "length (add_handles (backing_calls s)) < 2 ^ 32 - 1"
    using nw hs by (simp add: no_wrap_def)
  note h = next_handle_fresh [OF inv nws]
  have kb: "unat k \<le> next_object s"
    using k inv by (auto simp: bind_inv_def dest!: map_of_SomeD)
  have handles: "distinct (map (\<lambda>(k, i, h, b). h) (view s'))"
    unfolding view'
    by (rule distinct_map_alist_update) (use inv h(1) in \<open>auto simp: bind_inv_def\<close>)
  have held: "\<exists>(k, i, h, b')\<in>set (view s'). b' = g"
    if "(j, i, hh, g) \<in> set (view s)" "g \<noteq> 0" "g \<noteq> b" for j i hh g
  proof -
    have "j \<noteq> k"
    proof
      assume "j = k"
      then have "map_of (view s) k = Some (i, hh, g)" using that(1) dist by simp
      then show False using k that(2,3) by auto
    qed
    then show ?thesis using that(1) dist by (force simp: view' set_alist_update)
  qed
  have granted: "\<forall>g\<in>G. g = 0 \<or> RemoveItems g \<in> set (backing_calls s') \<or>
      (\<exists>(k, i, h, b)\<in>set (view s'). b = g)"
  proof
    fix g assume "g \<in> G"
    then consider "g = 0" | "RemoveItems g \<in> set (backing_calls s)"
      | j i hh where "(j, i, hh, g) \<in> set (view s)" "g \<noteq> 0"
      using inv by (fastforce simp: bind_inv_def)
    then show "g = 0 \<or> RemoveItems g \<in> set (backing_calls s') \<or>
        (\<exists>(k, i, h, b)\<in>set (view s'). b = g)"
    proof cases
      case 3
      show ?thesis
      proof (cases "g = b")
        case True
        then show ?thesis using 3 calls' by simp
      next
        case False
        then show ?thesis using held 3 by blast
      qed
    qed (use calls' in auto)
  qed
  have entries: "\<forall>(k, i, h, b)\<in>set (view s'). unat k \<le> next_object s' \<and>
        h \<in> set (add_handles (backing_calls s')) \<and> (b \<noteq> 0 \<longrightarrow> h \<in> A)"
    using inv kb dist unfolding hs rest(1)
    by (auto simp: bind_inv_def view' set_alist_update)
  have "keyed (view s')" unfolding view' using keyed_update inv by (simp add: bind_inv_def)
  moreover have "next_backing_client_handle s' =
      of_nat (Suc (length (add_handles (backing_calls s'))))"
    using inv hs rest(3) by (simp add: bind_inv_def)
  moreover have "\<forall>h\<in>set (add_handles (backing_calls s')). unat h \<le> length (add_handles (backing_calls s'))"
    using inv hs h(2) by (auto simp: bind_inv_def)
  moreover have "A \<subseteq> set (add_handles (backing_calls s'))" using inv hs by (auto simp: bind_inv_def)
  moreover have "next_monitored_item_id s' = of_nat (Suc (next_object s'))"
    using inv rest by (simp add: bind_inv_def)
  ultimately show ?thesis using handles granted entries rest(4) by (simp add: bind_inv_def)
qed

definition grows :: "subscription \<Rightarrow> subscription \<Rightarrow> bool" where
  "grows s s' \<longleftrightarrow> next_object s \<le> next_object s' \<and>
     length (add_handles (backing_calls s)) \<le> length (add_handles (backing_calls s'))"

lemma grows_no_wrap: "grows s s' \<Longrightarrow> no_wrap s' \<Longrightarrow> no_wrap s"
  by (simp add: grows_def no_wrap_def)

lemma grows_refl [simp]: "grows s s"
  by (simp add: grows_def)

lemma grows_trans: "grows s s' \<Longrightarrow> grows s' s'' \<Longrightarrow> grows s s''"
  by (simp add: grows_def)

lemma grows_frame: "frame s' = frame s \<Longrightarrow> grows s s'"
  by (simp add: grows_def frame_def)

lemma grows_store_item [simp]:
  "grows s (store_item it s') = grows s s'" "grows (store_item it s) s' = grows s s'"
  by (simp_all add: grows_def)

lemma grows_rebind:
  assumes "create_ok create" shows "grows s (snd (RebindItem create it s))"
proof -
  obtain it' s' where r: "RebindItem create it s = (it', s')" by force
  show ?thesis using rebind_cases [OF assms r] r
    by (auto simp: rebound_def grows_def frame_def)
qed

lemma grows_modify_item:
  assumes "create_ok create" shows "grows s (snd (ModifyMonitoredItem create r s))"
  using grows_rebind [OF assms]
  by (auto simp: ModifyMonitoredItem_def Let_def split_beta split: option.split)
     (metis grows_store_item(2))

lemma bind_inv_modify_item:
  assumes c: "create_ok create" and inv: "bind_inv s A G"
    and nw: "no_wrap (snd (ModifyMonitoredItem create r s))"
  shows "bind_inv (snd (ModifyMonitoredItem create r s)) A G"
proof (cases "map_of (items s) (fst r)")
  case None
  then show ?thesis using inv by (simp add: ModifyMonitoredItem_def)
next
  case (Some it)
  let ?it = "it\<lparr>it_parameters := snd r\<rparr>"
  let ?s = "store_item ?it s"
  obtain it' s' where r: "RebindItem create ?it ?s = (it', s')" by force
  have e: "snd (ModifyMonitoredItem create r s) = store_item it' s'"
    using Some r by (simp add: ModifyMonitoredItem_def)
  have "it \<in> set (map snd (items s))" using Some by (force dest: map_of_SomeD)
  then have it: "map_of (view s) (monitored_item_id it) = Some (item_view it)"
    using keyed_lookup inv by (simp add: bind_inv_def)
  then have fr: "frame ?s = frame s" by (intro frame_store_item) simp
  then have vs: "view ?s = view s" by (rule view_frame)
  have inv': "bind_inv ?s A G" using inv bind_inv_frame [OF fr] by simp
  from rebind_cases [OF c r] show ?thesis
  proof
    assume b: "rebound ?it ?s it' s'"
    then have id: "monitored_item_id it' = monitored_item_id it"
      by (simp add: rebound_def item_view_def)
    from b obtain w q where calls: "backing_calls s' = backing_calls ?s @
        (if backing_item_id it = 0 then [] else [RemoveItems (backing_item_id it)]) @
        [AddItems w (next_backing_client_handle ?s) q]"
      unfolding rebound_def by auto
    have vs': "view s' = view s" using b vs by (simp add: rebound_def view_def)
    show ?thesis unfolding e
      by (rule bind_inv_rebind [OF inv', where k = "monitored_item_id it" and
            b = "backing_item_id it" and w = w and r = q])
        (use b it vs vs' id calls nw e in \<open>simp_all add: rebound_def item_view_def\<close>)
  next
    assume n: "item_view it' = item_view ?it \<and> frame s' = frame ?s \<and> items s' = items ?s \<and>
      monitored_item_status it' \<noteq> Good"
    then have "monitored_item_id it' = monitored_item_id it" by (simp add: item_view_def)
    then have "frame (store_item it' s') = frame s'"
      using n it vs by (intro frame_store_item) (simp add: frame_def)
    then show ?thesis unfolding e using n fr inv bind_inv_frame by metis
  qed
qed

lemma take_item_id_simps [simp]:
  "view (take_item_id s) = view s" "items (take_item_id s) = items s"
  "backing (take_item_id s) = backing s" "backing_calls (take_item_id s) = backing_calls s"
  "next_object (take_item_id s) = Suc (next_object s)"
  "next_monitored_item_id (take_item_id s) = next_monitored_item_id s + 1"
  "next_backing_client_handle (take_item_id s) = next_backing_client_handle s"
  by (simp_all add: take_item_id_def view_def)

lemma new_item_simps [simp]:
  "monitored_item_id (new_item r s) = next_monitored_item_id s"
  "backing_item_id (new_item r s) = 0"
  "item_view (new_item r s) = (next_monitored_item_id s, 0, 0)"
  by (simp_all add: new_item_def item_view_def)

lemma grows_take_item_id [simp]: "grows s (take_item_id s)"
  by (simp add: grows_def)

lemma grows_items [simp]: "grows s (t\<lparr>items := x\<rparr>) = grows s t"
  by (simp add: grows_def)

lemma grows_create_item:
  assumes "create_ok create" shows "grows s (snd (CreateMonitoredItem create r s))"
proof -
  have "grows s (snd (RebindItem create it (take_item_id s)))"
    "grows s (snd (RebindItem create it (store_item it (take_item_id s))))" for it
    using grows_rebind [OF assms, of "take_item_id s" it]
      grows_rebind [OF assms, of "store_item it (take_item_id s)" it] grows_trans
    by (auto simp del: grows_take_item_id intro: grows_trans [OF grows_take_item_id])
  then show ?thesis by (simp add: CreateMonitoredItem_def Let_def split_beta)
qed

lemma alist_delete_absent: "map_of xs k = None \<Longrightarrow> AList.delete k xs = xs"
  by (induction xs) (auto simp: AList.delete_eq split: if_split_asm)

lemma bind_inv_take_item_id:
  assumes "bind_inv s A G" shows "bind_inv (take_item_id s) A G"
proof -
  have "\<forall>(k, i, h, b)\<in>set (view s). unat k \<le> Suc (next_object s) \<and>
        h \<in> set (add_handles (backing_calls s)) \<and> (b \<noteq> 0 \<longrightarrow> h \<in> A)"
    using assms by (fastforce simp: bind_inv_def)
  then show ?thesis using assms by (simp add: bind_inv_def)
qed

lemma next_item_fresh:
  assumes "bind_inv s A G" "next_object s < 2 ^ 32 - 1"
  shows "map_of (view s) (next_monitored_item_id s) = None"
    and "unat (next_monitored_item_id s) = Suc (next_object s)"
proof -
  show u: "unat (next_monitored_item_id s) = Suc (next_object s)"
    using assms unat_of_nat32 [of "Suc (next_object s)"] by (simp add: bind_inv_def)
  show "map_of (view s) (next_monitored_item_id s) = None"
  proof (rule ccontr)
    assume "map_of (view s) (next_monitored_item_id s) \<noteq> None"
    then obtain v where "(next_monitored_item_id s, v) \<in> set (view s)"
      by (auto dest: map_of_SomeD)
    then have "unat (next_monitored_item_id s) \<le> next_object s"
      using assms(1) by (auto simp: bind_inv_def)
    then show False using u by simp
  qed
qed

lemma create_item_fresh:
  assumes "map_of (items s) (next_monitored_item_id s) = None"
    and "RebindItem create (new_item r s) (store_item (new_item r s) (take_item_id s)) = (it', s')"
  shows "snd (CreateMonitoredItem create r s) =
    (if monitored_item_status it' = Good then store_item it' s'
     else (store_item it' s')\<lparr>items :=
       AList.delete (next_monitored_item_id s) (items (store_item it' s'))\<rparr>)"
  using assms by (simp add: CreateMonitoredItem_def Let_def)

lemma bind_inv_created:
  assumes inv: "bind_inv (take_item_id s) A G"
    and k: "map_of (view s) (next_monitored_item_id s) = None"
      "unat (next_monitored_item_id s) = Suc (next_object s)"
    and b: "rebound (new_item r s) (store_item (new_item r s) (take_item_id s)) it' s'"
    and nw: "no_wrap (store_item it' s')"
  shows "bind_inv (store_item it' s') A G"
proof -
  let ?k = "next_monitored_item_id s"
  have id: "monitored_item_id it' = ?k" "item_view it' = (?k, next_backing_client_handle s, 0)"
    using b by (auto simp: rebound_def item_view_def)
  have "view s' = view (store_item (new_item r s) (take_item_id s))"
    using b by (simp add: rebound_def view_def)
  then have v: "view (store_item it' s') =
      AList.update ?k (?k, next_backing_client_handle (take_item_id s), 0) (view (take_item_id s))"
    by (simp add: id)
  from b obtain w q where calls: "backing_calls s' = backing_calls s @
      [AddItems w (next_backing_client_handle s) q]"
    unfolding rebound_def by auto
  show ?thesis
    by (rule bind_inv_rebind [OF inv _ v, where b = 0 and w = w and r = q])
      (use b k calls nw in \<open>simp_all add: rebound_def\<close>)
qed

lemma bind_inv_create_item:
  assumes c: "create_ok create" and inv: "bind_inv s A G"
    and nw: "no_wrap (snd (CreateMonitoredItem create r s))"
  shows "bind_inv (snd (CreateMonitoredItem create r s)) A G"
proof -
  define t where "t = store_item (new_item r s) (take_item_id s)"
  have "no_wrap s" using grows_create_item [OF c] nw by (rule grows_no_wrap)
  then have "next_object s < 2 ^ 32 - 1" by (simp add: no_wrap_def)
  note k = next_item_fresh [OF inv this]
  have none: "map_of (items s) (next_monitored_item_id s) = None"
    using k(1) by (simp add: view_map_of)
  note inv' = bind_inv_take_item_id [OF inv]
  obtain it' s' where r: "RebindItem create (new_item r s) t = (it', s')"
    by (rule prod.exhaust)
  note e = create_item_fresh [OF none r [unfolded t_def]]
  from rebind_cases [OF c r] show ?thesis
  proof
    assume b: "rebound (new_item r s) t it' s'"
    then have e': "snd (CreateMonitoredItem create r s) = store_item it' s'"
      using e by (simp add: rebound_def)
    show ?thesis using bind_inv_created [OF inv' k b [unfolded t_def]] nw by (simp only: e')
  next
    assume n: "item_view it' = item_view (new_item r s) \<and> frame s' = frame t \<and>
      items s' = items t \<and> monitored_item_status it' \<noteq> Good"
    then have id: "monitored_item_id it' = next_monitored_item_id s"
      by (simp add: item_view_def)
    have "frame (snd (CreateMonitoredItem create r s)) = frame (take_item_id s)"
      using n id k(1) unfolding e
      by (simp add: frame_def t_def delete_update_same alist_delete_absent)
    then show ?thesis by (rule iffD2 [OF bind_inv_frame]) (rule inv')
  qed
qed

lemma grows_create_items:
  assumes "create_ok create" shows "grows s (snd (CreateItems create rs s))"
  by (induction rs arbitrary: s)
     (auto simp: Let_def split_beta intro: grows_trans grows_create_item [OF assms])

lemma bind_inv_create_items:
  assumes "create_ok create" "bind_inv s A G" "no_wrap (snd (CreateItems create rs s))"
  shows "bind_inv (snd (CreateItems create rs s)) A G"
  using assms(2,3)
proof (induction rs arbitrary: s)
  case (Cons r rs)
  let ?t = "snd (CreateMonitoredItem create r s)"
  have nw: "no_wrap (snd (CreateItems create rs ?t))"
    using Cons.prems(2) by (simp add: Let_def split_beta)
  have "no_wrap ?t" using grows_create_items [OF assms(1)] nw by (rule grows_no_wrap)
  then have "bind_inv ?t A G" by (rule bind_inv_create_item [OF assms(1) Cons.prems(1)])
  then show ?case using Cons.IH [of ?t] nw by (simp add: Let_def split_beta)
qed simp

lemma grows_modify_items:
  assumes "create_ok create" shows "grows s (snd (ModifyItems create rs s))"
  by (induction rs arbitrary: s)
     (auto simp: Let_def split_beta intro: grows_trans grows_modify_item [OF assms])

lemma bind_inv_modify_items:
  assumes "create_ok create" "bind_inv s A G" "no_wrap (snd (ModifyItems create rs s))"
  shows "bind_inv (snd (ModifyItems create rs s)) A G"
  using assms(2,3)
proof (induction rs arbitrary: s)
  case (Cons r rs)
  let ?t = "snd (ModifyMonitoredItem create r s)"
  have nw: "no_wrap (snd (ModifyItems create rs ?t))"
    using Cons.prems(2) by (simp add: Let_def split_beta)
  have "no_wrap ?t" using grows_modify_items [OF assms(1)] nw by (rule grows_no_wrap)
  then have "bind_inv ?t A G" by (rule bind_inv_modify_item [OF assms(1) Cons.prems(1)])
  then show ?case using Cons.IH [of ?t] nw by (simp add: Let_def split_beta)
qed simp

lemma remove_backing_item_simps [simp]:
  "items (RemoveBackingItem b s) = items s" "view (RemoveBackingItem b s) = view s"
  "backing (RemoveBackingItem b s) = backing s"
  "next_object (RemoveBackingItem b s) = next_object s"
  "next_monitored_item_id (RemoveBackingItem b s) = next_monitored_item_id s"
  "next_backing_client_handle (RemoveBackingItem b s) = next_backing_client_handle s"
  "add_handles (backing_calls (RemoveBackingItem b s)) = add_handles (backing_calls s)"
  "set (backing_calls (RemoveBackingItem b s)) =
     set (backing_calls s) \<union> (if b = 0 \<or> backing s = NoBacking then {} else {RemoveItems b})"
  by (simp_all add: RemoveBackingItem_def call_backing_def view_def)

text \<open>Releasing a binding keeps the invariant, and so does forgetting a released item.\<close>

lemma bind_inv_more_calls:
  assumes inv: "bind_inv s A G"
    and eqs: "view s' = view s" "next_object s' = next_object s"
      "next_monitored_item_id s' = next_monitored_item_id s"
      "next_backing_client_handle s' = next_backing_client_handle s"
      "add_handles (backing_calls s') = add_handles (backing_calls s)"
    and more: "set (backing_calls s) \<subseteq> set (backing_calls s')"
    and started: "backing s \<noteq> NoBacking \<Longrightarrow> backing s' \<noteq> NoBacking"
  shows "bind_inv s' A G"
proof -
  have "\<forall>g\<in>G. g = 0 \<or> RemoveItems g \<in> set (backing_calls s') \<or>
      (\<exists>(k, i, h, b)\<in>set (view s). b = g)"
    using inv more unfolding bind_inv_def by blast
  then show ?thesis using inv started unfolding bind_inv_def eqs by simp
qed

lemma bind_inv_release:
  assumes "bind_inv s A G" shows "bind_inv (RemoveBackingItem b s) A G"
  by (rule bind_inv_more_calls [OF assms]) simp_all

lemma bind_inv_forget:
  assumes "bind_inv s A G"
    and "\<And>i h b. map_of (view s) k = Some (i, h, b) \<Longrightarrow> b = 0 \<or> RemoveItems b \<in> set (backing_calls s)"
    and "view s' = AList.delete k (view s)"
    and "backing_calls s' = backing_calls s" "backing s' = backing s"
      "next_object s' = next_object s" "next_monitored_item_id s' = next_monitored_item_id s"
      "next_backing_client_handle s' = next_backing_client_handle s"
  shows "bind_inv s' A G"
proof -
  have d: "distinct (map fst (view s))" using assms(1) by (simp add: bind_inv_def keyed_def)
  have "keyed (view s')"
    using assms(1) by (auto simp: assms(3) bind_inv_def keyed_def set_alist_delete
        intro: distinct_map_alist_delete)
  moreover have "distinct (map (\<lambda>(k, i, h, b). h) (view s'))"
    using assms(1) unfolding assms(3) by (intro distinct_map_alist_delete) (simp add: bind_inv_def)
  moreover have "\<forall>g\<in>G. g = 0 \<or> RemoveItems g \<in> set (backing_calls s') \<or>
      (\<exists>(k, i, h, b)\<in>set (view s'). b = g)"
  proof
    fix g assume "g \<in> G"
    then consider "g = 0" | "RemoveItems g \<in> set (backing_calls s)"
      | j i h where "(j, i, h, g) \<in> set (view s)"
      using assms(1) by (fastforce simp: bind_inv_def)
    then show "g = 0 \<or> RemoveItems g \<in> set (backing_calls s') \<or>
        (\<exists>(k, i, h, b)\<in>set (view s'). b = g)"
    proof cases
      case 3
      show ?thesis
      proof (cases "j = k")
        case True
        then have "map_of (view s) k = Some (i, h, g)" using 3 d by simp
        then show ?thesis using assms(2,4) by auto
      next
        case False
        then show ?thesis using 3 by (force simp: assms(3) set_alist_delete)
      qed
    qed (use assms(4) in auto)
  qed
  moreover have "\<forall>(k, i, h, b)\<in>set (view s'). unat k \<le> next_object s' \<and>
        h \<in> set (add_handles (backing_calls s')) \<and> (b \<noteq> 0 \<longrightarrow> h \<in> A)"
    using assms(1) unfolding assms(3,4,6) by (auto simp: bind_inv_def set_alist_delete)
  ultimately show ?thesis using assms(1) unfolding bind_inv_def assms(4-8) by simp
qed

lemma bind_inv_started:
  assumes "bind_inv s A G" "(k, i, h, b) \<in> set (view s)" shows "backing s \<noteq> NoBacking"
  using assms by (force simp: bind_inv_def)

lemma bind_inv_delete_items: "bind_inv s A G \<Longrightarrow> bind_inv (snd (DeleteItems ks s)) A G"
proof (induction ks arbitrary: s)
  case (Cons k ks)
  show ?case
  proof (cases "map_of (items s) k")
    case None
    then show ?thesis using Cons by (simp add: Let_def split_beta)
  next
    case (Some it)
    let ?s = "RemoveBackingItem (backing_item_id it) s"
    have v: "map_of (view s) k = Some (item_view it)" using Some by (simp add: view_map_of)
    have "bind_inv (?s\<lparr>items := AList.delete k (items ?s)\<rparr>) A G"
    proof (rule bind_inv_forget [OF bind_inv_release [OF Cons.prems]])
      show "b = 0 \<or> RemoveItems b \<in> set (backing_calls ?s)" if "map_of (view ?s) k = Some (i, h, b)"
        for i h b
        using that v bind_inv_started [OF Cons.prems, of k i h b]
        by (auto simp: item_view_def dest: map_of_SomeD)
    qed (simp_all add: view_def)
    then show ?thesis using Some Cons.IH by (simp add: Let_def split_beta)
  qed
qed simp

lemma grows_delete_items: "grows s (snd (DeleteItems ks s))"
proof (induction ks arbitrary: s)
  case (Cons k ks)
  have "grows s (snd (DeleteItems ks ((RemoveBackingItem b s)\<lparr>items := x\<rparr>)))" for x b
    using Cons.IH [of "(RemoveBackingItem b s)\<lparr>items := x\<rparr>"] by (simp add: grows_def)
  then show ?case using Cons.IH by (auto simp: Let_def split_beta split: option.split)
qed simp

lemma map_alist_update_same:
  assumes "map_of xs k = Some v" "f (k, v) = f (k, w)"
  shows "map f (AList.update k w xs) = map f xs"
  using assms by (induction xs) (auto split: if_split_asm)

text \<open>A successful answer gives an item that held nothing the id it was handed.\<close>

lemma bind_inv_answered:
  assumes inv: "bind_inv s A G" and h: "h \<in> set (add_handles (backing_calls s))" "h \<in> A"
    and kb: "unat (monitored_item_id it) \<le> next_object s"
    and v: "map_of (view s) (monitored_item_id it) = Some (monitored_item_id it, h, 0)"
    and new: "item_view it' = (monitored_item_id it, h, b)"
  shows "bind_inv (store_item it' s) A (insert b G)"
proof -
  let ?k = "monitored_item_id it"
  have d: "distinct (map fst (view s))" using inv by (simp add: bind_inv_def keyed_def)
  have k': "monitored_item_id it' = ?k" using new by (simp add: item_view_def)
  have view': "view (store_item it' s) = AList.update ?k (?k, h, b) (view s)"
    by (simp add: k' new)
  have handles: "map (\<lambda>(k, i, h, b). h) (view (store_item it' s)) = map (\<lambda>(k, i, h, b). h) (view s)"
    unfolding view' by (rule map_alist_update_same [OF v]) simp
  have "\<forall>g\<in>insert b G. g = 0 \<or> RemoveItems g \<in> set (backing_calls s) \<or>
      (\<exists>(k, i, h, b)\<in>set (view (store_item it' s)). b = g)"
  proof
    fix g assume "g \<in> insert b G"
    then consider "g = 0" | "g = b" | "RemoveItems g \<in> set (backing_calls s)"
      | j i hh where "(j, i, hh, g) \<in> set (view s)" "g \<noteq> 0"
      using inv by (fastforce simp: bind_inv_def)
    then show "g = 0 \<or> RemoveItems g \<in> set (backing_calls s) \<or>
        (\<exists>(k, i, h, b)\<in>set (view (store_item it' s)). b = g)"
    proof cases
      case 4
      have "j \<noteq> ?k"
      proof
        assume "j = ?k"
        then have "map_of (view s) ?k = Some (i, hh, g)" using 4(1) d by simp
        then show False using v 4(2) by simp
      qed
      then have "(j, i, hh, g) \<in> set (view (store_item it' s))"
        unfolding view' using 4(1) d by (simp add: set_alist_update)
      then show ?thesis by blast
    next
      case 2
      then have "(?k, ?k, h, g) \<in> set (view (store_item it' s))"
        unfolding view' using d by (simp add: set_alist_update)
      then show ?thesis by blast
    qed auto
  qed
  moreover have "keyed (view (store_item it' s))"
    unfolding view' using keyed_update inv by (simp add: bind_inv_def)
  moreover have "\<forall>(k, i, h, b)\<in>set (view (store_item it' s)). unat k \<le> next_object s \<and>
        h \<in> set (add_handles (backing_calls s)) \<and> (b \<noteq> 0 \<longrightarrow> h \<in> A)"
    unfolding view' using inv kb h d by (auto simp: bind_inv_def set_alist_update)
  ultimately show ?thesis using inv unfolding bind_inv_def handles by simp
qed

lemma bind_inv_bind_result:
  assumes inv: "bind_inv s A G" and h: "h \<in> set (add_handles (backing_calls s))" "h \<notin> A"
  shows "bind_inv (OnBindResult now w h r s) (insert h A)
    (if status_bad (cr_status r) then G else insert (cr_item_id r) G)"
proof -
  let ?G = "if status_bad (cr_status r) then G else insert (cr_item_id r) G"
  have inv': "bind_inv s (insert h A) G"
    using inv h by (fastforce simp: bind_inv_def)
  have backed: "backing s \<noteq> NoBacking" using inv h by (auto simp: bind_inv_def)
  define stale where "stale = (if \<not> status_bad (cr_status r) then RemoveBackingItem (cr_item_id r) s else s)"
  have stale: "bind_inv stale (insert h A) ?G"
    using bind_inv_release [OF inv', of "cr_item_id r"] inv' backed
    by (auto simp: stale_def bind_inv_def)
  show ?thesis
  proof (cases "find_object w s")
    case None
    then show ?thesis using stale by (simp add: OnBindResult_def flip: stale_def)
  next
    case (Some it)
    then have mem: "it \<in> set (map snd (items s))"
      by (auto simp: find_object_def split: option.split_asm dest: find_in_set)
    note v = keyed_lookup [OF bind_inv_keyed [OF inv] mem]
    let ?it = "it\<lparr>monitored_item_status := status_code (cr_status r)\<rparr>"
    consider "backing_client_handle it \<noteq> h"
      | "backing_client_handle it = h" "status_bad (cr_status r)"
      | "backing_client_handle it = h" "\<not> status_bad (cr_status r)" by blast
    then show ?thesis
    proof cases
      case 1
      then show ?thesis using Some stale by (simp add: OnBindResult_def flip: stale_def)
    next
      case 2
      have f: "frame (store_item ?it s) = frame s" using v by (intro frame_store_item) simp
      have "frame (QueueItemStatus now ?it (cr_status r) (store_item ?it s)) = frame s"
        using f v by (subst frame_queue_item_status) (simp_all add: frame_def)
      then have "bind_inv (QueueItemStatus now ?it (cr_status r) (store_item ?it s)) (insert h A) G"
        by (rule iffD2 [OF bind_inv_frame]) (rule inv')
      then show ?thesis using 2 Some by (simp add: OnBindResult_def Let_def)
    next
      case 3
      let ?new = "?it\<lparr>backing_item_id := cr_item_id r\<rparr>"
      have e: "OnBindResult now w h r s = store_item ?new s"
        using 3 Some by (simp add: OnBindResult_def)
      have "(monitored_item_id it, item_view it) \<in> set (view s)" using v by (rule map_of_SomeD)
      then have b0: "backing_item_id it = 0" and kb: "unat (monitored_item_id it) \<le> next_object s"
        using inv h 3 by (auto simp: bind_inv_def item_view_def)
      show ?thesis unfolding e using 3
        by (simp add: bind_inv_answered [OF inv' h(1) _ kb] v b0 item_view_def)
    qed
  qed
qed

section \<open>Reachable subscriptions\<close>

text \<open>
  A subscription with what its environment has seen: the binds that have been answered
  and the backing item ids that successful answers handed out. Every operation of the
  class is a step, the answers of the backing subscription too; a bind is answered once.
\<close>

record sub_world =
  ws :: subscription
  answered :: "u32 set"
  granted :: "u32 set"

abbreviation on_sub :: "(subscription \<Rightarrow> subscription) \<Rightarrow> sub_world \<Rightarrow> sub_world" where
  "on_sub f w \<equiv> w\<lparr>ws := f (ws w)\<rparr>"

definition answer_bind :: "date_time \<Rightarrow> nat option \<Rightarrow> u32 \<Rightarrow> item_create_result list
    \<Rightarrow> sub_world \<Rightarrow> sub_world" where
  "answer_bind now weak h answers w = (let r = bind_answer answers (ws w) in
     \<lparr>ws = OnBindResult now weak h r (ws w), answered = insert h (answered w),
      granted = (if status_bad (cr_status r) then granted w
                 else insert (cr_item_id r) (granted w))\<rparr>)"

inductive sub_step :: "(nat \<Rightarrow> status option) \<Rightarrow> sub_world \<Rightarrow> sub_world \<Rightarrow> bool"
  for create where
  step_modify: "sub_step create w (on_sub (\<lambda>s. snd (Modify sid p s)) w)"
| step_enable: "sub_step create w (on_sub (SetPublishingEnabled b) w)"
| step_prime: "sub_step create w (on_sub (PrimePublishCycle now) w)"
| step_publish: "sub_step create w (on_sub (\<lambda>s. snd (TryPublish now s)) w)"
| step_acknowledge: "sub_step create w (on_sub (\<lambda>s. snd (Acknowledge ns s)) w)"
| step_create: "sub_step create w (on_sub (\<lambda>s. snd (CreateMonitoredItems create sid rs s)) w)"
| step_modify_items: "sub_step create w (on_sub (\<lambda>s. snd (ModifyMonitoredItems create sid ms s)) w)"
| step_delete: "sub_step create w (on_sub (\<lambda>s. snd (DeleteMonitoredItems sid ks s)) w)"
| step_mode: "sub_step create w (on_sub (\<lambda>s. snd (SetMonitoringMode sid mode ks s)) w)"
| step_bind: "AddItems weak h r \<in> set (backing_calls (ws w)) \<Longrightarrow> h \<notin> answered w \<Longrightarrow>
    sub_step create w (answer_bind now weak h answers w)"
| step_read: "sub_step create w (on_sub (\<lambda>s. snd (ReadBackingSubscription now ans s)) w)"
| step_destroy: "sub_step create w (on_sub destroy w)"

inductive sub_reachable :: "(nat \<Rightarrow> status option) \<Rightarrow> sub_world \<Rightarrow> bool" for create where
  reach_init: "sub_reachable create
     \<lparr>ws = ServerSubscription sid p start, answered = {}, granted = {}\<rparr>"
| reach_step: "sub_reachable create w \<Longrightarrow> sub_step create w w' \<Longrightarrow> sub_reachable create w'"

subsection \<open>The retransmission invariant\<close>

definition ret_frame :: "subscription \<Rightarrow> u32 \<times> notification_message list \<times> nat \<times> u32" where
  "ret_frame s = (subscription_id s, retransmit_queue s, retained_notifications s,
     next_sequence_number s)"

lemma ret_frame_inv: "ret_frame s' = ret_frame s \<Longrightarrow> retransmit_inv s \<Longrightarrow> retransmit_inv s'"
  using retransmit_inv_cong [of s' s] by (simp add: ret_frame_def)

lemma ret_frame_queue [simp]:
  "ret_frame (QueueNotification it d s) = ret_frame s"
  "ret_frame (store_item it s) = ret_frame s"
  "ret_frame (QueueDataChange it dv s) = ret_frame s"
  "ret_frame (QueueEventFields it es s) = ret_frame s"
  "ret_frame (QueueItemStatus now it st s) = ret_frame s"
  by (simp_all add: ret_frame_def QueueDataChange_def QueueEventFields_def QueueItemStatus_def
      store_item_def)

lemma ret_frame_fold: "(\<And>x s. ret_frame (f x s) = ret_frame s) \<Longrightarrow> ret_frame (fold f xs s) = ret_frame s"
  by (induction xs arbitrary: s) simp_all

lemma ret_frame_notifications [simp]:
  "ret_frame (OnNotifications ns s) = ret_frame s"
  "ret_frame (OnSubscriptionError now st s) = ret_frame s"
  by (simp_all add: OnNotifications_def OnSubscriptionError_def OnNotification_def
      ret_frame_fold split: option.split item_notification.split)

lemma ret_frame_backing [simp]:
  "ret_frame (RemoveBackingItem b s) = ret_frame s"
  "ret_frame (snd (StartBackingSubscription create s)) = ret_frame s"
  "ret_frame (snd (RebindItem create it s)) = ret_frame s"
  "ret_frame (OnBindResult now w h r s) = ret_frame s"
  "ret_frame (destroy s) = ret_frame s"
  "ret_frame (snd (ReadBackingSubscription now answer s)) = ret_frame s"
proof -
  show r: "ret_frame (RemoveBackingItem b s) = ret_frame s" for b s
    by (simp add: RemoveBackingItem_def call_backing_def ret_frame_def)
  show s: "ret_frame (snd (StartBackingSubscription create s)) = ret_frame s" for s
    by (simp add: StartBackingSubscription_def ret_frame_def Let_def split: option.split)
  have c: "ret_frame (call_backing c (t\<lparr>next_backing_client_handle := x\<rparr>)) = ret_frame t" for c t x
    by (simp add: call_backing_def ret_frame_def)
  show "ret_frame (snd (RebindItem create it s)) = ret_frame s"
    by (simp add: RebindItem_def Let_def split_beta c r s)
  show "ret_frame (OnBindResult now w h r s) = ret_frame s"
    using ret_frame_queue r by (simp add: OnBindResult_def Let_def split: option.split)
  show "ret_frame (destroy s) = ret_frame s"
    by (simp add: destroy_def CloseBackingSubscription_def call_backing_def ret_frame_def
        split: backing_state.split)
  show "ret_frame (snd (ReadBackingSubscription now answer s)) = ret_frame s"
    by (auto simp: ReadBackingSubscription_def split: backing_state.split bool.split sum.split)
qed

lemma ret_frame_items [simp]:
  "ret_frame (s\<lparr>items := x\<rparr>) = ret_frame s"
  "ret_frame (s\<lparr>pending_notifications := q\<rparr>) = ret_frame s"
  "ret_frame (take_item_id s) = ret_frame s"
  by (simp_all add: ret_frame_def take_item_id_def)

lemma ret_frame_create_item [simp]: "ret_frame (snd (CreateMonitoredItem create r s)) = ret_frame s"
  by (simp add: CreateMonitoredItem_def Let_def split_beta)

lemma ret_frame_modify_item [simp]: "ret_frame (snd (ModifyMonitoredItem create r s)) = ret_frame s"
  by (simp add: ModifyMonitoredItem_def Let_def split_beta split: option.split)

lemma ret_frame_lists [simp]:
  "ret_frame (snd (CreateItems create rs s)) = ret_frame s"
  "ret_frame (snd (ModifyItems create ms s)) = ret_frame s"
  "ret_frame (snd (DeleteItems ks s)) = ret_frame s"
  "ret_frame (snd (SetModes mode ks s)) = ret_frame s"
proof -
  show "ret_frame (snd (CreateItems create rs s)) = ret_frame s"
    by (induction rs arbitrary: s) (simp_all add: Let_def split_beta)
  show "ret_frame (snd (ModifyItems create ms s)) = ret_frame s"
    by (induction ms arbitrary: s) (simp_all add: Let_def split_beta)
  show "ret_frame (snd (DeleteItems ks s)) = ret_frame s"
    by (induction ks arbitrary: s) (simp_all add: Let_def split_beta split: option.split)
  show "ret_frame (snd (SetModes mode ks s)) = ret_frame s"
    by (induction ks arbitrary: s) (simp_all add: Let_def split_beta split: option.split)
qed

lemma ret_frame_services [simp]:
  "ret_frame (snd (CreateMonitoredItems create sid rs s)) = ret_frame s"
  "ret_frame (snd (ModifyMonitoredItems create sid ms s)) = ret_frame s"
  "ret_frame (snd (DeleteMonitoredItems sid ks s)) = ret_frame s"
  "ret_frame (snd (SetMonitoringMode sid mode ks s)) = ret_frame s"
  by (simp_all add: CreateMonitoredItems_def ModifyMonitoredItems_def DeleteMonitoredItems_def
      SetMonitoringMode_def Let_def split_beta)

lemma ret_frame_parameters [simp]:
  "ret_frame (snd (Modify sid p s)) = ret_frame s"
  "ret_frame (SetPublishingEnabled b s) = ret_frame s"
  "ret_frame (PrimePublishCycle now s) = ret_frame s"
  by (simp_all add: ret_frame_def Modify_def SetPublishingEnabled_def Let_def)

lemma sub_step_retransmit:
  assumes "sub_step create w w'" "retransmit_inv (ws w)" shows "retransmit_inv (ws w')"
proof -
  have "retransmit_inv (ws w') \<or> ret_frame (ws w') = ret_frame (ws w)"
    using assms
    by cases (simp_all add: try_publish_inv acknowledge_inv answer_bind_def Let_def)
  then show ?thesis using ret_frame_inv assms(2) by blast
qed

subsection \<open>The binding invariant\<close>

lemma frame_pending [simp]: "frame (s\<lparr>pending_notifications := q\<rparr>) = frame s"
  by (simp add: frame_def view_def)

lemma destroy_binding:
  "grows s (destroy s)" "bind_inv s A G \<Longrightarrow> bind_inv (destroy s) A G"
proof -
  have d: "view (destroy s) = view s" "next_object (destroy s) = next_object s"
    "next_monitored_item_id (destroy s) = next_monitored_item_id s"
    "next_backing_client_handle (destroy s) = next_backing_client_handle s"
    "add_handles (backing_calls (destroy s)) = add_handles (backing_calls s)"
    "set (backing_calls s) \<subseteq> set (backing_calls (destroy s))"
    "backing s \<noteq> NoBacking \<Longrightarrow> backing (destroy s) \<noteq> NoBacking"
    by (auto simp: destroy_def CloseBackingSubscription_def call_backing_def view_def
        split: backing_state.split)
  then show "grows s (destroy s)" by (simp add: grows_def)
  show "bind_inv (destroy s) A G" if "bind_inv s A G"
    by (rule bind_inv_more_calls [OF that]) (use d in simp_all)
qed

lemma grows_queue:
  "grows s t \<Longrightarrow> grows s (QueueDataChange it dv t)"
  "grows s t \<Longrightarrow> grows s (QueueEventFields it es t)"
  "grows s t \<Longrightarrow> grows s (QueueItemStatus now it st t)"
  by (simp_all add: QueueItemStatus_def QueueDataChange_def QueueEventFields_def grows_def
      store_item_def)

lemma grows_fold: "(\<And>x t. grows s t \<Longrightarrow> grows s (f x t)) \<Longrightarrow> grows s t \<Longrightarrow> grows s (fold f xs t)"
  by (induction xs arbitrary: t) simp_all

lemma grows_read: "grows s (snd (ReadBackingSubscription now ans s))"
  by (auto simp: ReadBackingSubscription_def OnNotifications_def OnNotification_def
      OnSubscriptionError_def grows_fold grows_queue
      split: backing_state.split bool.split sum.split option.split item_notification.split)

lemma on_bind_result_grows: "grows s (OnBindResult now w h r s)"
proof -
  have "grows s (RemoveBackingItem b s)" for b by (simp add: grows_def)
  then show ?thesis by (simp add: OnBindResult_def Let_def grows_queue split: option.split)
qed

lemma bind_inv_init: "bind_inv (ServerSubscription sid p start) {} {}"
  by (simp add: bind_inv_def ServerSubscription_def view_def keyed_def)

lemma sub_step_grows:
  assumes "create_ok create" "sub_step create w w'"
  shows "grows (ws w) (ws w')"
  using assms(2)
proof cases
  case (step_create sid rs)
  then show ?thesis using grows_create_items [OF assms(1)]
    by (simp add: CreateMonitoredItems_def Let_def split_beta)
next
  case (step_modify_items sid ms)
  then show ?thesis using grows_modify_items [OF assms(1)]
    by (simp add: ModifyMonitoredItems_def Let_def split_beta)
next
  case (step_delete sid ks)
  then show ?thesis using grows_delete_items
    by (simp add: DeleteMonitoredItems_def Let_def split_beta) (simp add: grows_def)
next
  case (step_mode sid mode ks)
  then show ?thesis by (simp add: SetMonitoringMode_def Let_def split_beta grows_frame)
next
  case (step_bind weak h r now answers)
  then show ?thesis using on_bind_result_grows by (simp add: answer_bind_def Let_def)
qed (simp_all add: grows_frame grows_read destroy_binding)

lemma add_handles_mem: "AddItems weak h r \<in> set cs \<Longrightarrow> h \<in> set (add_handles cs)"
  by (force simp: add_handles_def)

lemma sub_step_bind_inv:
  assumes c: "create_ok create" and st: "sub_step create w w'"
    and inv: "bind_inv (ws w) (answered w) (granted w)" and nw: "no_wrap (ws w')"
  shows "bind_inv (ws w') (answered w') (granted w')"
proof -
  have frameI: "bind_inv s' A G" if "frame s' = frame s" "bind_inv s A G" for s s' A G
    using that by (simp only: bind_inv_frame [OF that(1)])
  from st show ?thesis
  proof cases
    case (step_create sid rs)
    then show ?thesis using bind_inv_create_items [OF c inv] inv nw
      by (simp add: CreateMonitoredItems_def Let_def split_beta split: if_split_asm)
  next
    case (step_modify_items sid ms)
    then show ?thesis using bind_inv_modify_items [OF c inv] inv nw
      by (simp add: ModifyMonitoredItems_def Let_def split_beta split: if_split_asm)
  next
    case (step_delete sid ks)
    then show ?thesis
      using inv frameI [OF frame_pending bind_inv_delete_items [OF inv]]
      by (simp add: DeleteMonitoredItems_def Let_def split_beta)
  next
    case (step_mode sid mode ks)
    then show ?thesis using inv frameI [OF frame_set_modes inv]
      by (simp add: SetMonitoringMode_def Let_def split_beta)
  next
    case (step_bind weak h r now answers)
    then show ?thesis using bind_inv_bind_result [OF inv add_handles_mem]
      by (simp add: answer_bind_def Let_def)
  next
    case (step_read now ans)
    then show ?thesis using frameI [OF frame_read [OF bind_inv_keyed [OF inv]] inv] by simp
  qed (use inv destroy_binding in \<open>simp_all add: frameI\<close>)
qed

lemma sub_reachable_bind_inv:
  assumes "create_ok create" "sub_reachable create w" "no_wrap (ws w)"
  shows "bind_inv (ws w) (answered w) (granted w)"
  using assms(2,3)
proof induction
  case (reach_init sid p start)
  then show ?case using bind_inv_init by simp
next
  case (reach_step w w')
  have "no_wrap (ws w)"
    using sub_step_grows [OF assms(1) reach_step.hyps(2)] reach_step.prems by (rule grows_no_wrap)
  then show ?case
    using sub_step_bind_inv [OF assms(1) reach_step.hyps(2)] reach_step by blast
qed

subsection \<open>Sequence numbers\<close>

text \<open>The held messages are in the order of their sequence numbers, all of them used up.\<close>

definition seq_inv :: "subscription \<Rightarrow> bool" where
  "seq_inv s \<longleftrightarrow> sorted_wrt (<) (AvailableSequenceNumbers s) \<and>
     (\<forall>n\<in>set (AvailableSequenceNumbers s). n < next_sequence_number s)"

lemma sorted_wrt_less_distinct: "sorted_wrt (<) (xs :: 'a::linorder list) \<Longrightarrow> distinct xs"
  by (induction xs) auto

lemma find_sequence_number:
  assumes "distinct (map sequence_number q)" "m \<in> set q"
  shows "find (\<lambda>x. sequence_number x = sequence_number m) q = Some m"
  using assms by (induction q) (auto simp: image_iff)

lemma find_sequence_none:
  "find (\<lambda>x. sequence_number x = n) q = None \<longleftrightarrow> n \<notin> set (map sequence_number q)"
  by (induction q) auto

lemma erase_message_numbers:
  "distinct (map sequence_number q) \<Longrightarrow>
   map sequence_number (erase_message n q) = removeAll n (map sequence_number q)"
proof (induction q)
  case (Cons m q)
  then show ?case
    by (cases "sequence_number m = n") (auto simp del: removeAll_id simp: removeAll_id [symmetric])
qed simp

lemma publish_data_result:
  "pr_message (fst (publish_data now s)) = NotificationMessage (next_sequence_number s) now
     (map snd (take (publish_count s) (pending_notifications s)))"
  "pr_status (fst (publish_data now s)) = status_of_code Good"
  "more_notifications (fst (publish_data now s)) \<longleftrightarrow>
     publish_count s < length (pending_notifications s)"
  "available_sequence_numbers (fst (publish_data now s)) =
     AvailableSequenceNumbers (snd (publish_data now s))"
  "pending_notifications (snd (publish_data now s)) =
     drop (publish_count s) (pending_notifications s)"
  "next_sequence_number (snd (publish_data now s)) = next_sequence_number s + 1"
  "last_publish_time (snd (publish_data now s)) = Some now"
  by (simp_all add: publish_data_def Let_def split_beta not_le)

lemma word_less_Suc:
  fixes x :: u32 assumes "x \<noteq> - 1" shows "x < x + 1"
proof (rule ccontr)
  assume "\<not> x < x + 1"
  then have "unat (x + 1) \<le> unat x" by (simp add: word_less_nat_alt)
  moreover have "unat (x + 1) = (if unat x + 1 = 2 ^ 32 then 0 else unat x + 1)"
    using unsigned_less [of x, where 'a = nat] by (auto simp: unat_word_ariths)
  moreover have "unat (- 1 :: u32) = 2 ^ 32 - 1"
    by (simp add: unsigned_minus_1_eq_mask mask_eq_exp_minus_1)
  ultimately have "unat x = unat (- 1 :: u32)"
    by (simp split: if_split_asm)
  then show False using assms by (simp only: word_unat_eq_iff)
qed

lemma publish_data_seq_inv:
  assumes "seq_inv s" "next_sequence_number s \<noteq> - 1"
  shows "seq_inv (snd (publish_data now s))"
proof -
  let ?s = "snd (publish_data now s)"
  obtain p where p: "map sequence_number (retransmit_queue s) @ [next_sequence_number s] =
      map sequence_number p @ AvailableSequenceNumbers ?s"
    using publish_data_suffix [of s now]
    by (auto simp: AvailableSequenceNumbers_def publish_data_result
        dest!: arg_cong [where f = "map sequence_number"])
  have less: "next_sequence_number s < next_sequence_number s + 1"
    using assms(2) by (rule word_less_Suc)
  have "sorted_wrt (<) (map sequence_number (retransmit_queue s) @ [next_sequence_number s])"
    using assms(1) by (auto simp: seq_inv_def AvailableSequenceNumbers_def sorted_wrt_append)
  then have "sorted_wrt (<) (AvailableSequenceNumbers ?s)"
    unfolding p by (simp add: sorted_wrt_append)
  moreover have "set (AvailableSequenceNumbers ?s) \<subseteq>
      set (map sequence_number (retransmit_queue s) @ [next_sequence_number s])"
    unfolding p by auto
  ultimately show ?thesis using assms(1) less
    by (auto simp: seq_inv_def publish_data_result AvailableSequenceNumbers_def
        dest!: subsetD intro: less_trans)
qed

lemma republish_held:
  assumes "distinct (AvailableSequenceNumbers s)" "m \<in> set (retransmit_queue s)"
  shows "Republish (sequence_number m) s = RepublishResponse (status_of_code Good) m"
  using assms find_sequence_number by (simp add: Republish_def AvailableSequenceNumbers_def)

section \<open>A concrete subscription\<close>

text \<open>
  Publishing every 500 ms, one item of queue size 2 that has reported three values.
  \<^term>\<open>0x407F400000000000 :: u64\<close> is the double 500, \<^term>\<open>0x3FF0000000000000 :: u64\<close> is 1.
\<close>

definition example_parameters :: subscription_parameters where
  "example_parameters = \<lparr>publishing_interval_ms = 0x407F400000000000, lifetime_count = 0,
     max_keep_alive_count = 0, max_notifications_per_publish = 0, publishing_enabled = True,
     priority = 0\<rparr>"

definition example_monitoring :: monitoring_parameters where
  "example_monitoring = \<lparr>client_handle = 42, sampling_interval_ms = 0, mon_filter = None,
     queue_size = 2, discard_oldest = True\<rparr>"

definition example_request :: item_create_request where
  "example_request = \<lparr>item_to_monitor = ReadValueId (numeric_node_id 85) AttributeId_Value,
     index_range = None, req_monitoring_mode = Reporting,
     requested_parameters = example_monitoring\<rparr>"

abbreviation always_created :: "nat \<Rightarrow> status option" where "always_created \<equiv> \<lambda>_. None"

definition example_value :: "u32 \<Rightarrow> data_value" where
  "example_value n = DataValue (Scalar (BInt32 n)) 0 0 0 Good"

definition example_start :: subscription where
  "example_start = ServerSubscription 7 example_parameters 0"

definition example_created :: subscription where
  "example_created = snd (CreateMonitoredItems always_created 7 [example_request] example_start)"

definition example_sub :: subscription where
  "example_sub = OnNotifications (map (\<lambda>n. MonitoredItemNotification 1 (example_value n)) [1, 2, 3])
     example_created"

text \<open>One second later, in ticks.\<close>

abbreviation example_now :: date_time where "example_now \<equiv> 10000000"

section \<open>Properties\<close>

text \<open>
  C3. Publishing is first in, first out, and bounded. When a subscription that is enabled
  and has queued notifications is ready, \<open>TryPublish\<close> answers with the oldest
  notifications, at least one and at most 1000 and at most the client's limit (0 meaning
  none), leaves the rest in order, and tells by \<open>more_notifications\<close> whether there is a rest. The
  message takes the next sequence number.
\<close>

theorem publish_fifo:
  assumes "IsPublishReady now s" "publishing_enabled (sub_parameters s)"
    and "pending_notifications s \<noteq> []"
  shows "\<exists>r s' k. TryPublish now s = (Some r, s') \<and> pr_status r = status_of_code Good \<and>
     pr_message r = NotificationMessage (next_sequence_number s) now
       (map snd (take k (pending_notifications s))) \<and>
     pending_notifications s' = drop k (pending_notifications s) \<and>
     more_notifications r = (k < length (pending_notifications s)) \<and>
     next_sequence_number s' = next_sequence_number s + 1 \<and> last_publish_time s' = Some now \<and>
     0 < k \<and> k \<le> kMaxNotificationsPerPublishResponse \<and>
     (max_notifications_per_publish (sub_parameters s) = 0 \<or>
        k \<le> unat (max_notifications_per_publish (sub_parameters s)))"
proof (intro exI conjI)
  show "TryPublish now s = (Some (fst (publish_data now s)), snd (publish_data now s))"
    using try_publish_ready [OF assms(1)] assms(2,3) by simp
  show "max_notifications_per_publish (sub_parameters s) = 0 \<or>
        publish_count s \<le> unat (max_notifications_per_publish (sub_parameters s))"
    by (auto simp: publish_count_def Let_def)
qed (simp_all add: publish_data_result publish_count_pos assms(3) publish_count_le)

theorem publish_fifo_witness:
  "\<exists>r s' k. TryPublish example_now example_sub = (Some r, s') \<and> 0 < k \<and>
     notification_data (pr_message r) = map snd (take k (pending_notifications example_sub)) \<and>
     pending_notifications s' = drop k (pending_notifications example_sub)"
proof -
  have "IsPublishReady example_now example_sub" by code_simp
  moreover have "publishing_enabled (sub_parameters example_sub)" by code_simp
  moreover have "pending_notifications example_sub \<noteq> []" by code_simp
  ultimately show ?thesis using publish_fifo [of example_now example_sub] by fastforce
qed

text \<open>
  C23. The retransmission queue of every reachable subscription: the count the code keeps
  beside the queue is the number of notifications held, the bound of 1024 holds, and no
  held message is empty or has more than 1000 notifications.
\<close>

theorem retransmission_bounded:
  assumes "sub_reachable create w"
  shows "retained_notifications (ws w) =
       sum_list (map (\<lambda>m. length (notification_data m)) (retransmit_queue (ws w))) \<and>
     retained_notifications (ws w) \<le> kMaxRetransmitQueueNotifications \<and>
     (\<forall>m\<in>set (retransmit_queue (ws w)). notification_data m \<noteq> [] \<and>
        length (notification_data m) \<le> kMaxNotificationsPerPublishResponse)"
proof -
  have "retransmit_inv (ws w)"
    using assms
  proof induction
    case (reach_init sid p start)
    then show ?case by (simp add: retransmit_inv_def ServerSubscription_def)
  next
    case (reach_step w w')
    then show ?case using sub_step_retransmit by blast
  qed
  then show ?thesis by (simp add: retransmit_inv_def total_retained_def)
qed

definition example_published :: sub_world where
  "example_published = on_sub (\<lambda>s. snd (TryPublish example_now s))
     (on_sub (\<lambda>s. snd (ReadBackingSubscription 0
         (Inr (map (\<lambda>n. MonitoredItemNotification 1 (example_value n)) [1, 2, 3])) s))
       (on_sub (\<lambda>s. snd (CreateMonitoredItems always_created 7 [example_request] s))
         \<lparr>ws = ServerSubscription 7 example_parameters 0, answered = {}, granted = {}\<rparr>))"

lemma example_published_reachable: "sub_reachable always_created example_published"
  unfolding example_published_def
  by (intro reach_step [OF _ step_publish] reach_step [OF _ step_read]
      reach_step [OF _ step_create] reach_init)

theorem retransmission_bounded_witness:
  "sub_reachable always_created example_published \<and>
   length (retransmit_queue (ws example_published)) = 1 \<and>
   retained_notifications (ws example_published) \<le> kMaxRetransmitQueueNotifications"
proof -
  have "length (retransmit_queue (ws example_published)) = 1" by code_simp
  then show ?thesis
    using retransmission_bounded [OF example_published_reachable] example_published_reachable
    by blast
qed

text \<open>
  C24. Republish finds exactly what Publish says is available. After a publish that
  carried data (not a keep-alive), from a subscription whose retained messages are numbered in
  order below the next sequence number, the message just sent can be republished unchanged, and for every
  sequence number Republish answers Good if and only if that number is in the
  \<open>availableSequenceNumbers\<close> of the response (sequence numbers not having wrapped); and the
  numbering stays in order.
\<close>

theorem published_is_republishable:
  assumes "TryPublish now s = (Some r, s')" "notification_data (pr_message r) \<noteq> []"
    and "seq_inv s" "next_sequence_number s \<noteq> - 1"
  shows "Republish (sequence_number (pr_message r)) s' =
       RepublishResponse (status_of_code Good) (pr_message r) \<and>
     (\<forall>n. rp_status (Republish n s') =
        status_of_code (if n \<in> set (available_sequence_numbers r) then Good
                        else Bad_MessageNotAvailable)) \<and> seq_inv s'"
proof -
  define s1 where "s1 = PrimePublishCycle now s"
  have r: "r = fst (publish_data now s1)" "s' = snd (publish_data now s1)"
    using try_publish_cases [of now s] assms(1,2)
    by (auto simp: Let_def publish_keep_alive_def s1_def)
  have "seq_inv s1" "next_sequence_number s1 \<noteq> - 1"
    using assms(3,4) by (simp_all add: s1_def seq_inv_def AvailableSequenceNumbers_def)
  then have seq: "seq_inv s'" unfolding r(2) by (rule publish_data_seq_inv)
  then have d: "distinct (AvailableSequenceNumbers s')"
    by (simp add: seq_inv_def sorted_wrt_less_distinct)
  have "pr_message r \<in> set (retransmit_queue s')"
    using publish_data_newest [of now s1] by (auto simp: r)
  then have "Republish (sequence_number (pr_message r)) s' =
       RepublishResponse (status_of_code Good) (pr_message r)"
    using d by (rule republish_held [rotated])
  moreover have "rp_status (Republish n s') =
      status_of_code (if n \<in> set (available_sequence_numbers r) then Good
        else Bad_MessageNotAvailable)" for n
    using find_sequence_none [of n "retransmit_queue s'"] publish_data_result(4) [of now s1]
    by (auto simp: Republish_def r AvailableSequenceNumbers_def split: option.split)
  ultimately show ?thesis using seq by blast
qed

theorem published_is_republishable_witness:
  "\<exists>r s'. TryPublish example_now example_sub = (Some r, s') \<and>
     Republish 1 s' = RepublishResponse (status_of_code Good) (pr_message r)"
proof -
  let ?r = "the (fst (TryPublish example_now example_sub))"
  let ?s = "snd (TryPublish example_now example_sub)"
  have "fst (TryPublish example_now example_sub) \<noteq> None" by code_simp
  then have t: "TryPublish example_now example_sub = (Some ?r, ?s)"
    by (cases "TryPublish example_now example_sub") auto
  have "notification_data (pr_message ?r) \<noteq> []" by code_simp
  moreover have "seq_inv example_sub" by code_simp
  moreover have "next_sequence_number example_sub \<noteq> - 1" by code_simp
  moreover have "sequence_number (pr_message ?r) = 1" by code_simp
  ultimately show ?thesis using published_is_republishable [OF t] t by auto
qed

text \<open>
  Acknowledging. A sequence number that is held is acknowledged with Good: it is then
  no longer available, no longer republished and unknown to a second acknowledgement,
  and every other held message stays in its place. A number that is not held is
  answered Bad_SequenceNumberUnknown and changes nothing.
\<close>

lemma acknowledge_releases:
  assumes "seq_inv s"
  shows "(if n \<in> set (AvailableSequenceNumbers s)
    then (\<exists>s'. Acknowledge1 n s = (Good, s') \<and>
      AvailableSequenceNumbers s' = removeAll n (AvailableSequenceNumbers s) \<and>
      rp_status (Republish n s') = status_of_code Bad_MessageNotAvailable \<and>
      fst (Acknowledge1 n s') = Bad_SequenceNumberUnknown \<and>
      (\<forall>k. k \<noteq> n \<longrightarrow> Republish k s' = Republish k s))
    else Acknowledge1 n s = (Bad_SequenceNumberUnknown, s))"
proof (cases "find (\<lambda>m. sequence_number m = n) (retransmit_queue s)")
  case None
  then show ?thesis
    using find_sequence_none [of n "retransmit_queue s"]
    by (simp add: Acknowledge1_def AvailableSequenceNumbers_def)
next
  case (Some m)
  let ?s = "snd (Acknowledge1 n s)"
  have mem: "n \<in> set (AvailableSequenceNumbers s)"
    using find_in_set [OF Some] by (auto simp: AvailableSequenceNumbers_def)
  have d: "distinct (map sequence_number (retransmit_queue s))"
    using assms by (simp add: seq_inv_def sorted_wrt_less_distinct AvailableSequenceNumbers_def)
  have av: "AvailableSequenceNumbers ?s = removeAll n (AvailableSequenceNumbers s)"
    using Some erase_message_numbers [OF d]
    by (simp add: Acknowledge1_def AvailableSequenceNumbers_def)
  then have none: "find (\<lambda>m. sequence_number m = n) (retransmit_queue ?s) = None"
    unfolding find_sequence_none by (simp add: AvailableSequenceNumbers_def)
  have "find (\<lambda>m. sequence_number m = k) (erase_message n q) =
      find (\<lambda>m. sequence_number m = k) q" if "k \<noteq> n" for k q
    using that by (induction q) auto
  then have others: "\<forall>k. k \<noteq> n \<longrightarrow> Republish k ?s = Republish k s"
    using Some by (simp add: Republish_def Acknowledge1_def)
  have "Acknowledge1 n s = (Good, ?s)" using Some by (simp add: Acknowledge1_def)
  then show ?thesis using mem av none others by (auto simp: Republish_def Acknowledge1_def)
qed

text \<open>
  The queue of an item. Queueing a notification appends it to the item's queue; over
  the limit \<open>max 1 queue_size\<close> the oldest of the item's notifications goes, or the new one
  when \<open>discard_oldest\<close> is off. So a queue within its limit stays within it, and the
  notifications of the other items are untouched, in order and number.
\<close>

lemma item_queue_bounded:
  fixes it s d
  defines "k \<equiv> monitored_item_id it" and "q \<equiv> pending_notifications s"
    and "q' \<equiv> pending_notifications (QueueNotification it d s)"
    and "limit \<equiv> max 1 (unat (queue_size (it_parameters it)))"
  shows "of_item k q' = (if length (of_item k q) < limit then of_item k q @ [(k, d)]
       else if discard_oldest (it_parameters it) then tl (of_item k q) @ [(k, d)]
       else of_item k q) \<and>
     not_of_item k q' = not_of_item k q \<and>
     length (of_item k q') \<le> max limit (length (of_item k q))"
proof -
  have ne: "of_item k q \<noteq> []" if "\<not> length (of_item k q) < limit"
    using that by (auto simp: limit_def)
  have "of_item k q' = bounded_append it (of_item k q) d \<and> not_of_item k q' = not_of_item k q"
    unfolding k_def q_def q'_def by (rule queue_notification_queue)
  then show ?thesis
    using ne by (cases "of_item k q")
      (auto simp: bounded_append_def Let_def limit_def simp flip: k_def)
qed

text \<open>
  C4. No binding on the backing subscription is stranded. In every reachable state, every
  backing item id that an answer to a bind handed out is held by a monitored item or
  has been released by \<open>RemoveItems\<close>, whatever the order of creates, rebinds, deletes and
  late answers; and no two items share a backing handle, so a notification has one item
  (fewer than 2 ^ 32 - 1 items and binds so far: beyond that the 32-bit counters wrap).
\<close>

theorem no_stranded_binding:
  assumes "create_ok create" "sub_reachable create w" "no_wrap (ws w)"
  shows "(\<forall>g\<in>granted w. g = 0 \<or> RemoveItems g \<in> set (backing_calls (ws w)) \<or>
       (\<exists>it\<in>snd ` set (items (ws w)). backing_item_id it = g)) \<and>
     distinct (map (\<lambda>(_, it). backing_client_handle it) (items (ws w)))"
proof -
  note inv = sub_reachable_bind_inv [OF assms]
  have "map (\<lambda>(k, i, h, b). h) (view (ws w)) =
      map (\<lambda>(_, it). backing_client_handle it) (items (ws w))"
    by (simp add: view_def item_view_def split_beta)
  moreover have "\<exists>it\<in>snd ` set (items (ws w)). backing_item_id it = g"
    if "(k, i, h, g) \<in> set (view (ws w))" for k i h g
    using that by (force simp: view_def item_view_def)
  ultimately show ?thesis using inv unfolding bind_inv_def by fastforce
qed

definition example_deleted :: sub_world where
  "example_deleted = answer_bind 0 (Some 0) 1 [ItemCreateResult (status_of_code Good) 77 0 1]
     (on_sub (\<lambda>s. snd (DeleteMonitoredItems 7 [1] s))
       (on_sub (\<lambda>s. snd (CreateMonitoredItems always_created 7 [example_request] s))
         \<lparr>ws = ServerSubscription 7 example_parameters 0, answered = {}, granted = {}\<rparr>))"

text \<open>The item is deleted while its bind is in flight; the late answer releases item 77.\<close>

lemma example_deleted_reachable: "sub_reachable always_created example_deleted"
  unfolding example_deleted_def
proof (rule reach_step [OF _ step_bind])
  let ?w = "on_sub (\<lambda>s. snd (DeleteMonitoredItems 7 [1] s))
       (on_sub (\<lambda>s. snd (CreateMonitoredItems always_created 7 [example_request] s))
         \<lparr>ws = ServerSubscription 7 example_parameters 0, answered = {}, granted = {}\<rparr>)"
  show "sub_reachable always_created ?w"
    by (intro reach_step [OF _ step_delete] reach_step [OF _ step_create] reach_init)
  show "AddItems (Some 0) 1 (example_request\<lparr>requested_parameters :=
      example_monitoring\<lparr>client_handle := 1\<rparr>\<rparr>) \<in> set (backing_calls (ws ?w))" by code_simp
qed simp

theorem no_stranded_binding_witness:
  "77 \<in> granted example_deleted \<and> RemoveItems 77 \<in> set (backing_calls (ws example_deleted))"
proof -
  have "create_ok always_created" by (simp add: create_ok_def)
  moreover have "next_object (ws example_deleted) = 1" by code_simp
  moreover have "length (add_handles (backing_calls (ws example_deleted))) = 1" by code_simp
  moreover have "77 \<in> granted example_deleted" by code_simp
  moreover have "items (ws example_deleted) = []" by code_simp
  ultimately show ?thesis
    using no_stranded_binding [OF _ example_deleted_reachable] by (force simp: no_wrap_def)
qed

text \<open>
  A keep-alive. When a subscription is ready but has nothing it may publish, the answer
  is an empty message that shows the next sequence number without using it up; no queue
  changes.
\<close>

lemma keep_alive_takes_nothing:
  assumes "IsPublishReady now s"
    and "\<not> publishing_enabled (sub_parameters s) \<or> pending_notifications s = []"
  shows "\<exists>r. TryPublish now s = (Some r, s\<lparr>last_publish_time := Some now, initial_message_sent := True\<rparr>) \<and>
     pr_status r = status_of_code Good \<and>
     pr_message r = NotificationMessage (next_sequence_number s) now [] \<and>
     \<not> more_notifications r \<and> available_sequence_numbers r = AvailableSequenceNumbers s"
  using try_publish_ready [OF assms(1)] assms(2) by (auto simp: publish_keep_alive_def)

text \<open>
  Revised parameters. For a keep-alive count of at most 1431655765 the revised lifetime
  is at least three keep-alive intervals and at least what was asked for, the keep-alive
  count is positive, the other parameters are kept, and revising again changes nothing.
\<close>

lemma revised_parameters:
  assumes "unat (max_keep_alive_count p) \<le> 1431655765"
  shows "0 < unat (max_keep_alive_count (ReviseParameters p)) \<and>
     3 * unat (max_keep_alive_count (ReviseParameters p)) \<le> unat (lifetime_count (ReviseParameters p)) \<and>
     lifetime_count p \<le> lifetime_count (ReviseParameters p) \<and>
     publishing_interval_ms (ReviseParameters p) = publishing_interval_ms p \<and>
     max_notifications_per_publish (ReviseParameters p) = max_notifications_per_publish p \<and>
     publishing_enabled (ReviseParameters p) = publishing_enabled p \<and>
     ReviseParameters (ReviseParameters p) = ReviseParameters p"
proof -
  let ?q = "ReviseParameters p"
  have k: "unat (max_keep_alive_count ?q) \<le> 1431655765"
    using assms by (simp add: revised_keep_alive)
  have "unat (3 * max_keep_alive_count ?q) \<le> unat (lifetime_count ?q)"
    by (simp add: revised_lifetime word_le_nat_alt [symmetric])
  then have "3 * unat (max_keep_alive_count ?q) \<le> unat (lifetime_count ?q)"
    by (simp only: unat_triple [OF k])
  moreover have "0 < unat (max_keep_alive_count ?q)"
    using revised_keep_alive_pos by (simp add: unat_gt_0)
  moreover have "ReviseParameters ?q = ?q"
    by (auto simp: ReviseParameters_def Let_def)
  moreover have "publishing_interval_ms ?q = publishing_interval_ms p"
    "max_notifications_per_publish ?q = max_notifications_per_publish p"
    "publishing_enabled ?q = publishing_enabled p"
    by (simp_all add: ReviseParameters_def Let_def)
  ultimately show ?thesis by (simp add: revised_lifetime)
qed

section \<open>Corners of the arithmetic\<close>

text \<open>
  Above that count the product wraps at 32 bits: 0x55555556 keep-alives get a lifetime of
  two publishing intervals.
\<close>

lemma revised_lifetime_wraps:
  "lifetime_count (ReviseParameters (example_parameters\<lparr>max_keep_alive_count := 0x55555556\<rparr>)) = 2"
  by code_simp

text \<open>
  At present-day instants a double has a resolution of 16 ticks, so at the very instant
  \<open>NextPublishDeadline\<close> names, \<open>IsPublishReady\<close> may still say no.
\<close>

lemma deadline_before_ready:
  "let s = ServerSubscription 1 (example_parameters\<lparr>publishing_interval_ms := 0x3FF0000000000000\<rparr>)
             130000000000000024
   in NextPublishDeadline s = Some 130000000000010024 \<and> \<not> IsPublishReady 130000000000010024 s"
  by code_simp

text \<open>A deadband never holds back a Float: \<open>Variant::get(Double&)\<close> does not read one.\<close>

lemma float_ignores_deadband:
  assumes "dv_value dv = Scalar (BFloat x)" shows "PassesDeadband it dv"
  using assms
  by (simp add: PassesDeadband_def split: option.split monitoring_filter.split)

end
