(* ===== verification/Ua_Session.thy ===== *)
theory Ua_Session
  imports Ua_Subscription Ua_Codec
begin

text \<open>
  \<^verbatim>\<open>session/server_session.{h,cpp}\<close>: the subscriptions of one session, the order in which
  they are asked to publish, the acknowledgements of a Publish request, the transfer of
  subscriptions from another session, and the continuation points of Browse.

  \<open>subscriptions\<close> lists the entries of the \<open>std::unordered_map\<close>; nothing below depends on
  their order. A subscription that is erased is destroyed, which closes its backing
  subscription: \<open>closed_subscriptions\<close> keeps the final state of each. The clock \<open>now\<close> is an
  argument. A reference description is only moved around, hence the type variable.
\<close>

section \<open>State\<close>

record service_context =
  sc_user_id :: node_id
  sc_user_rights :: u32
  sc_trace_id :: bytes
  sc_peer :: bytes

abbreviation default_service_context :: service_context where
  "default_service_context \<equiv> \<lparr>sc_user_id = null_node_id, sc_user_rights = 0, sc_trace_id = [],
     sc_peer = []\<rparr>"

datatype 'r browse_result =
  BrowseResult (br_status: status) (continuation_point: bytes) (br_references: "'r list")

abbreviation kMaxBrowseContinuationPoints :: nat where "kMaxBrowseContinuationPoints \<equiv> 100"

record 'r session =
  ss_session_id :: node_id
  ss_authentication_token :: node_id
  ss_service_context :: service_context
  max_monitored_items_per_call :: u32
  subscriptions :: "(u32 \<times> subscription) list"
  browse_continuations :: "(bytes \<times> 'r list) list"
  publish_order :: "u32 list"
  next_subscription_id :: u32
  next_publish_index :: nat
  next_browse_continuation_id :: u32
  closed_subscriptions :: "subscription list"

definition ServerSession :: "node_id \<Rightarrow> node_id \<Rightarrow> service_context \<Rightarrow> u32 \<Rightarrow> 'r session" where
  "ServerSession sid token ctx limit = \<lparr>ss_session_id = sid, ss_authentication_token = token,
     ss_service_context = ctx, max_monitored_items_per_call = limit, subscriptions = [],
     browse_continuations = [], publish_order = [], next_subscription_id = 1,
     next_publish_index = 0, next_browse_continuation_id = 1, closed_subscriptions = []\<rparr>"

definition SetServiceContext :: "service_context \<Rightarrow> 'r session \<Rightarrow> 'r session" where
  "SetServiceContext c s = s\<lparr>ss_service_context := c\<rparr>"

section \<open>Subscriptions\<close>

definition FindSubscription :: "u32 \<Rightarrow> 'r session \<Rightarrow> subscription option" where
  "FindSubscription sid s = map_of (subscriptions s) sid"

definition HasSubscription :: "u32 \<Rightarrow> 'r session \<Rightarrow> bool" where
  "HasSubscription sid s \<longleftrightarrow> FindSubscription sid s \<noteq> None"

definition GetSubscriptionIds :: "'r session \<Rightarrow> u32 list" where
  "GetSubscriptionIds s = filter (\<lambda>sid. HasSubscription sid s) (publish_order s)"

definition put_subscription :: "u32 \<Rightarrow> subscription \<Rightarrow> 'r session \<Rightarrow> 'r session" where
  "put_subscription sid x s = s\<lparr>subscriptions := AList.update sid x (subscriptions s)\<rparr>"

datatype create_subscription_response = CreateSubscriptionResponse (cs_status: status)
  (cs_subscription_id: u32) (cs_publishing_interval_ms: double) (cs_lifetime_count: u32)
  (cs_max_keep_alive_count: u32)

text \<open>\<open>emplace\<close> keeps the entry of an id that is already taken; the new subscription is then destroyed.\<close>

definition CreateSubscriptionWithId :: "date_time \<Rightarrow> u32 \<Rightarrow> subscription_parameters \<Rightarrow> 'r session
    \<Rightarrow> create_subscription_response \<times> 'r session" where
  "CreateSubscriptionWithId now sid p s =
     (let x = ServerSubscription sid p now; q = sub_parameters x;
          s1 = s\<lparr>next_subscription_id := max (next_subscription_id s) (sid + 1)\<rparr>;
          s2 = (if HasSubscription sid s
                then s1\<lparr>closed_subscriptions := closed_subscriptions s1 @ [destroy x]\<rparr>
                else put_subscription sid x s1)
      in (CreateSubscriptionResponse (status_of_code Good) sid (publishing_interval_ms q)
            (lifetime_count q) (max_keep_alive_count q),
          s2\<lparr>publish_order := publish_order s2 @ [sid]\<rparr>))"

definition CreateSubscription :: "date_time \<Rightarrow> subscription_parameters \<Rightarrow> 'r session
    \<Rightarrow> create_subscription_response \<times> 'r session" where
  "CreateSubscription now p s = CreateSubscriptionWithId now (next_subscription_id s) p
     (s\<lparr>next_subscription_id := next_subscription_id s + 1\<rparr>)"

definition ModifySubscription :: "u32 \<Rightarrow> subscription_parameters \<Rightarrow> 'r session
    \<Rightarrow> modify_subscription_response \<times> 'r session" where
  "ModifySubscription sid p s = (case FindSubscription sid s of
       None \<Rightarrow> (ModifySubscriptionResponse (status_of_code Bad_SubscriptionIdInvalid) 0 0 0, s)
     | Some x \<Rightarrow> (let (r, x') = Modify sid p x in (r, put_subscription sid x' s)))"

fun SetPublishingMode :: "bool \<Rightarrow> u32 list \<Rightarrow> 'r session \<Rightarrow> status list \<times> 'r session" where
  "SetPublishingMode b [] s = ([], s)"
| "SetPublishingMode b (sid # sids) s = (case FindSubscription sid s of
       None \<Rightarrow> (let (rs, s') = SetPublishingMode b sids s
                in (status_of_code Bad_SubscriptionIdInvalid # rs, s'))
     | Some x \<Rightarrow> (let (rs, s') = SetPublishingMode b sids
           (put_subscription sid (SetPublishingEnabled b x) s)
         in (status_of_code Good # rs, s')))"

text \<open>The map entry and the place in the publish order go, and the cursor is put right.\<close>

definition erase_order :: "u32 \<Rightarrow> u32 list \<Rightarrow> nat \<Rightarrow> u32 list \<times> nat" where
  "erase_order sid order cursor =
     (if sid \<notin> set order then (order, cursor)
      else let index = length (takeWhile (\<lambda>x. x \<noteq> sid) order);
          order' = take index order @ drop (Suc index) order in
        if order' = [] then (order', 0)
        else let c = (if index < cursor then cursor - 1 else cursor)
             in (order', if length order' \<le> c then 0 else c))"

definition erase_entry :: "u32 \<Rightarrow> 'r session \<Rightarrow> 'r session" where
  "erase_entry sid s = (let (order, cursor) = erase_order sid (publish_order s) (next_publish_index s)
     in s\<lparr>subscriptions := AList.delete sid (subscriptions s), publish_order := order,
          next_publish_index := cursor\<rparr>)"

definition EraseSubscription :: "u32 \<Rightarrow> 'r session \<Rightarrow> 'r session" where
  "EraseSubscription sid s = (let s' = erase_entry sid s in
     case FindSubscription sid s of None \<Rightarrow> s'
     | Some x \<Rightarrow> s'\<lparr>closed_subscriptions := closed_subscriptions s' @ [destroy x]\<rparr>)"

fun DeleteSubscriptions :: "u32 list \<Rightarrow> 'r session \<Rightarrow> status list \<times> 'r session" where
  "DeleteSubscriptions [] s = ([], s)"
| "DeleteSubscriptions (sid # sids) s =
     (if \<not> HasSubscription sid s
      then (let (rs, s') = DeleteSubscriptions sids s
            in (status_of_code Bad_SubscriptionIdInvalid # rs, s'))
      else (let (rs, s') = DeleteSubscriptions sids (EraseSubscription sid s)
            in (status_of_code Good # rs, s')))"

definition RefreshNextSubscriptionId :: "'r session \<Rightarrow> 'r session" where
  "RefreshNextSubscriptionId s = s\<lparr>next_subscription_id :=
     fold (\<lambda>(sid, _) n. max n (sid + 1)) (subscriptions s) (next_subscription_id s)\<rparr>"

text \<open>
  The transferred \<open>unique_ptr\<close> is moved out of the source's entry before that entry is
  erased, so the subscription is not destroyed.
\<close>

definition receive :: "u32 \<Rightarrow> subscription \<Rightarrow> 'r session \<Rightarrow> 'r session" where
  "receive sid x target = (put_subscription sid x target)\<lparr>publish_order := publish_order target @ [sid]\<rparr>"

fun transfer_each :: "u32 list \<Rightarrow> 'r session \<Rightarrow> 'r session \<Rightarrow> status list \<times> 'r session \<times> 'r session" where
  "transfer_each [] source target = ([], source, target)"
| "transfer_each (sid # sids) source target =
     (if HasSubscription sid target
      then (let (rs, w) = transfer_each sids source target in (status_of_code Bad # rs, w))
      else case FindSubscription sid source of
        None \<Rightarrow> (let (rs, w) = transfer_each sids source target
                 in (status_of_code Bad_SubscriptionIdInvalid # rs, w))
      | Some x \<Rightarrow> (let (rs, w) = transfer_each sids (erase_entry sid source) (receive sid x target)
          in (status_of_code Good # rs, w)))"

definition TransferSubscriptionsFrom :: "u32 list \<Rightarrow> 'r session \<Rightarrow> 'r session
    \<Rightarrow> status list \<times> 'r session \<times> 'r session" where
  "TransferSubscriptionsFrom sids source target =
     (let (rs, source', target') = transfer_each sids source target
      in (rs, source', RefreshNextSubscriptionId target'))"

section \<open>Monitored items\<close>

definition CreateMonitoredItemsS :: "(nat \<Rightarrow> status option) \<Rightarrow> u32 \<Rightarrow> item_create_request list
    \<Rightarrow> 'r session \<Rightarrow> (status \<times> item_create_result list) \<times> 'r session" where
  "CreateMonitoredItemsS create sid rs s =
     (if unat (max_monitored_items_per_call s) < length rs
      then ((status_of_code Bad_TooManyMonitoredItems, []), s)
      else case FindSubscription sid s of
        None \<Rightarrow> ((status_of_code Bad_SubscriptionIdInvalid, []), s)
      | Some x \<Rightarrow> (let (r, x') = CreateMonitoredItems create sid rs x
                   in (r, put_subscription sid x' s)))"

definition ModifyMonitoredItemsS :: "(nat \<Rightarrow> status option) \<Rightarrow> u32
    \<Rightarrow> (u32 \<times> monitoring_parameters) list \<Rightarrow> 'r session
    \<Rightarrow> (status \<times> item_modify_result list) \<times> 'r session" where
  "ModifyMonitoredItemsS create sid ms s = (case FindSubscription sid s of
       None \<Rightarrow> ((status_of_code Bad_SubscriptionIdInvalid, []), s)
     | Some x \<Rightarrow> (let (r, x') = ModifyMonitoredItems create sid ms x
                  in (r, put_subscription sid x' s)))"

definition DeleteMonitoredItemsS :: "u32 \<Rightarrow> u32 list \<Rightarrow> 'r session
    \<Rightarrow> (status \<times> status list) \<times> 'r session" where
  "DeleteMonitoredItemsS sid ks s = (case FindSubscription sid s of
       None \<Rightarrow> ((status_of_code Bad_SubscriptionIdInvalid, []), s)
     | Some x \<Rightarrow> (let (r, x') = DeleteMonitoredItems sid ks x in (r, put_subscription sid x' s)))"

definition SetMonitoringModeS :: "u32 \<Rightarrow> u32 \<Rightarrow> u32 list \<Rightarrow> 'r session
    \<Rightarrow> (status \<times> status list) \<times> 'r session" where
  "SetMonitoringModeS sid mode ks s = (case FindSubscription sid s of
       None \<Rightarrow> ((status_of_code Bad_SubscriptionIdInvalid, []), s)
     | Some x \<Rightarrow> (let (r, x') = SetMonitoringMode sid mode ks x in (r, put_subscription sid x' s)))"

section \<open>Publish\<close>

definition add_to_group :: "'k \<Rightarrow> 'a \<Rightarrow> ('k \<times> 'a list) list \<Rightarrow> ('k \<times> 'a list) list" where
  "add_to_group k x g = AList.update k ((case map_of g k of None \<Rightarrow> [] | Some xs \<Rightarrow> xs) @ [x]) g"

text \<open>
  The first loop of \<open>AcknowledgePublishRequest\<close>: an unknown subscription is answered, the
  other acknowledgements are grouped by subscription with their index in the request.
\<close>

fun group_acks :: "'r session \<Rightarrow> nat \<Rightarrow> (u32 \<times> u32) list \<Rightarrow> status_code list
    \<Rightarrow> (u32 \<times> (nat \<times> u32) list) list \<Rightarrow> status_code list \<times> (u32 \<times> (nat \<times> u32) list) list" where
  "group_acks s i [] rs g = (rs, g)"
| "group_acks s i ((sid, n) # acks) rs g =
     (if HasSubscription sid s then group_acks s (Suc i) acks rs (add_to_group sid (i, n) g)
      else group_acks s (Suc i) acks (rs[i := Bad_SubscriptionIdInvalid]) g)"

fun store_results :: "(nat \<times> u32) list \<Rightarrow> status_code list \<Rightarrow> status_code list
    \<Rightarrow> status_code list" where
  "store_results ((i, n) # grp) (c # codes) rs = store_results grp codes (rs[i := c])"
| "store_results _ _ rs = rs"

definition ack_group :: "u32 \<times> (nat \<times> u32) list \<Rightarrow> status_code list \<times> 'r session
    \<Rightarrow> status_code list \<times> 'r session" where
  "ack_group = (\<lambda>(sid, grp) (rs, s). case FindSubscription sid s of None \<Rightarrow> (rs, s)
     | Some x \<Rightarrow> (let (codes, x') = Acknowledge (map snd grp) x
                  in (store_results grp codes rs, put_subscription sid x' s)))"

definition AcknowledgePublishRequest :: "(u32 \<times> u32) list \<Rightarrow> 'r session
    \<Rightarrow> status_code list \<times> 'r session" where
  "AcknowledgePublishRequest acks s =
     (let (rs, g) = group_acks s 0 acks (replicate (length acks) Good) []
      in fold ack_group g (rs, s))"

text \<open>The indices from the cursor once around.\<close>

definition cycle_from :: "nat \<Rightarrow> nat \<Rightarrow> nat list" where
  "cycle_from c n = map (\<lambda>offset. (c + offset) mod n) [0..<n]"

definition eligible :: "date_time \<Rightarrow> bool \<Rightarrow> 'r session \<Rightarrow> nat \<Rightarrow> bool" where
  "eligible now require_pending s index =
     (case FindSubscription (publish_order s ! index) s of None \<Rightarrow> False
      | Some x \<Rightarrow> (require_pending \<longrightarrow> HasPendingNotifications x) \<and> IsPublishReady now x)"

definition FindNextReadySubscription :: "date_time \<Rightarrow> bool \<Rightarrow> 'r session \<Rightarrow> nat option" where
  "FindNextReadySubscription now require_pending s =
     find (eligible now require_pending s)
       (cycle_from (next_publish_index s) (length (publish_order s)))"

definition AdvancePublishCursorAfter :: "nat \<Rightarrow> 'r session \<Rightarrow> 'r session" where
  "AdvancePublishCursorAfter index s = s\<lparr>next_publish_index :=
     (if publish_order s = [] then 0 else (index + 1) mod length (publish_order s))\<rparr>"

text \<open>One round of the loop that computes how long to wait.\<close>

definition wait_round :: "date_time \<Rightarrow> u32 \<Rightarrow> (date_time option \<times> duration option) \<times> 'r session
    \<Rightarrow> (date_time option \<times> duration option) \<times> 'r session" where
  "wait_round now sid = (\<lambda>((earliest, recheck), s). case FindSubscription sid s of
       None \<Rightarrow> ((earliest, recheck), s)
     | Some x \<Rightarrow> (let x' = PrimePublishCycle now x; s' = put_subscription sid x' s;
           interval = PublishingInterval x' in
         case NextPublishDeadline x' of None \<Rightarrow> ((earliest, recheck), s')
         | Some deadline \<Rightarrow>
            ((case earliest of None \<Rightarrow> Some deadline
              | Some e \<Rightarrow> if time_less deadline e then Some deadline else Some e,
              case recheck of None \<Rightarrow> Some interval
              | Some d \<Rightarrow> if f64_less interval d then Some interval else Some d), s')))"

datatype poll_result = PollResult (poll_response: "publish_response option")
  (wait_for: "duration option")

definition poll_wait :: "date_time \<Rightarrow> 'r session \<Rightarrow> poll_result \<times> 'r session" where
  "poll_wait now s =
     (if subscriptions s = [] then (PollResult (Some (publish_status Bad_NoSubscription)) None, s)
      else let ((earliest, recheck), s') = fold (wait_round now) (publish_order s) ((None, None), s) in
        case earliest of None \<Rightarrow> (PollResult (Some (publish_status Good)) None, s')
        | Some e \<Rightarrow> (let left = time_minus e now;
              wait = (if f64_less duration_zero left then left else duration_zero) in
            (PollResult None (Some (case recheck of None \<Rightarrow> wait
               | Some d \<Rightarrow> if f64_less d wait then d else wait)), s')))"

text \<open>The subscription to publish: one with notifications if there is one, else any that is ready.\<close>

definition publish_index :: "date_time \<Rightarrow> 'r session \<Rightarrow> nat option" where
  "publish_index now s = (case FindNextReadySubscription now True s of Some i \<Rightarrow> Some i
     | None \<Rightarrow> FindNextReadySubscription now False s)"

definition PollPublish :: "date_time \<Rightarrow> 'r session \<Rightarrow> poll_result \<times> 'r session" where
  "PollPublish now s =
     (case publish_index now s of
        None \<Rightarrow> poll_wait now s
      | Some index \<Rightarrow> (let sid = publish_order s ! index in
          case FindSubscription sid s of
            None \<Rightarrow> (PollResult (Some (publish_status Bad)) None, s)
          | Some x \<Rightarrow> (case TryPublish now x of
              (None, x') \<Rightarrow> (PollResult (Some (publish_status Good)) None, put_subscription sid x' s)
            | (Some r, x') \<Rightarrow> (PollResult (Some r) None,
                AdvancePublishCursorAfter index (put_subscription sid x' s)))))"

definition Publish :: "date_time \<Rightarrow> (u32 \<times> u32) list \<Rightarrow> 'r session \<Rightarrow> publish_response \<times> 'r session" where
  "Publish now acks s = (let (rs, s1) = AcknowledgePublishRequest acks s;
       (p, s2) = PollPublish now s1 in
     case poll_response p of
       None \<Rightarrow> ((publish_status (if subscriptions s2 = [] then Bad_NoSubscription else Good))
                  \<lparr>pr_results := rs\<rparr>, s2)
     | Some r \<Rightarrow> (r\<lparr>pr_results := rs\<rparr>, s2))"

definition RepublishS :: "u32 \<Rightarrow> u32 \<Rightarrow> 'r session \<Rightarrow> republish_response" where
  "RepublishS sid n s = (case FindSubscription sid s of
       None \<Rightarrow> RepublishResponse (status_of_code Bad_SubscriptionIdInvalid) empty_message
     | Some x \<Rightarrow> Republish n x)"

section \<open>Browse continuation points\<close>

definition MakeBrowseContinuationPoint :: "'r session \<Rightarrow> bytes \<times> 'r session" where
  "MakeBrowseContinuationPoint s = (enc_u32 (next_browse_continuation_id s),
     s\<lparr>next_browse_continuation_id := next_browse_continuation_id s + 1\<rparr>)"

definition PageBrowseResult :: "nat \<Rightarrow> 'r browse_result \<Rightarrow> 'r session
    \<Rightarrow> 'r browse_result \<times> 'r session" where
  "PageBrowseResult limit r s =
     (if limit = 0 \<or> length (br_references r) \<le> limit
      then (BrowseResult (br_status r) [] (br_references r), s)
      else if kMaxBrowseContinuationPoints \<le> length (browse_continuations s)
      then (BrowseResult (status_of_code Bad_NoContinuationPoints) [] [], s)
      else let (cp, s1) = MakeBrowseContinuationPoint s;
          s2 = (if map_of (browse_continuations s1) cp = None
                then s1\<lparr>browse_continuations := browse_continuations s1 @
                         [(cp, drop limit (br_references r))]\<rparr> else s1)
        in (BrowseResult (br_status r) cp (take limit (br_references r)), s2))"

fun page_results :: "nat \<Rightarrow> 'r browse_result list \<Rightarrow> 'r session
    \<Rightarrow> 'r browse_result list \<times> 'r session" where
  "page_results limit [] s = ([], s)"
| "page_results limit (r # rs) s = (let (r', s1) = PageBrowseResult limit r s;
     (rs', s2) = page_results limit rs s1 in (r' # rs', s2))"

definition StoreBrowseResults :: "nat \<Rightarrow> 'r browse_result list \<Rightarrow> 'r session
    \<Rightarrow> 'r browse_result list \<times> 'r session" where
  "StoreBrowseResults limit rs s = (if limit = 0 then (rs, s) else page_results limit rs s)"

definition ResumeBrowseResult :: "bytes \<Rightarrow> 'r session \<Rightarrow> 'r browse_result \<times> 'r session" where
  "ResumeBrowseResult cp s = (case map_of (browse_continuations s) cp of
       None \<Rightarrow> (BrowseResult (status_of_code Bad_ContinuationPointInvalid) [] [], s)
     | Some refs \<Rightarrow> (BrowseResult (status_of_code Good) [] refs,
         s\<lparr>browse_continuations := AList.delete cp (browse_continuations s)\<rparr>))"

fun BrowseNext :: "bool \<Rightarrow> bytes list \<Rightarrow> 'r session \<Rightarrow> 'r browse_result list \<times> 'r session" where
  "BrowseNext release [] s = ([], s)"
| "BrowseNext release (cp # cps) s = (case map_of (browse_continuations s) cp of
       None \<Rightarrow> (let (rs, s') = BrowseNext release cps s
                in (BrowseResult (status_of_code Bad_ContinuationPointInvalid) [] [] # rs, s'))
     | Some _ \<Rightarrow>
        (if release
         then (let (rs, s') = BrowseNext release cps
                 (s\<lparr>browse_continuations := AList.delete cp (browse_continuations s)\<rparr>)
               in (BrowseResult (status_of_code Good) [] [] # rs, s'))
         else (let (r, s1) = ResumeBrowseResult cp s; (rs, s') = BrowseNext release cps s1
               in (r # rs, s'))))"

section \<open>The invariant of a session\<close>

definition session_inv :: "'r session \<Rightarrow> bool" where
  "session_inv s \<longleftrightarrow> distinct (map fst (subscriptions s)) \<and> distinct (publish_order s) \<and>
     set (publish_order s) = fst ` set (subscriptions s) \<and>
     (if publish_order s = [] then next_publish_index s = 0
      else next_publish_index s < length (publish_order s)) \<and>
     (\<forall>(sid, x)\<in>set (subscriptions s). subscription_id x = sid) \<and>
     distinct (map fst (browse_continuations s)) \<and>
     length (browse_continuations s) \<le> kMaxBrowseContinuationPoints"

lemma session_inv_new [simp]: "session_inv (ServerSession sid token ctx limit)"
  by (simp add: session_inv_def ServerSession_def)

lemma session_inv_context [simp]: "session_inv (SetServiceContext c s) = session_inv s"
  by (simp add: session_inv_def SetServiceContext_def)

lemma find_subscription_mem:
  "FindSubscription sid s = Some x \<Longrightarrow> (sid, x) \<in> set (subscriptions s)"
  by (simp add: FindSubscription_def map_of_SomeD)

lemma has_subscription_iff: "HasSubscription sid s \<longleftrightarrow> sid \<in> fst ` set (subscriptions s)"
  by (simp add: HasSubscription_def FindSubscription_def map_of_eq_None_iff)

lemma found_id: "session_inv s \<Longrightarrow> FindSubscription sid s = Some x \<Longrightarrow> subscription_id x = sid"
  by (auto simp: session_inv_def dest!: find_subscription_mem)

text \<open>Replacing a subscription by a later state of itself.\<close>

lemma put_subscription_simps [simp]:
  "publish_order (put_subscription sid x s) = publish_order s"
  "next_publish_index (put_subscription sid x s) = next_publish_index s"
  "browse_continuations (put_subscription sid x s) = browse_continuations s"
  "FindSubscription k (put_subscription sid x s) = (if k = sid then Some x else FindSubscription k s)"
  by (simp_all add: put_subscription_def FindSubscription_def update_conv')

lemma session_inv_put:
  assumes "session_inv s" "FindSubscription sid s = Some x" "subscription_id x' = subscription_id x"
  shows "session_inv (put_subscription sid x' s)"
proof -
  have k: "sid \<in> fst ` set (subscriptions s)" using find_subscription_mem [OF assms(2)] by force
  have "subscription_id x' = sid" using assms found_id by metis
  moreover have "fst ` set (AList.update sid x' (subscriptions s)) = fst ` set (subscriptions s)"
    using k by (simp add: update_keys insert_absorb dom_update [unfolded dom_map_of_conv_image_fst])
  ultimately show ?thesis using assms(1) k
    by (auto simp: session_inv_def put_subscription_def distinct_update set_alist_update)
qed

lemma same_id:
  "ret_frame x' = ret_frame x \<Longrightarrow> subscription_id x' = subscription_id x"
  by (simp add: ret_frame_def)

lemma publish_id [simp]: "subscription_id (snd (TryPublish now x)) = subscription_id x"
  by (simp add: TryPublish_def publish_keep_alive_def publish_data_def Let_def split_beta)

lemma acknowledge_id [simp]: "subscription_id (snd (Acknowledge ns x)) = subscription_id x"
proof (induction ns arbitrary: x)
  case (Cons n ns)
  have "subscription_id (snd (Acknowledge1 n x)) = subscription_id x"
    by (simp add: Acknowledge1_def split: option.split)
  then show ?case using Cons by (simp add: Let_def split_beta)
qed simp

lemmas later_state = session_inv_put [OF _ _ same_id]

lemma session_inv_modify: "session_inv s \<Longrightarrow> session_inv (snd (ModifySubscription sid p s))"
  by (simp add: ModifySubscription_def split_beta later_state split: option.split)

lemma session_inv_set_mode: "session_inv s \<Longrightarrow> session_inv (snd (SetPublishingMode b sids s))"
  by (induction sids arbitrary: s) (simp_all add: split_beta Let_def later_state split: option.split)

lemma session_inv_items:
  assumes "session_inv s"
  shows "session_inv (snd (CreateMonitoredItemsS create sid rs s))"
    and "session_inv (snd (ModifyMonitoredItemsS create sid ms s))"
    and "session_inv (snd (DeleteMonitoredItemsS sid ks s))"
    and "session_inv (snd (SetMonitoringModeS sid mode ks s))"
  using assms
  by (simp_all add: CreateMonitoredItemsS_def ModifyMonitoredItemsS_def DeleteMonitoredItemsS_def
      SetMonitoringModeS_def split_beta later_state split: option.split)

lemma session_inv_create:
  assumes "session_inv s" "\<not> HasSubscription sid s"
  shows "session_inv (snd (CreateSubscriptionWithId now sid p s))"
  using assms
  by (auto simp: session_inv_def CreateSubscriptionWithId_def Let_def has_subscription_iff
      put_subscription_def ServerSubscription_def distinct_update set_alist_update image_iff
      split: if_split_asm)

lemma erase_order_distinct:
  assumes "distinct order"
    and "if order = [] then cursor = 0 else cursor < length order"
    and "erase_order sid order cursor = (order', cursor')"
  shows "order' = removeAll sid order \<and>
    (if order' = [] then cursor' = 0 else cursor' < length order')"
proof (cases "sid \<in> set order")
  case False
  then show ?thesis using assms by (auto simp: erase_order_def split: if_split_asm)
next
  case True
  then obtain p q where o: "order = p @ sid # q" "sid \<notin> set p" by (meson split_list_first)
  then have w: "takeWhile (\<lambda>x. x \<noteq> sid) order = p" by (induction p arbitrary: order) auto
  have r: "removeAll sid order = p @ q" using o assms(1) by simp
  have e: "take (length p) order @ drop (Suc (length p)) order = p @ q" using o by simp
  have "erase_order sid order cursor = (if p @ q = [] then ([], 0)
      else (p @ q, let c = (if length p < cursor then cursor - 1 else cursor)
                   in if length (p @ q) \<le> c then 0 else c))"
    by (simp only: erase_order_def w Let_def e True not_True_eq_False if_False if_cancel
        cong: if_cong)
  then show ?thesis using assms(2,3) unfolding r
    by (cases "p @ q = []") (auto simp: Let_def)
qed

lemma erase_entry_simps:
  assumes "session_inv s"
  shows "publish_order (erase_entry sid s) = removeAll sid (publish_order s)"
    and "subscriptions (erase_entry sid s) = AList.delete sid (subscriptions s)"
    and "session_inv (erase_entry sid s)"
proof -
  obtain order' cursor' where e: "erase_order sid (publish_order s) (next_publish_index s) =
      (order', cursor')" by force
  have o: "order' = removeAll sid (publish_order s) \<and>
      (if order' = [] then cursor' = 0 else cursor' < length order')"
    by (rule erase_order_distinct [OF _ _ e]) (use assms in \<open>simp_all add: session_inv_def\<close>)
  show 1: "publish_order (erase_entry sid s) = removeAll sid (publish_order s)"
    and 2: "subscriptions (erase_entry sid s) = AList.delete sid (subscriptions s)"
    using o by (simp_all add: erase_entry_def e)
  show "session_inv (erase_entry sid s)"
    using assms o by (auto simp: session_inv_def erase_entry_def e distinct_map_alist_delete
        set_alist_delete distinct_removeAll)
qed

lemma session_inv_closed [simp]: "session_inv (s\<lparr>closed_subscriptions := c\<rparr>) = session_inv s"
  by (simp add: session_inv_def)

lemma session_inv_erase: "session_inv s \<Longrightarrow> session_inv (EraseSubscription sid s)"
  by (simp add: EraseSubscription_def Let_def erase_entry_simps split: option.split)

lemma erase_subscriptions:
  "session_inv s \<Longrightarrow> subscriptions (EraseSubscription sid s) = AList.delete sid (subscriptions s)"
  by (simp add: EraseSubscription_def Let_def erase_entry_simps split: option.split)

lemma session_inv_delete: "session_inv s \<Longrightarrow> session_inv (snd (DeleteSubscriptions sids s))"
  by (induction sids arbitrary: s) (simp_all add: split_beta Let_def session_inv_erase)

lemma find_erased:
  assumes "session_inv s"
  shows "FindSubscription k (erase_entry sid s) = (if k = sid then None else FindSubscription k s)"
  using erase_entry_simps(2) [OF assms, of sid]
  by (simp add: FindSubscription_def delete_conv')

text \<open>Which subscriptions a DeleteSubscriptions leaves, and its answers.\<close>

lemma delete_subscriptions_find:
  "session_inv s \<Longrightarrow> FindSubscription k (snd (DeleteSubscriptions sids s)) =
     (if k \<in> set sids then None else FindSubscription k s)"
proof (induction sids arbitrary: s)
  case (Cons sid sids)
  have e: "FindSubscription k (EraseSubscription sid s) =
      (if k = sid then None else FindSubscription k s)"
    using erase_subscriptions [OF Cons.prems] by (simp add: FindSubscription_def delete_conv')
  show ?case
    using Cons.IH [OF Cons.prems] Cons.IH [OF session_inv_erase [OF Cons.prems, of sid]] e
    by (auto simp: split_beta Let_def HasSubscription_def)
qed simp

section \<open>Transfer\<close>

lemma receive_simps [simp]:
  "FindSubscription k (receive sid x t) = (if k = sid then Some x else FindSubscription k t)"
  "publish_order (receive sid x t) = publish_order t @ [sid]"
  by (simp_all add: receive_def put_subscription_def FindSubscription_def update_conv')

lemma session_inv_receive:
  assumes "session_inv t" "FindSubscription sid t = None" "subscription_id x = sid"
  shows "session_inv (receive sid x t)"
proof -
  have "sid \<notin> fst ` set (subscriptions t)"
    using assms(2) by (simp add: FindSubscription_def map_of_eq_None_iff)
  then show ?thesis using assms
    by (auto simp: session_inv_def receive_def put_subscription_def distinct_update
        set_alist_update image_iff split: if_split_asm)
qed

text \<open>The two ways an id of the list can go.\<close>

lemma transfer_each_ConsE [consumes 1, case_names stays moves]:
  assumes "transfer_each (sid # sids) source target = (rs, s', t')"
    and "\<And>rs'. FindSubscription sid target \<noteq> None \<or> FindSubscription sid source = None \<Longrightarrow>
      transfer_each sids source target = (rs', s', t') \<Longrightarrow>
      rs = status_of_code (if FindSubscription sid target \<noteq> None then Bad
             else Bad_SubscriptionIdInvalid) # rs' \<Longrightarrow> thesis"
    and "\<And>x rs'. FindSubscription sid target = None \<Longrightarrow> FindSubscription sid source = Some x \<Longrightarrow>
      transfer_each sids (erase_entry sid source) (receive sid x target) = (rs', s', t') \<Longrightarrow>
      rs = status_of_code Good # rs' \<Longrightarrow> thesis"
  shows thesis
proof -
  obtain r1 a b where 1: "transfer_each sids source target = (r1, a, b)" by (metis prod_cases3)
  show thesis
  proof (cases "FindSubscription sid target \<noteq> None \<or> FindSubscription sid source = None")
    case True
    then show thesis using assms(1) assms(2) [OF True] 1
      by (auto simp: HasSubscription_def split: if_split_asm option.split_asm)
  next
    case False
    then obtain x where x: "FindSubscription sid source = Some x" by auto
    obtain r2 c d where "transfer_each sids (erase_entry sid source) (receive sid x target) = (r2, c, d)"
      by (metis prod_cases3)
    then show thesis using assms(1) assms(3) [OF _ x] x False
      by (simp add: HasSubscription_def)
  qed
qed

text \<open>
  What a transfer does to the subscriptions: an id in the list that the source has and the
  target has not moves over, in the state it is in; everything else stays where it is.
\<close>

lemma transfer_each_moves:
  assumes "session_inv source" "session_inv target" "transfer_each sids source target = (rs, s', t')"
  shows "session_inv s' \<and> session_inv t' \<and>
    FindSubscription k t' = (if k \<in> set sids \<and> FindSubscription k target = None
      then FindSubscription k source else FindSubscription k target) \<and>
    FindSubscription k s' = (if k \<in> set sids \<and> FindSubscription k target = None
      then None else FindSubscription k source)"
  using assms
proof (induction sids arbitrary: source target rs)
  case (Cons sid sids)
  from Cons.prems(3) show ?case
  proof (cases rule: transfer_each_ConsE)
    case (stays rs')
    then show ?thesis using Cons.IH [OF Cons.prems(1,2) stays(2)] by auto
  next
    case (moves x rs')
    have t: "session_inv (receive sid x target)"
      using moves Cons.prems found_id by (intro session_inv_receive) auto
    show ?thesis using Cons.IH [OF erase_entry_simps(3) [OF Cons.prems(1)] t moves(3)] moves
      by (auto simp: find_erased [OF Cons.prems(1)])
  qed
qed simp

definition transfer_answer :: "'r session \<Rightarrow> 'r session \<Rightarrow> u32 \<Rightarrow> status" where
  "transfer_answer source target k = status_of_code (if HasSubscription k target then Bad
     else if HasSubscription k source then Good else Bad_SubscriptionIdInvalid)"

lemma transfer_each_results:
  assumes "session_inv source" "session_inv target" "transfer_each sids source target = (rs, s', t')"
    "distinct sids"
  shows "rs = map (transfer_answer source target) sids"
  using assms
proof (induction sids arbitrary: source target rs)
  case (Cons sid sids)
  from Cons.prems(3) show ?case
  proof (cases rule: transfer_each_ConsE)
    case (stays rs')
    then show ?thesis using Cons.IH [OF Cons.prems(1,2) stays(2)] Cons.prems(4)
      by (auto simp: transfer_answer_def HasSubscription_def)
  next
    case (moves x rs')
    have t: "session_inv (receive sid x target)"
      using moves Cons.prems found_id by (intro session_inv_receive) auto
    have "rs' = map (transfer_answer (erase_entry sid source) (receive sid x target)) sids"
      using Cons.IH [OF erase_entry_simps(3) [OF Cons.prems(1)] t moves(3)] Cons.prems(4) by simp
    also have "\<dots> = map (transfer_answer source target) sids"
      using Cons.prems(4)
      by (auto simp: transfer_answer_def HasSubscription_def find_erased [OF Cons.prems(1)])
    finally show ?thesis using moves by (simp add: transfer_answer_def HasSubscription_def)
  qed
qed simp

lemma session_inv_next_id [simp]: "session_inv (s\<lparr>next_subscription_id := n\<rparr>) = session_inv s"
  by (simp add: session_inv_def)

lemma find_refresh [simp]: "FindSubscription k (RefreshNextSubscriptionId s) = FindSubscription k s"
  by (simp add: FindSubscription_def RefreshNextSubscriptionId_def)

lemma session_inv_refresh [simp]: "session_inv (RefreshNextSubscriptionId s) = session_inv s"
  by (simp add: RefreshNextSubscriptionId_def)

lemma transfer_from:
  assumes "session_inv source" "session_inv target"
    and "TransferSubscriptionsFrom sids source target = (rs, s', t')"
  shows "session_inv s' \<and> session_inv t' \<and>
    FindSubscription k t' = (if k \<in> set sids \<and> FindSubscription k target = None
      then FindSubscription k source else FindSubscription k target) \<and>
    FindSubscription k s' = (if k \<in> set sids \<and> FindSubscription k target = None
      then None else FindSubscription k source) \<and>
    (distinct sids \<longrightarrow> rs = map (transfer_answer source target) sids)"
proof -
  obtain t where t: "transfer_each sids source target = (rs, s', t)" "t' = RefreshNextSubscriptionId t"
    using assms(3) by (auto simp: TransferSubscriptionsFrom_def split: prod.splits)
  show ?thesis
    using transfer_each_moves [OF assms(1,2) t(1), of k] transfer_each_results [OF assms(1,2) t(1)]
    by (simp add: t(2))
qed

section \<open>The publish cursor\<close>

text \<open>
  What a session relies on when it polls: a subscription that says it is ready answers a
  publish. The same law is what makes the fall-back answers of \<open>PollPublish\<close> unreachable.
\<close>

locale publisher =
  fixes ready :: "'t \<Rightarrow> 's \<Rightarrow> bool" and emit :: "'t \<Rightarrow> 's \<Rightarrow> 'a option \<times> 's"
    and ident :: "'s \<Rightarrow> 'i" and answer_ident :: "'a \<Rightarrow> 'i"
  assumes ready_answers: "ready t s \<Longrightarrow> fst (emit t s) \<noteq> None"
    and emit_ident: "ident (snd (emit t s)) = ident s"
    and answer_from: "fst (emit t s) = Some a \<Longrightarrow> answer_ident a = ident s"
begin

lemma ready_obtains:
  assumes "ready t s"
  obtains a s' where "emit t s = (Some a, s')" "ident s' = ident s" "answer_ident a = ident s"
  using ready_answers [OF assms] emit_ident [of t s] answer_from [of t s]
  by (cases "emit t s") auto

end

interpretation sub: publisher IsPublishReady TryPublish subscription_id pr_subscription_id
proof
  show "IsPublishReady t s \<Longrightarrow> fst (TryPublish t s) \<noteq> None" for t s
    by (simp add: try_publish_ready)
  show "fst (TryPublish t s) = Some a \<Longrightarrow> pr_subscription_id a = subscription_id s" for t s a
    by (auto simp: TryPublish_def publish_keep_alive_def publish_data_def Let_def split_beta
        split: if_split_asm)
qed simp

lemma length_cycle [simp]: "length (cycle_from c n) = n"
  by (simp add: cycle_from_def)

lemma cycle_nth: "k < n \<Longrightarrow> cycle_from c n ! k = (c + k) mod n"
  by (simp add: cycle_from_def)

text \<open>How many places an index is ahead of the cursor.\<close>

definition ahead :: "nat \<Rightarrow> nat \<Rightarrow> nat \<Rightarrow> nat" where
  "ahead c n j = (j + (n - c)) mod n"

lemma ahead_less: "0 < n \<Longrightarrow> ahead c n j < n"
  by (simp add: ahead_def)

lemma cycle_ahead:
  assumes "c < n" "j < n" shows "cycle_from c n ! ahead c n j = j"
proof -
  have "(c + (j + (n - c)) mod n) mod n = (c + (j + (n - c))) mod n" by (simp add: mod_add_right_eq)
  also have "\<dots> = j" using assms by simp
  finally show ?thesis using assms ahead_less [of n c j] by (simp add: cycle_nth ahead_def)
qed

lemma ahead_cycle:
  assumes "c < n" "k < n" shows "ahead c n ((c + k) mod n) = k"
proof (cases "c + k < n")
  case True
  then show ?thesis using assms by (simp add: ahead_def)
next
  case False
  then have "(c + k) mod n = c + k - n" using assms by (simp add: mod_if)
  then show ?thesis using assms False by (simp add: ahead_def)
qed

lemma set_cycle: "c < n \<Longrightarrow> set (cycle_from c n) = {..<n}"
proof
  assume "c < n"
  then show "set (cycle_from c n) \<subseteq> {..<n}" by (auto simp: cycle_from_def)
  show "{..<n} \<subseteq> set (cycle_from c n)"
  proof
    fix j assume "j \<in> {..<n}"
    then show "j \<in> set (cycle_from c n)"
      using cycle_ahead [OF \<open>c < n\<close>, of j] ahead_less [of n c j]
      by (metis \<open>c < n\<close> gr_zeroI length_cycle lessThan_iff not_less_zero nth_mem)
  qed
qed

text \<open>Passing the cursor over a served index brings every other one closer.\<close>

lemma ahead_decreases:
  assumes "c < n" "i < n" "j < n" "ahead c n i \<le> ahead c n j" "i \<noteq> j"
  shows "ahead ((i + 1) mod n) n j < ahead c n j"
proof -
  obtain a b where a: "a < n" "i = (c + a) mod n" "ahead c n i = a"
    and b: "b < n" "j = (c + b) mod n" "ahead c n j = b"
    using cycle_ahead [OF assms(1)] ahead_less [of n c] assms cycle_nth [of _ n c]
    by (metis gr_zeroI not_less_zero)
  have less: "a < b" using a b assms(4,5) by (metis order_le_less)
  let ?c = "(i + 1) mod n"
  have c: "?c = (c + (a + 1)) mod n" by (simp add: a(2) mod_Suc_eq)
  have "(c + b) mod n = (c + (a + 1) + (b - (a + 1))) mod n" using less by simp
  then have "j = (?c + (b - (a + 1))) mod n"
    by (simp only: c b(2) [symmetric] mod_add_left_eq)
  moreover have "?c < n" using assms by (simp add: mod_less_divisor)
  ultimately have "ahead ?c n j = b - (a + 1)"
    using ahead_cycle [of ?c n "b - (a + 1)"] b(1) by simp
  then show ?thesis using b less by simp
qed

lemma find_next_some:
  assumes "session_inv s" "FindNextReadySubscription now p s = Some i"
  shows "i < length (publish_order s) \<and> eligible now p s i \<and>
    (\<forall>j < length (publish_order s). eligible now p s j \<longrightarrow>
       ahead (next_publish_index s) (length (publish_order s)) i \<le>
       ahead (next_publish_index s) (length (publish_order s)) j)"
proof -
  let ?n = "length (publish_order s)" and ?c = "next_publish_index s"
  obtain k where k: "k < ?n" "i = cycle_from ?c ?n ! k" "eligible now p s i"
    "\<And>m. m < k \<Longrightarrow> \<not> eligible now p s (cycle_from ?c ?n ! m)"
    using assms(2) by (auto simp: FindNextReadySubscription_def find_Some_iff)
  have c: "?c < ?n" using assms(1) k(1) by (auto simp: session_inv_def split: if_split_asm)
  have ak: "ahead ?c ?n i = k" using k ahead_cycle [OF c k(1)] by (simp add: cycle_nth)
  have "k \<le> ahead ?c ?n j" if "j < ?n" "eligible now p s j" for j
    using k(4) [of "ahead ?c ?n j"] cycle_ahead [OF c that(1)] that(2) by (metis not_le)
  moreover have "i < ?n"
    using k(1,2) nth_mem [of k "cycle_from ?c ?n"] set_cycle [OF c] by auto
  ultimately show ?thesis using k(3) ak by simp
qed

lemma find_next_none:
  assumes "session_inv s" "FindNextReadySubscription now p s = None" "j < length (publish_order s)"
  shows "\<not> eligible now p s j"
proof -
  have c: "next_publish_index s < length (publish_order s)"
    using assms(1,3) by (auto simp: session_inv_def split: if_split_asm)
  show ?thesis using assms(2,3) set_cycle [OF c]
    by (auto simp: FindNextReadySubscription_def find_None_iff)
qed

text \<open>What a poll does when some subscription is ready.\<close>

lemma publish_index_some:
  assumes "session_inv s" "publish_index now s = Some i"
  obtains x r x' where "i < length (publish_order s)"
    "FindSubscription (publish_order s ! i) s = Some x" "IsPublishReady now x"
    "TryPublish now x = (Some r, x')" "pr_subscription_id r = publish_order s ! i"
    "subscription_id x' = subscription_id x"
    "PollPublish now s = (PollResult (Some r) None,
       AdvancePublishCursorAfter i (put_subscription (publish_order s ! i) x' s))"
proof -
  have e: "i < length (publish_order s)" "eligible now False s i"
    using assms(2) find_next_some [OF assms(1)]
    by (fastforce simp: publish_index_def eligible_def split: option.split_asm)+
  then obtain x where x: "FindSubscription (publish_order s ! i) s = Some x" "IsPublishReady now x"
    by (auto simp: eligible_def split: option.split_asm)
  from sub.ready_obtains [OF x(2)] obtain r x' where r: "TryPublish now x = (Some r, x')"
    "subscription_id x' = subscription_id x" "pr_subscription_id r = subscription_id x" .
  show thesis
    by (rule that [OF e(1) x r(1)])
      (use r x found_id [OF assms(1) x(1)] assms(2) in \<open>simp_all add: PollPublish_def\<close>)
qed

lemma session_inv_advance:
  "session_inv s \<Longrightarrow> i < length (publish_order s) \<Longrightarrow> session_inv (AdvancePublishCursorAfter i s)"
  by (auto simp: session_inv_def AdvancePublishCursorAfter_def)

lemma advance_order [simp]: "publish_order (AdvancePublishCursorAfter i s) = publish_order s"
  by (simp add: AdvancePublishCursorAfter_def)

lemma session_inv_wait_round:
  "session_inv (snd w) \<Longrightarrow> session_inv (snd (wait_round now sid w))"
  by (cases w) (auto simp: wait_round_def Let_def split_beta later_state split: option.split)

lemma wait_round_order [simp]: "publish_order (snd (wait_round now sid w)) = publish_order (snd w)"
  by (cases w) (auto simp: wait_round_def Let_def split_beta split: option.split)

lemma session_inv_wait_fold:
  "session_inv (snd w) \<Longrightarrow> session_inv (snd (fold (wait_round now) sids w)) \<and>
     publish_order (snd (fold (wait_round now) sids w)) = publish_order (snd w)"
  by (induction sids arbitrary: w) (simp_all add: session_inv_wait_round)

lemma poll_wait_inv:
  "session_inv s \<Longrightarrow> session_inv (snd (poll_wait now s)) \<and>
     publish_order (snd (poll_wait now s)) = publish_order s"
  using session_inv_wait_fold [of "((None, None), s)" now "publish_order s"]
  by (auto simp: poll_wait_def Let_def split_beta split: option.split)

lemma session_inv_poll:
  assumes "session_inv s"
  shows "session_inv (snd (PollPublish now s)) \<and>
    publish_order (snd (PollPublish now s)) = publish_order s"
proof (cases "publish_index now s")
  case None
  then show ?thesis using poll_wait_inv [OF assms] by (simp add: PollPublish_def)
next
  case (Some i)
  from publish_index_some [OF assms Some] obtain x r x' where
    "i < length (publish_order s)" "FindSubscription (publish_order s ! i) s = Some x"
    "subscription_id x' = subscription_id x"
    "PollPublish now s = (PollResult (Some r) None,
       AdvancePublishCursorAfter i (put_subscription (publish_order s ! i) x' s))" .
  then show ?thesis using session_inv_put [OF assms] by (simp add: session_inv_advance)
qed

text \<open>Successive polls at given instants: the session before each of them.\<close>

fun polled :: "(nat \<Rightarrow> date_time) \<Rightarrow> 'r session \<Rightarrow> nat \<Rightarrow> 'r session" where
  "polled t s 0 = s"
| "polled t s (Suc k) = snd (PollPublish (t k) (polled t s k))"

lemma polled_inv:
  assumes "session_inv s"
  shows "session_inv (polled t s k) \<and> publish_order (polled t s k) = publish_order s"
proof (induction k)
  case (Suc k)
  then show ?case using session_inv_poll [of "polled t s k" "t k"] by simp
qed (simp add: assms)

lemma poll_cursor:
  assumes "session_inv s" "publish_index now s = Some i"
  shows "next_publish_index (snd (PollPublish now s)) = (i + 1) mod length (publish_order s)"
proof -
  from publish_index_some [OF assms] obtain x r x' where
    "i < length (publish_order s)" "PollPublish now s = (PollResult (Some r) None,
       AdvancePublishCursorAfter i (put_subscription (publish_order s ! i) x' s))" .
  then show ?thesis by (auto simp: AdvancePublishCursorAfter_def)
qed

text \<open>With a pending subscription ready, the poll serves it or comes closer to it.\<close>

lemma poll_progress:
  assumes "session_inv s" "j < length (publish_order s)" "eligible now True s j"
  shows "\<exists>i. publish_index now s = Some i \<and> (i = j \<or>
    ahead (next_publish_index (snd (PollPublish now s))) (length (publish_order s)) j <
    ahead (next_publish_index s) (length (publish_order s)) j)"
proof -
  have "FindNextReadySubscription now True s \<noteq> None"
    using find_next_none [OF assms(1) _ assms(2)] assms(3) by blast
  then obtain i where i: "FindNextReadySubscription now True s = Some i" by auto
  then have p: "publish_index now s = Some i" by (simp add: publish_index_def)
  note f = find_next_some [OF assms(1) i]
  have c: "next_publish_index s < length (publish_order s)"
    using assms(1,2) by (auto simp: session_inv_def split: if_split_asm)
  show ?thesis
  proof (cases "i = j")
    case False
    then show ?thesis using ahead_decreases [OF c _ assms(2)] f assms(2,3) poll_cursor [OF assms(1) p] p
      by auto
  qed (use p in simp)
qed

section \<open>Acknowledgements\<close>

text \<open>The reference: one acknowledgement after the other, in the order of the request.\<close>

definition ack_one :: "u32 \<times> u32 \<Rightarrow> 'r session \<Rightarrow> status_code \<times> 'r session" where
  "ack_one a s = (case FindSubscription (fst a) s of None \<Rightarrow> (Bad_SubscriptionIdInvalid, s)
     | Some x \<Rightarrow> (let (c, x') = Acknowledge1 (snd a) x in (c, put_subscription (fst a) x' s)))"

fun ack_each :: "(u32 \<times> u32) list \<Rightarrow> 'r session \<Rightarrow> status_code list \<times> 'r session" where
  "ack_each [] s = ([], s)"
| "ack_each (a # acks) s = (let (c, s1) = ack_one a s; (cs, s2) = ack_each acks s1 in (c # cs, s2))"

lemma ack_each_snoc:
  "ack_each (acks @ [a]) s = (let (cs, s1) = ack_each acks s; (c, s2) = ack_one a s1
     in (cs @ [c], s2))"
  by (induction acks arbitrary: s) (simp_all add: split_beta Let_def)

lemma length_ack_each [simp]: "length (fst (ack_each acks s)) = length acks"
  by (induction acks arbitrary: s) (simp_all add: split_beta Let_def)

lemma acknowledge_snoc:
  "Acknowledge (ns @ [n]) x = (let (cs, x1) = Acknowledge ns x; (c, x2) = Acknowledge1 n x1
     in (cs @ [c], x2))"
  by (induction ns arbitrary: x) (simp_all add: split_beta Let_def)

lemma length_acknowledge [simp]: "length (fst (Acknowledge ns x)) = length ns"
  by (induction ns arbitrary: x) (simp_all add: split_beta Let_def)

lemma group_acks_snoc:
  "group_acks s i (acks @ [(sid, n)]) rs g = (let (rs1, g1) = group_acks s i acks rs g in
     if HasSubscription sid s then (rs1, add_to_group sid (i + length acks, n) g1)
     else (rs1[i + length acks := Bad_SubscriptionIdInvalid], g1))"
  by (induction s i acks rs g rule: group_acks.induct) (simp_all add: split_beta Let_def)

lemma group_acks_extend:
  "i + length acks \<le> length rs \<Longrightarrow> group_acks s i acks (rs @ [c]) g =
     (fst (group_acks s i acks rs g) @ [c], snd (group_acks s i acks rs g)) \<and>
   length (fst (group_acks s i acks rs g)) = length rs"
  by (induction s i acks rs g rule: group_acks.induct) (simp_all add: list_update_append)

text \<open>A group names a subscription of the session and indices below a bound.\<close>

definition groups_ok :: "'r session \<Rightarrow> nat \<Rightarrow> (u32 \<times> (nat \<times> u32) list) list \<Rightarrow> bool" where
  "groups_ok s b g \<longleftrightarrow> distinct (map fst g) \<and>
     (\<forall>(sid, grp)\<in>set g. HasSubscription sid s \<and> (\<forall>(i, n)\<in>set grp. i < b))"

lemma groups_ok_add:
  assumes "groups_ok s b g" "HasSubscription sid s" "i < b'" "b \<le> b'"
  shows "groups_ok s b' (add_to_group sid (i, n) g)"
proof -
  have "distinct (map fst (add_to_group sid (i, n) g))"
    using assms(1) by (simp add: add_to_group_def groups_ok_def distinct_update)
  moreover have "HasSubscription k s \<and> (\<forall>(j, m)\<in>set grp. j < b')"
    if "(k, grp) \<in> set (add_to_group sid (i, n) g)" for k grp
    using that assms
    by (auto simp: add_to_group_def groups_ok_def set_alist_update dest!: map_of_SomeD
        split: option.split_asm) fastforce+
  ultimately show ?thesis unfolding groups_ok_def by fast
qed

lemma groups_ok_mono: "groups_ok s b g \<Longrightarrow> b \<le> b' \<Longrightarrow> groups_ok s b' g"
  by (fastforce simp: groups_ok_def)

lemma groups_ok_has:
  assumes "groups_ok s b g" "\<And>k. HasSubscription k s \<Longrightarrow> HasSubscription k t"
  shows "groups_ok t b g"
  using assms unfolding groups_ok_def by fast

lemma group_acks_ok:
  "groups_ok s i g \<Longrightarrow> groups_ok s (i + length acks) (snd (group_acks s i acks rs g))"
proof (induction s i acks rs g rule: group_acks.induct)
  case (2 s i sid n acks rs g)
  then show ?case
    using groups_ok_add [OF 2(3), of sid i "Suc i" n] groups_ok_mono [OF 2(3), of "Suc i"]
    by (cases "HasSubscription sid s") simp_all
qed simp

lemma alist_update_swap:
  assumes "k \<noteq> j" "k \<in> fst ` set xs \<or> j \<in> fst ` set xs"
  shows "AList.update k v (AList.update j w xs) = AList.update j w (AList.update k v xs)"
  using assms by (induction xs) auto

lemma put_swap:
  assumes "k \<noteq> j" "HasSubscription k s"
  shows "put_subscription k x (put_subscription j y s) = put_subscription j y (put_subscription k x s)"
  using assms by (simp add: put_subscription_def has_subscription_iff alist_update_swap)

lemma put_again [simp]: "put_subscription k x (put_subscription k y s) = put_subscription k x s"
  by (simp add: put_subscription_def)

lemma has_put [simp]: "HasSubscription k (put_subscription sid x s) \<longleftrightarrow> k = sid \<or> HasSubscription k s"
  by (auto simp: HasSubscription_def)

lemma store_results_simps:
  "length (store_results grp codes rs) = length rs"
  "\<forall>(i, n)\<in>set grp. i < length rs \<Longrightarrow>
     store_results grp codes (rs @ [c]) = store_results grp codes rs @ [c]"
  "length codes = length grp \<Longrightarrow>
     store_results (grp @ [(i, n)]) (codes @ [c]) rs = (store_results grp codes rs)[i := c]"
proof -
  show "length (store_results grp codes rs) = length rs"
    by (induction grp codes rs rule: store_results.induct) simp_all
  show "\<forall>(i, n)\<in>set grp. i < length rs \<Longrightarrow>
      store_results grp codes (rs @ [c]) = store_results grp codes rs @ [c]"
    by (induction grp codes rs rule: store_results.induct) (auto simp: list_update_append)
  show "length codes = length grp \<Longrightarrow>
      store_results (grp @ [(i, n)]) (codes @ [c]) rs = (store_results grp codes rs)[i := c]"
    by (induction grp codes rs rule: store_results.induct) auto
qed

text \<open>A group touches one subscription and its own places in the answer.\<close>

lemma ack_group_simps:
  "length (fst (ack_group (sid, grp) (rs, s))) = length rs"
  "HasSubscription j (snd (ack_group (sid, grp) (rs, s))) = HasSubscription j s"
  "j \<noteq> sid \<Longrightarrow> FindSubscription j (snd (ack_group (sid, grp) (rs, s))) = FindSubscription j s"
  by (auto simp: ack_group_def store_results_simps split_beta HasSubscription_def split: option.split)

lemma ack_group_extend:
  assumes "\<forall>(i, n)\<in>set grp. i < length rs"
  shows "ack_group (sid, grp) (rs @ [c], s) =
    (fst (ack_group (sid, grp) (rs, s)) @ [c], snd (ack_group (sid, grp) (rs, s)))"
  using assms by (auto simp: ack_group_def store_results_simps split_beta split: option.split)

lemma ack_group_put:
  assumes "k \<noteq> sid" "HasSubscription sid s"
  shows "ack_group (k, grp) (rs, put_subscription sid x s) =
    (fst (ack_group (k, grp) (rs, s)), put_subscription sid x (snd (ack_group (k, grp) (rs, s))))"
  using assms put_swap [OF assms(1) [symmetric] assms(2)]
  by (auto simp: ack_group_def split_beta split: option.split)

lemma fold_ack_extend:
  assumes "groups_ok s b g" "length rs = b"
  shows "fold ack_group g (rs @ [c], s) =
      (fst (fold ack_group g (rs, s)) @ [c], snd (fold ack_group g (rs, s))) \<and>
    length (fst (fold ack_group g (rs, s))) = b"
  using assms
proof (induction g arbitrary: rs s)
  case (Cons a g)
  obtain sid grp where a: "a = (sid, grp)" by force
  obtain r t where t: "ack_group (sid, grp) (rs, s) = (r, t)" by force
  have "\<forall>(i, n)\<in>set grp. i < length rs" using Cons.prems by (simp add: groups_ok_def a)
  note e = ack_group_extend [OF this, of sid c s]
  have "groups_ok t b g"
    using Cons.prems(1) ack_group_simps(2) [of _ sid grp rs s] t by (auto simp: groups_ok_def a)
  moreover have "length r = b" using ack_group_simps(1) [of sid grp rs s] t Cons.prems(2) by simp
  ultimately show ?case using Cons.IH [of t r] e t by (simp add: a)
qed simp

lemma fold_ack_put:
  assumes "sid \<notin> fst ` set g" "HasSubscription sid s"
  shows "fold ack_group g (rs, put_subscription sid x s) =
      (fst (fold ack_group g (rs, s)), put_subscription sid x (snd (fold ack_group g (rs, s)))) \<and>
    FindSubscription sid (snd (fold ack_group g (rs, s))) = FindSubscription sid s"
  using assms
proof (induction g arbitrary: rs s)
  case (Cons a g)
  obtain k grp where a: "a = (k, grp)" by force
  obtain r t where t: "ack_group (k, grp) (rs, s) = (r, t)" by force
  have k: "k \<noteq> sid" "sid \<notin> fst ` set g" using Cons.prems by (auto simp: a)
  have "HasSubscription sid t" "FindSubscription sid t = FindSubscription sid s"
    using ack_group_simps(2,3) [of sid k grp rs s] t Cons.prems k by auto
  then show ?case using Cons.IH [OF k(2), of t r] ack_group_put [OF k(1) Cons.prems(2), of grp rs x] t
    by (simp add: a)
qed simp

lemma ack_group_snoc:
  assumes "ack_group (sid, grp) (rs, s) = (r, t)" "FindSubscription sid s = Some x"
    and "\<forall>(i, n)\<in>set grp. i < length rs"
  shows "ack_group (sid, grp @ [(length rs, n)]) (rs @ [Good], s) =
    (r @ [fst (ack_one (sid, n) t)], snd (ack_one (sid, n) t))"
proof -
  have l: "length (fst (Acknowledge (map snd grp) x)) = length grp" by simp
  have r: "r = store_results grp (fst (Acknowledge (map snd grp) x)) rs"
    "t = put_subscription sid (snd (Acknowledge (map snd grp) x)) s"
    using assms(1,2) by (simp_all add: ack_group_def split_beta)
  have len: "length r = length rs" by (simp add: r store_results_simps)
  have "store_results grp (fst (Acknowledge (map snd grp) x)) (rs @ [Good]) = r @ [Good]"
    using store_results_simps(2) [OF assms(3)] by (simp add: r)
  then show ?thesis using assms(2) len
    by (simp add: ack_group_def acknowledge_snoc split_beta Let_def store_results_simps(3) [OF l]
        ack_one_def r(2) list_update_append)
qed

lemma add_to_group_cases:
  assumes "distinct (map fst g)"
  shows "(sid \<notin> fst ` set g \<and> add_to_group sid a g = g @ [(sid, [a])]) \<or>
    (\<exists>g1 grp g2. g = g1 @ (sid, grp) # g2 \<and> sid \<notin> fst ` set g1 \<and> sid \<notin> fst ` set g2 \<and>
       add_to_group sid a g = g1 @ (sid, grp @ [a]) # g2)"
proof (cases "sid \<in> fst ` set g")
  case False
  have "AList.update sid v g = g @ [(sid, v)]" for v :: "'b list"
    using False by (induction g) auto
  moreover have "map_of g sid = None" using False by (simp add: map_of_eq_None_iff)
  ultimately show ?thesis using False by (simp add: add_to_group_def)
next
  case True
  then obtain grp where "(sid, grp) \<in> set g" by auto
  then obtain g1 g2 where g: "g = g1 @ (sid, grp) # g2" by (meson split_list)
  then have n: "sid \<notin> fst ` set g1" "sid \<notin> fst ` set g2" using assms by auto
  then have "map_of g sid = Some grp"
    using assms by (simp add: g map_of_eq_None_iff [symmetric] map_add_def)
  moreover have "AList.update sid v (g1 @ (sid, grp) # g2) = g1 @ (sid, v) # g2" for v
    using n(1) by (induction g1) auto
  ultimately show ?thesis using g n by (auto simp: add_to_group_def)
qed

lemma has_fold_ack [simp]:
  "HasSubscription k (snd (fold ack_group g (rs, t))) = HasSubscription k t"
proof (induction g arbitrary: rs t)
  case (Cons a g)
  then show ?case using ack_group_simps(2) [of k "fst a" "snd a" rs t]
    by (cases "ack_group a (rs, t)") simp
qed simp

text \<open>A further acknowledgement for a group that already exists.\<close>

lemma fold_ack_middle:
  assumes ok: "groups_ok s b (g1 @ (sid, grp) # g2)" and len: "length rs = b"
    and has: "HasSubscription sid s" and g2: "sid \<notin> fst ` set g2"
  shows "fold ack_group (g1 @ (sid, grp @ [(b, n)]) # g2) (rs @ [Good], s) =
    (let (r, t) = fold ack_group (g1 @ (sid, grp) # g2) (rs, s); (c, u) = ack_one (sid, n) t
     in (r @ [c], u))"
proof -
  obtain r1 s1 where 1: "fold ack_group g1 (rs, s) = (r1, s1)" by force
  have ok1: "groups_ok s b g1" using ok by (auto simp: groups_ok_def)
  have e1: "fold ack_group g1 (rs @ [Good], s) = (r1 @ [Good], s1)" "length r1 = b"
    using fold_ack_extend [OF ok1 len, of Good] 1 by simp_all
  have s1: "HasSubscription k s1 = HasSubscription k s" for k
    using has_fold_ack [of k g1 rs s] 1 by simp
  obtain r2 s2 where 2: "ack_group (sid, grp) (r1, s1) = (r2, s2)" by force
  have s2: "HasSubscription k s2 = HasSubscription k s" for k
    using ack_group_simps(2) [of k sid grp r1 s1] 2 s1 by simp
  obtain x where x: "FindSubscription sid s1 = Some x"
    using s1 [of sid] has by (auto simp: HasSubscription_def)
  obtain y where y: "FindSubscription sid s2 = Some y"
    using s2 [of sid] has by (auto simp: HasSubscription_def)
  have "\<forall>(i, n)\<in>set grp. i < length r1" using ok e1(2) by (simp add: groups_ok_def)
  note snoc = ack_group_snoc [OF 2 x this, of n]
  have one: "ack_one (sid, n) t =
      (fst (Acknowledge1 n y), put_subscription sid (snd (Acknowledge1 n y)) t)"
    if "FindSubscription sid t = Some y" for t
    using that by (simp add: ack_one_def split_beta)
  have l2: "length r2 = b" using ack_group_simps(1) [of sid grp r1 s1] 2 e1(2) by simp
  have "groups_ok s b g2" using ok by (auto simp: groups_ok_def)
  then have ok2: "groups_ok (put_subscription sid v s2) b g2" for v
    by (rule groups_ok_has) (simp add: s2)
  obtain r3 s3 where 3: "fold ack_group g2 (r2, s2) = (r3, s3)" by force
  have put: "fold ack_group g2 (r2, put_subscription sid v s2) = (r3, put_subscription sid v s3)"
    "FindSubscription sid s3 = Some y" for v
    using fold_ack_put [OF g2, of s2 r2] s2 has 3 y by simp_all
  have "fold ack_group g2 (r2 @ [c], put_subscription sid v s2) = (r3 @ [c], put_subscription sid v s3)"
    for c v using fold_ack_extend [OF ok2 [of v] l2, of c] put by simp
  then show ?thesis using 1 2 3 e1 snoc one [OF y] one [OF put(2)] by simp
qed

lemma fold_ack_new:
  assumes ok: "groups_ok s b g" and len: "length rs = b" and has: "HasSubscription sid s"
  shows "fold ack_group (g @ [(sid, [(b, n)])]) (rs @ [Good], s) =
    (let (r, t) = fold ack_group g (rs, s); (c, u) = ack_one (sid, n) t in (r @ [c], u))"
proof -
  obtain r t where rt: "fold ack_group g (rs, s) = (r, t)" by force
  have e: "fold ack_group g (rs @ [Good], s) = (r @ [Good], t)" "length r = b"
    using fold_ack_extend [OF ok len, of Good] rt by simp_all
  obtain x where x: "FindSubscription sid t = Some x"
    using has_fold_ack [of sid g rs s] has rt by (auto simp: HasSubscription_def)
  have "ack_group (sid, [(b, n)]) (r @ [Good], t) =
      (r @ [fst (ack_one (sid, n) t)], snd (ack_one (sid, n) t))"
    using x e(2) by (simp add: ack_group_def ack_one_def split_beta Let_def list_update_append)
  then show ?thesis by (simp add: e rt split_beta)
qed

lemma fold_ack_add:
  assumes ok: "groups_ok s b g" and len: "length rs = b" and has: "HasSubscription sid s"
  shows "fold ack_group (add_to_group sid (b, n) g) (rs @ [Good], s) =
    (let (r, t) = fold ack_group g (rs, s); (c, u) = ack_one (sid, n) t in (r @ [c], u))"
proof -
  have "distinct (map fst g)" using ok by (simp add: groups_ok_def)
  from add_to_group_cases [OF this, of sid "(b, n)"] show ?thesis
  proof (elim disjE exE conjE)
    assume "add_to_group sid (b, n) g = g @ [(sid, [(b, n)])]"
    then show ?thesis by (simp only: fold_ack_new [OF assms])
  next
    fix g1 grp g2
    assume g: "g = g1 @ (sid, grp) # g2" "sid \<notin> fst ` set g2"
      and add: "add_to_group sid (b, n) g = g1 @ (sid, grp @ [(b, n)]) # g2"
    show ?thesis unfolding add using fold_ack_middle [OF ok [unfolded g(1)] len has g(2)] g(1) by simp
  qed
qed

lemma find_ack_each:
  assumes "FindSubscription k s = None" shows "FindSubscription k (snd (ack_each acks s)) = None"
  using assms
proof (induction acks arbitrary: s)
  case (Cons a acks)
  have "FindSubscription k (snd (ack_one a s)) = None"
    using Cons.prems by (auto simp: ack_one_def split_beta split: option.split)
  then show ?case using Cons.IH by (simp add: split_beta Let_def)
qed simp

text \<open>Grouping by subscription is the same as going through the request one by one.\<close>

lemma acknowledge_grouped: "AcknowledgePublishRequest acks s = ack_each acks s"
proof (induction acks rule: rev_induct)
  case (snoc a acks)
  let ?b = "length acks"
  obtain rs g where g: "group_acks s 0 acks (replicate ?b Good) [] = (rs, g)" by force
  have ok: "groups_ok s ?b g"
    using group_acks_ok [of s 0 "[]" acks "replicate ?b Good"] g by (simp add: groups_ok_def)
  have ext: "group_acks s 0 acks (replicate ?b Good @ [Good]) [] = (rs @ [Good], g)" "length rs = ?b"
    using group_acks_extend [of 0 acks "replicate ?b Good" s Good "[]"] g by simp_all
  have IH: "fold ack_group g (rs, s) = ack_each acks s"
    using snoc.IH g by (simp add: AcknowledgePublishRequest_def)
  have rep: "replicate (Suc ?b) Good = replicate ?b Good @ [Good]"
    by (simp add: replicate_append_same)
  show ?case
  proof (cases "HasSubscription (fst a) s")
    case True
    then show ?thesis
      using fold_ack_add [OF ok ext(2) True, of "snd a"] IH ext
      by (cases a) (simp add: AcknowledgePublishRequest_def rep group_acks_snoc ack_each_snoc del: replicate_Suc)
  next
    case False
    have "FindSubscription (fst a) (snd (ack_each acks s)) = None"
      using False by (simp add: find_ack_each HasSubscription_def)
    then show ?thesis
      using fold_ack_extend [OF ok ext(2), of Bad_SubscriptionIdInvalid] IH ext False
      by (cases a) (simp add: AcknowledgePublishRequest_def rep group_acks_snoc ack_each_snoc
          ack_one_def split_beta list_update_append del: replicate_Suc)
  qed
qed (simp add: AcknowledgePublishRequest_def)

lemma session_inv_ack_each: "session_inv s \<Longrightarrow> session_inv (snd (ack_each acks s))"
proof (induction acks arbitrary: s)
  case (Cons a acks)
  have "subscription_id (snd (Acknowledge1 n x)) = subscription_id x" for n x
    by (simp add: Acknowledge1_def split: option.split)
  then have "session_inv (snd (ack_one a s))"
    using Cons.prems by (auto simp: ack_one_def split_beta session_inv_put split: option.split)
  then show ?case using Cons.IH by (simp add: split_beta Let_def)
qed simp

lemma session_inv_publish: "session_inv s \<Longrightarrow> session_inv (snd (Publish now acks s))"
  using session_inv_poll session_inv_ack_each
  by (auto simp: Publish_def acknowledge_grouped split_beta Let_def split: option.split)

section \<open>Continuation points\<close>

lemma session_inv_page: "session_inv s \<Longrightarrow> session_inv (snd (PageBrowseResult limit r s))"
  by (auto simp: PageBrowseResult_def MakeBrowseContinuationPoint_def session_inv_def Let_def
      map_of_eq_None_iff)

lemma session_inv_pages: "session_inv s \<Longrightarrow> session_inv (snd (page_results limit rs s))"
  by (induction rs arbitrary: s) (simp_all add: split_beta Let_def session_inv_page)

lemma session_inv_store: "session_inv s \<Longrightarrow> session_inv (snd (StoreBrowseResults limit rs s))"
  by (simp add: StoreBrowseResults_def session_inv_pages)

lemma session_inv_drop_continuation:
  "session_inv s \<Longrightarrow>
   session_inv (s\<lparr>browse_continuations := AList.delete cp (browse_continuations s)\<rparr>)"
  using length_delete_le [of cp "browse_continuations s"]
  by (auto simp: session_inv_def distinct_map_alist_delete)

lemma session_inv_browse_next: "session_inv s \<Longrightarrow> session_inv (snd (BrowseNext release cps s))"
  by (induction cps arbitrary: s)
     (cases release; auto simp: split_beta Let_def session_inv_drop_continuation
       ResumeBrowseResult_def split: option.split)+

section \<open>Properties\<close>

text \<open>
  C22. Who publishes. When a subscription of the session is ready, \<open>PollPublish\<close> answers with a
  publish of a ready subscription. Subscriptions with queued notifications come first;
  among the candidates it is the one nearest ahead of the cursor, and the cursor moves
  right behind it. No fall-back answer is ever given in that case.
\<close>

theorem poll_serves_nearest:
  assumes "session_inv s" "j < length (publish_order s)" "eligible now False s j"
  shows "\<exists>i x r x'. i < length (publish_order s) \<and>
     FindSubscription (publish_order s ! i) s = Some x \<and> IsPublishReady now x \<and>
     TryPublish now x = (Some r, x') \<and> pr_subscription_id r = publish_order s ! i \<and>
     PollPublish now s = (PollResult (Some r) None,
       (put_subscription (publish_order s ! i) x' s)
         \<lparr>next_publish_index := (i + 1) mod length (publish_order s)\<rparr>) \<and>
     (let p = (\<exists>k < length (publish_order s). eligible now True s k) in
       eligible now p s i \<and> (\<forall>k < length (publish_order s). eligible now p s k \<longrightarrow>
         ahead (next_publish_index s) (length (publish_order s)) i \<le>
         ahead (next_publish_index s) (length (publish_order s)) k))"
proof -
  define p where "p = (\<exists>k < length (publish_order s). eligible now True s k)"
  have "FindNextReadySubscription now p s \<noteq> None"
  proof (cases p)
    case True
    then show ?thesis using find_next_none [OF assms(1), of now True] by (auto simp: p_def)
  next
    case False
    then show ?thesis using find_next_none [OF assms(1), of now False] assms(2,3) by auto
  qed
  then obtain i where f: "FindNextReadySubscription now p s = Some i" by auto
  have "publish_index now s = Some i"
  proof (cases p)
    case True
    then show ?thesis using f by (simp add: publish_index_def)
  next
    case False
    then have "FindNextReadySubscription now True s = None"
      using find_next_some [OF assms(1), of now True]
      by (cases "FindNextReadySubscription now True s") (auto simp: p_def)
    then show ?thesis using f False by (simp add: publish_index_def)
  qed
  from publish_index_some [OF assms(1) this] obtain x r x' where r:
    "i < length (publish_order s)" "FindSubscription (publish_order s ! i) s = Some x"
    "IsPublishReady now x" "TryPublish now x = (Some r, x')"
    "pr_subscription_id r = publish_order s ! i"
    "PollPublish now s = (PollResult (Some r) None,
       AdvancePublishCursorAfter i (put_subscription (publish_order s ! i) x' s))" .
  show ?thesis unfolding p_def [symmetric] Let_def
    using r find_next_some [OF assms(1) f]
    by (intro exI [of _ i] exI [of _ x] exI [of _ r] exI [of _ x'])
       (auto simp: AdvancePublishCursorAfter_def)
qed

text \<open>A session with two subscriptions that both have notifications.\<close>

definition example_session :: "unit session" where
  "example_session = (let s = snd (CreateSubscriptionWithId 0 8 example_parameters
       (snd (CreateSubscriptionWithId 0 7 example_parameters
         (ServerSession (numeric_node_id 1) (numeric_node_id 2) default_service_context 1000)))) in
     put_subscription 7 example_sub (put_subscription 8 (example_sub\<lparr>subscription_id := 8\<rparr>) s))"

theorem poll_serves_nearest_witness:
  "\<exists>r. poll_response (fst (PollPublish example_now example_session)) = Some r \<and>
     pr_subscription_id r \<in> {7, 8}"
proof -
  have inv: "session_inv example_session" by code_simp
  have ord: "publish_order example_session = [7, 8]" by code_simp
  moreover have "eligible example_now False example_session 0" by code_simp
  ultimately show ?thesis
    using poll_serves_nearest [OF inv, of 0 example_now] by (force simp: less_Suc_eq)
qed

text \<open>
  C5. No subscription starves. Take any session and any \<open>n\<close> polls, \<open>n\<close> being the number of its
  subscriptions. A subscription that has notifications and is ready at each of these
  polls until it is served is served by one of them.
\<close>

theorem no_starvation:
  assumes "session_inv s" "sid \<in> set (publish_order s)"
    and "\<forall>k < length (publish_order s).
      (\<exists>x. FindSubscription sid (polled t s k) = Some x \<and> HasPendingNotifications x \<and>
           IsPublishReady (t k) x) \<or>
      (\<exists>m < k. \<exists>r. poll_response (fst (PollPublish (t m) (polled t s m))) = Some r \<and>
           pr_subscription_id r = sid)"
  shows "\<exists>k < length (publish_order s). \<exists>r.
     poll_response (fst (PollPublish (t k) (polled t s k))) = Some r \<and> pr_subscription_id r = sid"
proof (rule ccontr)
  let ?n = "length (publish_order s)"
  let ?served = "\<lambda>k. \<exists>r. poll_response (fst (PollPublish (t k) (polled t s k))) = Some r \<and>
    pr_subscription_id r = sid"
  let ?ahead = "\<lambda>k j. ahead (next_publish_index (polled t s k)) ?n j"
  assume never: "\<not> (\<exists>k < ?n. ?served k)"
  obtain j where j: "j < ?n" "publish_order s ! j = sid" using assms(2) by (auto simp: in_set_conv_nth)
  have step: "?ahead (Suc k) j < ?ahead k j" if "k < ?n" for k
  proof -
    have k: "session_inv (polled t s k)" "publish_order (polled t s k) = publish_order s"
      using polled_inv [OF assms(1)] by blast+
    have "\<not> (\<exists>m < k. ?served m)" using never that less_trans [of _ k ?n] by blast
    then have "\<exists>x. FindSubscription sid (polled t s k) = Some x \<and> HasPendingNotifications x \<and>
        IsPublishReady (t k) x"
      using assms(3) that by blast
    then have "eligible (t k) True (polled t s k) j"
      by (auto simp: eligible_def k(2) j(2))
    from poll_progress [OF k(1) _ this] j(1) k(2) obtain i where
      i: "publish_index (t k) (polled t s k) = Some i" "i = j \<or> ?ahead (Suc k) j < ?ahead k j" by auto
    have "i \<noteq> j"
    proof
      assume "i = j"
      from publish_index_some [OF k(1) i(1)] obtain r x' where
        "pr_subscription_id r = publish_order (polled t s k) ! i"
        "PollPublish (t k) (polled t s k) = (PollResult (Some r) None, AdvancePublishCursorAfter i
           (put_subscription (publish_order (polled t s k) ! i) x' (polled t s k)))" .
      then have "?served k" using \<open>i = j\<close> j(2) k(2) by simp
      then show False using never that by blast
    qed
    then show ?thesis using i(2) by blast
  qed
  have "?ahead k j + k \<le> ?ahead 0 j" if "k \<le> ?n" for k
    using that
  proof (induction k)
    case (Suc k)
    then show ?case using step [of k] by simp
  qed simp
  from this [of ?n] ahead_less [of ?n "next_publish_index (polled t s 0)" j] j(1)
  show False by (cases "publish_order s") auto
qed

theorem no_starvation_witness:
  "\<exists>k < 2. \<exists>r. poll_response (fst (PollPublish example_now
       (polled (\<lambda>_. example_now) example_session k))) = Some r \<and> pr_subscription_id r = 8"
proof -
  let ?t = "\<lambda>_::nat. example_now"
  have inv: "session_inv example_session" by code_simp
  have ord: "publish_order example_session = [7, 8]" by code_simp
  have "case FindSubscription 8 (polled ?t example_session 0) of None \<Rightarrow> False
      | Some x \<Rightarrow> HasPendingNotifications x \<and> IsPublishReady example_now x" by code_simp
  moreover have "case FindSubscription 8 (polled ?t example_session 1) of None \<Rightarrow> False
      | Some x \<Rightarrow> HasPendingNotifications x \<and> IsPublishReady example_now x" by code_simp
  ultimately have "\<exists>x. FindSubscription 8 (polled ?t example_session k) = Some x \<and>
      HasPendingNotifications x \<and> IsPublishReady example_now x" if "k < 2" for k
    using that by (auto simp: less_2_cases_iff simp del: polled.simps split: option.split_asm)
  then show ?thesis
    using no_starvation [OF inv, of 8 ?t] by (simp add: ord numeral_2_eq_2 del: polled.simps)
qed

text \<open>
  Acknowledgements in any order. \<open>AcknowledgePublishRequest\<close> collects the acknowledgements
  of a request by subscription; its answers and its effect are those of taking the
  acknowledgements one after the other in the order of the request.
\<close>

lemma acknowledgements_in_order:
  "AcknowledgePublishRequest acks s = ack_each acks s"
  by (rule acknowledge_grouped)

text \<open>
  C25. A transfer moves. After \<open>TransferSubscriptionsFrom\<close> of distinct ids a subscription of the list that the
  source had and the target had not is in the target, in the same state, and no longer
  in the source; every other subscription is where it was; each id of the list is
  answered accordingly; both sessions keep their invariant.
\<close>

theorem transfer_moves:
  assumes "session_inv source" "session_inv target"
    and "TransferSubscriptionsFrom sids source target = (rs, source', target')" "distinct sids"
  shows "session_inv source' \<and> session_inv target' \<and>
    rs = map (\<lambda>k. status_of_code (if HasSubscription k target then Bad
           else if HasSubscription k source then Good else Bad_SubscriptionIdInvalid)) sids \<and>
    (\<forall>k. FindSubscription k target' = (if k \<in> set sids \<and> \<not> HasSubscription k target
           then FindSubscription k source else FindSubscription k target)) \<and>
    (\<forall>k. FindSubscription k source' = (if k \<in> set sids \<and> \<not> HasSubscription k target
           then None else FindSubscription k source))"
  using transfer_from [OF assms(1-3)] assms(4)
  by (simp add: transfer_answer_def [abs_def] HasSubscription_def)

definition example_other_session :: "unit session" where
  "example_other_session =
     ServerSession (numeric_node_id 3) (numeric_node_id 4) default_service_context 1000"

theorem transfer_moves_witness:
  "FindSubscription 7 (snd (snd (TransferSubscriptionsFrom [7, 9] example_session
     example_other_session))) = FindSubscription 7 example_session \<and>
   fst (TransferSubscriptionsFrom [7, 9] example_session example_other_session) =
     [status_of_code Good, status_of_code Bad_SubscriptionIdInvalid]"
proof -
  obtain rs s' t' where t: "TransferSubscriptionsFrom [7, 9] example_session example_other_session =
      (rs, s', t')" by (metis prod_cases3)
  have "session_inv example_session" "session_inv example_other_session" by code_simp+
  moreover have "\<not> HasSubscription 7 example_other_session" "\<not> HasSubscription 9 example_other_session"
    "HasSubscription 7 example_session" "\<not> HasSubscription 9 example_session" by code_simp+
  ultimately show ?thesis using transfer_moves [OF _ _ t] by (simp add: t)
qed

text \<open>
  C26. Browsing in pages loses nothing. When a result has more references than asked for and
  a continuation point can be kept, the page and what BrowseNext then returns for its
  continuation point are together exactly the references of the result, in order; the
  continuation point serves once.
\<close>

theorem browse_pages:
  assumes "0 < limit" "limit < length (br_references r)"
    and "length (browse_continuations s) < kMaxBrowseContinuationPoints"
    and "map_of (browse_continuations s) (enc_u32 (next_browse_continuation_id s)) = None"
  shows "\<exists>page s1 rest s2. PageBrowseResult limit r s = (page, s1) \<and>
     BrowseNext False [continuation_point page] s1 = ([rest], s2) \<and>
     br_references page @ br_references rest = br_references r \<and>
     length (br_references page) = limit \<and> br_status page = br_status r \<and>
     br_status rest = status_of_code Good \<and> continuation_point rest = [] \<and>
     browse_continuations s2 = browse_continuations s \<and>
     map br_status (fst (BrowseNext False [continuation_point page] s2)) =
       [status_of_code Bad_ContinuationPointInvalid]"
proof -
  let ?cp = "enc_u32 (next_browse_continuation_id s)"
  have "?cp \<notin> fst ` set (browse_continuations s)" using assms(4) by (simp add: map_of_eq_None_iff)
  then have d: "AList.delete ?cp (browse_continuations s @ [(?cp, x)]) = browse_continuations s" for x
    using delete_id by (auto simp: AList.delete_eq)
  show ?thesis using assms
    by (simp add: PageBrowseResult_def MakeBrowseContinuationPoint_def ResumeBrowseResult_def Let_def
        map_add_def d)
qed

theorem browse_pages_witness:
  "\<exists>page s1 rest s2. PageBrowseResult 2 (BrowseResult (status_of_code Good) [] [(), (), ()])
       example_session = (page, s1) \<and>
     BrowseNext False [continuation_point page] s1 = ([rest], s2) \<and>
     br_references page @ br_references rest = [(), (), ()]"
proof -
  have "browse_continuations example_session = []" by code_simp
  then show ?thesis
    using browse_pages [of 2 "BrowseResult (status_of_code Good) [] [(), (), ()]" example_session]
    by fastforce
qed

end
