(* ===== verification/Ua_Session_Manager.thy ===== *)
theory Ua_Session_Manager
  imports Ua_Session Ua_Crypto
begin

text \<open>
  \<^verbatim>\<open>session/server_session_manager.{h,cpp}\<close>: identity and lifetime of the sessions of a
  server. \<open>sessions\<close> lists the entries of the \<open>std::unordered_map\<close>; nothing below depends
  on their order. The clock is an argument: \<open>now\<close> is the reading that prunes, \<open>later\<close> the
  reading that dates the next expiry. ActivateSession suspends while the authenticator
  works, so it is two operations: \<open>ActivateSession\<close> runs to the answer or to the
  \<^verbatim>\<open>co_await\<close>, \<open>FinishActivation\<close> from the authenticator's answer on; other operations may
  run in between, as the step relation of the last section allows. Calls of the two sinks
  \<open>on_session_removed\<close> and \<open>on_audit_event\<close> are the lists \<open>removed_tokens\<close> and \<open>audit_events\<close>.
  Log output is left out.
\<close>

section \<open>State\<close>

datatype authentication_result = AuthenticationResult
  (au_user_id: node_id) (au_user_rights: u32) (au_multi_sessions: bool)

record session_state =
  st_session_id :: node_id
  st_authentication_token :: node_id
  st_server_nonce :: bytes
  st_client_certificate :: bytes
  st_revised_timeout :: duration
  st_expires_at :: date_time
  st_service_context :: service_context
  st_authentication_result :: "authentication_result option"
  st_activated :: bool
  st_attached :: bool
  st_peer :: bytes

datatype session_audit_kind = ActivateSuccess | ActivateFailure

datatype session_audit_event = SessionAuditEvent (ev_kind: session_audit_kind)
  (ev_session_id: node_id) (ev_user_id: node_id) (ev_status: status) (ev_message: string)
  (ev_peer: bytes)

record manager_context =
  server_certificate :: bytes
  decrypt_user_token :: "(bytes \<Rightarrow> bytes option) option"
  require_encryption_for_password :: bool
  on_audit_event :: bool
  default_timeout :: duration
  min_timeout :: duration
  max_timeout :: duration
  session_namespace_index :: u16
  token_namespace_index :: u16

record manager =
  sessions :: "(node_id \<times> session_state) list"
  next_session_id :: u32
  next_token_id :: u32
  on_session_removed :: bool
  removed_tokens :: "node_id list"
  audit_events :: "session_audit_event list"

definition ServerSessionManager :: manager where
  "ServerSessionManager = \<lparr>sessions = [], next_session_id = 1, next_token_id = 1,
     on_session_removed = False, removed_tokens = [], audit_events = []\<rparr>"

definition SetSessionRemovedCallback :: "bool \<Rightarrow> manager \<Rightarrow> manager" where
  "SetSessionRemovedCallback callback m = m\<lparr>on_session_removed := callback\<rparr>"

section \<open>Service contexts\<close>

definition with_user_id :: "node_id \<Rightarrow> service_context \<Rightarrow> service_context" where
  "with_user_id u c = c\<lparr>sc_user_id := u\<rparr>"

definition with_user_rights :: "u32 \<Rightarrow> service_context \<Rightarrow> service_context" where
  "with_user_rights r c = c\<lparr>sc_user_rights := r\<rparr>"

definition with_trace_id :: "bytes \<Rightarrow> service_context \<Rightarrow> service_context" where
  "with_trace_id t c = c\<lparr>sc_trace_id := t\<rparr>"

definition with_peer :: "bytes \<Rightarrow> service_context \<Rightarrow> service_context" where
  "with_peer p c = c\<lparr>sc_peer := p\<rparr>"

section \<open>Signature and password\<close>

definition VerifyApplicationSignature :: "openssl \<Rightarrow> bytes \<Rightarrow> bytes \<Rightarrow> bytes \<Rightarrow> bytes \<Rightarrow> bool" where
  "VerifyApplicationSignature ssl client_certificate_der server_cert server_nonce signature =
     (case LoadDerCertificate ssl client_certificate_der of None \<Rightarrow> False
      | Some certificate \<Rightarrow>
         (case CertificatePublicKey ssl certificate of None \<Rightarrow> False
          | Some public_key \<Rightarrow>
              RsaPkcs1Sha256Verify ssl public_key (server_cert @ server_nonce) signature))"

definition little_endian_u32 :: "bytes \<Rightarrow> u32" where
  "little_endian_u32 b = ucast (b ! 0) OR push_bit 8 (ucast (b ! 1)) OR push_bit 16 (ucast (b ! 2))
     OR push_bit 24 (ucast (b ! 3))"

definition RecoverEncryptedPassword ::
  "(bytes \<Rightarrow> bytes option) option \<Rightarrow> bytes \<Rightarrow> bytes \<Rightarrow> status + bytes" where
  "RecoverEncryptedPassword decrypt ciphertext server_nonce =
     (let rejected = Inl (status_of_code Bad_IdentityTokenRejected) in
      case decrypt of None \<Rightarrow> rejected
      | Some f \<Rightarrow>
         (case f ciphertext of None \<Rightarrow> rejected
          | Some plaintext \<Rightarrow>
             if length plaintext < 4 then rejected
             else let len = unat (little_endian_u32 plaintext) in
               if len > length plaintext - 4 \<or> len < length server_nonce then rejected
               else let password_len = len - length server_nonce; secret = drop 4 plaintext in
                 if take (length server_nonce) (drop password_len secret) \<noteq> server_nonce
                 then rejected
                 else Inr (take password_len secret)))"

definition ToLocalizedText :: "utf_convert \<Rightarrow> bytes \<Rightarrow> localized_text" where
  "ToLocalizedText u s = LocalizedText [] (to_utf16 u s)"

lemma session_statuses:
  "\<not> status_bad (status_of_code Good)"
  "status_bad (status_of_code Bad_SessionIdInvalid)"
  "status_bad (status_of_code Bad_IdentityTokenRejected)"
  "status_bad (status_of_code Bad_UserIsAlreadyLoggedOn)"
  "status_bad (status_of_code Bad_ApplicationSignatureInvalid)"
  by (simp_all add: status_bad_def severity_def severity_of_def status_of_code_def)

section \<open>Lookup, removal and notification\<close>

definition NotifySessionRemoved :: "node_id \<Rightarrow> manager \<Rightarrow> manager" where
  "NotifySessionRemoved token m =
     (if on_session_removed m then m\<lparr>removed_tokens := removed_tokens m @ [token]\<rparr> else m)"

definition EmitSessionAudit :: "manager_context \<Rightarrow> session_audit_kind \<Rightarrow> node_id \<Rightarrow> node_id \<Rightarrow> status
    \<Rightarrow> string \<Rightarrow> bytes \<Rightarrow> manager \<Rightarrow> manager" where
  "EmitSessionAudit cfg kind session_id user status message peer m =
     (if \<not> on_audit_event cfg then m
      else m\<lparr>audit_events := audit_events m
        @ [SessionAuditEvent kind session_id user status message peer]\<rparr>)"

definition FindSessionState :: "node_id \<Rightarrow> manager \<Rightarrow> session_state option" where
  "FindSessionState token m = map_of (sessions m) token"

definition put_session :: "node_id \<Rightarrow> session_state \<Rightarrow> manager \<Rightarrow> manager" where
  "put_session token s m = m\<lparr>sessions := AList.update token s (sessions m)\<rparr>"

definition erase_sessions_if :: "(session_state \<Rightarrow> bool) \<Rightarrow> manager \<Rightarrow> manager" where
  "erase_sessions_if p m =
     (let gone = map (st_authentication_token \<circ> snd) (filter (p \<circ> snd) (sessions m))
      in fold NotifySessionRemoved gone
           (m\<lparr>sessions := filter (Not \<circ> p \<circ> snd) (sessions m)\<rparr>))"

definition PruneExpiredSessions :: "date_time \<Rightarrow> manager \<Rightarrow> manager" where
  "PruneExpiredSessions now m = erase_sessions_if (\<lambda>s. time_le (st_expires_at s) now) m"

definition authenticated_as :: "node_id \<Rightarrow> session_state \<Rightarrow> bool" where
  "authenticated_as user s =
     (case st_authentication_result s of None \<Rightarrow> False | Some r \<Rightarrow> au_user_id r = user)"

definition RemoveSessionsByUser :: "node_id \<Rightarrow> manager \<Rightarrow> manager" where
  "RemoveSessionsByUser user m = erase_sessions_if (authenticated_as user) m"

definition HasAttachedSessionForUser :: "node_id \<Rightarrow> manager \<Rightarrow> bool" where
  "HasAttachedSessionForUser user m =
     list_ex (\<lambda>(_, s). st_attached s \<and> authenticated_as user s) (sessions m)"

definition RemoveSessionByToken :: "node_id \<Rightarrow> manager \<Rightarrow> manager" where
  "RemoveSessionByToken token m =
     (case FindSessionState token m of None \<Rightarrow> m
      | Some _ \<Rightarrow> NotifySessionRemoved token (m\<lparr>sessions := AList.delete token (sessions m)\<rparr>))"

datatype lookup_result = ServerSessionLookupResult (lr_session_id: node_id)
  (lr_authentication_token: node_id) (lr_service_context: service_context)
  (lr_authentication_result: "authentication_result option") (lr_attached: bool)
  (lr_activated: bool)

definition FindSession :: "node_id \<Rightarrow> manager \<Rightarrow> lookup_result option" where
  "FindSession token m = map_option (\<lambda>s. ServerSessionLookupResult (st_session_id s)
     (st_authentication_token s) (st_service_context s) (st_authentication_result s)
     (st_attached s) (st_activated s)) (FindSessionState token m)"

section \<open>CreateSession\<close>

definition ReviseTimeout :: "manager_context \<Rightarrow> duration \<Rightarrow> duration" where
  "ReviseTimeout cfg requested =
     (if requested = duration_zero then default_timeout cfg
      else if f64_less requested (min_timeout cfg) then min_timeout cfg
      else if f64_less (max_timeout cfg) requested then max_timeout cfg
      else requested)"

definition MakeSessionId :: "manager_context \<Rightarrow> manager \<Rightarrow> node_id \<times> manager" where
  "MakeSessionId cfg m = (NodeId (NumericId (next_session_id m)) (session_namespace_index cfg),
     m\<lparr>next_session_id := next_session_id m + 1\<rparr>)"

definition MakeAuthenticationToken :: "manager_context \<Rightarrow> manager \<Rightarrow> node_id \<times> manager" where
  "MakeAuthenticationToken cfg m = (NodeId (NumericId (next_token_id m)) (token_namespace_index cfg),
     m\<lparr>next_token_id := next_token_id m + 1\<rparr>)"

abbreviation kServerNonceLength :: nat where "kServerNonceLength \<equiv> 32"

definition MakeServerNonce :: "openssl \<Rightarrow> bytes" where
  "MakeServerNonce ssl = (case GenerateNonce ssl kServerNonceLength of
     None \<Rightarrow> replicate kServerNonceLength 0 | Some nonce \<Rightarrow> nonce)"

record create_session_request =
  cr_requested_timeout :: duration
  cr_endpoint_url :: bytes
  cr_client_certificate :: bytes
  cr_client_nonce :: bytes
  cr_channel_secure :: bool
  cr_channel_certificate :: bytes
  cr_peer :: bytes

record create_session_response =
  cp_status :: status
  cp_session_id :: node_id
  cp_authentication_token :: node_id
  cp_server_nonce :: bytes
  cp_server_certificate :: bytes
  cp_revised_timeout :: duration

definition failed_create :: "status_code \<Rightarrow> create_session_response" where
  "failed_create code = \<lparr>cp_status = status_of_code code, cp_session_id = null_node_id,
     cp_authentication_token = null_node_id, cp_server_nonce = [], cp_server_certificate = [],
     cp_revised_timeout = duration_zero\<rparr>"

definition new_session :: "node_id \<Rightarrow> node_id \<Rightarrow> bytes \<Rightarrow> duration \<Rightarrow> date_time
    \<Rightarrow> create_session_request \<Rightarrow> session_state" where
  "new_session session_id token nonce timeout later request =
     \<lparr>st_session_id = session_id, st_authentication_token = token, st_server_nonce = nonce,
      st_client_certificate = cr_client_certificate request, st_revised_timeout = timeout,
      st_expires_at = time_plus later timeout, st_service_context = default_service_context,
      st_authentication_result = None, st_activated = False, st_attached = False,
      st_peer = cr_peer request\<rparr>"

definition channel_mismatch :: "create_session_request \<Rightarrow> bool" where
  "channel_mismatch request \<longleftrightarrow> cr_channel_secure request \<and>
     (cr_client_certificate request = []
      \<or> cr_client_certificate request \<noteq> cr_channel_certificate request)"

definition CreateSession :: "openssl \<Rightarrow> manager_context \<Rightarrow> date_time \<Rightarrow> date_time
    \<Rightarrow> create_session_request \<Rightarrow> manager \<Rightarrow> create_session_response \<times> manager" where
  "CreateSession ssl cfg now later request m =
     (let m = PruneExpiredSessions now m in
      if channel_mismatch request then (failed_create Bad_ApplicationSignatureInvalid, m)
      else
        let timeout = ReviseTimeout cfg (cr_requested_timeout request);
            (session_id, m) = MakeSessionId cfg m;
            (token, m) = MakeAuthenticationToken cfg m;
            nonce = MakeServerNonce ssl;
            s = new_session session_id token nonce timeout later request
        in (\<lparr>cp_status = status_of_code Good, cp_session_id = session_id,
             cp_authentication_token = token, cp_server_nonce = nonce,
             cp_server_certificate = server_certificate cfg, cp_revised_timeout = timeout\<rparr>,
            put_session token s m))"

section \<open>ActivateSession\<close>

record activate_session_request =
  ar_session_id :: node_id
  ar_authentication_token :: node_id
  ar_user_name :: "localized_text option"
  ar_password :: "localized_text option"
  ar_delete_existing :: bool
  ar_allow_anonymous :: bool
  ar_channel_secure :: bool
  ar_client_signature_algorithm :: bytes
  ar_client_signature :: bytes
  ar_encrypted_password :: bytes
  ar_password_encryption_algorithm :: bytes
  ar_peer :: bytes

record activate_session_response =
  ap_status :: status
  ap_service_context :: service_context
  ap_authentication_result :: "authentication_result option"
  ap_resumed :: bool

definition failed_activate :: "status \<Rightarrow> activate_session_response" where
  "failed_activate s = \<lparr>ap_status = s, ap_service_context = default_service_context,
     ap_authentication_result = None, ap_resumed = False\<rparr>"

text \<open>An activation is answered, or waits for the authenticator with these credentials.\<close>

datatype activation =
  Answered activate_session_response
| Authenticating (wait_request: activate_session_request) (wait_session_id: node_id)
    (wait_user_name: localized_text) (wait_password: localized_text)

definition signature_missing ::
  "openssl \<Rightarrow> manager_context \<Rightarrow> session_state \<Rightarrow> activate_session_request \<Rightarrow> bool" where
  "signature_missing ssl cfg s request \<longleftrightarrow> st_client_certificate s \<noteq> [] \<and>
     (ar_client_signature request = []
      \<or> \<not> VerifyApplicationSignature ssl (st_client_certificate s) (server_certificate cfg)
           (st_server_nonce s) (ar_client_signature request))"

definition ResumeSession :: "date_time \<Rightarrow> activate_session_request \<Rightarrow> session_state \<Rightarrow> session_state"
  where
  "ResumeSession later request s = s\<lparr>st_attached := True,
     st_expires_at := time_plus later (st_revised_timeout s), st_peer := ar_peer request,
     st_service_context := with_peer (ar_peer request) (st_service_context s)\<rparr>"

definition activate_state :: "date_time \<Rightarrow> activate_session_request \<Rightarrow> authentication_result option
    \<Rightarrow> session_state \<Rightarrow> session_state" where
  "activate_state later request auth_result s =
     (let s = (case auth_result of
          Some r \<Rightarrow> s\<lparr>st_authentication_result := auth_result,
            st_service_context := with_peer (ar_peer request)
              (with_user_rights (au_user_rights r)
                (with_user_id (au_user_id r) default_service_context))\<rparr>
        | None \<Rightarrow> s\<lparr>st_service_context := with_peer (ar_peer request) default_service_context\<rparr>)
      in s\<lparr>st_peer := ar_peer request, st_activated := True, st_attached := True,
           st_expires_at := time_plus later (st_revised_timeout s)\<rparr>)"

text \<open>The tail of ActivateSession, from the second lookup on.\<close>

definition CompleteActivation :: "manager_context \<Rightarrow> date_time \<Rightarrow> activate_session_request
    \<Rightarrow> authentication_result option \<Rightarrow> manager \<Rightarrow> activate_session_response \<times> manager" where
  "CompleteActivation cfg later request auth_result m =
     (case FindSessionState (ar_authentication_token request) m of
        None \<Rightarrow> (failed_activate (status_of_code Bad_SessionIdInvalid), m)
      | Some s \<Rightarrow>
         let s = activate_state later request auth_result s;
             m = put_session (ar_authentication_token request) s m;
             m = EmitSessionAudit cfg ActivateSuccess (st_session_id s)
               (case auth_result of Some r \<Rightarrow> au_user_id r | None \<Rightarrow> null_node_id)
               (status_of_code Good)
               (if auth_result \<noteq> None then ''session activated'' else ''anonymous session activated'')
               (st_peer s) m
         in (\<lparr>ap_status = status_of_code Good, ap_service_context = st_service_context s,
              ap_authentication_result = st_authentication_result s, ap_resumed = False\<rparr>, m))"

definition reject_credentials :: "manager_context \<Rightarrow> node_id \<Rightarrow> node_id \<Rightarrow> status \<Rightarrow> string
    \<Rightarrow> activate_session_request \<Rightarrow> manager \<Rightarrow> activate_session_response \<times> manager" where
  "reject_credentials cfg session_id user s message request m =
     (failed_activate s,
      EmitSessionAudit cfg ActivateFailure session_id user s message (ar_peer request) m)"

text \<open>What precedes the \<^verbatim>\<open>co_await\<close> when the request is not anonymous.\<close>

definition CheckCredentials :: "utf_convert \<Rightarrow> manager_context \<Rightarrow> session_state
    \<Rightarrow> activate_session_request \<Rightarrow> manager \<Rightarrow> activation \<times> manager" where
  "CheckCredentials u cfg s request m =
     (let rejected = status_of_code Bad_IdentityTokenRejected in
      if require_encryption_for_password cfg \<and> \<not> ar_channel_secure request
         \<and> ar_password_encryption_algorithm request = []
      then map_prod Answered id (reject_credentials cfg (st_session_id s) null_node_id rejected
             ''password token on unsecured channel'' request m)
      else case (if ar_password_encryption_algorithm request = [] then Inr (ar_password request)
                 else case RecoverEncryptedPassword (decrypt_user_token cfg)
                        (ar_encrypted_password request) (st_server_nonce s) of
                     Inl e \<Rightarrow> Inl e | Inr plain \<Rightarrow> Inr (Some (ToLocalizedText u plain))) of
          Inl e \<Rightarrow> (Answered (failed_activate e), m)
        | Inr password \<Rightarrow>
           (case (ar_user_name request, password) of
              (Some name, Some pw) \<Rightarrow> (Authenticating request (st_session_id s) name pw, m)
            | _ \<Rightarrow> map_prod Answered id (reject_credentials cfg (st_session_id s) null_node_id
                     rejected ''missing credentials'' request m)))"

definition ActivateSession :: "openssl \<Rightarrow> utf_convert \<Rightarrow> manager_context \<Rightarrow> date_time \<Rightarrow> date_time
    \<Rightarrow> activate_session_request \<Rightarrow> manager \<Rightarrow> activation \<times> manager" where
  "ActivateSession ssl u cfg now later request m =
     (let m = PruneExpiredSessions now m in
      case FindSessionState (ar_authentication_token request) m of
        None \<Rightarrow> (Answered (failed_activate (status_of_code Bad_SessionIdInvalid)), m)
      | Some s \<Rightarrow>
         if signature_missing ssl cfg s request
         then (Answered (failed_activate (status_of_code Bad_ApplicationSignatureInvalid)), m)
         else if st_activated s
         then let s = ResumeSession later request s in
           (Answered \<lparr>ap_status = status_of_code Good, ap_service_context = st_service_context s,
              ap_authentication_result = st_authentication_result s, ap_resumed = True\<rparr>,
            put_session (ar_authentication_token request) s m)
         else if \<not> ar_allow_anonymous request then CheckCredentials u cfg s request m
         else map_prod Answered id (CompleteActivation cfg later request None m))"

definition FinishActivation :: "manager_context \<Rightarrow> date_time \<Rightarrow> activate_session_request \<Rightarrow> node_id
    \<Rightarrow> status + authentication_result \<Rightarrow> manager \<Rightarrow> activate_session_response \<times> manager" where
  "FinishActivation cfg later request session_id auth m =
     (case auth of
        Inl e \<Rightarrow> reject_credentials cfg session_id null_node_id e ''authentication failed'' request m
      | Inr r \<Rightarrow>
         if au_multi_sessions r then CompleteActivation cfg later request (Some r) m
         else if HasAttachedSessionForUser (au_user_id r) m \<and> \<not> ar_delete_existing request
         then reject_credentials cfg session_id (au_user_id r)
                (status_of_code Bad_UserIsAlreadyLoggedOn) ''user already logged on'' request m
         else CompleteActivation cfg later request (Some r)
                (RemoveSessionsByUser (au_user_id r) m))"

section \<open>CloseSession and DetachSession\<close>

definition CloseSession :: "node_id \<Rightarrow> manager \<Rightarrow> status \<times> manager" where
  "CloseSession token m =
     (case FindSessionState token m of
        None \<Rightarrow> (status_of_code Bad_SessionIdInvalid, m)
      | Some _ \<Rightarrow> (status_of_code Good, RemoveSessionByToken token m))"

definition DetachSession :: "node_id \<Rightarrow> manager \<Rightarrow> manager" where
  "DetachSession token m =
     (case FindSessionState token m of
        None \<Rightarrow> m
      | Some s \<Rightarrow> put_session token (s\<lparr>st_attached := False\<rparr>) m)"

section \<open>What the operations keep\<close>

definition manager_inv :: "manager \<Rightarrow> bool" where
  "manager_inv m \<longleftrightarrow> distinct (map fst (sessions m))
     \<and> list_all (\<lambda>(t, s). st_authentication_token s = t) (sessions m)"

definition activated_tokens :: "manager \<Rightarrow> node_id set" where
  "activated_tokens m = {t. \<exists>s. FindSessionState t m = Some s \<and> st_activated s}"

lemma fold_NotifySessionRemoved:
  "fold NotifySessionRemoved ts m =
     (if on_session_removed m then m\<lparr>removed_tokens := removed_tokens m @ ts\<rparr> else m)"
  by (induction ts arbitrary: m) (auto simp: NotifySessionRemoved_def)

lemma FindSessionState_put [simp]:
  "FindSessionState t (put_session t' s m) = (if t = t' then Some s else FindSessionState t m)"
  by (simp add: FindSessionState_def put_session_def update_conv')

lemma FindSessionState_emit [simp]:
  "FindSessionState t (EmitSessionAudit cfg k i us st msg p m) = FindSessionState t m"
  by (simp add: EmitSessionAudit_def FindSessionState_def)

lemma put_session_fields [simp]:
  "removed_tokens (put_session t s m) = removed_tokens m"
  "on_session_removed (put_session t s m) = on_session_removed m"
  "next_token_id (put_session t s m) = next_token_id m"
  "removed_tokens (EmitSessionAudit cfg k i us st msg p m) = removed_tokens m"
  "on_session_removed (EmitSessionAudit cfg k i us st msg p m) = on_session_removed m"
  "next_token_id (EmitSessionAudit cfg k i us st msg p m) = next_token_id m"
  by (simp_all add: put_session_def EmitSessionAudit_def)

lemma next_token_erase [simp]: "next_token_id (erase_sessions_if p m) = next_token_id m"
  by (simp add: erase_sessions_if_def Let_def fold_NotifySessionRemoved)

lemma map_of_filter_value:
  "distinct (map fst xs) \<Longrightarrow> map_of (filter (p \<circ> snd) xs) k =
     (case map_of xs k of None \<Rightarrow> None | Some v \<Rightarrow> if p v then Some v else None)"
proof (induction xs)
  case (Cons x xs)
  then have "k = fst x \<Longrightarrow> map_of xs k = None" by (auto simp: map_of_eq_None_iff)
  with Cons show ?case by (cases x) (auto split: option.splits)
qed simp

lemma FindSessionState_erase:
  assumes "manager_inv m"
  shows "FindSessionState t (erase_sessions_if p m) =
     (case FindSessionState t m of None \<Rightarrow> None | Some s \<Rightarrow> if p s then None else Some s)"
  using assms map_of_filter_value [of "sessions m" "Not \<circ> p" t]
  by (auto simp: erase_sessions_if_def manager_inv_def FindSessionState_def Let_def comp_assoc
      fold_NotifySessionRemoved split: option.splits if_splits)

lemma FindSessionState_token:
  "manager_inv m \<Longrightarrow> FindSessionState t m = Some s \<Longrightarrow> st_authentication_token s = t"
  by (auto simp: manager_inv_def FindSessionState_def list_all_iff dest!: map_of_SomeD)

lemma manager_inv_new: "manager_inv ServerSessionManager"
  by (simp add: manager_inv_def ServerSessionManager_def)

lemma manager_inv_erase: "manager_inv m \<Longrightarrow> manager_inv (erase_sessions_if p m)"
  by (auto simp: manager_inv_def erase_sessions_if_def Let_def fold_NotifySessionRemoved list_all_iff
      distinct_map_filter)

lemma manager_inv_put:
  "manager_inv m \<Longrightarrow> st_authentication_token s = t \<Longrightarrow> manager_inv (put_session t s m)"
proof -
  assume inv: "manager_inv m" and t: "st_authentication_token s = t"
  have "set (AList.update t s xs) \<subseteq> insert (t, s) (set xs)" for xs
    by (induction xs) auto
  from this [of "sessions m"] inv t show ?thesis
    by (auto simp: manager_inv_def put_session_def list_all_iff distinct_update)
qed

lemma manager_inv_counters [simp]:
  "manager_inv (m\<lparr>next_session_id := a, next_token_id := b\<rparr>) = manager_inv m"
  by (simp add: manager_inv_def)

lemma manager_inv_emit [simp]:
  "manager_inv (EmitSessionAudit cfg k i us st msg p m) = manager_inv m"
  by (simp add: manager_inv_def EmitSessionAudit_def)

text \<open>
  \<open>releases m m'\<close>: between the two states exactly the activated sessions that were announced
  to the removal sink are gone, and no other became activated.
\<close>

definition releases :: "manager \<Rightarrow> manager \<Rightarrow> bool" where
  "releases m m' \<longleftrightarrow> manager_inv m' \<and> on_session_removed m' \<and>
     (\<exists>gone. removed_tokens m' = removed_tokens m @ gone
        \<and> activated_tokens m' = activated_tokens m - set gone)"

lemma releasesI:
  assumes "manager_inv m'" and "on_session_removed m'" and "removed_tokens m' = removed_tokens m @ gone"
    and "activated_tokens m' = activated_tokens m - set gone"
  shows "releases m m'"
  using assms by (auto simp: releases_def)

lemma releases_refl: "manager_inv m \<Longrightarrow> on_session_removed m \<Longrightarrow> releases m m"
  by (rule releasesI [where gone = "[]"]) auto

lemma releases_trans: "releases m m' \<Longrightarrow> releases m' m'' \<Longrightarrow> releases m m''"
proof -
  assume "releases m m'" "releases m' m''"
  then obtain g h where "removed_tokens m' = removed_tokens m @ g" "activated_tokens m' = activated_tokens m - set g"
    and "removed_tokens m'' = removed_tokens m' @ h" "activated_tokens m'' = activated_tokens m' - set h"
    and "manager_inv m''" "on_session_removed m''" by (auto simp: releases_def)
  then show ?thesis by (intro releasesI [where gone = "g @ h"]) auto
qed

lemma releases_erase:
  assumes "manager_inv m" and "on_session_removed m"
  shows "releases m (erase_sessions_if p m)"
proof (rule releasesI)
  let ?gone = "map (st_authentication_token \<circ> snd) (filter (p \<circ> snd) (sessions m))"
  show "manager_inv (erase_sessions_if p m)" by (rule manager_inv_erase) fact
  show "on_session_removed (erase_sessions_if p m)"
    and "removed_tokens (erase_sessions_if p m) = removed_tokens m @ ?gone"
    using assms(2) by (simp_all add: erase_sessions_if_def Let_def fold_NotifySessionRemoved)
  have "t \<in> set ?gone \<longleftrightarrow> (\<exists>s. FindSessionState t m = Some s \<and> p s)" for t
    using assms(1) by (force simp: manager_inv_def FindSessionState_def list_all_iff)
  then show "activated_tokens (erase_sessions_if p m) = activated_tokens m - set ?gone"
    using assms(1) by (auto simp: activated_tokens_def FindSessionState_erase split: option.splits if_splits)
qed

lemma releases_put:
  assumes "manager_inv m" and "on_session_removed m" and "st_authentication_token s = t"
    and "st_activated s \<longleftrightarrow> t \<in> activated_tokens m"
  shows "releases m (put_session t s m)"
  using assms by (intro releasesI [where gone = "[]"]) (auto simp: activated_tokens_def manager_inv_put)

lemma releases_emit:
  "releases m m' \<Longrightarrow> releases m (EmitSessionAudit cfg k i us st msg p m')"
  by (simp add: releases_def activated_tokens_def)

lemma releasesD: "releases m m' \<Longrightarrow> manager_inv m' \<and> on_session_removed m'"
  by (simp add: releases_def)

lemma releases_prune:
  "manager_inv m \<Longrightarrow> on_session_removed m \<Longrightarrow> releases m (PruneExpiredSessions now m)"
  unfolding PruneExpiredSessions_def by (rule releases_erase)

lemma releases_reject:
  "manager_inv m \<Longrightarrow> on_session_removed m \<Longrightarrow>
     releases m (snd (reject_credentials cfg i us st msg request m))"
  by (simp add: reject_credentials_def releases_emit releases_refl)

lemma releases_credentials:
  assumes "manager_inv m" and "on_session_removed m"
  shows "releases m (snd (CheckCredentials u cfg s request m))"
  using assms releases_reject [OF assms] releases_refl [OF assms]
  by (simp add: CheckCredentials_def Let_def split: sum.split option.split)

lemma RecoverEncryptedPassword_bad:
  "RecoverEncryptedPassword f c n = Inl e \<Longrightarrow> status_bad e"
  by (auto simp: RecoverEncryptedPassword_def Let_def session_statuses split: option.splits if_splits)

lemma CheckCredentials_bad:
  "CheckCredentials u cfg s request m = (act, m') \<Longrightarrow>
     case act of Answered response \<Rightarrow> status_bad (ap_status response) | _ \<Rightarrow> True"
  by (auto simp: CheckCredentials_def Let_def reject_credentials_def failed_activate_def session_statuses
      dest: RecoverEncryptedPassword_bad split: if_splits sum.splits option.splits activation.splits)

lemma activate_state_fields [simp]:
  "st_activated (activate_state later request r s)"
  "st_attached (activate_state later request r s)"
  "st_authentication_token (activate_state later request r s) = st_authentication_token s"
  "st_client_certificate (activate_state later request r s) = st_client_certificate s"
  "st_server_nonce (activate_state later request r s) = st_server_nonce s"
  "st_authentication_result (activate_state later request r s) =
     (case r of None \<Rightarrow> st_authentication_result s | Some _ \<Rightarrow> r)"
  by (simp_all add: activate_state_def Let_def split: option.split)

lemma resume_fields [simp]:
  "st_activated (ResumeSession later request s) = st_activated s"
  "st_authentication_token (ResumeSession later request s) = st_authentication_token s"
  "st_client_certificate (ResumeSession later request s) = st_client_certificate s"
  "st_server_nonce (ResumeSession later request s) = st_server_nonce s"
  "st_authentication_result (ResumeSession later request s) = st_authentication_result s"
  by (simp_all add: ResumeSession_def)

text \<open>\<open>activates t m m'\<close>: the same, and the session of token \<open>t\<close> is now activated.\<close>

definition activates :: "node_id \<Rightarrow> manager \<Rightarrow> manager \<Rightarrow> bool" where
  "activates t m m' \<longleftrightarrow> manager_inv m' \<and> on_session_removed m' \<and>
     (\<exists>gone. removed_tokens m' = removed_tokens m @ gone
        \<and> activated_tokens m' = insert t (activated_tokens m - set gone))"

lemma releases_activates: "releases m m' \<Longrightarrow> activates t m' m'' \<Longrightarrow> activates t m m''"
proof -
  assume "releases m m'" "activates t m' m''"
  then obtain g h where "removed_tokens m' = removed_tokens m @ g" "activated_tokens m' = activated_tokens m - set g"
    and "removed_tokens m'' = removed_tokens m' @ h" "activated_tokens m'' = insert t (activated_tokens m' - set h)"
    and "manager_inv m''" "on_session_removed m''" by (auto simp: releases_def activates_def)
  then show ?thesis by (auto simp: activates_def intro!: exI [of _ "g @ h"])
qed

lemma CompleteActivation_cases [consumes 1, case_names missing found]:
  assumes "CompleteActivation cfg later request r m = (response, m')"
  obtains "FindSessionState (ar_authentication_token request) m = None" "m' = m"
      "response = failed_activate (status_of_code Bad_SessionIdInvalid)"
  | s i us g msg p where "FindSessionState (ar_authentication_token request) m = Some s"
      "m' = EmitSessionAudit cfg ActivateSuccess i us g msg p
         (put_session (ar_authentication_token request) (activate_state later request r s) m)"
      "ap_status response = status_of_code Good" "\<not> ap_resumed response"
      "ap_service_context response = st_service_context (activate_state later request r s)"
proof (cases "FindSessionState (ar_authentication_token request) m")
  case None
  show ?thesis by (rule that(1) [OF None]) (use assms None in \<open>auto simp: CompleteActivation_def\<close>)
next
  case (Some s)
  let ?s = "activate_state later request r s"
  define us where "us = (case r of Some r \<Rightarrow> au_user_id r | None \<Rightarrow> null_node_id)"
  define msg where
    "msg = (if r \<noteq> None then ''session activated'' else ''anonymous session activated'')"
  have eq: "(response, m') = (\<lparr>ap_status = status_of_code Good, ap_service_context = st_service_context ?s,
      ap_authentication_result = st_authentication_result ?s, ap_resumed = False\<rparr>,
      EmitSessionAudit cfg ActivateSuccess (st_session_id ?s) us (status_of_code Good) msg (st_peer ?s)
        (put_session (ar_authentication_token request) ?s m))"
    unfolding assms [symmetric] CompleteActivation_def Some Let_def us_def msg_def by (simp only: option.case)
  show ?thesis by (rule that(2) [OF Some, of _ us "status_of_code Good" msg]) (use eq in simp_all)
qed

lemma complete_activates:
  assumes "CompleteActivation cfg later request r m = (response, m')"
    and "manager_inv m" and "on_session_removed m"
  shows "(if status_bad (ap_status response) then releases m m'
     else activates (ar_authentication_token request) m m') \<and> \<not> ap_resumed response"
  using assms(1)
proof (cases rule: CompleteActivation_cases)
  case missing
  then show ?thesis using releases_refl [OF assms(2,3)] by (simp add: failed_activate_def session_statuses)
next
  case (found s i us g msg p)
  let ?t = "ar_authentication_token request"
  have tok: "st_authentication_token s = ?t" using FindSessionState_token [OF assms(2) found(1)] .
  define m1 where "m1 = put_session ?t (activate_state later request r s) m"
  have inv: "manager_inv m1" "on_session_removed m1" "removed_tokens m1 = removed_tokens m"
    using assms(2,3) tok by (auto simp: m1_def intro!: manager_inv_put)
  have "activated_tokens m1 = insert ?t (activated_tokens m)"
    by (auto simp: activated_tokens_def m1_def)
  with inv have "activates ?t m m'"
    using found(2) by (auto simp: activates_def activated_tokens_def m1_def [symmetric])
  with found show ?thesis by (simp add: session_statuses)
qed

lemma FinishActivation_cases [consumes 1, case_names reject complete evict]:
  assumes "FinishActivation cfg later request i auth m = (response, m')"
  obtains us st msg where "reject_credentials cfg i us st msg request m = (response, m')"
      "auth = Inl st \<or> st = status_of_code Bad_UserIsAlreadyLoggedOn"
  | r where "auth = Inr r" "au_multi_sessions r"
      "CompleteActivation cfg later request (Some r) m = (response, m')"
  | r where "auth = Inr r" "\<not> au_multi_sessions r"
      "CompleteActivation cfg later request (Some r) (RemoveSessionsByUser (au_user_id r) m) = (response, m')"
proof (cases auth)
  case (Inl e)
  show ?thesis
    by (rule that(1) [of null_node_id e "''authentication failed''"])
      (use assms Inl in \<open>simp_all add: FinishActivation_def\<close>)
next
  case (Inr r)
  note answer = assms [unfolded FinishActivation_def Inr sum.case]
  show ?thesis
  proof (cases "au_multi_sessions r")
    case True
    show ?thesis by (rule that(2) [OF Inr True]) (use answer True in simp)
  next
    case False
    show ?thesis
    proof (cases "HasAttachedSessionForUser (au_user_id r) m \<and> \<not> ar_delete_existing request")
      case True
      show ?thesis
        by (rule that(1) [of "au_user_id r" "status_of_code Bad_UserIsAlreadyLoggedOn" "''user already logged on''"])
          (use answer False True in simp_all)
    next
      case gate: False
      show ?thesis by (rule that(3) [OF Inr False]) (use answer False gate in \<open>simp only: if_False\<close>)
    qed
  qed
qed

lemma finish_activates:
  assumes "FinishActivation cfg later request i auth m = (response, m')"
    and "manager_inv m" and "on_session_removed m" and "\<forall>e. auth = Inl e \<longrightarrow> status_bad e"
  shows "(if status_bad (ap_status response) then releases m m'
     else activates (ar_authentication_token request) m m') \<and> \<not> ap_resumed response"
  using assms(1)
proof (cases rule: FinishActivation_cases)
  case (reject us st msg)
  from reject(2) assms(4) have "status_bad st" by (auto simp: session_statuses)
  then show ?thesis using releases_reject [OF assms(2,3), of cfg i us st msg request] reject(1)
    by (auto simp: reject_credentials_def failed_activate_def)
next
  case (complete r)
  show ?thesis by (rule complete_activates [OF complete(3) assms(2,3)])
next
  case (evict r)
  have rel: "releases m (RemoveSessionsByUser (au_user_id r) m)"
    unfolding RemoveSessionsByUser_def by (rule releases_erase) fact+
  from releasesD [OF rel] complete_activates [OF evict(3)] show ?thesis
    using releases_trans [OF rel] releases_activates [OF rel] by (auto split: if_splits)
qed

text \<open>
  The first half of an activation: it waits, or it is answered; a resumed session was
  activated before.
\<close>

lemma activate_activates:
  assumes "ActivateSession ssl u cfg now later request m = (act, m')"
    and "manager_inv m" and "on_session_removed m"
  shows "case act of Authenticating _ _ _ _ \<Rightarrow> releases m m'
     | Answered response \<Rightarrow>
         if status_bad (ap_status response) then releases m m'
         else if ap_resumed response
         then releases m m' \<and> ar_authentication_token request \<in> activated_tokens m'
         else activates (ar_authentication_token request) m m'"
proof -
  define m1 where "m1 = PruneExpiredSessions now m"
  let ?t = "ar_authentication_token request"
  have rel: "releases m m1" unfolding m1_def by (rule releases_prune) fact+
  then have m1: "manager_inv m1" "on_session_removed m1" by (simp_all add: releasesD)
  show ?thesis
  proof (cases "FindSessionState ?t m1")
    case None
    then show ?thesis using assms(1) rel
      by (auto simp: ActivateSession_def m1_def [symmetric] failed_activate_def session_statuses)
  next
    case (Some s)
    note fetch = ActivateSession_def m1_def [symmetric] Some Let_def
    consider (bad) "signature_missing ssl cfg s request" | (resume) "\<not> signature_missing ssl cfg s request" "st_activated s"
      | (check) "(act, m') = CheckCredentials u cfg s request m1"
      | (anon) response where "act = Answered response" "CompleteActivation cfg later request None m1 = (response, m')"
      using assms(1) by (auto simp: fetch map_prod_def split: if_splits prod.splits)
    then show ?thesis
    proof cases
      case bad
      then show ?thesis using assms(1) rel by (auto simp: fetch failed_activate_def session_statuses)
    next
      case resume
      have m': "m' = put_session ?t (ResumeSession later request s) m1" using assms(1) resume by (simp add: fetch)
      have "releases m1 m'" unfolding m'
        using m1 FindSessionState_token [OF m1(1) Some] resume(2) Some
        by (intro releases_put) (auto simp: activated_tokens_def)
      moreover have "?t \<in> activated_tokens m'" using resume(2) by (simp add: activated_tokens_def m')
      ultimately show ?thesis using assms(1) resume releases_trans [OF rel]
        by (auto simp: fetch session_statuses)
    next
      case check
      then have "releases m m'" using releases_trans [OF rel releases_credentials [OF m1, of u cfg s request]] by (metis snd_conv)
      moreover have "case act of Answered response \<Rightarrow> status_bad (ap_status response) | _ \<Rightarrow> True"
        using CheckCredentials_bad [OF check [symmetric]] .
      ultimately show ?thesis by (auto split: activation.splits)
    next
      case (anon response)
      from complete_activates [OF anon(2) m1] show ?thesis
        using releases_trans [OF rel] releases_activates [OF rel] anon(1) by (auto split: if_splits)
    qed
  qed
qed

section \<open>Which session fields may change\<close>

text \<open>
  \<open>keeps A U m m'\<close>: every session of \<open>m'\<close> is one of \<open>m\<close> with its certificate and nonce, only
  the tokens of \<open>A\<close> became activated and only those of \<open>U\<close> got another identity.
\<close>

definition keeps :: "node_id set \<Rightarrow> node_id set \<Rightarrow> manager \<Rightarrow> manager \<Rightarrow> bool" where
  "keeps A U m m' \<longleftrightarrow> next_token_id m' = next_token_id m \<and>
     (\<forall>t s'. FindSessionState t m' = Some s' \<longrightarrow> (\<exists>s. FindSessionState t m = Some s
        \<and> st_client_certificate s' = st_client_certificate s \<and> st_server_nonce s' = st_server_nonce s
        \<and> (st_activated s' \<longrightarrow> st_activated s \<or> t \<in> A)
        \<and> (t \<notin> U \<longrightarrow> st_authentication_result s' = st_authentication_result s)))"

lemma keepsD:
  assumes "keeps A U m m'" and "FindSessionState t m' = Some s'"
  obtains s where "FindSessionState t m = Some s" "st_client_certificate s' = st_client_certificate s"
    "st_server_nonce s' = st_server_nonce s" "st_activated s' \<longrightarrow> st_activated s \<or> t \<in> A"
    "t \<notin> U \<longrightarrow> st_authentication_result s' = st_authentication_result s"
  using assms by (auto simp: keeps_def)

lemma keeps_refl: "keeps A U m m"
  by (simp add: keeps_def)

lemma keeps_trans:
  assumes "keeps A U m m'" and "keeps B V m' m''"
  shows "keeps (A \<union> B) (U \<union> V) m m''"
  unfolding keeps_def
proof (intro conjI allI impI)
  show "next_token_id m'' = next_token_id m" using assms by (simp add: keeps_def)
  fix t s'' assume "FindSessionState t m'' = Some s''"
  from keepsD [OF assms(2) this] obtain s' where s': "FindSessionState t m' = Some s'"
    "st_client_certificate s'' = st_client_certificate s'" "st_server_nonce s'' = st_server_nonce s'"
    "st_activated s'' \<longrightarrow> st_activated s' \<or> t \<in> B"
    "t \<notin> V \<longrightarrow> st_authentication_result s'' = st_authentication_result s'" .
  from keepsD [OF assms(1) s'(1)] s' show "\<exists>s. FindSessionState t m = Some s
      \<and> st_client_certificate s'' = st_client_certificate s \<and> st_server_nonce s'' = st_server_nonce s
      \<and> (st_activated s'' \<longrightarrow> st_activated s \<or> t \<in> A \<union> B)
      \<and> (t \<notin> U \<union> V \<longrightarrow> st_authentication_result s'' = st_authentication_result s)" by (metis UnI1 UnI2)
qed

lemma keeps_erase: "manager_inv m \<Longrightarrow> keeps {} {} m (erase_sessions_if p m)"
  by (auto simp: keeps_def FindSessionState_erase split: option.splits if_splits)

lemma keeps_prune: "manager_inv m \<Longrightarrow> keeps {} {} m (PruneExpiredSessions now m)"
  by (simp add: PruneExpiredSessions_def keeps_erase)

lemma keeps_put:
  assumes "FindSessionState t m = Some s" and "st_client_certificate s' = st_client_certificate s"
    and "st_server_nonce s' = st_server_nonce s" and "st_activated s' \<longrightarrow> st_activated s \<or> t \<in> A"
    and "t \<in> U \<or> st_authentication_result s' = st_authentication_result s"
  shows "keeps A U m (put_session t s' m)"
  using assms by (auto simp: keeps_def)

lemma keeps_emit [simp]:
  "keeps A U m (EmitSessionAudit cfg k i us st msg p m') = keeps A U m m'"
  by (simp add: keeps_def)

lemma keeps_reject: "keeps A U m (snd (reject_credentials cfg i us st msg request m))"
  by (simp add: reject_credentials_def keeps_refl)

lemma keeps_close: "manager_inv m \<Longrightarrow> keeps {} {} m (RemoveSessionByToken t m)"
  by (auto simp: RemoveSessionByToken_def NotifySessionRemoved_def keeps_def FindSessionState_def
      delete_conv' manager_inv_def split: option.split if_splits)

lemma keeps_detach: "keeps {} {} m (DetachSession t m)"
  by (auto simp: DetachSession_def keeps_refl split: option.split intro!: keeps_put)

lemma keeps_complete:
  assumes "CompleteActivation cfg later request r m = (response, m')"
  shows "keeps {ar_authentication_token request} (if r = None then {} else {ar_authentication_token request}) m m'"
  using assms
proof (cases rule: CompleteActivation_cases)
  case missing
  then show ?thesis by (simp add: keeps_refl)
next
  case (found s i us g msg p)
  show ?thesis unfolding found(2) keeps_emit
    by (rule keeps_put [OF found(1)]) (auto split: option.split)
qed

lemma CheckCredentials_sessions:
  "CheckCredentials u cfg s request m = (act, m') \<Longrightarrow> sessions m' = sessions m"
  by (auto simp: CheckCredentials_def Let_def reject_credentials_def EmitSessionAudit_def
      split: if_splits sum.splits option.splits)

lemma keeps_credentials:
  "CheckCredentials u cfg s request m = (act, m') \<Longrightarrow> keeps {} {} m m'"
  by (auto simp: CheckCredentials_def Let_def reject_credentials_def keeps_refl
      split: if_splits sum.splits option.splits)

lemma keeps_finish:
  assumes "FinishActivation cfg later request i auth m = (response, m')" and "manager_inv m"
  shows "keeps {ar_authentication_token request} {ar_authentication_token request} m m'"
  using assms(1)
proof (cases rule: FinishActivation_cases)
  case (reject us st msg)
  then show ?thesis by (metis keeps_reject snd_conv)
next
  case (complete r)
  then show ?thesis using keeps_complete by fastforce
next
  case (evict r)
  have "keeps {} {} m (RemoveSessionsByUser (au_user_id r) m)"
    using assms(2) by (simp add: RemoveSessionsByUser_def keeps_erase)
  from keeps_trans [OF this keeps_complete [OF evict(3)]] show ?thesis by simp
qed

text \<open>
  The first half of an activation either changes nothing that matters, or the session it
  found carried a valid signature, or none was needed.
\<close>

lemma keeps_activate:
  assumes "ActivateSession ssl u cfg now later request m = (act, m')" and "manager_inv m"
  shows "keeps {} {} m m' \<and> (\<exists>response. act = Answered response)
     \<or> keeps {ar_authentication_token request} {} m m'
       \<and> FindSessionState (ar_authentication_token request) m' \<noteq> None
       \<and> (\<forall>s. FindSessionState (ar_authentication_token request) m' = Some s \<longrightarrow>
            \<not> signature_missing ssl cfg s request)"
proof -
  define m1 where "m1 = PruneExpiredSessions now m"
  let ?t = "ar_authentication_token request"
  have k: "keeps {} {} m m1" unfolding m1_def by (rule keeps_prune) fact
  have m1: "manager_inv m1" using assms(2) by (simp add: m1_def PruneExpiredSessions_def manager_inv_erase)
  show ?thesis
  proof (cases "FindSessionState ?t m1")
    case None
    then show ?thesis using assms(1) k by (auto simp: ActivateSession_def m1_def [symmetric])
  next
    case (Some s)
    note fetch = ActivateSession_def m1_def [symmetric] Some Let_def
    show ?thesis
    proof (cases "signature_missing ssl cfg s request")
      case True
      then show ?thesis using assms(1) k by (auto simp: fetch)
    next
      case ok: False
      have "keeps {?t} {} m1 m' \<and> FindSessionState ?t m' \<noteq> None"
      proof (cases "st_activated s \<or> \<not> ar_allow_anonymous request")
        case True
        then consider "m' = put_session ?t (ResumeSession later request s) m1"
          | "CheckCredentials u cfg s request m1 = (act, m')"
          using assms(1) ok by (auto simp: fetch split: if_splits)
        then show ?thesis
        proof cases
          case 1
          then show ?thesis using Some by (auto intro!: keeps_put)
        next
          case 2
          from keeps_trans [OF keeps_credentials [OF this] keeps_refl [of "{?t}" "{}"]]
          show ?thesis using CheckCredentials_sessions [OF 2] Some by (simp add: FindSessionState_def)
        qed
      next
        case False
        then obtain response where c: "CompleteActivation cfg later request None m1 = (response, m')"
          using assms(1) ok by (auto simp: fetch map_prod_def split: prod.splits)
        then have "FindSessionState ?t m' \<noteq> None"
          by (cases rule: CompleteActivation_cases) (auto simp: Some)
        with keeps_complete [OF c] show ?thesis by simp
      qed
      note this_case = this
      moreover have "\<not> signature_missing ssl cfg s' request" if s': "FindSessionState ?t m' = Some s'" for s'
        by (rule keepsD [OF conjunct1 [OF this_case] s']) (use Some ok in \<open>simp add: signature_missing_def\<close>)
      moreover have "keeps {?t} {} m m'" using keeps_trans [OF k] this_case by fastforce
      ultimately show ?thesis by blast
    qed
  qed
qed

section \<open>Tokens\<close>

text \<open>
  The authentication token is a counter, so it is fresh until 32 bits wrap. \<open>issued n\<close> are
  the first \<open>n\<close> tokens; \<open>token_bound\<close> says that a manager has issued exactly those.
\<close>

definition issued :: "manager_context \<Rightarrow> nat \<Rightarrow> node_id set" where
  "issued cfg n = (\<lambda>i. NodeId (NumericId (of_nat (Suc i))) (token_namespace_index cfg)) ` {..<n}"

definition token_bound :: "manager_context \<Rightarrow> nat \<Rightarrow> manager \<Rightarrow> bool" where
  "token_bound cfg n m \<longleftrightarrow> next_token_id m = of_nat (Suc n)
     \<and> (\<forall>t s. FindSessionState t m = Some s \<longrightarrow> t \<in> issued cfg n)"

lemma issued_Suc:
  "issued cfg (Suc n) = insert (NodeId (NumericId (of_nat (Suc n))) (token_namespace_index cfg)) (issued cfg n)"
  by (simp add: issued_def lessThan_Suc)

lemma issued_mono: "n \<le> k \<Longrightarrow> issued cfg n \<subseteq> issued cfg k"
  by (auto simp: issued_def)

lemma fresh_token:
  assumes "Suc n < 2 ^ 32"
  shows "NodeId (NumericId (of_nat (Suc n))) (token_namespace_index cfg) \<notin> issued cfg n"
proof
  assume "NodeId (NumericId (of_nat (Suc n))) (token_namespace_index cfg) \<in> issued cfg n"
  then obtain i where i: "i < n" "(of_nat (Suc n) :: u32) = of_nat (Suc i)" by (auto simp: issued_def)
  then have "unat (of_nat (Suc n) :: u32) = unat (of_nat (Suc i) :: u32)" by simp
  moreover have "unat (of_nat k :: u32) = k" if "k \<le> Suc n" for k
    using that assms by (intro unat_of_nat_small) simp
  ultimately show False using i(1) by (metis Suc_leI Suc_inject le_SucI less_irrefl order_refl)
qed

lemma token_bound_keeps: "token_bound cfg n m \<Longrightarrow> keeps A U m m' \<Longrightarrow> token_bound cfg n m'"
  by (force simp: token_bound_def keeps_def)

lemma CreateSession_cases [consumes 1, case_names refused created]:
  assumes "CreateSession ssl cfg now later request m = (response, m')"
  obtains "channel_mismatch request" "response = failed_create Bad_ApplicationSignatureInvalid"
      "m' = PruneExpiredSessions now m"
  | s m1 where "\<not> channel_mismatch request" "m1 = PruneExpiredSessions now m"
      "m' = put_session (cp_authentication_token response) s
         (m1\<lparr>next_session_id := next_session_id m1 + 1, next_token_id := next_token_id m1 + 1\<rparr>)"
      "cp_authentication_token response = NodeId (NumericId (next_token_id m1)) (token_namespace_index cfg)"
      "s = new_session (cp_session_id response) (cp_authentication_token response) (cp_server_nonce response)
         (ReviseTimeout cfg (cr_requested_timeout request)) later request"
      "cp_status response = status_of_code Good"
proof (cases "channel_mismatch request")
  case True
  show ?thesis by (rule that(1)) (use assms True in \<open>simp_all add: CreateSession_def\<close>)
next
  case False
  note answer = assms [unfolded CreateSession_def Let_def if_not_P [OF False] MakeSessionId_def
      MakeAuthenticationToken_def prod.case, symmetric]
  show ?thesis
    by (rule that(2) [OF False refl, of "new_session (cp_session_id response) (cp_authentication_token response)
         (cp_server_nonce response) (ReviseTimeout cfg (cr_requested_timeout request)) later request"])
      (use answer in simp_all)
qed

text \<open>A session that CreateSession made has a token no session or waiting activation has.\<close>

lemma create_session_spec:
  assumes "CreateSession ssl cfg now later request m = (response, m')" and "manager_inv m"
    and "on_session_removed m" and "token_bound cfg n m" and "Suc n < 2 ^ 32"
  shows "releases m m' \<and> (if status_bad (cp_status response)
     then channel_mismatch request \<and> keeps {} {} m m' \<and> token_bound cfg n m'
     else token_bound cfg (Suc n) m' \<and> cp_authentication_token response \<notin> issued cfg n
       \<and> (\<forall>t s. FindSessionState t m' = Some s \<longrightarrow>
            (if t = cp_authentication_token response
             then \<not> st_activated s \<and> st_authentication_result s = None
             else FindSessionState t (PruneExpiredSessions now m) = Some s)))"
  using assms(1)
proof (cases rule: CreateSession_cases)
  case refused
  then show ?thesis using assms(2,3) token_bound_keeps [OF assms(4) keeps_prune [OF assms(2), of now]]
    by (simp add: failed_create_def session_statuses releases_prune keeps_prune)
next
  case (created s m1)
  define m2 where "m2 = m1\<lparr>next_session_id := next_session_id m1 + 1, next_token_id := next_token_id m1 + 1\<rparr>"
  let ?t = "cp_authentication_token response"
  have rel: "releases m m1" unfolding created(2) by (rule releases_prune) fact+
  have b: "token_bound cfg n m1"
    unfolding created(2) by (rule token_bound_keeps [OF assms(4) keeps_prune]) fact
  have find: "FindSessionState t m2 = FindSessionState t m1" for t by (simp add: FindSessionState_def m2_def)
  have nxt: "next_token_id m2 = next_token_id m1 + 1" by (simp add: m2_def)
  have t: "?t = NodeId (NumericId (of_nat (Suc n))) (token_namespace_index cfg)"
    using b created(4) by (simp add: token_bound_def)
  have fresh: "?t \<notin> issued cfg n" unfolding t by (rule fresh_token) fact
  then have none: "FindSessionState ?t m1 = None" using b by (auto simp: token_bound_def)
  have s: "st_authentication_token s = ?t" "\<not> st_activated s" "st_authentication_result s = None"
    using created(5) by (simp_all add: new_session_def)
  have m': "m' = put_session ?t s m2" using created(3) by (simp add: m2_def)
  have "manager_inv m2" "on_session_removed m2" "activated_tokens m2 = activated_tokens m1"
      "removed_tokens m2 = removed_tokens m1"
    using releasesD [OF rel] by (simp_all add: m2_def manager_inv_def activated_tokens_def FindSessionState_def)
  moreover from this have "releases m2 m'" unfolding m'
    by (intro releases_put) (use s none in \<open>simp_all add: activated_tokens_def find\<close>)
  ultimately have "releases m1 m'" by (simp add: releases_def)
  moreover have "token_bound cfg (Suc n) m'"
    using b t by (auto simp: token_bound_def m' issued_Suc find nxt)
  ultimately show ?thesis using releases_trans [OF rel] created(6) s fresh
    by (auto simp: m' find session_statuses created(2))
qed

section \<open>Interleaved operations\<close>

text \<open>
  The operations in any order. \<open>waiting\<close> holds the activations that wait for the
  authenticator, \<open>received\<close> every ActivateSession request with the library instance it was
  checked with, \<open>created_sessions\<close> counts the tokens issued. An answer of the authenticator
  is an error with a bad status (\<open>StatusOr\<close> panics on any other) or a result whose
  \<open>multi_sessions\<close> flag is a function of the user.
\<close>

record manager_world =
  mgr :: manager
  waiting :: "(activate_session_request \<times> node_id) list"
  received :: "(openssl \<times> activate_session_request) list"
  created_sessions :: nat

definition answer_ok :: "(node_id \<Rightarrow> bool) \<Rightarrow> status + authentication_result \<Rightarrow> bool" where
  "answer_ok multi auth = (case auth of Inl e \<Rightarrow> status_bad e
     | Inr r \<Rightarrow> au_multi_sessions r = multi (au_user_id r))"

definition initial_world :: manager_world where
  "initial_world = \<lparr>mgr = SetSessionRemovedCallback True ServerSessionManager, waiting = [], received = [],
     created_sessions = 0\<rparr>"

inductive manager_step :: "manager_context \<Rightarrow> (node_id \<Rightarrow> bool) \<Rightarrow> manager_world \<Rightarrow> manager_world \<Rightarrow> bool"
  for cfg multi where
  step_create: "CreateSession ssl cfg now later request (mgr w) = (response, m') \<Longrightarrow>
     manager_step cfg multi w (w\<lparr>mgr := m', created_sessions := created_sessions w
       + (if status_bad (cp_status response) then 0 else 1)\<rparr>)"
| step_answered: "ActivateSession ssl u cfg now later request (mgr w) = (Answered response, m') \<Longrightarrow>
     manager_step cfg multi w (w\<lparr>mgr := m', received := (ssl, request) # received w\<rparr>)"
| step_wait: "ActivateSession ssl u cfg now later request (mgr w) = (Authenticating r i name pw, m') \<Longrightarrow>
     manager_step cfg multi w (w\<lparr>mgr := m', received := (ssl, request) # received w,
       waiting := (r, i) # waiting w\<rparr>)"
| step_finish: "(r, i) \<in> set (waiting w) \<Longrightarrow> answer_ok multi auth \<Longrightarrow>
     FinishActivation cfg later r i auth (mgr w) = (response, m') \<Longrightarrow>
     manager_step cfg multi w (w\<lparr>mgr := m', waiting := remove1 (r, i) (waiting w)\<rparr>)"
| step_close: "CloseSession t (mgr w) = (st, m') \<Longrightarrow> manager_step cfg multi w (w\<lparr>mgr := m'\<rparr>)"
| step_detach: "manager_step cfg multi w (w\<lparr>mgr := DetachSession t (mgr w)\<rparr>)"
| step_prune: "manager_step cfg multi w (w\<lparr>mgr := PruneExpiredSessions now (mgr w)\<rparr>)"

inductive manager_reachable :: "manager_context \<Rightarrow> (node_id \<Rightarrow> bool) \<Rightarrow> manager_world \<Rightarrow> bool"
  for cfg multi where
  reach_start: "manager_reachable cfg multi initial_world"
| reach_step: "manager_reachable cfg multi w \<Longrightarrow> manager_step cfg multi w w' \<Longrightarrow>
     manager_reachable cfg multi w'"

subsection \<open>One session per user\<close>

definition single_session :: "(node_id \<Rightarrow> bool) \<Rightarrow> manager \<Rightarrow> bool" where
  "single_session multi m \<longleftrightarrow> (\<forall>t t' s s' user. FindSessionState t m = Some s \<longrightarrow>
     FindSessionState t' m = Some s' \<longrightarrow> authenticated_as user s \<longrightarrow> authenticated_as user s' \<longrightarrow>
     \<not> multi user \<longrightarrow> t = t')"

lemma single_session_keeps: "single_session multi m \<Longrightarrow> keeps A {} m m' \<Longrightarrow> single_session multi m'"
  by (simp add: single_session_def keeps_def authenticated_as_def) metis

lemma single_session_complete:
  assumes "CompleteActivation cfg later request (Some r) m = (response, m')" and "single_session multi m"
    and "multi (au_user_id r) \<or> (\<forall>t s. FindSessionState t m = Some s \<longrightarrow> \<not> authenticated_as (au_user_id r) s)"
  shows "single_session multi m'"
  using assms(1)
proof (cases rule: CompleteActivation_cases)
  case missing
  with assms(2) show ?thesis by simp
next
  case (found s i us g msg p)
  have "authenticated_as user (activate_state later request (Some r) s) \<longleftrightarrow> user = au_user_id r" for user
    by (auto simp: authenticated_as_def)
  with assms(2,3) show ?thesis unfolding single_session_def found(2) by (simp add: if_split_mem1) metis
qed

lemma manager_inv_complete:
  assumes "CompleteActivation cfg later request r m = (response, m')" and "manager_inv m"
  shows "manager_inv m'"
  using assms(1)
proof (cases rule: CompleteActivation_cases)
  case (found s i us g msg p)
  then show ?thesis using assms(2) FindSessionState_token [OF assms(2) found(1)]
    by (simp add: manager_inv_put)
qed (use assms(2) in simp)

lemma manager_inv_create:
  assumes "CreateSession ssl cfg now later request m = (response, m')" and "manager_inv m"
    and "on_session_removed m"
  shows "manager_inv m' \<and> on_session_removed m'"
  using assms(1)
proof (cases rule: CreateSession_cases)
  case refused
  then show ?thesis using releasesD [OF releases_prune [OF assms(2,3)]] by simp
next
  case (created s m1)
  have "manager_inv m1" "on_session_removed m1"
    using releasesD [OF releases_prune [OF assms(2,3)]] by (simp_all add: created(2))
  then show ?thesis unfolding created(3)
    by (auto simp: created(5) new_session_def intro!: manager_inv_put)
qed

lemma single_session_create:
  assumes "CreateSession ssl cfg now later request m = (response, m')" and "manager_inv m"
    and "single_session multi m"
  shows "single_session multi m'"
proof -
  have prune: "single_session multi (PruneExpiredSessions now m)"
    by (rule single_session_keeps [OF assms(3) keeps_prune]) fact
  from assms(1) show ?thesis
  proof (cases rule: CreateSession_cases)
    case refused
    with prune show ?thesis by simp
  next
    case (created s m1)
    have new: "\<not> authenticated_as user s" for user by (simp add: created(5) new_session_def authenticated_as_def)
    have "FindSessionState t m' = Some s' \<Longrightarrow> authenticated_as user s' \<Longrightarrow> FindSessionState t m1 = Some s'"
      for t s' user using new by (simp add: created(3) FindSessionState_def put_session_def update_conv' split: if_splits) 
    with prune show ?thesis unfolding single_session_def created(2) [symmetric] by blast
  qed
qed

lemma releases_close:
  assumes "CloseSession t m = (st, m')" and "manager_inv m" and "on_session_removed m"
  shows "releases m m'"
proof (cases "FindSessionState t m")
  case None
  then show ?thesis using assms by (simp add: CloseSession_def releases_refl)
next
  case (Some s)
  have "m' = m\<lparr>sessions := AList.delete t (sessions m), removed_tokens := removed_tokens m @ [t]\<rparr>"
    using assms Some by (simp add: CloseSession_def RemoveSessionByToken_def NotifySessionRemoved_def)
  moreover from this have "manager_inv m'"
    using assms(2) by (auto simp: manager_inv_def AList.delete_eq list_all_iff distinct_map_filter)
  ultimately show ?thesis using assms(3)
    by (intro releasesI [where gone = "[t]"])
      (auto simp: activated_tokens_def FindSessionState_def delete_conv' split: if_splits)
qed

lemma releases_detach:
  assumes "manager_inv m" and "on_session_removed m"
  shows "releases m (DetachSession t m)"
proof (cases "FindSessionState t m")
  case None
  then show ?thesis using assms by (simp add: DetachSession_def releases_refl)
next
  case (Some s)
  then show ?thesis using assms FindSessionState_token [OF assms(1) Some]
    by (auto simp: DetachSession_def activated_tokens_def intro!: releases_put)
qed

lemma manager_step_inv:
  assumes "manager_step cfg multi w w'" and "manager_inv (mgr w)" and "on_session_removed (mgr w)"
  shows "manager_inv (mgr w') \<and> on_session_removed (mgr w')"
  using assms(1)
proof cases
  case (step_create ssl now later request response m')
  then show ?thesis using manager_inv_create [OF _ assms(2,3)] by auto
next
  case (step_answered ssl u now later request response m')
  from activate_activates [OF step_answered(2) assms(2,3)] show ?thesis
    by (auto simp: step_answered(1) releases_def activates_def split: if_splits)
next
  case (step_wait ssl u now later request r i name pw m')
  from activate_activates [OF step_wait(2) assms(2,3)] show ?thesis by (auto simp: step_wait(1) releases_def)
next
  case (step_finish r i auth later response m')
  then have "\<forall>e. auth = Inl e \<longrightarrow> status_bad e" by (auto simp: answer_ok_def)
  from finish_activates [OF step_finish(4) assms(2,3) this] show ?thesis
    by (auto simp: step_finish(1) releases_def activates_def split: if_splits)
next
  case (step_close t st m')
  with releases_close [OF _ assms(2,3)] show ?thesis by (auto simp: releases_def)
next
  case (step_detach t)
  with releases_detach [OF assms(2,3)] show ?thesis by (auto simp: releases_def)
next
  case (step_prune now)
  with releases_prune [OF assms(2,3)] show ?thesis by (auto simp: releases_def)
qed

lemma manager_reachable_inv:
  "manager_reachable cfg multi w \<Longrightarrow> manager_inv (mgr w) \<and> on_session_removed (mgr w)"
proof (induction rule: manager_reachable.induct)
  case reach_start
  then show ?case by (simp add: initial_world_def SetSessionRemovedCallback_def manager_inv_def ServerSessionManager_def)
next
  case (reach_step w w')
  then show ?case using manager_step_inv by blast
qed

lemma single_session_step:
  assumes "manager_step cfg multi w w'" and "manager_inv (mgr w)" and "single_session multi (mgr w)"
  shows "single_session multi (mgr w')"
  using assms(1)
proof cases
  case (step_create ssl now later request response m')
  then show ?thesis using single_session_create [OF _ assms(2,3)] by simp
next
  case (step_answered ssl u now later request response m')
  from keeps_activate [OF step_answered(2) assms(2)] show ?thesis
    using single_session_keeps [OF assms(3)] by (auto simp: step_answered(1))
next
  case (step_wait ssl u now later request r i name pw m')
  from keeps_activate [OF step_wait(2) assms(2)] show ?thesis
    using single_session_keeps [OF assms(3)] by (auto simp: step_wait(1))
next
  case (step_finish r i auth later response m')
  from step_finish(4) have "single_session multi m'"
  proof (cases rule: FinishActivation_cases)
    case (reject us st msg)
    then show ?thesis using single_session_keeps [OF assms(3) keeps_reject] by (metis snd_conv)
  next
    case (complete a)
    with step_finish(3) show ?thesis
      using single_session_complete [OF complete(3) assms(3)] by (simp add: answer_ok_def)
  next
    case (evict a)
    let ?m = "RemoveSessionsByUser (au_user_id a) (mgr w)"
    have "single_session multi ?m" unfolding RemoveSessionsByUser_def
      by (rule single_session_keeps [OF assms(3) keeps_erase]) fact
    moreover have "\<forall>t s. FindSessionState t ?m = Some s \<longrightarrow> \<not> authenticated_as (au_user_id a) s"
      using assms(2) by (auto simp: RemoveSessionsByUser_def FindSessionState_erase split: option.splits if_splits)
    ultimately show ?thesis using single_session_complete [OF evict(3)] by blast
  qed
  then show ?thesis by (simp add: step_finish(1))
next
  case (step_close t st m')
  then have "m' = mgr w \<or> m' = RemoveSessionByToken t (mgr w)" by (auto simp: CloseSession_def split: option.splits)
  then show ?thesis using single_session_keeps [OF assms(3) keeps_close [OF assms(2)]] assms(3)
    by (auto simp: step_close(1))
next
  case (step_detach t)
  then show ?thesis using single_session_keeps [OF assms(3) keeps_detach] by simp
next
  case (step_prune now)
  then show ?thesis using single_session_keeps [OF assms(3) keeps_prune [OF assms(2)]] by simp
qed

text \<open>
  C6. Whatever the order of logins, resumptions, closes, expiries and late answers of the
  authenticator: a user whose account does not allow concurrent sessions never holds two.
\<close>

theorem one_session_per_user:
  assumes "manager_reachable cfg multi w" and "\<not> multi user"
    and "FindSessionState t (mgr w) = Some s" and "authenticated_as user s"
    and "FindSessionState t' (mgr w) = Some s'" and "authenticated_as user s'"
  shows "t = t'"
proof -
  from assms(1) have "single_session multi (mgr w)"
  proof (induction rule: manager_reachable.induct)
    case reach_start
    show ?case by (simp add: single_session_def initial_world_def SetSessionRemovedCallback_def
          ServerSessionManager_def FindSessionState_def)
  next
    case (reach_step w w')
    then show ?case using single_session_step manager_reachable_inv by blast
  qed
  with assms(2-6) show ?thesis unfolding single_session_def by blast
qed

subsection \<open>No activation without a signature\<close>

definition signature_seen :: "manager_context \<Rightarrow> (openssl \<times> activate_session_request) list \<Rightarrow> node_id
    \<Rightarrow> session_state \<Rightarrow> bool" where
  "signature_seen cfg seen t s \<longleftrightarrow>
     (\<exists>(ssl, r) \<in> set seen. ar_authentication_token r = t \<and> \<not> signature_missing ssl cfg s r)"

definition password_protected :: "manager_context \<Rightarrow> activate_session_request \<Rightarrow> bool" where
  "password_protected cfg r \<longleftrightarrow> require_encryption_for_password cfg \<longrightarrow>
     ar_channel_secure r \<or> ar_password_encryption_algorithm r \<noteq> []"

definition signed_inv :: "manager_context \<Rightarrow> manager_world \<Rightarrow> bool" where
  "signed_inv cfg w \<longleftrightarrow> token_bound cfg (created_sessions w) (mgr w)
     \<and> (\<forall>t s. FindSessionState t (mgr w) = Some s \<longrightarrow> st_activated s \<longrightarrow> signature_seen cfg (received w) t s)
     \<and> (\<forall>r i. (r, i) \<in> set (waiting w) \<longrightarrow> ar_authentication_token r \<in> issued cfg (created_sessions w)
          \<and> (\<forall>s. FindSessionState (ar_authentication_token r) (mgr w) = Some s \<longrightarrow>
                signature_seen cfg (received w) (ar_authentication_token r) s)
          \<and> password_protected cfg r)"

lemma signature_seen_keeps:
  "signature_seen cfg seen t s \<Longrightarrow> st_client_certificate s' = st_client_certificate s \<Longrightarrow>
     st_server_nonce s' = st_server_nonce s \<Longrightarrow> set seen \<subseteq> set seen' \<Longrightarrow> signature_seen cfg seen' t s'"
  by (fastforce simp: signature_seen_def signature_missing_def)

lemma signed_inv_keeps:
  assumes inv: "signed_inv cfg w" and k: "keeps A U (mgr w) (mgr w')"
    and hist: "set (received w) \<subseteq> set (received w')" and "created_sessions w' = created_sessions w"
    and A: "\<forall>t\<in>A. \<forall>s. FindSessionState t (mgr w') = Some s \<longrightarrow> signature_seen cfg (received w') t s"
    and wait: "\<forall>r i. (r, i) \<in> set (waiting w') \<longrightarrow> (r, i) \<notin> set (waiting w) \<longrightarrow>
      ar_authentication_token r \<in> A \<and> FindSessionState (ar_authentication_token r) (mgr w') \<noteq> None
        \<and> password_protected cfg r"
  shows "signed_inv cfg w'"
proof -
  have b: "token_bound cfg (created_sessions w') (mgr w')"
    using inv token_bound_keeps [OF _ k] assms(4) by (simp add: signed_inv_def)
  have "signature_seen cfg (received w') t s'"
    if s': "FindSessionState t (mgr w') = Some s'" "st_activated s'" for t s'
    by (rule keepsD [OF k s'(1)])
      (use inv A s' hist signature_seen_keeps in \<open>unfold signed_inv_def, blast\<close>)
  moreover have "signature_seen cfg (received w') (ar_authentication_token r) s'"
    if r: "(r, i) \<in> set (waiting w)" and s': "FindSessionState (ar_authentication_token r) (mgr w') = Some s'" for r i s'
    by (rule keepsD [OF k s'(1)])
      (use inv r hist signature_seen_keeps in \<open>unfold signed_inv_def, blast\<close>)
  moreover have "ar_authentication_token r \<in> issued cfg (created_sessions w') \<and> password_protected cfg r"
    if "(r, i) \<in> set (waiting w')" for r i
  proof (cases "(r, i) \<in> set (waiting w)")
    case True
    then show ?thesis using inv assms(4) by (auto simp: signed_inv_def)
  next
    case False
    then show ?thesis using wait that b by (auto simp: token_bound_def)
  qed
  ultimately show ?thesis using b A wait unfolding signed_inv_def by blast
qed

lemma CheckCredentials_waits:
  "CheckCredentials u cfg s request m = (Authenticating r i name pw, m') \<Longrightarrow>
     r = request \<and> password_protected cfg r"
  by (auto simp: CheckCredentials_def Let_def reject_credentials_def password_protected_def
      split: if_splits sum.splits option.splits)

lemma ActivateSession_waits:
  assumes "ActivateSession ssl u cfg now later request m = (Authenticating r i name pw, m')"
  shows "r = request \<and> password_protected cfg r"
proof -
  from assms obtain s m1 where "CheckCredentials u cfg s request m1 = (Authenticating r i name pw, m')"
    by (auto simp: ActivateSession_def Let_def map_prod_def split: option.splits if_splits prod.splits)
  then show ?thesis by (rule CheckCredentials_waits)
qed

lemma signature_seenI:
  "(ssl, request) \<in> set seen \<Longrightarrow> \<not> signature_missing ssl cfg s request \<Longrightarrow>
     signature_seen cfg seen (ar_authentication_token request) s"
  by (auto simp: signature_seen_def)

lemma signed_inv_create:
  assumes "CreateSession ssl cfg now later request (mgr w) = (response, m')" and "signed_inv cfg w"
    and "manager_inv (mgr w)" and "on_session_removed (mgr w)"
    and "\<not> status_bad (cp_status response) \<Longrightarrow> Suc (created_sessions w) < 2 ^ 32"
  shows "signed_inv cfg (w\<lparr>mgr := m', created_sessions := created_sessions w
       + (if status_bad (cp_status response) then 0 else 1)\<rparr>)"
proof (cases "status_bad (cp_status response)")
  case True
  with assms(1) have "m' = PruneExpiredSessions now (mgr w)"
    by (cases rule: CreateSession_cases) (auto simp: session_statuses)
  then show ?thesis using True keeps_prune [OF assms(3)]
    by (intro signed_inv_keeps [OF assms(2), of "{}" "{}"]) auto
next
  case False
  let ?m = "PruneExpiredSessions now (mgr w)" and ?t = "cp_authentication_token response"
  let ?n = "created_sessions w"
  have b: "token_bound cfg ?n (mgr w)" using assms(2) by (simp add: signed_inv_def)
  from create_session_spec [OF assms(1,3,4) b assms(5) [OF False]] False
  have new: "token_bound cfg (Suc ?n) m'" "?t \<notin> issued cfg ?n"
    and old: "\<And>t s. FindSessionState t m' = Some s \<Longrightarrow> if t = ?t then \<not> st_activated s
        \<and> st_authentication_result s = None else FindSessionState t ?m = Some s" by auto
  have "signed_inv cfg (w\<lparr>mgr := ?m\<rparr>)"
    using keeps_prune [OF assms(3)] by (intro signed_inv_keeps [OF assms(2), of "{}" "{}"]) auto
  with new old show ?thesis using issued_mono [of ?n "Suc ?n" cfg] False
    unfolding signed_inv_def by (fastforce split: if_splits)
qed

lemma signed_inv_activate:
  assumes "ActivateSession ssl u cfg now later request (mgr w) = (act, m')" and "signed_inv cfg w"
    and "manager_inv (mgr w)"
    and w': "mgr w' = m'" "received w' = (ssl, request) # received w" "created_sessions w' = created_sessions w"
      "waiting w' = (case act of Answered _ \<Rightarrow> waiting w | Authenticating r i _ _ \<Rightarrow> (r, i) # waiting w)"
  shows "signed_inv cfg w'"
proof -
  let ?t = "ar_authentication_token request"
  from keeps_activate [OF assms(1,3)] show ?thesis
  proof
    assume "keeps {} {} (mgr w) m' \<and> (\<exists>response. act = Answered response)"
    then show ?thesis using w' by (intro signed_inv_keeps [OF assms(2), of "{}" "{}"]) auto
  next
    assume ok: "keeps {?t} {} (mgr w) m' \<and> FindSessionState ?t m' \<noteq> None
        \<and> (\<forall>s. FindSessionState ?t m' = Some s \<longrightarrow> \<not> signature_missing ssl cfg s request)"
    have "\<forall>r i. (r, i) \<in> set (waiting w') \<longrightarrow> (r, i) \<notin> set (waiting w) \<longrightarrow>
        ar_authentication_token r = ?t \<and> password_protected cfg r"
      using assms(1) ActivateSession_waits w'(4) by (cases act) fastforce+
    with ok w' show ?thesis
      by (intro signed_inv_keeps [OF assms(2), of "{?t}" "{}"])
        (auto intro!: signature_seenI [of ssl request])
  qed
qed

lemma signed_inv_step:
  assumes "manager_step cfg multi w w'" and "signed_inv cfg w" and "created_sessions w' < 2 ^ 32"
    and inv: "manager_inv (mgr w)" "on_session_removed (mgr w)"
  shows "signed_inv cfg w'"
  using assms(1)
proof cases
  case (step_create ssl now later request response m')
  show ?thesis unfolding step_create(1)
    by (rule signed_inv_create [OF step_create(2) assms(2) inv]) (use assms(3) in \<open>simp add: step_create(1)\<close>)
next
  case (step_answered ssl u now later request response m')
  show ?thesis by (rule signed_inv_activate [OF step_answered(2) assms(2) inv(1)]) (simp_all add: step_answered(1))
next
  case (step_wait ssl u now later request r i name pw m')
  show ?thesis by (rule signed_inv_activate [OF step_wait(2) assms(2) inv(1)]) (simp_all add: step_wait(1))
next
  case (step_finish r i auth later response m')
  let ?t = "ar_authentication_token r"
  have k: "keeps {?t} {?t} (mgr w) m'" by (rule keeps_finish [OF step_finish(4) inv(1)])
  have "\<forall>s. FindSessionState ?t m' = Some s \<longrightarrow> signature_seen cfg (received w) ?t s"
    using assms(2) step_finish(2) unfolding signed_inv_def by (metis keepsD [OF k] signature_seen_keeps order_refl)
  with k show ?thesis using set_remove1_subset
    by (intro signed_inv_keeps [OF assms(2), of "{?t}" "{?t}"]) (auto simp: step_finish(1))
next
  case (step_close t st m')
  then have "keeps {} {} (mgr w) m'"
    using keeps_close [OF inv(1)] keeps_refl [of "{}" "{}"] by (auto simp: CloseSession_def split: option.splits)
  then show ?thesis by (intro signed_inv_keeps [OF assms(2)]) (auto simp: step_close(1))
next
  case (step_detach t)
  then show ?thesis by (intro signed_inv_keeps [OF assms(2) _]) (use keeps_detach in auto)
next
  case (step_prune now)
  then show ?thesis by (intro signed_inv_keeps [OF assms(2) _]) (use keeps_prune [OF inv(1)] in auto)
qed

lemma manager_reachable_signed:
  "manager_reachable cfg multi w \<Longrightarrow> created_sessions w < 2 ^ 32 \<Longrightarrow> signed_inv cfg w"
proof (induction rule: manager_reachable.induct)
  case reach_start
  show ?case by (simp add: signed_inv_def initial_world_def SetSessionRemovedCallback_def
        ServerSessionManager_def FindSessionState_def token_bound_def)
next
  case (reach_step w w')
  have "created_sessions w \<le> created_sessions w'" using reach_step(2) by cases auto
  with reach_step show ?case using signed_inv_step manager_reachable_inv by fastforce
qed

text \<open>
  C7. Until the token counter wraps, a session that was created with a client certificate is
  activated only after an ActivateSession request for its token whose signature over the
  server certificate and the nonce of that very session verified; and where the server
  requires it, the authenticator is consulted only about passwords that travelled over a
  secure channel or encrypted.
\<close>

theorem activation_is_authorized:
  assumes "manager_reachable cfg multi w" and "created_sessions w < 2 ^ 32"
  shows "(\<forall>t s. FindSessionState t (mgr w) = Some s \<longrightarrow> st_activated s \<longrightarrow> st_client_certificate s \<noteq> [] \<longrightarrow>
        (\<exists>(ssl, r) \<in> set (received w). ar_authentication_token r = t
          \<and> VerifyApplicationSignature ssl (st_client_certificate s) (server_certificate cfg)
              (st_server_nonce s) (ar_client_signature r)))
    \<and> (\<forall>r i. (r, i) \<in> set (waiting w) \<longrightarrow> require_encryption_for_password cfg \<longrightarrow>
        ar_channel_secure r \<or> ar_password_encryption_algorithm r \<noteq> [])"
proof -
  have "signature_seen cfg seen t s \<Longrightarrow> st_client_certificate s \<noteq> [] \<Longrightarrow>
      \<exists>(ssl, r) \<in> set seen. ar_authentication_token r = t
        \<and> VerifyApplicationSignature ssl (st_client_certificate s) (server_certificate cfg)
            (st_server_nonce s) (ar_client_signature r)" for seen t s
    by (auto simp: signature_seen_def signature_missing_def)
  with manager_reachable_signed [OF assms] show ?thesis
    unfolding signed_inv_def password_protected_def by blast
qed

subsection \<open>A run\<close>

definition example_ssl :: openssl where
  "example_ssl = \<lparr>pkey_size = (\<lambda>_. 256), oaep_encrypt = (\<lambda>_ p. Some p), oaep_decrypt = (\<lambda>_ c. Some c),
     digest_sign = (\<lambda>_ d. Some d), digest_verify = (\<lambda>_ d s. s = d), hmac_sha256 = (\<lambda>_ _. 0),
     sha1 = (\<lambda>_. 0), aes_cbc_encrypt = (\<lambda>_ _ p. Some p), aes_cbc_decrypt = (\<lambda>_ _ c. Some c),
     d2i_X509 = (\<lambda>_. Some 1), i2d_X509 = (\<lambda>_. Some [1]), X509_get_pubkey = (\<lambda>_. Some 1),
     RAND_bytes = (\<lambda>n. Some (replicate n 7))\<rparr>"

definition example_context :: manager_context where
  "example_context = \<lparr>server_certificate = [9], decrypt_user_token = Some Some,
     require_encryption_for_password = True, on_audit_event = True, default_timeout = Finite 600000,
     min_timeout = Finite 30000, max_timeout = Finite 3600000, session_namespace_index = 2,
     token_namespace_index = 3\<rparr>"

definition example_create :: create_session_request where
  "example_create = \<lparr>cr_requested_timeout = Finite 60000, cr_endpoint_url = [], cr_client_certificate = [1],
     cr_client_nonce = [], cr_channel_secure = True, cr_channel_certificate = [1], cr_peer = []\<rparr>"

abbreviation example_token :: node_id where "example_token \<equiv> NodeId (NumericId 1) 3"

definition example_activate :: activate_session_request where
  "example_activate = \<lparr>ar_session_id = null_node_id, ar_authentication_token = example_token,
     ar_user_name = Some (LocalizedText [] [97]), ar_password = Some (LocalizedText [] [98]),
     ar_delete_existing = False, ar_allow_anonymous = False, ar_channel_secure = True,
     ar_client_signature_algorithm = [], ar_client_signature = 9 # replicate 32 7, ar_encrypted_password = [],
     ar_password_encryption_algorithm = [], ar_peer = []\<rparr>"

definition example_user :: authentication_result where
  "example_user = AuthenticationResult (numeric_node_id 5) 0 False"

definition example_world :: "nat \<Rightarrow> manager_world" where
  "example_world k =
     (let w0 = initial_world;
          w1 = w0\<lparr>mgr := snd (CreateSession example_ssl example_context 0 0 example_create (mgr w0)),
                 created_sessions := created_sessions w0 + (if status_bad (cp_status (fst
                   (CreateSession example_ssl example_context 0 0 example_create (mgr w0)))) then 0 else 1)\<rparr>;
          w2 = w1\<lparr>mgr := snd (ActivateSession example_ssl ascii_convert example_context 0 0 example_activate (mgr w1)),
                 received := (example_ssl, example_activate) # received w1,
                 waiting := (example_activate, NodeId (NumericId 1) 2) # waiting w1\<rparr>;
          w3 = w2\<lparr>mgr := snd (FinishActivation example_context 0 example_activate (NodeId (NumericId 1) 2)
                   (Inr example_user) (mgr w2)),
                 waiting := remove1 (example_activate, NodeId (NumericId 1) 2) (waiting w2)\<rparr>
      in if k = 0 then w0 else if k = 1 then w1 else if k = 2 then w2 else w3)"

lemma example_reaches: "manager_reachable example_context (\<lambda>_. False) (example_world 3)"
proof -
  let ?r = "manager_reachable example_context (\<lambda>_. False)"
  have "?r (example_world 0)" by (simp add: example_world_def Let_def reach_start)
  then have "?r (example_world 1)"
    by (rule reach_step) (simp add: example_world_def Let_def step_create)
  then have "?r (example_world 2)"
  proof (rule reach_step)
    have "fst (ActivateSession example_ssl ascii_convert example_context 0 0 example_activate (mgr (example_world 1)))
        = Authenticating example_activate (NodeId (NumericId 1) 2) (LocalizedText [] [97]) (LocalizedText [] [98])"
      by code_simp
    then have "ActivateSession example_ssl ascii_convert example_context 0 0 example_activate (mgr (example_world 1)) =
        (Authenticating example_activate (NodeId (NumericId 1) 2) (LocalizedText [] [97]) (LocalizedText [] [98]),
         mgr (example_world 2))"
      by (simp add: prod_eq_iff) (simp add: example_world_def Let_def)
    from step_wait [OF this] show "manager_step example_context (\<lambda>_. False) (example_world 1) (example_world 2)"
      by (simp add: example_world_def Let_def)
  qed
  then show ?thesis
  proof (rule reach_step)
    have "FinishActivation example_context 0 example_activate (NodeId (NumericId 1) 2) (Inr example_user)
        (mgr (example_world 2)) = (fst (FinishActivation example_context 0 example_activate (NodeId (NumericId 1) 2)
        (Inr example_user) (mgr (example_world 2))), mgr (example_world 3))"
      by (simp add: prod_eq_iff) (simp add: example_world_def Let_def)
    from step_finish [OF _ _ this]
    show "manager_step example_context (\<lambda>_. False) (example_world 2) (example_world 3)"
      by (simp add: example_world_def Let_def answer_ok_def example_user_def)
  qed
qed

theorem one_session_per_user_witness:
  "{t. \<exists>s. FindSessionState t (mgr (example_world 3)) = Some s \<and> authenticated_as (numeric_node_id 5) s}
     = {example_token}"
proof -
  have "case FindSessionState example_token (mgr (example_world 3)) of None \<Rightarrow> False
      | Some s \<Rightarrow> authenticated_as (numeric_node_id 5) s" by code_simp
  then obtain s where "FindSessionState example_token (mgr (example_world 3)) = Some s"
    "authenticated_as (numeric_node_id 5) s" by (auto split: option.splits)
  then show ?thesis using one_session_per_user [OF example_reaches] by auto
qed

theorem activation_is_authorized_witness:
  "\<exists>s. FindSessionState example_token (mgr (example_world 3)) = Some s
     \<and> st_activated s \<and> st_client_certificate s \<noteq> []
     \<and> (\<exists>(ssl, r) \<in> set (received (example_world 3)). VerifyApplicationSignature ssl
          (st_client_certificate s) (server_certificate example_context) (st_server_nonce s)
          (ar_client_signature r))"
proof -
  have "case FindSessionState example_token (mgr (example_world 3)) of None \<Rightarrow> False
      | Some s \<Rightarrow> st_activated s \<and> st_client_certificate s \<noteq> []" by code_simp
  then obtain s where s: "FindSessionState example_token (mgr (example_world 3)) = Some s"
    "st_activated s" "st_client_certificate s \<noteq> []" by (auto split: option.splits)
  moreover have "created_sessions (example_world 3) = 1" by code_simp
  ultimately show ?thesis using activation_is_authorized [OF example_reaches] by fastforce
qed

section \<open>Passwords, timeouts, expiry\<close>

lemma little_endian_enc_u32: "little_endian_u32 (enc_u32 v @ xs) = v"
  using le_bytes_32 [of v] by (simp add: little_endian_u32_def enc_u32_def)

lemma enc_u32_little_endian:
  assumes "4 \<le> length b"
  shows "enc_u32 (little_endian_u32 b) = take 4 b"
proof -
  have bits: "byte_at i (little_endian_u32 b) = b ! i" if i: "i < 4" for i
  proof (rule bit_word_eqI)
    fix n assume n: "n < LENGTH(8)"
    have "bit (byte_at i (little_endian_u32 b)) n = bit (little_endian_u32 b) (8 * i + n)"
      using n by (simp add: byte_at_def and_ff bit_simps)
    also have "\<dots> = bit (b ! i) n"
    proof -
      have far: "\<not> bit (b ! j) k" if "8 \<le> k" for j k using that bit_imp_le_length [of "b ! j" k] by auto
      from i consider "i = 0" | "i = 1" | "i = 2" | "i = 3" by linarith
      then show ?thesis using n by cases (auto simp: little_endian_u32_def bit_simps far)
    qed
    finally show "bit (byte_at i (little_endian_u32 b)) n = bit (b ! i) n" .
  qed
  from assms obtain b0 b1 b2 b3 r where "b = b0 # b1 # b2 # b3 # r"
    by (auto simp: Suc_le_length_iff numeral_eq_Suc)
  with bits [of 0] bits [of 1] bits [of 2] bits [of 3] show ?thesis by (simp add: enc_u32_def numeral_eq_Suc)
qed

text \<open>
  C27. The password of an encrypted user token is recovered exactly from a plaintext that is
  the length of the secret, the password, the nonce of this session and possibly padding;
  every other plaintext is rejected.
\<close>

theorem password_recovery:
  "RecoverEncryptedPassword (Some f) c nonce = Inr pw \<longleftrightarrow>
     length pw + length nonce < 2 ^ 32 \<and>
     (\<exists>rest. f c = Some (enc_u32 (of_nat (length pw + length nonce)) @ pw @ nonce @ rest))"
    (is "?l \<longleftrightarrow> ?r")
proof
  assume ?l
  then obtain p where p: "f c = Some p" "4 \<le> length p"
      and L: "unat (little_endian_u32 p) \<le> length p - 4" "length nonce \<le> unat (little_endian_u32 p)"
      and nonce: "take (length nonce) (drop (unat (little_endian_u32 p) - length nonce) (drop 4 p)) = nonce"
      and pw: "pw = take (unat (little_endian_u32 p) - length nonce) (drop 4 p)"
    by (auto simp: RecoverEncryptedPassword_def Let_def split: option.splits if_splits)
  define n where "n = unat (little_endian_u32 p)"
  have len: "length pw + length nonce = n" using L by (simp add: pw n_def)
  have "p = enc_u32 (little_endian_u32 p) @ drop 4 p" using p(2) by (simp add: enc_u32_little_endian)
  also have "drop 4 p = pw @ drop (n - length nonce) (drop 4 p)" by (metis append_take_drop_id n_def pw)
  also have "drop (n - length nonce) (drop 4 p) = nonce @ drop (length nonce) (drop (n - length nonce) (drop 4 p))"
    using nonce by (metis append_take_drop_id n_def)
  finally have "f c = Some (enc_u32 (of_nat n) @ pw @ nonce @ drop (length nonce) (drop (n - length nonce) (drop 4 p)))"
    using p(1) by (simp add: n_def)
  moreover have "n < 2 ^ 32" using unsigned_less [of "little_endian_u32 p"] by (simp add: n_def)
  ultimately show ?r using len by auto
next
  assume r: ?r
  define v where "v = (of_nat (length pw + length nonce) :: u32)"
  have v: "unat v = length pw + length nonce" using r by (simp add: v_def unat_of_nat_small del: of_nat_add)
  have four: "length (enc_u32 v) = 4" "drop 4 (enc_u32 v) = []" by (simp_all add: enc_u32_def)
  from r obtain rest where "f c = Some (enc_u32 v @ pw @ nonce @ rest)" by (auto simp: v_def)
  then show ?l by (simp add: RecoverEncryptedPassword_def Let_def little_endian_enc_u32 v four)
qed

text \<open>The granted timeout stays within the configured bounds, unless it was not a number.\<close>

lemma revised_timeout_bounds:
  assumes "f64_le (min_timeout cfg) (max_timeout cfg)" and "requested \<noteq> NaN" and "requested \<noteq> duration_zero"
  shows "f64_le (min_timeout cfg) (ReviseTimeout cfg requested)
    \<and> f64_le (ReviseTimeout cfg requested) (max_timeout cfg)"
proof -
  have total: "f64_less x y \<or> f64_le y x" if "x \<noteq> NaN" "y \<noteq> NaN" for x y
    using that by (cases x; cases y) auto
  have refl: "f64_le x x" if "x \<noteq> NaN" for x using that by (cases x) auto
  have "min_timeout cfg \<noteq> NaN" "max_timeout cfg \<noteq> NaN"
    using assms(1) by (cases "min_timeout cfg"; cases "max_timeout cfg"; simp)+
  with assms total refl show ?thesis by (auto simp: ReviseTimeout_def)
qed

lemma revised_timeout_nan: "ReviseTimeout cfg NaN = NaN"
  by (cases "max_timeout cfg") (simp_all add: ReviseTimeout_def)

text \<open>An expired session is gone, and announced as gone, before an activation looks for it.\<close>

lemma expired_session_dropped:
  assumes "manager_inv m" and "on_session_removed m" and "FindSessionState t m = Some s"
    and "time_le (st_expires_at s) now" and "ar_authentication_token request = t"
  shows "ActivateSession ssl u cfg now later request m =
      (Answered (failed_activate (status_of_code Bad_SessionIdInvalid)), PruneExpiredSessions now m)
    \<and> t \<in> set (removed_tokens (PruneExpiredSessions now m))"
proof -
  have "FindSessionState t (PruneExpiredSessions now m) = None"
    using assms(1,3,4) by (simp add: PruneExpiredSessions_def FindSessionState_erase)
  moreover have "t \<in> set (removed_tokens (PruneExpiredSessions now m))"
    using assms(1-4) map_of_SomeD [of "sessions m" t s] FindSessionState_token [OF assms(1,3)]
    by (force simp: PruneExpiredSessions_def erase_sessions_if_def Let_def fold_NotifySessionRemoved FindSessionState_def)
  ultimately show ?thesis using assms(5) by (simp add: ActivateSession_def)
qed

text \<open>
  A connection that closes after its session moved to another connection marks the session
  as detached although it is served: the next login of the user is then let through and
  evicts it.
\<close>

lemma stale_detach_opens_gate:
  assumes "manager_inv m" and "single_session multi m" and "\<not> multi user"
    and "FindSessionState t m = Some s" and "authenticated_as user s"
  shows "\<not> HasAttachedSessionForUser user (DetachSession t m)"
proof -
  have "\<not> st_attached s'" if "FindSessionState t' (DetachSession t m) = Some s'" "authenticated_as user s'" for t' s'
    using that assms(2-5) unfolding single_session_def
    by (auto simp: DetachSession_def authenticated_as_def split: if_splits)
  moreover have "manager_inv (DetachSession t m)"
    using assms(1,4) FindSessionState_token [OF assms(1,4)] by (auto simp: DetachSession_def intro!: manager_inv_put)
  ultimately show ?thesis
    by (auto simp: HasAttachedSessionForUser_def list_ex_iff manager_inv_def FindSessionState_def)
qed

section \<open>The contract with the owner of session state\<close>

text \<open>
  The owner of what hangs off a session (the runtime) keeps a table of activated sessions
  beside the provider. It hears of removals only through the announcements and of an
  activation only through the answer of the call; following both keeps its table equal to
  the provider's live sessions.
\<close>

locale session_provider =
  fixes inv :: "'m \<Rightarrow> bool" and live :: "'m \<Rightarrow> 't set" and announced :: "'m \<Rightarrow> 't list"
    and call :: "'m \<Rightarrow> 't option \<Rightarrow> 'm \<Rightarrow> bool"
  assumes call_inv: "inv m \<Longrightarrow> call m a m' \<Longrightarrow> inv m'"
    and call_live: "inv m \<Longrightarrow> call m a m' \<Longrightarrow>
      \<exists>gone. announced m' = announced m @ gone \<and> live m' = set_option a \<union> (live m - set gone)"
begin

lemma follow:
  assumes "inv m" and "call m a m'" and "table = live m"
  shows "set_option a \<union> (table - set (drop (length (announced m)) (announced m'))) = live m'"
proof -
  from call_live [OF assms(1,2)] obtain gone
    where "announced m' = announced m @ gone" "live m' = set_option a \<union> (live m - set gone)" by blast
  then show ?thesis by (simp add: assms(3))
qed

end

text \<open>The calls of the manager, each with the token it activated; \<open>n\<close> tokens were issued before.\<close>

definition activated_by :: "activate_session_request \<Rightarrow> activate_session_response \<Rightarrow> node_id option" where
  "activated_by request response =
     (if status_bad (ap_status response) \<or> ap_resumed response then None
      else Some (ar_authentication_token request))"

inductive manager_call :: "manager_context \<Rightarrow> nat \<times> manager \<Rightarrow> node_id option \<Rightarrow> nat \<times> manager \<Rightarrow> bool"
  for cfg where
  call_create: "CreateSession ssl cfg now later request m = (response, m') \<Longrightarrow> Suc n < 2 ^ 32 \<Longrightarrow>
     manager_call cfg (n, m) None (if status_bad (cp_status response) then n else Suc n, m')"
| call_answered: "ActivateSession ssl u cfg now later request m = (Answered response, m') \<Longrightarrow>
     manager_call cfg (n, m) (activated_by request response) (n, m')"
| call_wait: "ActivateSession ssl u cfg now later request m = (Authenticating r i name pw, m') \<Longrightarrow>
     manager_call cfg (n, m) None (n, m')"
| call_finish: "FinishActivation cfg later request i auth m = (response, m') \<Longrightarrow>
     (\<forall>e. auth = Inl e \<longrightarrow> status_bad e) \<Longrightarrow>
     manager_call cfg (n, m) (activated_by request response) (n, m')"
| call_close: "CloseSession t m = (st, m') \<Longrightarrow> manager_call cfg (n, m) None (n, m')"
| call_detach: "manager_call cfg (n, m) None (n, DetachSession t m)"

definition provider_inv :: "manager_context \<Rightarrow> nat \<times> manager \<Rightarrow> bool" where
  "provider_inv cfg = (\<lambda>(n, m). manager_inv m \<and> on_session_removed m \<and> token_bound cfg n m)"

lemma call_releases:
  "releases m m' \<Longrightarrow> token_bound cfg k m' \<Longrightarrow> provider_inv cfg (k, m')
     \<and> (\<exists>gone. removed_tokens m' = removed_tokens m @ gone
          \<and> activated_tokens m' = set_option None \<union> (activated_tokens m - set gone))"
  by (auto simp: releases_def provider_inv_def)

lemma call_activates:
  "activates t m m' \<Longrightarrow> token_bound cfg k m' \<Longrightarrow> provider_inv cfg (k, m')
     \<and> (\<exists>gone. removed_tokens m' = removed_tokens m @ gone
          \<and> activated_tokens m' = set_option (Some t) \<union> (activated_tokens m - set gone))"
  by (auto simp: activates_def provider_inv_def)

lemma manager_call_law:
  assumes "manager_call cfg p a p'" and "provider_inv cfg p"
  shows "provider_inv cfg p' \<and> (\<exists>gone. removed_tokens (snd p') = removed_tokens (snd p) @ gone
     \<and> activated_tokens (snd p') = set_option a \<union> (activated_tokens (snd p) - set gone))"
  using assms
proof (induction rule: manager_call.induct)
  case (call_create ssl now later request m response m' n)
  then have *: "manager_inv m" "on_session_removed m" "token_bound cfg n m" by (auto simp: provider_inv_def)
  from create_session_spec [OF call_create(1) * call_create(2)]
  have "releases m m'" "token_bound cfg (if status_bad (cp_status response) then n else Suc n) m'" by (auto split: if_splits)
  from call_releases [OF this] show ?case by simp
next
  case (call_answered ssl u now later request m response m' n)
  then have *: "manager_inv m" "on_session_removed m" "token_bound cfg n m" by (auto simp: provider_inv_def)
  from keeps_activate [OF call_answered(1) *(1)] have b: "token_bound cfg n m'"
    using token_bound_keeps [OF *(3)] by blast
  from activate_activates [OF call_answered(1) *(1,2)] show ?case
    using call_releases [OF _ b, of m] call_activates [OF _ b, of "ar_authentication_token request" m]
    by (auto simp: activated_by_def split: if_splits)
next
  case (call_wait ssl u now later request m r i name pw m' n)
  then have *: "manager_inv m" "on_session_removed m" "token_bound cfg n m" by (auto simp: provider_inv_def)
  from keeps_activate [OF call_wait(1) *(1)] have b: "token_bound cfg n m'"
    using token_bound_keeps [OF *(3)] by blast
  from activate_activates [OF call_wait(1) *(1,2)] show ?case using call_releases [OF _ b, of m] by simp
next
  case (call_finish later request i auth m response m' n)
  then have *: "manager_inv m" "on_session_removed m" "token_bound cfg n m" by (auto simp: provider_inv_def)
  have b: "token_bound cfg n m'" by (rule token_bound_keeps [OF *(3) keeps_finish [OF call_finish(1) *(1)]])
  from finish_activates [OF call_finish(1) *(1,2) call_finish(2)] show ?case
    using call_releases [OF _ b, of m] call_activates [OF _ b, of "ar_authentication_token request" m]
    by (auto simp: activated_by_def split: if_splits)
next
  case (call_close t m st m' n)
  then have *: "manager_inv m" "on_session_removed m" "token_bound cfg n m" by (auto simp: provider_inv_def)
  have "keeps {} {} m m'" using call_close(1) keeps_close [OF *(1)] keeps_refl [of "{}" "{}"]
    by (auto simp: CloseSession_def split: option.splits)
  from call_releases [OF releases_close [OF call_close(1) *(1,2)] token_bound_keeps [OF *(3) this]] show ?case by simp
next
  case (call_detach n m t)
  then have *: "manager_inv m" "on_session_removed m" "token_bound cfg n m" by (auto simp: provider_inv_def)
  from call_releases [OF releases_detach [OF *(1,2)] token_bound_keeps [OF *(3) keeps_detach]] show ?case by simp
qed

interpretation provider: session_provider "provider_inv cfg" "activated_tokens \<circ> snd"
  "removed_tokens \<circ> snd" "manager_call cfg" for cfg
  by unfold_locales (use manager_call_law in \<open>fastforce+\<close>)

end
