(* ===== verification/Ua_Endpoints.thy ===== *)
theory Ua_Endpoints
  imports Ua_Types
begin

text \<open>
  The discovery half of \<^verbatim>\<open>session/server_runtime.cpp\<close>: taking a URL apart, making the URLs of
  this server dialable for the client that asks, and the answers to FindServers,
  GetEndpoints, RegisterServer and RegisterServer2. A \<open>std::string_view\<close> into a URL is
  its offset with its text, the null view is \<open>None\<close>. The callbacks \<open>register_server\<close> and
  \<open>registered_servers\<close> belong to the application and are arguments.
\<close>

section \<open>URLs\<close>

abbreviation colon :: byte where "colon \<equiv> 0x3A"
abbreviation slash :: byte where "slash \<equiv> 0x2F"
abbreviation bra :: byte where "bra \<equiv> 0x5B"
abbreviation ket :: byte where "ket \<equiv> 0x5D"

text \<open>\<open>find\<close> of a string and of a character from a position on.\<close>

fun find_text :: "bytes \<Rightarrow> bytes \<Rightarrow> nat option" where
  "find_text pat [] = (if pat = [] then Some 0 else None)"
| "find_text pat (x # xs) =
     (if take (length pat) (x # xs) = pat then Some 0 else map_option Suc (find_text pat xs))"

definition find_char :: "byte \<Rightarrow> bytes \<Rightarrow> nat option" where
  "find_char c xs = (let n = length (takeWhile (\<lambda>x. x \<noteq> c) xs) in if n = length xs then None else Some n)"

abbreviation scheme_mark :: bytes where "scheme_mark \<equiv> [colon, slash, slash]"

definition UrlScheme :: "bytes \<Rightarrow> bytes" where
  "UrlScheme url = (case find_text scheme_mark url of None \<Rightarrow> [] | Some pos \<Rightarrow> take pos url)"

definition UrlAuthority :: "bytes \<Rightarrow> (nat \<times> bytes) option" where
  "UrlAuthority url = (case find_text scheme_mark url of None \<Rightarrow> None
     | Some scheme_end \<Rightarrow>
         let authority_start = scheme_end + 3; tail = drop authority_start url in
         Some (authority_start,
           case find_char slash tail of None \<Rightarrow> tail | Some path \<Rightarrow> take path tail))"

definition authority_text :: "bytes \<Rightarrow> bytes" where
  "authority_text url = (case UrlAuthority url of None \<Rightarrow> [] | Some (_, authority) \<Rightarrow> authority)"

definition AuthorityHost :: "bytes \<Rightarrow> bytes" where
  "AuthorityHost authority =
     (if authority \<noteq> [] \<and> hd authority = bra
      then (case find_char ket authority of None \<Rightarrow> authority | Some c \<Rightarrow> take (c + 1) authority)
      else case find_char colon authority of None \<Rightarrow> authority
        | Some c \<Rightarrow> (case find_char colon (drop (c + 1) authority) of
              Some _ \<Rightarrow> authority | None \<Rightarrow> take c authority))"

definition IsWildcardHost :: "bytes \<Rightarrow> bool" where
  "IsWildcardHost host \<longleftrightarrow> host = [] \<or> host = lit ''0.0.0.0'' \<or> host = lit ''::''
     \<or> host = lit ''[::]'' \<or> host = lit ''[::0]'' \<or> host = lit ''0:0:0:0:0:0:0:0''"

definition WithHost :: "bytes \<Rightarrow> bytes \<Rightarrow> bytes" where
  "WithHost url host = (case UrlAuthority url of None \<Rightarrow> url
     | Some (offset, authority) \<Rightarrow>
         take offset url @ host @ drop (offset + length (AuthorityHost authority)) url)"

abbreviation url_host :: "bytes \<Rightarrow> bytes" where
  "url_host url \<equiv> AuthorityHost (authority_text url)"

definition RebaseWildcardHost :: "bytes \<Rightarrow> bytes \<Rightarrow> bytes" where
  "RebaseWildcardHost url requested_host =
     (if requested_host = [] \<or> IsWildcardHost requested_host then url
      else if \<not> IsWildcardHost (url_host url) then url
      else WithHost url requested_host)"

definition ReachableEndpointUrl :: "bytes \<Rightarrow> bytes \<Rightarrow> bytes" where
  "ReachableEndpointUrl endpoint_url requested_url =
     (let requested_host = url_host requested_url in
      if requested_url = [] \<or> IsWildcardHost requested_host then endpoint_url
      else if UrlScheme endpoint_url = UrlScheme requested_url then requested_url
      else RebaseWildcardHost endpoint_url requested_host)"

definition ReachableDiscoveryUrls :: "bytes list \<Rightarrow> bytes \<Rightarrow> bytes list" where
  "ReachableDiscoveryUrls discovery_urls requested_url =
     (let requested_host = url_host requested_url;
          urls = map (\<lambda>url. RebaseWildcardHost url requested_host) discovery_urls in
      if requested_url = [] \<or> IsWildcardHost requested_host then urls
      else if \<not> list_ex (\<lambda>url. UrlScheme url = UrlScheme requested_url) urls then urls
      else requested_url # removeAll requested_url urls)"

section \<open>Descriptions\<close>

datatype application_type = ApplicationServer | ApplicationClient | ClientAndServer | DiscoveryServer

datatype user_token_type = TokenAnonymous | TokenUserName | TokenCertificate | TokenIssued

datatype message_security_mode = ModeInvalid | ModeNone | ModeSign | ModeSignAndEncrypt

record application_description =
  application_uri :: bytes
  product_uri :: bytes
  application_name :: localized_text
  application_type :: application_type
  gateway_server_uri :: bytes
  discovery_profile_uri :: bytes
  discovery_urls :: "bytes list"

record user_token_policy =
  policy_id :: bytes
  token_type :: user_token_type
  issued_token_type :: bytes
  issuer_endpoint_url :: bytes
  token_security_policy_uri :: bytes

record endpoint_description =
  endpoint_url :: bytes
  ep_server :: application_description
  ep_server_certificate :: bytes
  security_mode :: message_security_mode
  security_policy_uri :: bytes
  user_identity_tokens :: "user_token_policy list"
  transport_profile_uri :: bytes
  security_level :: byte

record registered_server =
  rs_server_uri :: bytes
  rs_product_uri :: bytes
  rs_server_names :: "localized_text list"
  rs_server_type :: application_type
  rs_gateway_server_uri :: bytes
  rs_discovery_urls :: "bytes list"
  rs_semaphore_file_path :: bytes
  rs_is_online :: bool

section \<open>GetEndpoints and FindServers\<close>

definition MatchesStringFilter :: "bytes \<Rightarrow> bytes list \<Rightarrow> bool" where
  "MatchesStringFilter v filter_list \<longleftrightarrow> filter_list = [] \<or> v \<in> set filter_list"

definition own_description :: "bytes \<Rightarrow> application_description \<Rightarrow> application_description" where
  "own_description requested_url d =
     d\<lparr>discovery_urls := ReachableDiscoveryUrls (discovery_urls d) requested_url\<rparr>"

definition ReachableEndpoints :: "endpoint_description list \<Rightarrow> bytes \<Rightarrow> bytes list
    \<Rightarrow> endpoint_description list" where
  "ReachableEndpoints endpoints requested_url profile_uris =
     map (\<lambda>e. e\<lparr>endpoint_url := ReachableEndpointUrl (endpoint_url e) requested_url,
                ep_server := own_description requested_url (ep_server e)\<rparr>)
       (filter (\<lambda>e. MatchesStringFilter (transport_profile_uri e) profile_uris) endpoints)"

definition HandleGetEndpoints :: "endpoint_description list \<Rightarrow> bytes \<Rightarrow> bytes list
    \<Rightarrow> status \<times> endpoint_description list" where
  "HandleGetEndpoints endpoints requested_url profile_uris =
     (status_of_code Good, ReachableEndpoints endpoints requested_url profile_uris)"

definition append_server :: "bytes list \<Rightarrow> application_description \<Rightarrow> application_description list
    \<Rightarrow> application_description list" where
  "append_server server_uris d servers =
     (if \<not> MatchesStringFilter (application_uri d) server_uris
         \<and> \<not> MatchesStringFilter (product_uri d) server_uris then servers
      else if list_ex (\<lambda>existing. application_uri existing = application_uri d) servers then servers
      else servers @ [d])"

definition registered_description :: "bytes \<Rightarrow> registered_server \<Rightarrow> application_description" where
  "registered_description requested_host r =
     \<lparr>application_uri = rs_server_uri r, product_uri = rs_product_uri r,
      application_name = (case rs_server_names r of [] \<Rightarrow> LocalizedText [] [] | n # _ \<Rightarrow> n),
      application_type = rs_server_type r, gateway_server_uri = [], discovery_profile_uri = [],
      discovery_urls = map (\<lambda>url. RebaseWildcardHost url requested_host) (rs_discovery_urls r)\<rparr>"

definition HandleFindServers :: "endpoint_description list \<Rightarrow> registered_server list option \<Rightarrow> bytes
    \<Rightarrow> bytes list \<Rightarrow> status \<times> application_description list" where
  "HandleFindServers endpoints registered requested_url server_uris =
     (let own = fold (append_server server_uris)
            (map (own_description requested_url \<circ> ep_server) endpoints) [];
          all = (case registered of None \<Rightarrow> own
            | Some rs \<Rightarrow> fold (append_server server_uris)
                (map (registered_description (url_host requested_url)) rs) own)
      in (status_of_code Good, all))"

section \<open>Registration\<close>

record register_context =
  rc_channel_secure :: bool
  rc_client_certificate :: bytes
  rc_server_capabilities :: "bytes list"

type_synonym register_callback = "registered_server \<Rightarrow> register_context \<Rightarrow> status"

datatype mdns_configuration = MdnsDiscoveryConfiguration (mdns_server_name: bytes)
  (server_capabilities: "bytes list")

definition HandleRegisterServer :: "register_callback option \<Rightarrow> bool \<Rightarrow> bytes \<Rightarrow> registered_server \<Rightarrow> status"
  where
  "HandleRegisterServer register_server secure certificate server =
     (case register_server of None \<Rightarrow> status_of_code Bad
      | Some f \<Rightarrow> f server \<lparr>rc_channel_secure = secure, rc_client_certificate = certificate,
          rc_server_capabilities = []\<rparr>)"

fun configure :: "mdns_configuration option list \<Rightarrow> bytes list \<Rightarrow> status_code list
    \<Rightarrow> bytes list \<times> status_code list" where
  "configure [] caps results = (caps, results)"
| "configure (Some c # cs) caps results = configure cs (caps @ server_capabilities c) (results @ [Good])"
| "configure (None # cs) caps results = configure cs caps (results @ [Bad_NotSupported])"

definition HandleRegisterServer2 :: "register_callback option \<Rightarrow> bool \<Rightarrow> bytes \<Rightarrow> registered_server
    \<Rightarrow> mdns_configuration option list \<Rightarrow> status \<times> status_code list" where
  "HandleRegisterServer2 register_server secure certificate server configuration =
     (case register_server of None \<Rightarrow> (status_of_code Bad, [])
      | Some f \<Rightarrow>
          let (caps, results) = configure configuration [] [] in
          (f server \<lparr>rc_channel_secure = secure, rc_client_certificate = certificate,
             rc_server_capabilities = caps\<rparr>, results))"

section \<open>Hosts\<close>

text \<open>
  A host as it appears in a URL: a bracketed IPv6 literal, or a name or IPv4 address
  without a colon; never a path separator. The rest of an authority is empty or a port.
\<close>

definition host_ok :: "bytes \<Rightarrow> bool" where
  "host_ok h \<longleftrightarrow> slash \<notin> set h \<and> h \<noteq> [] \<and>
     (if hd h = bra then last h = ket \<and> ket \<notin> set (butlast h) else colon \<notin> set h)"

definition port_ok :: "bytes \<Rightarrow> bool" where
  "port_ok p \<longleftrightarrow> slash \<notin> set p \<and> (p = [] \<or> hd p = colon \<and> colon \<notin> set (tl p))"

lemma find_char_None: "find_char c xs = None \<longleftrightarrow> c \<notin> set xs"
proof -
  have "length (takeWhile (\<lambda>x. x \<noteq> c) xs) = length xs \<longleftrightarrow> takeWhile (\<lambda>x. x \<noteq> c) xs = xs"
    by (metis takeWhile_eq_take take_all_iff order_refl)
  then show ?thesis by (auto simp: find_char_def Let_def takeWhile_eq_all_conv)
qed

lemma takeWhile_absent: "c \<notin> set xs \<Longrightarrow> takeWhile (\<lambda>x. x \<noteq> c) (xs @ ys) = xs @ takeWhile (\<lambda>x. x \<noteq> c) ys"
  by (induction xs) auto

lemma find_char_append:
  "c \<notin> set xs \<Longrightarrow> find_char c (xs @ ys) = map_option (\<lambda>n. length xs + n) (find_char c ys)"
  by (simp add: find_char_def Let_def takeWhile_absent)

lemma find_char_hit: "c \<notin> set xs \<Longrightarrow> find_char c (xs @ c # ys) = Some (length xs)"
  by (simp add: find_char_append) (simp add: find_char_def)

lemma find_char_le: "find_char c xs = Some n \<Longrightarrow> n < length xs"
  by (auto simp: find_char_def Let_def split: if_splits)
     (metis le_neq_implies_less length_takeWhile_le)

lemma AuthorityHost_prefix: "\<exists>p. authority = AuthorityHost authority @ p"
  by (auto simp: AuthorityHost_def split: option.split) (metis append_take_drop_id)+

text \<open>The host of a well-formed authority is the host it was built from.\<close>

lemma AuthorityHost_of:
  assumes "host_ok h" and "port_ok p"
  shows "AuthorityHost (h @ p) = h"
proof (cases "hd h = bra")
  case True
  then obtain b where h: "h = b @ [ket]" "ket \<notin> set b"
    using assms(1) by (metis append_butlast_last_id host_ok_def)
  then have "find_char ket (h @ p) = Some (length b)" using find_char_hit [of ket b p] by simp
  moreover from True h obtain b' where "b = bra # b'" by (cases b) auto
  ultimately show ?thesis using h by (simp add: AuthorityHost_def)
next
  case False
  then have nc: "colon \<notin> set h" "h \<noteq> []" using assms(1) by (auto simp: host_ok_def)
  show ?thesis
  proof (cases p)
    case Nil
    with nc False show ?thesis by (simp add: AuthorityHost_def find_char_None [THEN iffD2])
  next
    case (Cons c q)
    with assms(2) have p: "p = colon # q" "colon \<notin> set q" by (auto simp: port_ok_def)
    then have "find_char colon (h @ p) = Some (length h)" using nc find_char_hit by metis
    with nc False p show ?thesis by (simp add: AuthorityHost_def find_char_None [THEN iffD2])
  qed
qed

lemma find_text_ge: "find_text pat xs = Some n \<Longrightarrow> take (length pat) (drop n xs) = pat \<and> n \<le> length xs"
  by (induction xs arbitrary: n) (auto split: if_splits)

text \<open>Where the mark is found does not depend on what follows it.\<close>

lemma find_text_append:
  "find_text pat (pre @ pat @ r) = Some (length pre) \<Longrightarrow> find_text pat (pre @ pat @ r') = Some (length pre)"
proof (induction pre)
  case Nil
  then show ?case by (cases pat; cases r') auto
next
  case (Cons x pre)
  have w: "take (length pat) (x # pre @ pat @ r) = take (length pat) (x # pre @ pat)" for r
    using take_append [of "length pat" "x # pre @ pat" r] by simp
  from Cons show ?case using w [of r] w [of r'] by (auto split: if_splits)
qed

lemma UrlAuthority_split:
  assumes "UrlAuthority url = Some (off, a)"
  obtains pre path where "url = pre @ scheme_mark @ a @ path" "off = length pre + 3"
    "find_text scheme_mark url = Some (length pre)" "slash \<notin> set a" "path = [] \<or> hd path = slash"
proof -
  from assms obtain n where f: "find_text scheme_mark url = Some n"
    by (cases "find_text scheme_mark url") (simp_all add: UrlAuthority_def)
  note n = f assms [unfolded UrlAuthority_def f Let_def option.case option.inject prod.inject, THEN conjunct1, symmetric]
  note a = assms [unfolded UrlAuthority_def f Let_def option.case option.inject prod.inject, THEN conjunct2, symmetric]
  from find_text_ge [OF n(1)] have m: "take 3 (drop n url) = scheme_mark" and le: "n \<le> length url"
    by (simp_all add: numeral_3_eq_3)
  have d: "drop 3 (drop n url) = drop (n + 3) url" by (simp add: add.commute)
  have dn: "drop n url = scheme_mark @ drop (n + 3) url"
    using append_take_drop_id [of 3 "drop n url"] unfolding m d by (rule sym)
  have url: "url = take n url @ scheme_mark @ drop (n + 3) url"
    using append_take_drop_id [of n url] unfolding dn by (rule sym)
  have len: "length (take n url) = n" using le by simp
  define t where "t = drop (n + 3) url"
  have "\<exists>path. t = a @ path \<and> slash \<notin> set a \<and> (path = [] \<or> hd path = slash)"
  proof (cases "find_char slash t")
    case None
    then have "a = t" using a by (simp add: t_def)
    then show ?thesis using None by (simp add: find_char_None)
  next
    case (Some k)
    then have k: "k = length (takeWhile (\<lambda>x. x \<noteq> slash) t)" "k < length t"
      using find_char_le [OF Some] by (auto simp: find_char_def Let_def split: if_splits)
    have "a = take k t" using a Some by (simp add: t_def [symmetric])
    then have ta: "a = takeWhile (\<lambda>x. x \<noteq> slash) t" unfolding k(1) by (simp only: takeWhile_eq_take [symmetric])
    have "t = a @ dropWhile (\<lambda>x. x \<noteq> slash) t" by (simp add: ta)
    moreover have "slash \<notin> set a" using set_takeWhileD ta by fastforce
    ultimately show ?thesis using hd_dropWhile [of "\<lambda>x. x \<noteq> slash" t]
      by (intro exI [of _ "dropWhile (\<lambda>x. x \<noteq> slash) t"]) auto
  qed
  then obtain path where path: "t = a @ path" "slash \<notin> set a" "path = [] \<or> hd path = slash" by blast
  have "url = take n url @ scheme_mark @ a @ path" using url unfolding t_def [symmetric] path(1) .
  then show ?thesis by (rule that) (use len n path(2,3) in simp_all)
qed

lemma UrlAuthority_build:
  assumes "find_text scheme_mark (pre @ scheme_mark @ r) = Some (length pre)" and "slash \<notin> set a"
    and "path = [] \<or> hd path = slash"
  shows "UrlAuthority (pre @ scheme_mark @ a @ path) = Some (length pre + 3, a)"
proof -
  have "find_text scheme_mark (pre @ scheme_mark @ a @ path) = Some (length pre)"
    by (rule find_text_append) (rule assms(1))
  moreover have "(case find_char slash (a @ path) of None \<Rightarrow> a @ path | Some k \<Rightarrow> take k (a @ path)) = a"
    using assms(2,3) by (cases path) (auto simp: find_char_None [THEN iffD2] find_char_hit)
  moreover have "drop (length pre + 3) (pre @ scheme_mark @ a @ path) = a @ path" by (simp add: numeral_3_eq_3)
  ultimately show ?thesis unfolding UrlAuthority_def Let_def by (simp only: option.case)
qed

text \<open>\<open>WithHost\<close> replaces the host and keeps scheme, port and path.\<close>

lemma with_host_replaces:
  assumes "UrlAuthority url = Some (off, a)" and "host_ok h"
    and "port_ok (drop (length (AuthorityHost a)) a)"
  shows "UrlScheme (WithHost url h) = UrlScheme url"
    and "UrlAuthority (WithHost url h) = Some (off, h @ drop (length (AuthorityHost a)) a)"
    and "url_host (WithHost url h) = h"
proof -
  define p where "p = drop (length (AuthorityHost a)) a"
  from AuthorityHost_prefix [of a] have a: "a = AuthorityHost a @ p" by (metis append_eq_conv_conj p_def)
  from assms(1) obtain pre path where url: "url = pre @ scheme_mark @ a @ path" "off = length pre + 3"
    and f: "find_text scheme_mark url = Some (length pre)" and path: "path = [] \<or> hd path = slash"
    by (elim UrlAuthority_split)
  have "WithHost url h = take off url @ h @ drop (off + length (AuthorityHost a)) url"
    using assms(1) by (simp add: WithHost_def)
  also have "take off url = pre @ scheme_mark" by (simp add: url)
  also have "drop (off + length (AuthorityHost a)) url = p @ path"
  proof -
    have "url = (pre @ scheme_mark @ AuthorityHost a) @ p @ path" using url(1) a by (metis append.assoc)
    moreover have "off + length (AuthorityHost a) = length (pre @ scheme_mark @ AuthorityHost a)" by (simp add: url(2))
    ultimately show ?thesis by (metis append_eq_conv_conj)
  qed
  finally have w: "WithHost url h = pre @ scheme_mark @ (h @ p) @ path" by simp
  have f': "find_text scheme_mark (WithHost url h) = Some (length pre)"
    unfolding w using f unfolding url(1) by (rule find_text_append)
  then show "UrlScheme (WithHost url h) = UrlScheme url" using f
    by (simp only: UrlScheme_def option.case) (simp add: w, simp add: url(1))
  have "slash \<notin> set (h @ p)" using assms(2,3) by (simp add: host_ok_def port_ok_def p_def)
  from UrlAuthority_build [OF f [unfolded url(1)] this path]
  show auth: "UrlAuthority (WithHost url h) = Some (off, h @ drop (length (AuthorityHost a)) a)"
    by (simp add: w url(2) p_def)
  then show "url_host (WithHost url h) = h"
    using AuthorityHost_of [OF assms(2,3)] by (simp add: authority_text_def)
qed

section \<open>Reachable addresses\<close>

definition url_ok :: "bytes \<Rightarrow> bool" where
  "url_ok url = (case UrlAuthority url of None \<Rightarrow> False
     | Some (_, a) \<Rightarrow> port_ok (drop (length (AuthorityHost a)) a))"

lemma rebased_host:
  assumes "url_ok url" and "host_ok h" and "\<not> IsWildcardHost h"
  shows "\<not> IsWildcardHost (url_host (RebaseWildcardHost url h))"
proof (cases "IsWildcardHost (url_host url)")
  case True
  from assms(1) obtain off a where "UrlAuthority url = Some (off, a)"
    "port_ok (drop (length (AuthorityHost a)) a)" by (auto simp: url_ok_def split: option.splits)
  from with_host_replaces(3) [OF this(1) assms(2) this(2)] show ?thesis
    using True assms(2,3) by (simp add: RebaseWildcardHost_def host_ok_def)
next
  case False
  then show ?thesis by (simp add: RebaseWildcardHost_def)
qed

lemma url_host_Nil [simp]: "IsWildcardHost (url_host [])"
  by (simp add: authority_text_def UrlAuthority_def AuthorityHost_def IsWildcardHost_def find_char_def)

lemma reachable_endpoint_host:
  assumes "url_ok url" and "host_ok (url_host requested)" and "\<not> IsWildcardHost (url_host requested)"
  shows "\<not> IsWildcardHost (url_host (ReachableEndpointUrl url requested))"
  using assms rebased_host by (auto simp: ReachableEndpointUrl_def Let_def)

lemma reachable_discovery_hosts:
  assumes "list_all url_ok urls" and "host_ok (url_host requested)" and "\<not> IsWildcardHost (url_host requested)"
  shows "list_all (\<lambda>url. \<not> IsWildcardHost (url_host url)) (ReachableDiscoveryUrls urls requested)"
  using assms rebased_host by (auto simp: ReachableDiscoveryUrls_def Let_def list_all_iff)

text \<open>
  C28. When the client names a host in its request that is not a wildcard, and the configured URLs
  are well formed, no address that leaves the server in an endpoint description (the endpoint's own
  or a discovery URL) has a wildcard host, so that the client can dial each of them. A wildcard
  is what \<open>IsWildcardHost\<close> of the code takes for one.
\<close>

theorem endpoints_are_dialable:
  assumes "host_ok (url_host requested)" and "\<not> IsWildcardHost (url_host requested)"
    and "\<forall>e\<in>set endpoints. url_ok (endpoint_url e) \<and> list_all url_ok (discovery_urls (ep_server e))"
    and "e \<in> set (ReachableEndpoints endpoints requested profiles)"
  shows "\<not> IsWildcardHost (url_host (endpoint_url e))
    \<and> (\<forall>url\<in>set (discovery_urls (ep_server e)). \<not> IsWildcardHost (url_host url))"
proof -
  from assms(4) obtain e0 where e: "e0 \<in> set endpoints"
    "endpoint_url e = ReachableEndpointUrl (endpoint_url e0) requested"
    "discovery_urls (ep_server e) = ReachableDiscoveryUrls (discovery_urls (ep_server e0)) requested"
    by (auto simp: ReachableEndpoints_def own_description_def)
  with assms(3) have "url_ok (endpoint_url e0)" "list_all url_ok (discovery_urls (ep_server e0))" by auto
  from reachable_endpoint_host [OF this(1) assms(1,2)] reachable_discovery_hosts [OF this(2) assms(1,2)]
  show ?thesis by (simp add: e list_all_iff)
qed

definition example_endpoint :: endpoint_description where
  "example_endpoint = \<lparr>endpoint_url = lit ''opc.tcp://0.0.0.0:4840/ua'',
     ep_server = \<lparr>application_uri = lit ''urn:a'', product_uri = [], application_name = LocalizedText [] [],
       application_type = ApplicationServer, gateway_server_uri = [], discovery_profile_uri = [],
       discovery_urls = [lit ''opc.tcp://[::]:4840'', lit ''opc.wss://gate:443'']\<rparr>,
     ep_server_certificate = [], security_mode = ModeNone, security_policy_uri = [],
     user_identity_tokens = [], transport_profile_uri = [], security_level = 0\<rparr>"

theorem endpoints_are_dialable_witness:
  "\<not> IsWildcardHost (url_host (endpoint_url
      (hd (ReachableEndpoints [example_endpoint] (lit ''opc.ws://plant:81'') []))))
   \<and> endpoint_url (hd (ReachableEndpoints [example_endpoint] (lit ''opc.ws://plant:81'') []))
      = lit ''opc.tcp://plant:4840/ua''"
proof -
  let ?u = "lit ''opc.ws://plant:81''"
  have "host_ok (url_host ?u)" "\<not> IsWildcardHost (url_host ?u)"
    "list_all (\<lambda>e. url_ok (endpoint_url e) \<and> list_all url_ok (discovery_urls (ep_server e))) [example_endpoint]"
    by code_simp+
  moreover have "hd (ReachableEndpoints [example_endpoint] ?u []) \<in> set (ReachableEndpoints [example_endpoint] ?u [])"
    by (simp add: ReachableEndpoints_def MatchesStringFilter_def)
  ultimately have "\<not> IsWildcardHost (url_host (endpoint_url (hd (ReachableEndpoints [example_endpoint] ?u []))))"
    using endpoints_are_dialable [of ?u "[example_endpoint]"] by auto
  moreover have "endpoint_url (hd (ReachableEndpoints [example_endpoint] ?u [])) = lit ''opc.tcp://plant:4840/ua''"
    by code_simp
  ultimately show ?thesis by blast
qed

section \<open>FindServers\<close>

text \<open>The reference: the first description of each application URI, in order.\<close>

fun keep_first :: "('a \<Rightarrow> 'k) \<Rightarrow> 'a list \<Rightarrow> 'a list" where
  "keep_first key [] = []"
| "keep_first key (x # xs) = x # filter (\<lambda>y. key y \<noteq> key x) (keep_first key xs)"

lemma keep_first_keys: "key ` set (keep_first key xs) = key ` set xs"
proof (induction xs)
  case (Cons x xs)
  have "key ` set (filter (\<lambda>y. key y \<noteq> key x) ys) = key ` set ys - {key x}" for ys by auto
  with Cons show ?case by auto
qed simp

lemma keep_first_distinct: "distinct (map key (keep_first key xs))"
  by (induction xs) (auto simp: distinct_map_filter)

lemma keep_first_snoc:
  "keep_first key (xs @ [x]) = keep_first key xs @ (if key x \<in> key ` set xs then [] else [x])"
  by (induction xs) auto

definition wanted :: "bytes list \<Rightarrow> application_description \<Rightarrow> bool" where
  "wanted server_uris d \<longleftrightarrow> MatchesStringFilter (application_uri d) server_uris
     \<or> MatchesStringFilter (product_uri d) server_uris"

lemma append_server_wanted:
  "append_server uris d ds = (if \<not> wanted uris d then ds
     else if list_ex (\<lambda>existing. application_uri existing = application_uri d) ds then ds else ds @ [d])"
  by (simp add: append_server_def wanted_def)

lemma fold_append_server:
  "fold (append_server uris) ds (keep_first application_uri (filter (wanted uris) cs)) =
     keep_first application_uri (filter (wanted uris) (cs @ ds))"
proof (induction ds arbitrary: cs)
  case (Cons d ds)
  let ?kept = "keep_first application_uri (filter (wanted uris) cs)"
  have dup: "list_ex (\<lambda>existing. application_uri existing = application_uri d) ?kept
      \<longleftrightarrow> application_uri d \<in> application_uri ` set (filter (wanted uris) cs)"
  proof -
    have "list_ex (\<lambda>e. application_uri e = application_uri d) xs \<longleftrightarrow> application_uri d \<in> application_uri ` set xs"
      for xs :: "application_description list" by (induction xs) auto
    then show ?thesis by (simp only: keep_first_keys)
  qed
  have "append_server uris d ?kept = keep_first application_uri (filter (wanted uris) (cs @ [d]))"
    unfolding append_server_wanted dup by (simp add: keep_first_snoc)
  with Cons [of "cs @ [d]"] show ?case by simp
qed simp

text \<open>
  FindServers answers with the wanted descriptions of this server, then those of the
  registered servers, each application URI once: the first description of it, so that the
  server's own wins over a registration.
\<close>

lemma find_servers_first_of_each:
  "HandleFindServers endpoints registered requested_url server_uris =
     (status_of_code Good, keep_first application_uri (filter (wanted server_uris)
        (map (own_description requested_url \<circ> ep_server) endpoints
         @ map (registered_description (url_host requested_url)) (case registered of None \<Rightarrow> [] | Some rs \<Rightarrow> rs))))
   \<and> distinct (map application_uri (snd (HandleFindServers endpoints registered requested_url server_uris)))"
  using fold_append_server [of server_uris "map (own_description requested_url \<circ> ep_server) endpoints" "[]"]
  by (simp add: HandleFindServers_def Let_def fold_append_server keep_first_distinct split: option.split)

end
