(* ===== verification/Ua_Runtime.thy ===== *)
theory Ua_Runtime
  imports Ua_Session_Manager Ua_Endpoints
begin

text \<open>
  \<^verbatim>\<open>session/server_runtime.{h,cpp}\<close>: the runtime owns what hangs off a session (the
  \<open>ServerSession\<close> and the table of subscription owners) and routes every request of a
  connection. \<open>rt_manager\<close> is the session manager the runtime refers to; the removal sink it
  installs there runs \<open>ForgetSession\<close>, which \<open>run_manager\<close> does for every token a call of the
  manager announces. \<open>rt_closed\<close> keeps the subscriptions that were destroyed with their
  session, \<open>rt_made\<close> the token of every \<open>ServerSession\<close> object made: a pointer to the session
  of a token is good as long as the session is there and no other was made for the token.

  A request that suspends returns what it waits for: the authenticator, a delay of the
  Publish loop, or a service callback; \<open>FinishActivateSession\<close>, \<open>PublishRound\<close> and
  \<open>ResumeBrowse\<close> continue it. The service callbacks belong to the application: a service
  request is an opaque \<open>'q\<close>, its answer \<open>'a\<close> or the results of a Browse.
\<close>

section \<open>State and messages\<close>

record connection =
  cn_authentication_token :: "node_id option"
  cn_closed :: bool
  cn_secure_channel :: bool
  cn_client_certificate :: bytes
  cn_peer :: bytes

record 'r runtime =
  rt_sessions :: "(node_id \<times> 'r session) list"
  subscription_owners :: "(u32 \<times> node_id) list"
  rt_next_subscription_id :: u32
  rt_manager :: manager
  rt_closed :: "subscription list"
  rt_made :: "node_id list"

text \<open>The configuration, and what one request reads from the outside: clocks and libraries.\<close>

record env =
  env_manager :: manager_context
  env_endpoints :: "endpoint_description list"
  env_max_monitored_items :: u32
  env_register :: "register_callback option"
  env_registered :: "registered_server list option"
  env_create_subscription :: "nat \<Rightarrow> status option"
  env_ssl :: openssl
  env_utf :: utf_convert
  env_now :: date_time
  env_later :: date_time

datatype 'q request =
  FindServersRequest bytes "bytes list"
| GetEndpointsRequest bytes "bytes list"
| RegisterServerRequest registered_server
| RegisterServer2Request registered_server "mdns_configuration option list"
| CreateSessionRequest create_session_request
| ActivateSessionRequest activate_session_request
| CloseSessionRequest node_id
| CreateSubscriptionRequest subscription_parameters
| ModifySubscriptionRequest u32 subscription_parameters
| SetPublishingModeRequest bool "u32 list"
| DeleteSubscriptionsRequest "u32 list"
| PublishRequest "(u32 \<times> u32) list"
| RepublishRequest u32 u32
| TransferSubscriptionsRequest "u32 list"
| CreateMonitoredItemsRequest u32 "item_create_request list"
| ModifyMonitoredItemsRequest u32 "(u32 \<times> monitoring_parameters) list"
| DeleteMonitoredItemsRequest u32 "u32 list"
| SetMonitoringModeRequest u32 u32 "u32 list"
| BrowseRequest nat 'q
| BrowseNextRequest bool "bytes list"
| RegisterNodesRequest "node_id list"
| UnregisterNodesRequest
| OtherServiceRequest 'q

datatype ('r, 'a) response =
  FindServersResponse status "application_description list"
| GetEndpointsResponse status "endpoint_description list"
| RegisterServerResponse status
| RegisterServer2Response status "status_code list"
| CreateSessionResponse create_session_response "endpoint_description list"
| ActivateSessionResponse activate_session_response
| CloseSessionResponse status
| CreateSubscriptionResp create_subscription_response
| ModifySubscriptionResp modify_subscription_response
| SetPublishingModeResponse status "status list"
| DeleteSubscriptionsResponse status "status list"
| PublishResp publish_response
| RepublishResp republish_response
| TransferSubscriptionsResponse status "status list"
| CreateMonitoredItemsResponse status "item_create_result list"
| ModifyMonitoredItemsResponse status "item_modify_result list"
| DeleteMonitoredItemsResponse status "status list"
| SetMonitoringModeResponse status "status list"
| BrowseResponse "'r browse_result list"
| BrowseNextResponse "'r browse_result list"
| RegisterNodesResponse "node_id list"
| UnregisterNodesResponse
| OtherServiceResponse 'a
| ServiceFault status

datatype ('r, 'a, 'q) outcome =
  Respond "('r, 'a) response"
| AwaitAuthenticator activate_session_request node_id localized_text localized_text
| AwaitDelay duration "status_code list"
| AwaitService service_context 'q
| AwaitBrowse nat node_id nat service_context 'q

abbreviation session_missing :: status where
  "session_missing \<equiv> status_of_code Bad_SessionIdInvalid"

section \<open>Sessions of the runtime\<close>

definition ServerRuntime :: "manager \<Rightarrow> 'r runtime" where
  "ServerRuntime m = \<lparr>rt_sessions = [], subscription_owners = [], rt_next_subscription_id = 1,
     rt_manager = SetSessionRemovedCallback True m, rt_closed = [], rt_made = []\<rparr>"

definition DestroyRuntime :: "'r runtime \<Rightarrow> manager" where
  "DestroyRuntime rt = SetSessionRemovedCallback False (rt_manager rt)"

definition FindRuntimeSession :: "node_id \<Rightarrow> 'r runtime \<Rightarrow> 'r session option" where
  "FindRuntimeSession token rt = map_of (rt_sessions rt) token"

definition FindAttachedSession :: "connection \<Rightarrow> 'r runtime \<Rightarrow> (node_id \<times> 'r session) option" where
  "FindAttachedSession conn rt = (case cn_authentication_token conn of None \<Rightarrow> None
     | Some token \<Rightarrow> map_option (Pair token) (FindRuntimeSession token rt))"

definition put_runtime_session :: "node_id \<Rightarrow> 'r session \<Rightarrow> 'r runtime \<Rightarrow> 'r runtime" where
  "put_runtime_session token s rt = rt\<lparr>rt_sessions := AList.update token s (rt_sessions rt)\<rparr>"

definition RemoveSessionSubscriptions :: "node_id \<Rightarrow> 'r runtime \<Rightarrow> 'r runtime" where
  "RemoveSessionSubscriptions token rt =
     rt\<lparr>subscription_owners := filter (\<lambda>(_, owner). owner \<noteq> token) (subscription_owners rt)\<rparr>"

definition release_session :: "'r session \<Rightarrow> 'r runtime \<Rightarrow> 'r runtime" where
  "release_session s rt = rt\<lparr>rt_closed := rt_closed rt @ map (destroy \<circ> snd) (subscriptions s)\<rparr>"

definition ForgetSession :: "node_id \<Rightarrow> 'r runtime \<Rightarrow> 'r runtime" where
  "ForgetSession token rt =
     (let rt = RemoveSessionSubscriptions token rt in
      case FindRuntimeSession token rt of None \<Rightarrow> rt
      | Some s \<Rightarrow> release_session s (rt\<lparr>rt_sessions := AList.delete token (rt_sessions rt)\<rparr>))"

definition run_manager :: "(manager \<Rightarrow> 'x \<times> manager) \<Rightarrow> 'r runtime \<Rightarrow> 'x \<times> 'r runtime" where
  "run_manager f rt =
     (let (x, m) = f (rt_manager rt);
          gone = drop (length (removed_tokens (rt_manager rt))) (removed_tokens m)
      in (x, fold ForgetSession gone (rt\<lparr>rt_manager := m\<rparr>)))"

definition Detach :: "connection \<Rightarrow> 'r runtime \<Rightarrow> connection \<times> 'r runtime" where
  "Detach conn rt = (case cn_authentication_token conn of None \<Rightarrow> (conn, rt)
     | Some token \<Rightarrow>
         (conn\<lparr>cn_authentication_token := None\<rparr>,
          snd (run_manager (\<lambda>m. ((), DetachSession token m)) rt)))"

section \<open>ActivateSession\<close>

text \<open>What follows the answer of the manager in \<open>HandleActivateSession\<close>.\<close>

definition AdoptSession :: "env \<Rightarrow> activate_session_request \<Rightarrow> activate_session_response \<Rightarrow> connection
    \<Rightarrow> 'r runtime \<Rightarrow> activate_session_response \<times> connection \<times> 'r runtime" where
  "AdoptSession env request response conn rt =
     (let token = ar_authentication_token request;
          conn' = conn\<lparr>cn_authentication_token := Some token\<rparr> in
      if status_bad (ap_status response) then (response, conn, rt)
      else if ap_resumed response
      then (case FindRuntimeSession token rt of
          None \<Rightarrow> (failed_activate session_missing, conn, rt)
        | Some s \<Rightarrow> (response, conn',
            put_runtime_session token (SetServiceContext (ap_service_context response) s) rt))
      else (response, conn',
        put_runtime_session token (ServerSession (ar_session_id request) token
            (ap_service_context response) (env_max_monitored_items env))
          ((case FindRuntimeSession token rt of None \<Rightarrow> rt | Some s \<Rightarrow> release_session s rt)
             \<lparr>rt_made := rt_made rt @ [token]\<rparr>)))"

definition bind_activation :: "connection \<Rightarrow> activate_session_request \<Rightarrow> activate_session_request" where
  "bind_activation conn request =
     request\<lparr>ar_channel_secure := cn_secure_channel conn, ar_peer := cn_peer conn\<rparr>"

definition HandleActivateSession :: "env \<Rightarrow> activate_session_request \<Rightarrow> connection \<Rightarrow> 'r runtime
    \<Rightarrow> ('r, 'a, 'q) outcome \<times> connection \<times> 'r runtime" where
  "HandleActivateSession env request conn rt =
     (let request = bind_activation conn request;
          (act, rt) = run_manager (ActivateSession (env_ssl env) (env_utf env) (env_manager env)
            (env_now env) (env_later env) request) rt in
      case act of
        Authenticating r i name pw \<Rightarrow> (AwaitAuthenticator r i name pw, conn, rt)
      | Answered response \<Rightarrow>
          map_prod (Respond \<circ> ActivateSessionResponse) id (AdoptSession env request response conn rt))"

definition FinishActivateSession :: "env \<Rightarrow> activate_session_request \<Rightarrow> node_id
    \<Rightarrow> status + authentication_result \<Rightarrow> connection \<Rightarrow> 'r runtime
    \<Rightarrow> ('r, 'a, 'q) outcome \<times> connection \<times> 'r runtime" where
  "FinishActivateSession env request i auth conn rt =
     (let (response, rt) = run_manager (FinishActivation (env_manager env) (env_later env) request i auth) rt
      in map_prod (Respond \<circ> ActivateSessionResponse) id (AdoptSession env request response conn rt))"

section \<open>Subscriptions\<close>

definition HandleCreateSubscription :: "env \<Rightarrow> subscription_parameters \<Rightarrow> node_id \<Rightarrow> 'r session
    \<Rightarrow> 'r runtime \<Rightarrow> create_subscription_response \<times> 'r runtime" where
  "HandleCreateSubscription env p token s rt =
     (let sid = rt_next_subscription_id rt;
          (response, s') = CreateSubscriptionWithId (env_now env) sid p s;
          rt = put_runtime_session token s' (rt\<lparr>rt_next_subscription_id := sid + 1\<rparr>)
      in (response, rt\<lparr>subscription_owners :=
            AList.update (cs_subscription_id response) token (subscription_owners rt)\<rparr>))"

fun erase_owners :: "u32 list \<Rightarrow> status list \<Rightarrow> (u32 \<times> node_id) list \<Rightarrow> (u32 \<times> node_id) list" where
  "erase_owners (sid # sids) (r # rs) owners =
     erase_owners sids rs (if status_good r then AList.delete sid owners else owners)"
| "erase_owners _ _ owners = owners"

definition HandleDeleteSubscriptions :: "u32 list \<Rightarrow> node_id \<Rightarrow> 'r session \<Rightarrow> 'r runtime
    \<Rightarrow> status list \<times> 'r runtime" where
  "HandleDeleteSubscriptions sids token s rt =
     (let (results, s') = DeleteSubscriptions sids s;
          rt = put_runtime_session token s' rt
      in (results, rt\<lparr>subscription_owners := erase_owners sids results (subscription_owners rt)\<rparr>))"

subsection \<open>Publish\<close>

text \<open>One round of the Publish loop, after the acknowledgements.\<close>

definition PublishRound :: "env \<Rightarrow> status_code list \<Rightarrow> connection \<Rightarrow> 'r runtime
    \<Rightarrow> ('r, 'a, 'q) outcome \<times> 'r runtime" where
  "PublishRound env ack_results conn rt =
     (if cn_closed conn then (Respond (PublishResp (publish_status Bad_SessionIdInvalid)), rt)
      else case FindAttachedSession conn rt of
        None \<Rightarrow> (Respond (PublishResp (publish_status Bad_SessionIdInvalid)), rt)
      | Some (token, s) \<Rightarrow>
          let (poll, s') = PollPublish (env_now env) s; rt = put_runtime_session token s' rt in
          case poll_response poll of
            Some response \<Rightarrow> (Respond (PublishResp (response\<lparr>pr_results := ack_results\<rparr>)), rt)
          | None \<Rightarrow> (case wait_for poll of
              None \<Rightarrow> (Respond (PublishResp ((publish_status Good)\<lparr>pr_results := ack_results\<rparr>)), rt)
            | Some delay \<Rightarrow> (AwaitDelay delay ack_results, rt)))"

definition HandlePublish :: "env \<Rightarrow> (u32 \<times> u32) list \<Rightarrow> connection \<Rightarrow> 'r runtime
    \<Rightarrow> ('r, 'a, 'q) outcome \<times> 'r runtime" where
  "HandlePublish env acks conn rt =
     (case FindAttachedSession conn rt of
        None \<Rightarrow> (Respond (PublishResp (publish_status Bad_SessionIdInvalid)), rt)
      | Some (token, s) \<Rightarrow>
          let (ack_results, s') = AcknowledgePublishRequest acks s
          in PublishRound env ack_results conn (put_runtime_session token s' rt))"

subsection \<open>TransferSubscriptions\<close>

text \<open>
  The requested ids, grouped by owner. The groups are kept in the order of their first id;
  the \<open>std::unordered_map\<close> of the code may enumerate them in another order, which only
  changes the order in which the target will publish.
\<close>

fun group_transfers :: "(u32 \<times> node_id) list \<Rightarrow> node_id \<Rightarrow> nat \<Rightarrow> u32 list \<Rightarrow> status list
    \<Rightarrow> (node_id \<times> (nat \<times> u32) list) list \<Rightarrow> status list \<times> (node_id \<times> (nat \<times> u32) list) list" where
  "group_transfers owners token i [] results groups = (results, groups)"
| "group_transfers owners token i (sid # sids) results groups =
     (case map_of owners sid of
        None \<Rightarrow> group_transfers owners token (Suc i) sids
          (results[i := status_of_code Bad_SubscriptionIdInvalid]) groups
      | Some owner \<Rightarrow>
          if owner = token
          then group_transfers owners token (Suc i) sids (results[i := status_of_code Good]) groups
          else group_transfers owners token (Suc i) sids results (add_to_group owner (i, sid) groups))"

fun adopt_results :: "node_id \<Rightarrow> (nat \<times> u32) list \<Rightarrow> status list \<Rightarrow> status list \<Rightarrow> (u32 \<times> node_id) list
    \<Rightarrow> status list \<times> (u32 \<times> node_id) list" where
  "adopt_results token ((i, sid) # grp) (r # rs) results owners =
     adopt_results token grp rs (results[i := r])
       (if status_good r then AList.update sid token owners else owners)"
| "adopt_results token _ _ results owners = (results, owners)"

definition transfer_group :: "node_id \<Rightarrow> node_id \<times> (nat \<times> u32) list \<Rightarrow> status list \<times> 'r runtime
    \<Rightarrow> status list \<times> 'r runtime" where
  "transfer_group token = (\<lambda>(source_token, grp) (results, rt).
     case (FindRuntimeSession source_token rt, FindRuntimeSession token rt) of
       (Some source, Some target) \<Rightarrow>
         (let (rs, source', target') = TransferSubscriptionsFrom (map snd grp) source target;
              rt = put_runtime_session token target' (put_runtime_session source_token source' rt);
              (results, owners) = adopt_results token grp rs results (subscription_owners rt)
          in (results, rt\<lparr>subscription_owners := owners\<rparr>))
     | _ \<Rightarrow> (fold (\<lambda>(i, _) results. results[i := session_missing]) grp results, rt))"

definition HandleTransferSubscriptions :: "u32 list \<Rightarrow> node_id \<Rightarrow> 'r runtime \<Rightarrow> status list \<times> 'r runtime"
  where
  "HandleTransferSubscriptions sids token rt =
     (let (results, groups) = group_transfers (subscription_owners rt) token 0 sids
            (map (\<lambda>_. status_of_code Bad_SubscriptionIdInvalid) sids) []
      in fold (transfer_group token) groups (results, rt))"

section \<open>Services\<close>

definition service_context_for :: "bytes \<Rightarrow> 'r session \<Rightarrow> service_context" where
  "service_context_for trace_parent s =
     (if trace_parent \<noteq> [] then with_trace_id trace_parent (ss_service_context s) else ss_service_context s)"

datatype ('r, 'a) service_answer = BrowseAnswer "'r browse_result list" | OtherAnswer 'a

text \<open>
  The Browse branch keeps a raw pointer to the session across the wait for the service. When
  that session was destroyed meanwhile its use is undefined: \<open>None\<close>. \<open>made\<close> identifies the
  session object the pointer was taken from.
\<close>

definition ResumeBrowse :: "nat \<Rightarrow> node_id \<Rightarrow> nat \<Rightarrow> ('r, 'a) service_answer \<Rightarrow> 'r runtime
    \<Rightarrow> (('r, 'a, 'q) outcome \<times> 'r runtime) option" where
  "ResumeBrowse limit token made answer rt = (case answer of
       OtherAnswer _ \<Rightarrow> Some (Respond (ServiceFault session_missing), rt)
     | BrowseAnswer results \<Rightarrow>
        (case FindRuntimeSession token rt of None \<Rightarrow> None
         | Some s \<Rightarrow>
             if count_list (rt_made rt) token \<noteq> made then None
             else let (paged, s') = StoreBrowseResults limit results s
                  in Some (Respond (BrowseResponse paged), put_runtime_session token s' rt)))"

section \<open>Handle\<close>

text \<open>A request for the attached session: a missing session is answered, an update is stored.\<close>

definition on_session :: "('r, 'a) response \<Rightarrow> ('r session \<Rightarrow> ('r, 'a) response \<times> 'r session) \<Rightarrow> connection
    \<Rightarrow> 'r runtime \<Rightarrow> ('r, 'a, 'q) outcome \<times> connection \<times> 'r runtime" where
  "on_session missing f conn rt = (case FindAttachedSession conn rt of
       None \<Rightarrow> (Respond missing, conn, rt)
     | Some (token, s) \<Rightarrow> (let (r, s') = f s in (Respond r, conn, put_runtime_session token s' rt)))"

definition bind_creation :: "connection \<Rightarrow> create_session_request \<Rightarrow> create_session_request" where
  "bind_creation conn request = request\<lparr>cr_channel_secure := cn_secure_channel conn,
     cr_channel_certificate := cn_client_certificate conn, cr_peer := cn_peer conn\<rparr>"

fun Handle :: "env \<Rightarrow> bytes \<Rightarrow> 'q request \<Rightarrow> connection \<Rightarrow> 'r runtime
    \<Rightarrow> ('r, 'a, 'q) outcome \<times> connection \<times> 'r runtime" where
  "Handle env tp (FindServersRequest url uris) conn rt =
     (let (st, servers) = HandleFindServers (env_endpoints env) (env_registered env) url uris
      in (Respond (FindServersResponse st servers), conn, rt))"
| "Handle env tp (GetEndpointsRequest url profiles) conn rt =
     (let (st, eps) = HandleGetEndpoints (env_endpoints env) url profiles
      in (Respond (GetEndpointsResponse st eps), conn, rt))"
| "Handle env tp (RegisterServerRequest server) conn rt =
     (Respond (RegisterServerResponse (HandleRegisterServer (env_register env) (cn_secure_channel conn)
        (cn_client_certificate conn) server)), conn, rt)"
| "Handle env tp (RegisterServer2Request server configuration) conn rt =
     (let (st, rs) = HandleRegisterServer2 (env_register env) (cn_secure_channel conn)
            (cn_client_certificate conn) server configuration
      in (Respond (RegisterServer2Response st rs), conn, rt))"
| "Handle env tp (CreateSessionRequest request) conn rt =
     (let (response, rt) = run_manager (CreateSession (env_ssl env) (env_manager env) (env_now env)
            (env_later env) (bind_creation conn request)) rt
      in (Respond (CreateSessionResponse response
            (ReachableEndpoints (env_endpoints env) (cr_endpoint_url request) [])), conn, rt))"
| "Handle env tp (ActivateSessionRequest request) conn rt = HandleActivateSession env request conn rt"
| "Handle env tp (CloseSessionRequest token) conn rt =
     (let (st, rt) = run_manager (CloseSession token) rt
      in (Respond (CloseSessionResponse st),
          if cn_authentication_token conn = Some token
          then conn\<lparr>cn_authentication_token := None\<rparr> else conn, rt))"
| "Handle env tp (CreateSubscriptionRequest p) conn rt =
     (case FindAttachedSession conn rt of
        None \<Rightarrow> (Respond (CreateSubscriptionResp (CreateSubscriptionResponse session_missing 0 0 0 0)), conn, rt)
      | Some (token, s) \<Rightarrow> (let (response, rt) = HandleCreateSubscription env p token s rt
          in (Respond (CreateSubscriptionResp response), conn, rt)))"
| "Handle env tp (ModifySubscriptionRequest sid p) conn rt =
     on_session (ModifySubscriptionResp (ModifySubscriptionResponse session_missing 0 0 0))
       (map_prod ModifySubscriptionResp id \<circ> ModifySubscription sid p) conn rt"
| "Handle env tp (SetPublishingModeRequest b sids) conn rt =
     on_session (SetPublishingModeResponse session_missing [])
       (map_prod (SetPublishingModeResponse (status_of_code Good)) id \<circ> SetPublishingMode b sids) conn rt"
| "Handle env tp (DeleteSubscriptionsRequest sids) conn rt =
     (case FindAttachedSession conn rt of
        None \<Rightarrow> (Respond (DeleteSubscriptionsResponse session_missing []), conn, rt)
      | Some (token, s) \<Rightarrow> (let (results, rt) = HandleDeleteSubscriptions sids token s rt
          in (Respond (DeleteSubscriptionsResponse (status_of_code Good) results), conn, rt)))"
| "Handle env tp (PublishRequest acks) conn rt =
     (let (out, rt) = HandlePublish env acks conn rt in (out, conn, rt))"
| "Handle env tp (RepublishRequest sid n) conn rt =
     on_session (RepublishResp (RepublishResponse session_missing empty_message))
       (\<lambda>s. (RepublishResp (RepublishS sid n s), s)) conn rt"
| "Handle env tp (TransferSubscriptionsRequest sids) conn rt =
     (case FindAttachedSession conn rt of
        None \<Rightarrow> (Respond (TransferSubscriptionsResponse session_missing []), conn, rt)
      | Some (token, s) \<Rightarrow> (let (results, rt) = HandleTransferSubscriptions sids token rt
          in (Respond (TransferSubscriptionsResponse (status_of_code Good) results), conn, rt)))"
| "Handle env tp (CreateMonitoredItemsRequest sid reqs) conn rt =
     on_session (CreateMonitoredItemsResponse session_missing [])
       (map_prod (case_prod CreateMonitoredItemsResponse) id
         \<circ> CreateMonitoredItemsS (env_create_subscription env) sid reqs) conn rt"
| "Handle env tp (ModifyMonitoredItemsRequest sid reqs) conn rt =
     on_session (ModifyMonitoredItemsResponse session_missing [])
       (map_prod (case_prod ModifyMonitoredItemsResponse) id
         \<circ> ModifyMonitoredItemsS (env_create_subscription env) sid reqs) conn rt"
| "Handle env tp (DeleteMonitoredItemsRequest sid ids) conn rt =
     on_session (DeleteMonitoredItemsResponse session_missing [])
       (map_prod (case_prod DeleteMonitoredItemsResponse) id \<circ> DeleteMonitoredItemsS sid ids) conn rt"
| "Handle env tp (SetMonitoringModeRequest sid mode ids) conn rt =
     on_session (SetMonitoringModeResponse session_missing [])
       (map_prod (case_prod SetMonitoringModeResponse) id \<circ> SetMonitoringModeS sid mode ids) conn rt"
| "Handle env tp (BrowseRequest limit q) conn rt =
     (case FindAttachedSession conn rt of
        None \<Rightarrow> (Respond (ServiceFault session_missing), conn, rt)
      | Some (token, s) \<Rightarrow> (AwaitBrowse limit token (count_list (rt_made rt) token) (service_context_for tp s) q, conn, rt))"
| "Handle env tp (BrowseNextRequest release points) conn rt =
     on_session (ServiceFault session_missing)
       (map_prod BrowseNextResponse id \<circ> BrowseNext release points) conn rt"
| "Handle env tp (RegisterNodesRequest nodes) conn rt =
     on_session (ServiceFault session_missing) (\<lambda>s. (RegisterNodesResponse nodes, s)) conn rt"
| "Handle env tp UnregisterNodesRequest conn rt =
     on_session (ServiceFault session_missing) (\<lambda>s. (UnregisterNodesResponse, s)) conn rt"
| "Handle env tp (OtherServiceRequest q) conn rt =
     (case FindAttachedSession conn rt of
        None \<Rightarrow> (Respond (ServiceFault session_missing), conn, rt)
      | Some (token, s) \<Rightarrow> (AwaitService (service_context_for tp s) q, conn, rt))"

section \<open>Who owns a subscription\<close>

definition owner_inv :: "'r runtime \<Rightarrow> bool" where
  "owner_inv rt \<longleftrightarrow> distinct (map fst (rt_sessions rt)) \<and> distinct (map fst (subscription_owners rt))
     \<and> (\<forall>t s. FindRuntimeSession t rt = Some s \<longrightarrow> session_inv s)
     \<and> (\<forall>t s k. FindRuntimeSession t rt = Some s \<longrightarrow> k \<in> set (publish_order s) \<longrightarrow>
          map_of (subscription_owners rt) k = Some t)
     \<and> (\<forall>k t. map_of (subscription_owners rt) k = Some t \<longrightarrow> FindRuntimeSession t rt \<noteq> None)"

text \<open>The session that holds a subscription.\<close>

definition holder :: "'r runtime \<Rightarrow> u32 \<Rightarrow> node_id option" where
  "holder rt k = (case map_of (subscription_owners rt) k of None \<Rightarrow> None
     | Some t \<Rightarrow> (case FindRuntimeSession t rt of None \<Rightarrow> None
         | Some s \<Rightarrow> if k \<in> set (publish_order s) then Some t else None))"

definition live_tokens :: "'r runtime \<Rightarrow> node_id set" where
  "live_tokens rt = {t. FindRuntimeSession t rt \<noteq> None}"

lemma owner_invD:
  assumes "owner_inv rt" and "FindRuntimeSession t rt = Some s"
  shows "session_inv s" and "k \<in> set (publish_order s) \<Longrightarrow> map_of (subscription_owners rt) k = Some t"
  using assms by (auto simp: owner_inv_def)

lemma holder_iff:
  assumes "owner_inv rt"
  shows "holder rt k = Some t \<longleftrightarrow> (\<exists>s. FindRuntimeSession t rt = Some s \<and> k \<in> set (publish_order s))"
    (is "_ \<longleftrightarrow> ?r")
proof
  assume ?r
  then show "holder rt k = Some t" using owner_invD(2) [OF assms] by (auto simp: holder_def)
qed (auto simp: holder_def split: option.splits if_splits)

lemma holder_eqI:
  assumes "owner_inv rt'"
    and "\<And>t. (\<exists>s. FindRuntimeSession t rt' = Some s \<and> k \<in> set (publish_order s)) \<longleftrightarrow> x = Some t"
  shows "holder rt' k = x"
  using holder_iff [OF assms(1), of k] assms(2) by (cases x; cases "holder rt' k") auto

subsection \<open>Forgetting sessions\<close>

lemma find_put_runtime [simp]:
  "FindRuntimeSession t (put_runtime_session t' s rt) = (if t = t' then Some s else FindRuntimeSession t rt)"
  by (simp add: FindRuntimeSession_def put_runtime_session_def update_conv')

lemma put_runtime_fields [simp]:
  "subscription_owners (put_runtime_session t s rt) = subscription_owners rt"
  "rt_manager (put_runtime_session t s rt) = rt_manager rt"
  "rt_next_subscription_id (put_runtime_session t s rt) = rt_next_subscription_id rt"
  "rt_made (put_runtime_session t s rt) = rt_made rt"
  by (simp_all add: put_runtime_session_def)

lemma find_runtime_update [simp]:
  "FindRuntimeSession t (rt\<lparr>subscription_owners := ow\<rparr>) = FindRuntimeSession t rt"
  "FindRuntimeSession t (rt\<lparr>rt_manager := m\<rparr>) = FindRuntimeSession t rt"
  "FindRuntimeSession t (rt\<lparr>rt_next_subscription_id := n\<rparr>) = FindRuntimeSession t rt"
  "FindRuntimeSession t (rt\<lparr>rt_made := md\<rparr>) = FindRuntimeSession t rt"
  "FindRuntimeSession t (release_session s rt) = FindRuntimeSession t rt"
  by (simp_all add: FindRuntimeSession_def release_session_def)

lemma release_fields [simp]:
  "subscription_owners (release_session s rt) = subscription_owners rt"
  "rt_manager (release_session s rt) = rt_manager rt"
  "rt_next_subscription_id (release_session s rt) = rt_next_subscription_id rt"
  "rt_sessions (release_session s rt) = rt_sessions rt"
  "rt_made (release_session s rt) = rt_made rt"
  by (simp_all add: release_session_def)

lemma forget_fields [simp]:
  "rt_manager (ForgetSession t rt) = rt_manager rt"
  "rt_next_subscription_id (ForgetSession t rt) = rt_next_subscription_id rt"
  "rt_made (ForgetSession t rt) = rt_made rt"
  by (simp_all add: ForgetSession_def RemoveSessionSubscriptions_def Let_def split: option.split)

lemma find_forget [simp]:
  "FindRuntimeSession t' (ForgetSession t rt) = (if t' = t then None else FindRuntimeSession t' rt)"
  by (auto simp: ForgetSession_def RemoveSessionSubscriptions_def FindRuntimeSession_def release_session_def
      Let_def delete_conv' split: option.split)

lemma owners_forget:
  assumes "distinct (map fst (subscription_owners rt))"
  shows "map_of (subscription_owners (ForgetSession t rt)) k =
     (case map_of (subscription_owners rt) k of None \<Rightarrow> None | Some t' \<Rightarrow> if t' = t then None else Some t')"
proof -
  have "subscription_owners (ForgetSession t rt) = filter ((\<lambda>t'. t' \<noteq> t) \<circ> snd) (subscription_owners rt)"
  proof -
    have "(\<lambda>(_, owner). owner \<noteq> t) = (\<lambda>t'. t' \<noteq> t) \<circ> (snd :: u32 \<times> node_id \<Rightarrow> node_id)" by (auto simp: fun_eq_iff)
    then show ?thesis by (simp add: ForgetSession_def RemoveSessionSubscriptions_def Let_def split: option.split)
  qed
  then show ?thesis using map_of_filter_value [OF assms, of "\<lambda>t'. t' \<noteq> t" k] by (auto split: option.splits)
qed

lemma owner_inv_forget:
  assumes "owner_inv rt"
  shows "owner_inv (ForgetSession t rt)"
proof -
  have d: "distinct (map fst (rt_sessions (ForgetSession t rt)))"
    "distinct (map fst (subscription_owners (ForgetSession t rt)))"
    using assms by (auto simp: owner_inv_def ForgetSession_def RemoveSessionSubscriptions_def Let_def distinct_delete
        distinct_map_filter split: option.split)
  moreover have "map_of (subscription_owners (ForgetSession t rt)) k =
      (case map_of (subscription_owners rt) k of None \<Rightarrow> None | Some t' \<Rightarrow> if t' = t then None else Some t')" for k
    using assms by (intro owners_forget) (simp add: owner_inv_def)
  ultimately show ?thesis using assms unfolding owner_inv_def by (auto split: option.splits if_splits)
qed

lemma fold_forget:
  assumes "owner_inv rt"
  shows "owner_inv (fold ForgetSession ts rt) \<and> rt_manager (fold ForgetSession ts rt) = rt_manager rt
    \<and> rt_next_subscription_id (fold ForgetSession ts rt) = rt_next_subscription_id rt
    \<and> rt_made (fold ForgetSession ts rt) = rt_made rt
    \<and> (\<forall>t. FindRuntimeSession t (fold ForgetSession ts rt) = (if t \<in> set ts then None else FindRuntimeSession t rt))
    \<and> (\<forall>k t. map_of (subscription_owners (fold ForgetSession ts rt)) k = Some t \<longrightarrow>
          map_of (subscription_owners rt) k = Some t)"
  using assms
proof (induction ts arbitrary: rt)
  case (Cons a ts)
  have d: "distinct (map fst (subscription_owners rt))" using Cons.prems by (simp add: owner_inv_def)
  have sub: "map_of (subscription_owners rt) k = Some t"
    if "map_of (subscription_owners (ForgetSession a rt)) k = Some t" for k t
    using that by (auto simp: owners_forget [OF d] split: option.splits if_splits)
  from Cons.IH [OF owner_inv_forget [OF Cons.prems, of a]] show ?case by (auto dest: sub)
qed simp

subsection \<open>Requests that keep every subscription where it is\<close>

definition keeps_subs :: "'r session \<Rightarrow> 'r session \<Rightarrow> bool" where
  "keeps_subs s s' \<longleftrightarrow> (session_inv s \<longrightarrow> session_inv s' \<and> publish_order s' = publish_order s)"

lemma set_mode_order [simp]: "publish_order (snd (SetPublishingMode b sids s)) = publish_order s"
  by (induction sids arbitrary: s) (simp_all add: split_beta Let_def split: option.split)

lemma ack_each_order [simp]: "publish_order (snd (ack_each acks s)) = publish_order s"
proof (induction acks arbitrary: s)
  case (Cons a acks)
  have "publish_order (snd (ack_one a s)) = publish_order s"
    by (auto simp: ack_one_def split_beta split: option.split)
  with Cons show ?case by (simp add: split_beta Let_def)
qed simp

lemma page_order [simp]: "publish_order (snd (page_results limit rs s)) = publish_order s"
proof (induction rs arbitrary: s)
  case (Cons r rs)
  have "publish_order (snd (PageBrowseResult limit r s)) = publish_order s"
    by (auto simp: PageBrowseResult_def MakeBrowseContinuationPoint_def Let_def)
  with Cons show ?case by (simp add: split_beta Let_def)
qed simp

lemma browse_next_order [simp]: "publish_order (snd (BrowseNext release cps s)) = publish_order s"
  by (induction release cps s rule: BrowseNext.induct)
     (auto simp: split_beta Let_def ResumeBrowseResult_def split: option.split)

lemma context_order [simp]: "publish_order (SetServiceContext c s) = publish_order s"
  by (simp add: SetServiceContext_def)

lemma keeps_subs_ops:
  "keeps_subs s (snd (ModifySubscription sid p s))"
  "keeps_subs s (snd (SetPublishingMode b sids s))"
  "keeps_subs s (snd (CreateMonitoredItemsS create sid rs s))"
  "keeps_subs s (snd (ModifyMonitoredItemsS create sid ms s))"
  "keeps_subs s (snd (DeleteMonitoredItemsS sid ks s))"
  "keeps_subs s (snd (SetMonitoringModeS sid mode ks s))"
  "keeps_subs s (snd (AcknowledgePublishRequest acks s))"
  "keeps_subs s (snd (PollPublish now s))"
  "keeps_subs s (snd (StoreBrowseResults limit brs s))"
  "keeps_subs s (snd (BrowseNext release cps s))"
  "keeps_subs s (SetServiceContext c s)"
  "keeps_subs s s"
  by (auto simp: keeps_subs_def session_inv_modify session_inv_set_mode session_inv_items acknowledge_grouped
      session_inv_ack_each session_inv_poll session_inv_store session_inv_browse_next
      ModifySubscription_def CreateMonitoredItemsS_def ModifyMonitoredItemsS_def DeleteMonitoredItemsS_def
      SetMonitoringModeS_def StoreBrowseResults_def session_inv_pages later_state split_beta
      split: option.split)

text \<open>\<open>calm rt rt'\<close>: sessions, owners, manager and counters are the same, subscriptions stay.\<close>

definition calm :: "'r runtime \<Rightarrow> 'r runtime \<Rightarrow> bool" where
  "calm rt rt' \<longleftrightarrow> subscription_owners rt' = subscription_owners rt \<and> rt_manager rt' = rt_manager rt
     \<and> rt_next_subscription_id rt' = rt_next_subscription_id rt \<and> rt_made rt' = rt_made rt
     \<and> (owner_inv rt \<longrightarrow> owner_inv rt')
     \<and> (\<forall>t. map_option publish_order (FindRuntimeSession t rt') = map_option publish_order (FindRuntimeSession t rt))"

lemma calm_refl: "calm rt rt"
  by (simp add: calm_def)

lemma calm_trans: "calm rt rt' \<Longrightarrow> calm rt' rt'' \<Longrightarrow> calm rt rt''"
  by (simp add: calm_def)

lemma distinct_put_runtime:
  "distinct (map fst (rt_sessions rt)) \<Longrightarrow> distinct (map fst (rt_sessions (put_runtime_session t s rt)))"
  by (simp add: put_runtime_session_def distinct_update)

lemma owner_inv_put:
  assumes "owner_inv rt" and "session_inv s'"
    and "\<And>k. k \<in> set (publish_order s') \<Longrightarrow> map_of (subscription_owners rt) k = Some t"
  shows "owner_inv (put_runtime_session t s' rt)"
  using assms unfolding owner_inv_def by (auto simp: distinct_put_runtime)

lemma calm_put:
  assumes "owner_inv rt" and "FindRuntimeSession t rt = Some s" and "keeps_subs s s'"
  shows "calm rt (put_runtime_session t s' rt)"
proof -
  have "session_inv s'" "publish_order s' = publish_order s"
    using assms(3) owner_invD(1) [OF assms(1,2)] by (simp_all add: keeps_subs_def)
  then show ?thesis
    using owner_inv_put [OF assms(1), of s' t] owner_invD(2) [OF assms(1,2)] assms(2) by (simp add: calm_def)
qed

lemma FindAttachedSession_some:
  "FindAttachedSession conn rt = Some (t, s) \<Longrightarrow> FindRuntimeSession t rt = Some s"
  by (auto simp: FindAttachedSession_def split: option.splits)

lemma calm_on_session:
  assumes "owner_inv rt" and "\<And>s. keeps_subs s (snd (f s))"
    and "on_session missing f conn rt = (out, conn', rt')"
  shows "calm rt rt'"
proof (cases "FindAttachedSession conn rt")
  case None
  then show ?thesis using assms(3) by (simp add: on_session_def calm_refl)
next
  case (Some ts)
  then obtain t s where ts: "FindAttachedSession conn rt = Some (t, s)" by (cases ts) auto
  then have "rt' = put_runtime_session t (snd (f s)) rt" using assms(3) by (simp add: on_session_def split_beta Let_def)
  then show ?thesis using calm_put [OF assms(1) FindAttachedSession_some [OF ts] assms(2)] by simp
qed

lemma calm_round:
  assumes "owner_inv rt"
  shows "calm rt (snd (PublishRound env acks conn rt))"
proof -
  have "calm rt (put_runtime_session t (snd (PollPublish (env_now env) s)) rt)"
    if "FindAttachedSession conn rt = Some (t, s)" for t s
    by (rule calm_put [OF assms FindAttachedSession_some [OF that] keeps_subs_ops(8)])
  then show ?thesis
    by (auto simp: PublishRound_def calm_refl Let_def split_beta split: option.split)
qed

lemma calm_publish:
  assumes "owner_inv rt"
  shows "calm rt (snd (HandlePublish env acks conn rt))"
proof (cases "FindAttachedSession conn rt")
  case None
  then show ?thesis by (simp add: HandlePublish_def calm_refl)
next
  case (Some ts)
  then obtain t s where ts: "FindAttachedSession conn rt = Some (t, s)" by (cases ts) auto
  let ?rt = "put_runtime_session t (snd (AcknowledgePublishRequest acks s)) rt"
  have c: "calm rt ?rt" by (rule calm_put [OF assms FindAttachedSession_some [OF ts] keeps_subs_ops(7)])
  then have "owner_inv ?rt" using assms by (simp add: calm_def)
  from calm_trans [OF c calm_round [OF this]] show ?thesis by (simp add: HandlePublish_def ts split_beta Let_def)
qed

subsection \<open>Creating, deleting and transferring\<close>

text \<open>Subscription ids are a counter: fresh until 32 bits wrap.\<close>

definition issued_ids :: "nat \<Rightarrow> u32 set" where
  "issued_ids n = (\<lambda>i. of_nat (Suc i)) ` {..<n}"

definition id_bound :: "nat \<Rightarrow> 'r runtime \<Rightarrow> bool" where
  "id_bound n rt \<longleftrightarrow> rt_next_subscription_id rt = of_nat (Suc n)
     \<and> (\<forall>k t. map_of (subscription_owners rt) k = Some t \<longrightarrow> k \<in> issued_ids n)"

lemma fresh_id: "Suc n < 2 ^ 32 \<Longrightarrow> (of_nat (Suc n) :: u32) \<notin> issued_ids n"
  using fresh_token [of n undefined] by (auto simp: issued_ids_def issued_def)

lemma id_bound_sub:
  assumes "id_bound n rt" and "rt_next_subscription_id rt' = rt_next_subscription_id rt"
    and "\<And>k t. map_of (subscription_owners rt') k = Some t \<Longrightarrow> map_of (subscription_owners rt) k \<noteq> None"
  shows "id_bound n rt'"
  using assms by (fastforce simp: id_bound_def)

text \<open>What a request did to the table: the session of every subscription afterwards.\<close>

definition moves_to :: "(u32 \<Rightarrow> node_id option) \<Rightarrow> 'r runtime \<Rightarrow> bool" where
  "moves_to table rt' \<longleftrightarrow> owner_inv rt' \<and> holder rt' = table"

lemma calm_holder: "owner_inv rt \<Longrightarrow> calm rt rt' \<Longrightarrow> moves_to (holder rt) rt' \<and> live_tokens rt' = live_tokens rt"
proof -
  assume inv: "owner_inv rt" and c: "calm rt rt'"
  have "holder rt' k = holder rt k" for k
  proof (rule holder_eqI)
    show "owner_inv rt'" using inv c by (simp add: calm_def)
    fix t
    have "map_option publish_order (FindRuntimeSession t rt') = map_option publish_order (FindRuntimeSession t rt)"
      using c by (simp add: calm_def)
    then show "(\<exists>s. FindRuntimeSession t rt' = Some s \<and> k \<in> set (publish_order s)) \<longleftrightarrow> holder rt k = Some t"
      unfolding holder_iff [OF inv]
      by (cases "FindRuntimeSession t rt'"; cases "FindRuntimeSession t rt") auto
  qed
  moreover have "live_tokens rt' = live_tokens rt"
    using c unfolding calm_def live_tokens_def by (metis (no_types, lifting) map_option_is_None)
  ultimately show ?thesis using inv c by (auto simp: moves_to_def calm_def)
qed

lemma create_subscription_moves:
  assumes "owner_inv rt" and "id_bound n rt" and "Suc n < 2 ^ 32" and "FindRuntimeSession t rt = Some s"
    and "HandleCreateSubscription env p t s rt = (response, rt')"
  shows "moves_to ((holder rt)(rt_next_subscription_id rt \<mapsto> t)) rt' \<and> holder rt (rt_next_subscription_id rt) = None
    \<and> live_tokens rt' = live_tokens rt \<and> rt_manager rt' = rt_manager rt \<and> id_bound (Suc n) rt'
    \<and> cs_subscription_id response = rt_next_subscription_id rt"
proof -
  let ?k = "rt_next_subscription_id rt"
  define s' where "s' = snd (CreateSubscriptionWithId (env_now env) ?k p s)"
  have id: "cs_subscription_id (fst (CreateSubscriptionWithId (env_now env) ?k p s)) = ?k"
    by (simp add: CreateSubscriptionWithId_def Let_def)
  have rt': "rt' = (put_runtime_session t s' (rt\<lparr>rt_next_subscription_id := ?k + 1\<rparr>))
      \<lparr>subscription_owners := AList.update ?k t (subscription_owners rt)\<rparr>"
    and resp: "cs_subscription_id response = ?k"
    using assms(5) id by (auto simp: HandleCreateSubscription_def Let_def split_beta s'_def)
  have fresh: "map_of (subscription_owners rt) ?k = None"
    using fresh_id [OF assms(3)] assms(2) by (auto simp: id_bound_def)
  note inv = owner_invD [OF assms(1,4)]
  have none: "\<not> HasSubscription ?k s"
    using inv(2) [of ?k] inv(1) fresh by (auto simp: has_subscription_iff session_inv_def)
  have s': "session_inv s'" "set (publish_order s') = insert ?k (set (publish_order s))"
    using session_inv_create [OF inv(1) none] none by (auto simp: s'_def CreateSubscriptionWithId_def Let_def)
  have own: "map_of (subscription_owners rt') k = (if k = ?k then Some t else map_of (subscription_owners rt) k)" for k
    by (simp add: rt' update_conv')
  have find: "FindRuntimeSession t' rt' = (if t' = t then Some s' else FindRuntimeSession t' rt)" for t'
    by (simp add: rt')
  have inv': "owner_inv rt'" unfolding owner_inv_def
  proof (intro conjI allI impI)
    show "distinct (map fst (rt_sessions rt'))" "distinct (map fst (subscription_owners rt'))"
      using assms(1) distinct_put_runtime by (auto simp: rt' owner_inv_def distinct_update put_runtime_session_def)
    show "session_inv x" if "FindRuntimeSession t' rt' = Some x" for t' x
      using that s'(1) owner_invD(1) [OF assms(1)] by (auto simp: find split: if_splits)
    show "map_of (subscription_owners rt') k = Some t'"
      if "FindRuntimeSession t' rt' = Some x" "k \<in> set (publish_order x)" for t' x k
      using that s'(2) inv(2) owner_invD(2) [OF assms(1)] fresh by (auto simp: find own split: if_splits)
    show "FindRuntimeSession t' rt' \<noteq> None" if "map_of (subscription_owners rt') k = Some t'" for k t'
      using that assms(1,4) by (auto simp: find own owner_inv_def split: if_splits)
  qed
  have "holder rt' k = ((holder rt)(?k \<mapsto> t)) k" for k
  proof (rule holder_eqI [OF inv'])
    fix t'
    show "(\<exists>x. FindRuntimeSession t' rt' = Some x \<and> k \<in> set (publish_order x)) \<longleftrightarrow> ((holder rt)(?k \<mapsto> t)) k = Some t'"
      using s'(2) fresh owner_invD(2) [OF assms(1)] assms(4) holder_iff [OF assms(1), of k t']
      by (auto simp: find split: if_splits)
  qed
  moreover have "holder rt ?k = None" by (simp add: holder_def fresh)
  moreover have "live_tokens rt' = live_tokens rt" using assms(4) by (auto simp: live_tokens_def find)
  moreover have "id_bound (Suc n) rt'"
  proof -
    have "rt_next_subscription_id rt' = ?k + 1" by (simp add: rt')
    then show ?thesis using assms(2) by (auto simp: id_bound_def own issued_ids_def lessThan_Suc split: if_splits)
  qed
  ultimately show ?thesis using inv' resp by (auto simp: moves_to_def rt')
qed

fun good_ids :: "u32 list \<Rightarrow> status list \<Rightarrow> u32 set" where
  "good_ids (sid # sids) (r # rs) = (if status_good r then insert sid (good_ids sids rs) else good_ids sids rs)"
| "good_ids _ _ = {}"

lemma good_statuses:
  "status_good (status_of_code Good)" "\<not> status_good (status_of_code Bad_SubscriptionIdInvalid)"
  "\<not> status_good (status_of_code Bad)"
  by (simp_all add: status_good_def severity_def severity_of_def status_of_code_def)

lemma has_in_order: "session_inv s \<Longrightarrow> HasSubscription k s \<longleftrightarrow> k \<in> set (publish_order s)"
  by (simp add: has_subscription_iff session_inv_def)

lemma delete_results:
  "session_inv s \<Longrightarrow> good_ids sids (fst (DeleteSubscriptions sids s)) = set sids \<inter> set (publish_order s)"
proof (induction sids arbitrary: s)
  case (Cons sid sids)
  show ?case
  proof (cases "HasSubscription sid s")
    case True
    have "set (publish_order (EraseSubscription sid s)) = set (publish_order s) - {sid}"
      using erase_entry_simps(1) [OF Cons.prems] by (auto simp: EraseSubscription_def Let_def split: option.split)
    with Cons.IH [OF session_inv_erase [OF Cons.prems, of sid]] True show ?thesis
      using has_in_order [OF Cons.prems, of sid] by (auto simp: split_beta Let_def good_statuses)
  next
    case False
    then show ?thesis using Cons has_in_order [OF Cons.prems, of sid] by (auto simp: split_beta Let_def good_statuses)
  qed
qed simp

lemma erase_owners_map:
  "map_of (erase_owners sids rs owners) k = (if k \<in> good_ids sids rs then None else map_of owners k)"
  by (induction sids rs owners rule: erase_owners.induct) (auto simp: delete_conv')

lemma distinct_erase_owners:
  "distinct (map fst owners) \<Longrightarrow> distinct (map fst (erase_owners sids rs owners))"
  by (induction sids rs owners rule: erase_owners.induct) (simp_all add: distinct_delete)

lemma delete_subscriptions_moves:
  assumes "owner_inv rt" and "FindRuntimeSession t rt = Some s"
    and "HandleDeleteSubscriptions sids t s rt = (results, rt')"
  shows "moves_to (\<lambda>k. if k \<in> set sids \<and> holder rt k = Some t then None else holder rt k) rt'
    \<and> live_tokens rt' = live_tokens rt \<and> rt_manager rt' = rt_manager rt
    \<and> (\<forall>n. id_bound n rt \<longrightarrow> id_bound n rt')"
proof -
  define s' where "s' = snd (DeleteSubscriptions sids s)"
  have rt': "rt' = (put_runtime_session t s' rt)
      \<lparr>subscription_owners := erase_owners sids (fst (DeleteSubscriptions sids s)) (subscription_owners rt)\<rparr>"
    using assms(3) by (auto simp: HandleDeleteSubscriptions_def Let_def split_beta s'_def)
  note inv = owner_invD [OF assms(1,2)]
  have s': "session_inv s'" using session_inv_delete [OF inv(1)] by (simp add: s'_def)
  have order: "k \<in> set (publish_order s') \<longleftrightarrow> k \<in> set (publish_order s) \<and> k \<notin> set sids" for k
    using delete_subscriptions_find [OF inv(1), of k sids] has_in_order [OF s', of k] has_in_order [OF inv(1), of k]
    by (auto simp: s'_def HasSubscription_def split: if_splits)
  have own: "map_of (subscription_owners rt') k = (if k \<in> set sids \<and> k \<in> set (publish_order s) then None
      else map_of (subscription_owners rt) k)" for k
    using delete_results [OF inv(1), of sids] by (simp add: rt' erase_owners_map)
  have find: "FindRuntimeSession t' rt' = (if t' = t then Some s' else FindRuntimeSession t' rt)" for t'
    by (simp add: rt')
  have excl: "\<not> (k \<in> set (publish_order s) \<and> FindRuntimeSession t' rt = Some x \<and> k \<in> set (publish_order x))"
    if "t' \<noteq> t" for k t' x using that inv(2) [of k] owner_invD(2) [OF assms(1), of t' x k] by auto
  have inv': "owner_inv rt'" unfolding owner_inv_def
  proof (intro conjI allI impI)
    show "distinct (map fst (rt_sessions rt'))" "distinct (map fst (subscription_owners rt'))"
      using assms(1) by (auto simp: rt' owner_inv_def distinct_update put_runtime_session_def distinct_erase_owners)
    show "session_inv x" if "FindRuntimeSession t' rt' = Some x" for t' x
      using that s' owner_invD(1) [OF assms(1)] by (auto simp: find split: if_splits)
    show "map_of (subscription_owners rt') k = Some t'"
      if x: "FindRuntimeSession t' rt' = Some x" "k \<in> set (publish_order x)" for t' x k
      using x excl [of t' k x] order inv(2) owner_invD(2) [OF assms(1), of t' x k] by (auto simp: find own split: if_splits)
    show "FindRuntimeSession t' rt' \<noteq> None" if "map_of (subscription_owners rt') k = Some t'" for k t'
      using that assms(1,2) by (auto simp: find own owner_inv_def split: if_splits)
  qed
  have "holder rt' k = (if k \<in> set sids \<and> holder rt k = Some t then None else holder rt k)" for k
  proof (rule holder_eqI [OF inv'])
    fix t'
    show "(\<exists>x. FindRuntimeSession t' rt' = Some x \<and> k \<in> set (publish_order x)) \<longleftrightarrow>
        (if k \<in> set sids \<and> holder rt k = Some t then None else holder rt k) = Some t'"
      using order excl [of t' k] holder_iff [OF assms(1), of k] assms(2) by (auto simp: find split: if_splits)
  qed
  moreover have "live_tokens rt' = live_tokens rt" using assms(2) by (auto simp: live_tokens_def find)
  moreover have "id_bound n rt'" if "id_bound n rt" for n
  proof (rule id_bound_sub [OF that])
    show "rt_next_subscription_id rt' = rt_next_subscription_id rt" by (simp add: rt')
  qed (auto simp: own split: if_splits)
  ultimately show ?thesis using inv' by (auto simp: moves_to_def rt')
qed

lemma transfer_good:
  assumes "session_inv source" "session_inv target" "transfer_each sids source target = (rs, s', t')"
  shows "good_ids sids rs = {k \<in> set sids. FindSubscription k target = None \<and> FindSubscription k source \<noteq> None}"
  using assms
proof (induction sids arbitrary: source target rs)
  case (Cons sid sids)
  from Cons.prems(3) show ?case
  proof (cases rule: transfer_each_ConsE)
    case (stays rs')
    then show ?thesis using Cons.IH [OF Cons.prems(1,2) stays(2)] by (auto simp: good_statuses)
  next
    case (moves x rs')
    have t: "session_inv (receive sid x target)"
      using moves Cons.prems found_id by (intro session_inv_receive) auto
    show ?thesis using Cons.IH [OF erase_entry_simps(3) [OF Cons.prems(1)] t moves(3)] moves
      by (auto simp: find_erased [OF Cons.prems(1)] good_statuses split: if_splits)
  qed
qed simp

lemma adopt_results_owners:
  "map_of (snd (adopt_results token grp rs results owners)) k =
     (if k \<in> good_ids (map snd grp) rs then Some token else map_of owners k)"
  by (induction token grp rs results owners rule: adopt_results.induct) (auto simp: update_conv')

lemma distinct_adopt_results:
  "distinct (map fst owners) \<Longrightarrow> distinct (map fst (snd (adopt_results token grp rs results owners)))"
  by (induction token grp rs results owners rule: adopt_results.induct) (simp_all add: distinct_update)

text \<open>One group: the listed subscriptions of the source are now those of the target.\<close>

lemma transfer_group_moves:
  assumes "owner_inv rt" and "FindRuntimeSession o1 rt = Some source" and "FindRuntimeSession t rt = Some target"
    and "o1 \<noteq> t" and "transfer_group t (o1, grp) (results, rt) = (results', rt')"
  shows "moves_to (\<lambda>k. if k \<in> snd ` set grp \<and> holder rt k = Some o1 then Some t else holder rt k) rt'
    \<and> live_tokens rt' = live_tokens rt \<and> rt_manager rt' = rt_manager rt
    \<and> rt_next_subscription_id rt' = rt_next_subscription_id rt
    \<and> (\<forall>k. map_of (subscription_owners rt') k \<noteq> None \<longrightarrow> map_of (subscription_owners rt) k \<noteq> None)"
proof -
  obtain rs source' target' where tr: "TransferSubscriptionsFrom (map snd grp) source target = (rs, source', target')"
    by (cases "TransferSubscriptionsFrom (map snd grp) source target") auto
  note invs = owner_invD(1) [OF assms(1,2)] owner_invD(1) [OF assms(1,3)]
  let ?K = "snd ` set grp"
  define G where "G = {k \<in> ?K. k \<in> set (publish_order source)}"
  have disj: "\<not> (k \<in> set (publish_order source) \<and> k \<in> set (publish_order target))" for k
    using owner_invD(2) [OF assms(1,2)] owner_invD(2) [OF assms(1,3)] assms(4) by force
  have find_iff: "FindSubscription k x = None \<longleftrightarrow> k \<notin> set (publish_order x)" if "session_inv x" for k and x :: "'a session"
    using has_in_order [OF that, of k] by (auto simp: HasSubscription_def)
  have moved: "session_inv source'" "session_inv target'"
    "k \<in> set (publish_order target') \<longleftrightarrow> k \<in> G \<or> k \<in> set (publish_order target)"
    "k \<in> set (publish_order source') \<longleftrightarrow> k \<in> set (publish_order source) \<and> k \<notin> ?K" for k
    using transfer_from [OF invs tr, of k] find_iff [of source' k] find_iff [of target' k] find_iff [OF invs(1), of k]
      find_iff [OF invs(2), of k] disj [of k]
    by (auto simp: G_def split: if_splits)
  have good: "good_ids (map snd grp) rs = G"
  proof -
    obtain u where "transfer_each (map snd grp) source target = (rs, source', u)"
      using tr by (auto simp: TransferSubscriptionsFrom_def split: prod.splits)
    from transfer_good [OF invs this] show ?thesis
      using disj by (auto simp: G_def find_iff [OF invs(1)] find_iff [OF invs(2)])
  qed
  define ow where "ow = snd (adopt_results t grp rs results (subscription_owners rt))"
  have rt': "rt' = (put_runtime_session t target' (put_runtime_session o1 source' rt))\<lparr>subscription_owners := ow\<rparr>"
    using assms(2-5) tr by (auto simp: transfer_group_def ow_def Let_def split_beta)
  have own: "map_of (subscription_owners rt') k = (if k \<in> G then Some t else map_of (subscription_owners rt) k)" for k
    by (simp add: rt' ow_def adopt_results_owners good)
  have find: "FindRuntimeSession t' rt' = (if t' = t then Some target' else if t' = o1 then Some source'
      else FindRuntimeSession t' rt)" for t' by (simp add: rt')
  have G: "map_of (subscription_owners rt) k = Some o1" if "k \<in> G" for k
    using that owner_invD(2) [OF assms(1,2)] by (simp add: G_def)
  have inv': "owner_inv rt'" unfolding owner_inv_def
  proof (intro conjI allI impI)
    show "distinct (map fst (rt_sessions rt'))" "distinct (map fst (subscription_owners rt'))"
      using assms(1) by (auto simp: rt' ow_def owner_inv_def distinct_update put_runtime_session_def distinct_adopt_results)
    show "session_inv x" if "FindRuntimeSession t' rt' = Some x" for t' x
      using that moved(1,2) owner_invD(1) [OF assms(1)] by (auto simp: find split: if_splits)
    show "map_of (subscription_owners rt') k = Some t'"
      if x: "FindRuntimeSession t' rt' = Some x" "k \<in> set (publish_order x)" for t' x k
      using x moved(3,4) [of k] G [of k] owner_invD(2) [OF assms(1,2), of k] owner_invD(2) [OF assms(1,3), of k]
        owner_invD(2) [OF assms(1), of t' x k] by (auto simp: find own G_def split: if_splits)
    show "FindRuntimeSession t' rt' \<noteq> None" if "map_of (subscription_owners rt') k = Some t'" for k t'
      using that assms(1) by (auto simp: find own owner_inv_def split: if_splits)
  qed
  have "holder rt' k = (if k \<in> ?K \<and> holder rt k = Some o1 then Some t else holder rt k)" for k
  proof (rule holder_eqI [OF inv'])
    fix t'
    have h: "holder rt k = Some o1 \<longleftrightarrow> k \<in> set (publish_order source)" "holder rt k = Some t \<longleftrightarrow> k \<in> set (publish_order target)"
      using holder_iff [OF assms(1), of k] assms(2,3) by auto
    show "(\<exists>x. FindRuntimeSession t' rt' = Some x \<and> k \<in> set (publish_order x)) \<longleftrightarrow>
        (if k \<in> ?K \<and> holder rt k = Some o1 then Some t else holder rt k) = Some t'"
      using moved(3,4) [of k] holder_iff [OF assms(1), of k t'] h assms(4) by (auto simp: find G_def)
  qed
  moreover have "live_tokens rt' = live_tokens rt" using assms(2,3) by (auto simp: live_tokens_def find)
  moreover have "map_of (subscription_owners rt) k \<noteq> None" if "map_of (subscription_owners rt') k \<noteq> None" for k
    using that G [of k] by (auto simp: own split: if_splits)
  ultimately show ?thesis using inv' by (auto simp: moves_to_def rt')
qed

definition group_of :: "('k \<times> 'a list) list \<Rightarrow> 'k \<Rightarrow> 'a list" where
  "group_of gs k = (case map_of gs k of None \<Rightarrow> [] | Some g \<Rightarrow> g)"

lemma group_of_add [simp]:
  "group_of (add_to_group k x gs) k' = (if k' = k then group_of gs k @ [x] else group_of gs k')"
  by (simp add: group_of_def add_to_group_def update_conv')

text \<open>The groups hold the ids that another session owns, under that session.\<close>

lemma group_transfers_groups:
  assumes "group_transfers owners t i sids results gs = (results', gs')" and "distinct (map fst gs)"
    and "t \<notin> fst ` set gs"
    and "\<forall>ow \<in> fst ` set gs. ow \<in> ran (map_of owners)"
  shows "distinct (map fst gs') \<and> t \<notin> fst ` set gs' \<and> (\<forall>ow \<in> fst ` set gs'. ow \<in> ran (map_of owners))
    \<and> (\<forall>ow. snd ` set (group_of gs' ow) =
          snd ` set (group_of gs ow) \<union> {k \<in> set sids. map_of owners k = Some ow \<and> ow \<noteq> t})"
  using assms
proof (induction owners t i sids results gs rule: group_transfers.induct)
  case (2 owners t i sid sids results gs)
  show ?case
  proof (cases "map_of owners sid")
    case None
    then show ?thesis using 2(1) [OF None] 2(4-) by auto
  next
    case (Some ow)
    show ?thesis
    proof (cases "ow = t")
      case True
      then show ?thesis using 2(2) [OF Some True] 2(4-) Some by auto
    next
      case False
      have d: "distinct (map fst (add_to_group ow (i, sid) gs))"
        "fst ` set (add_to_group ow (i, sid) gs) = insert ow (fst ` set gs)"
        using 2(5) by (simp_all add: add_to_group_def distinct_update dom_update)
      then show ?thesis using 2(3) [OF Some False] 2(4-) Some False by (auto simp: ranI)
    qed
  qed
qed simp

definition transferred :: "(node_id \<times> (nat \<times> u32) list) list \<Rightarrow> node_id \<Rightarrow> (u32 \<Rightarrow> node_id option) \<Rightarrow> u32 \<Rightarrow> node_id option" where
  "transferred gs t h k =
     (if \<exists>ow g. (ow, g) \<in> set gs \<and> k \<in> snd ` set g \<and> h k = Some ow then Some t else h k)"

lemma fold_transfer_moves:
  assumes "owner_inv rt" and "t \<in> live_tokens rt" and "t \<notin> fst ` set gs" and "fst ` set gs \<subseteq> live_tokens rt"
    and "fold (transfer_group t) gs (results, rt) = (results', rt')"
  shows "moves_to (transferred gs t (holder rt)) rt'
    \<and> live_tokens rt' = live_tokens rt \<and> rt_manager rt' = rt_manager rt
    \<and> rt_next_subscription_id rt' = rt_next_subscription_id rt
    \<and> (\<forall>k. map_of (subscription_owners rt') k \<noteq> None \<longrightarrow> map_of (subscription_owners rt) k \<noteq> None)"
  using assms
proof (induction gs arbitrary: results rt)
  case Nil
  then show ?case by (simp add: moves_to_def transferred_def)
next
  case (Cons og gs)
  obtain ow g where og: "og = (ow, g)" by (cases og)
  obtain source target where st: "FindRuntimeSession ow rt = Some source" "FindRuntimeSession t rt = Some target"
    using Cons.prems og by (auto simp: live_tokens_def)
  have "ow \<noteq> t" using Cons.prems og by auto
  obtain r1 rt1 where 1: "transfer_group t (ow, g) (results, rt) = (r1, rt1)" by (cases "transfer_group t (ow, g) (results, rt)")
  note step = transfer_group_moves [OF Cons.prems(1) st \<open>ow \<noteq> t\<close> 1]
  have "fold (transfer_group t) gs (r1, rt1) = (results', rt')" using Cons.prems(5) 1 og by simp
  moreover have inv1: "owner_inv rt1" using step by (simp add: moves_to_def)
  ultimately have ih: "moves_to (transferred gs t (holder rt1)) rt'
    \<and> live_tokens rt' = live_tokens rt1 \<and> rt_manager rt' = rt_manager rt1
    \<and> rt_next_subscription_id rt' = rt_next_subscription_id rt1
    \<and> (\<forall>k. map_of (subscription_owners rt') k \<noteq> None \<longrightarrow> map_of (subscription_owners rt1) k \<noteq> None)"
    using Cons.IH [OF inv1] Cons.prems step by auto
  have h1: "holder rt1 = (\<lambda>k. if k \<in> snd ` set g \<and> holder rt k = Some ow then Some t else holder rt k)"
    using step by (simp add: moves_to_def)
  have key: "ow' \<noteq> t" if "(ow', g') \<in> set gs" for ow' g' using Cons.prems(3) that by force
  have "transferred gs t (holder rt1) k = transferred (og # gs) t (holder rt) k" for k
  proof (cases "k \<in> snd ` set g \<and> holder rt k = Some ow")
    case True
    then have "holder rt1 k = Some t" by (simp add: h1)
    then have "transferred gs t (holder rt1) k = Some t" using key by (auto simp: transferred_def)
    moreover have "transferred (og # gs) t (holder rt) k = Some t" using True by (auto simp: transferred_def og)
    ultimately show ?thesis by simp
  next
    case False
    then have "holder rt1 k = holder rt k" by (auto simp: h1)
    then show ?thesis using False by (simp only: transferred_def og) auto
  qed
  then have "transferred gs t (holder rt1) = transferred (og # gs) t (holder rt)" by blast
  with ih step show ?case by simp
qed

lemma transfer_subscriptions_moves:
  assumes "owner_inv rt" and "FindRuntimeSession t rt = Some s"
    and "HandleTransferSubscriptions sids t rt = (results, rt')"
  shows "moves_to (\<lambda>k. if k \<in> set sids \<and> holder rt k \<noteq> None then Some t else holder rt k) rt'
    \<and> live_tokens rt' = live_tokens rt \<and> rt_manager rt' = rt_manager rt
    \<and> (\<forall>n. id_bound n rt \<longrightarrow> id_bound n rt')"
proof -
  obtain rs gs where g: "group_transfers (subscription_owners rt) t 0 sids
      (map (\<lambda>_. status_of_code Bad_SubscriptionIdInvalid) sids) [] = (rs, gs)"
    by (cases "group_transfers (subscription_owners rt) t 0 sids
      (map (\<lambda>_. status_of_code Bad_SubscriptionIdInvalid) sids) []")
  have G: "distinct (map fst gs) \<and> t \<notin> fst ` set gs \<and> (\<forall>ow \<in> fst ` set gs. ow \<in> ran (map_of (subscription_owners rt)))
      \<and> (\<forall>ow. snd ` set (group_of gs ow) = snd ` set (group_of ([] :: (node_id \<times> (nat \<times> u32) list) list) ow)
          \<union> {k \<in> set sids. map_of (subscription_owners rt) k = Some ow \<and> ow \<noteq> t})"
    by (rule group_transfers_groups [OF g]) simp_all
  then have gs: "distinct (map fst gs)" "t \<notin> fst ` set gs"
    "\<forall>ow \<in> fst ` set gs. ow \<in> ran (map_of (subscription_owners rt))" by blast+
  have members: "snd ` set (group_of gs ow) = {k \<in> set sids. map_of (subscription_owners rt) k = Some ow \<and> ow \<noteq> t}" for ow
    using G [THEN conjunct2, THEN conjunct2, THEN conjunct2, rule_format, of ow] by (simp add: group_of_def [of "[]"])
  have live: "fst ` set gs \<subseteq> live_tokens rt" "t \<in> live_tokens rt"
    using gs(3) assms(1,2) by (force simp: live_tokens_def owner_inv_def ran_def)+
  have f: "fold (transfer_group t) gs (rs, rt) = (results, rt')"
    using assms(3) g by (simp add: HandleTransferSubscriptions_def)
  note all = fold_transfer_moves [OF assms(1) live(2) gs(2) live(1) f]
  have "transferred gs t (holder rt) k = (if k \<in> set sids \<and> holder rt k \<noteq> None then Some t else holder rt k)" for k
  proof (cases "holder rt k")
    case None
    then show ?thesis by (simp add: transferred_def)
  next
    case (Some ow)
    then have own: "map_of (subscription_owners rt) k = Some ow"
      by (auto simp: holder_def split: option.splits if_splits)
    have "(\<exists>g. (ow, g) \<in> set gs \<and> k \<in> snd ` set g) \<longleftrightarrow> k \<in> snd ` set (group_of gs ow)"
      using gs(1) by (auto simp: group_of_def split: option.split dest: map_of_SomeD)
    then show ?thesis using Some own members [of ow] by (auto simp: transferred_def)
  qed
  then have "transferred gs t (holder rt) = (\<lambda>k. if k \<in> set sids \<and> holder rt k \<noteq> None then Some t else holder rt k)"
    by blast
  moreover have "id_bound n rt'" if "id_bound n rt" for n
    by (rule id_bound_sub [OF that]) (use all in auto)
  ultimately show ?thesis using all by simp
qed

subsection \<open>Calls of the session manager\<close>

text \<open>The subscriptions of sessions that ended are gone from the table.\<close>

definition drop_holders :: "node_id set \<Rightarrow> (u32 \<Rightarrow> node_id option) \<Rightarrow> u32 \<Rightarrow> node_id option" where
  "drop_holders gone h k = (case h k of None \<Rightarrow> None | Some t \<Rightarrow> if t \<in> gone then None else Some t)"

lemma run_manager_follows:
  assumes "owner_inv rt" and "provider_inv cfg (n, rt_manager rt)"
    and "live_tokens rt = activated_tokens (rt_manager rt)"
    and "f (rt_manager rt) = (x, m')" and "manager_call cfg (n, rt_manager rt) a (n', m')"
    and "run_manager f rt = (x', rt')"
  shows "x' = x \<and> moves_to (drop_holders (- live_tokens rt') (holder rt)) rt' \<and> rt_manager rt' = m'
    \<and> set_option a \<union> live_tokens rt' = activated_tokens m' \<and> provider_inv cfg (n', m')
    \<and> live_tokens rt' \<subseteq> live_tokens rt \<and> rt_made rt' = rt_made rt
    \<and> (\<forall>k. id_bound k rt \<longrightarrow> id_bound k rt')"
proof -
  let ?gone = "drop (length (removed_tokens (rt_manager rt))) (removed_tokens m')"
  have rt': "x' = x" "rt' = fold ForgetSession ?gone (rt\<lparr>rt_manager := m'\<rparr>)"
    using assms(4,6) by (auto simp: run_manager_def Let_def)
  have inv0: "owner_inv (rt\<lparr>rt_manager := m'\<rparr>)" using assms(1) by (simp add: owner_inv_def)
  note F = fold_forget [OF inv0, of ?gone, folded rt'(2)]
  have find: "FindRuntimeSession t rt' = (if t \<in> set ?gone then None else FindRuntimeSession t rt)" for t
    using F by simp
  have live: "live_tokens rt' = live_tokens rt - set ?gone" by (auto simp: live_tokens_def find)
  have "set_option a \<union> live_tokens rt' = activated_tokens m'"
    using provider.follow [OF assms(2,5), of "live_tokens rt"] assms(3) by (simp add: live)
  moreover have "provider_inv cfg (n', m')" by (rule provider.call_inv [OF assms(2,5)])
  moreover have "holder rt' k = drop_holders (- live_tokens rt') (holder rt) k" for k
  proof (rule holder_eqI)
    show "owner_inv rt'" using F by blast
    fix t
    have "drop_holders (- live_tokens rt') (holder rt) k = Some t \<longleftrightarrow> holder rt k = Some t \<and> t \<in> live_tokens rt'"
      by (auto simp: drop_holders_def split: option.splits)
    then show "(\<exists>s. FindRuntimeSession t rt' = Some s \<and> k \<in> set (publish_order s)) \<longleftrightarrow>
        drop_holders (- live_tokens rt') (holder rt) k = Some t"
      using holder_iff [OF assms(1), of k t] by (auto simp: find live live_tokens_def)
  qed
  moreover have "id_bound k rt'" if "id_bound k rt" for k
    by (rule id_bound_sub [OF that]) (use F in auto)
  ultimately show ?thesis using F rt'(1) live by (auto simp: moves_to_def)
qed

lemma adopt_session_follows:
  assumes "owner_inv rt" and "AdoptSession env request response conn rt = (response', conn', rt')"
    and "set_option (activated_by request response) \<union> live_tokens rt = A"
    and "ap_resumed response \<Longrightarrow> \<not> status_bad (ap_status response) \<Longrightarrow> ar_authentication_token request \<in> live_tokens rt"
  shows "moves_to (drop_holders (set (drop (length (rt_made rt)) (rt_made rt'))) (holder rt)) rt'
    \<and> live_tokens rt' = A \<and> rt_manager rt' = rt_manager rt \<and> response' = response
    \<and> set (drop (length (rt_made rt)) (rt_made rt')) = set_option (activated_by request response)
    \<and> (\<forall>k. id_bound k rt \<longrightarrow> id_bound k rt')"
proof -
  let ?t = "ar_authentication_token request"
  have no: "drop_holders {} h = h" for h by (auto simp: drop_holders_def fun_eq_iff split: option.split)
  consider (bad) "status_bad (ap_status response)"
    | (resumed) "\<not> status_bad (ap_status response)" "ap_resumed response"
    | (new) "\<not> status_bad (ap_status response)" "\<not> ap_resumed response" by blast
  then show ?thesis
  proof cases
    case bad
    then show ?thesis using assms(1-3) by (auto simp: AdoptSession_def activated_by_def moves_to_def no)
  next
    case resumed
    then obtain s where s: "FindRuntimeSession ?t rt = Some s" using assms(4) by (auto simp: live_tokens_def)
    have rt': "rt' = put_runtime_session ?t (SetServiceContext (ap_service_context response) s) rt" "response' = response"
      using assms(2) resumed s by (auto simp: AdoptSession_def Let_def)
    have c: "calm rt rt'" unfolding rt' by (rule calm_put [OF assms(1) s keeps_subs_ops(11)])
    have "id_bound k rt'" if "id_bound k rt" for k
      by (rule id_bound_sub [OF that]) (use c in \<open>simp_all add: calm_def\<close>)
    with calm_holder [OF assms(1) c] show ?thesis using c resumed assms(3) rt'(2)
      by (auto simp: activated_by_def calm_def no)
  next
    case new
    define fresh where "fresh = (ServerSession (ar_session_id request) ?t (ap_service_context response)
      (env_max_monitored_items env) :: 'a session)"
    define rt1 where "rt1 = (case FindRuntimeSession ?t rt of None \<Rightarrow> rt | Some s \<Rightarrow> release_session s rt)\<lparr>rt_made := rt_made rt @ [?t]\<rparr>"
    have rt': "rt' = put_runtime_session ?t fresh rt1" "response' = response"
      using assms(2) new by (auto simp: AdoptSession_def Let_def fresh_def rt1_def)
    have rt1: "FindRuntimeSession t rt1 = FindRuntimeSession t rt" "subscription_owners rt1 = subscription_owners rt"
      "rt_sessions rt1 = rt_sessions rt" "rt_manager rt1 = rt_manager rt" "rt_made rt1 = rt_made rt @ [?t]"
      "rt_next_subscription_id rt1 = rt_next_subscription_id rt" for t
      by (auto simp: rt1_def split: option.split)
    have empty: "session_inv fresh" "publish_order fresh = []" by (simp_all add: fresh_def ServerSession_def session_inv_def)
    have "owner_inv rt1" using assms(1) by (simp add: owner_inv_def rt1)
    then have inv': "owner_inv rt'" unfolding rt' by (rule owner_inv_put) (simp_all add: empty)
    have "holder rt' k = drop_holders {?t} (holder rt) k" for k
    proof (rule holder_eqI [OF inv'])
      fix t
      have "drop_holders {?t} (holder rt) k = Some t \<longleftrightarrow> holder rt k = Some t \<and> t \<noteq> ?t"
        by (auto simp: drop_holders_def split: option.splits)
      then show "(\<exists>s. FindRuntimeSession t rt' = Some s \<and> k \<in> set (publish_order s)) \<longleftrightarrow>
          drop_holders {?t} (holder rt) k = Some t"
        using holder_iff [OF assms(1), of k t] by (auto simp: rt' rt1 empty)
    qed
    then have "holder rt' = drop_holders {?t} (holder rt)" by blast
    moreover have "id_bound k rt'" if "id_bound k rt" for k
      by (rule id_bound_sub [OF that]) (simp_all add: rt' rt1)
    ultimately show ?thesis using inv' new assms(3)
      by (auto simp: moves_to_def rt' rt1 live_tokens_def activated_by_def)
  qed
qed

section \<open>The runtime and its session manager together\<close>

definition rt_inv :: "manager_context \<Rightarrow> nat \<Rightarrow> 'r runtime \<Rightarrow> bool" where
  "rt_inv cfg n rt \<longleftrightarrow> owner_inv rt \<and> live_tokens rt = activated_tokens (rt_manager rt)
     \<and> (\<exists>i\<le>n. provider_inv cfg (i, rt_manager rt)) \<and> (\<exists>i\<le>n. id_bound i rt)"

lemma rt_invI:
  assumes "owner_inv rt" "live_tokens rt = activated_tokens (rt_manager rt)"
    "i \<le> n" "provider_inv cfg (i, rt_manager rt)" "j \<le> n" "id_bound j rt"
  shows "rt_inv cfg n rt"
  using assms by (auto simp: rt_inv_def)

lemma rt_inv_mono: "rt_inv cfg n rt \<Longrightarrow> n \<le> n' \<Longrightarrow> rt_inv cfg n' rt"
  by (auto simp: rt_inv_def intro: order_trans)

lemma rt_inv_calm:
  assumes "rt_inv cfg n rt" and "calm rt rt'"
  shows "rt_inv cfg n rt'"
proof -
  have inv: "owner_inv rt" using assms(1) by (simp add: rt_inv_def)
  have "\<exists>i\<le>n. id_bound i rt'"
    using assms id_bound_sub [of _ rt rt'] by (auto simp: rt_inv_def calm_def)
  with assms calm_holder [OF inv assms(2)] show ?thesis by (auto simp: rt_inv_def calm_def moves_to_def)
qed

text \<open>
  What the sessions of \<open>rt\<close> lost on the way to \<open>rt'\<close>: a session ended when it is not there
  any more or another object was made for its token.
\<close>

definition ended :: "'r runtime \<Rightarrow> 'r runtime \<Rightarrow> node_id set" where
  "ended rt rt' = - live_tokens rt' \<union> set (drop (length (rt_made rt)) (rt_made rt'))"

definition follows :: "manager_context \<Rightarrow> nat \<Rightarrow> 'r runtime \<Rightarrow> 'r runtime \<Rightarrow> bool" where
  "follows cfg n rt rt' \<longleftrightarrow> rt_inv cfg n rt' \<and> holder rt' = drop_holders (ended rt rt') (holder rt)"

lemma holder_live: "owner_inv rt \<Longrightarrow> holder rt k = Some t \<Longrightarrow> t \<in> live_tokens rt"
  by (auto simp: holder_iff live_tokens_def)

lemma drop_holders_cong:
  "(\<And>k t. h k = Some t \<Longrightarrow> t \<in> A \<longleftrightarrow> t \<in> B) \<Longrightarrow> drop_holders A h = drop_holders B h"
  by (auto simp: drop_holders_def fun_eq_iff split: option.split)

lemma drop_holders_empty [simp]: "drop_holders {} h = h"
  by (auto simp: drop_holders_def fun_eq_iff split: option.split)

lemma drop_holders_twice: "drop_holders A (drop_holders B h) = drop_holders (A \<union> B) h"
  by (auto simp: drop_holders_def fun_eq_iff split: option.split)

lemma follows_calm:
  assumes "rt_inv cfg n rt" and "calm rt rt'"
  shows "follows cfg n rt rt'"
proof -
  have inv: "owner_inv rt" using assms(1) by (simp add: rt_inv_def)
  note c = calm_holder [OF inv assms(2)]
  have "drop_holders (ended rt rt') (holder rt) = drop_holders {} (holder rt)"
    using c assms(2) holder_live [OF inv] by (intro drop_holders_cong) (auto simp: ended_def calm_def)
  with c rt_inv_calm [OF assms] show ?thesis by (simp add: follows_def moves_to_def)
qed

text \<open>A call of the manager that activates nothing.\<close>

lemma follows_manager:
  assumes "rt_inv cfg n rt" and "f (rt_manager rt) = (x, m')"
    and "\<And>i. i \<le> n \<Longrightarrow> \<exists>j\<le>n'. manager_call cfg (i, rt_manager rt) None (j, m')"
    and "run_manager f rt = (x', rt')" and "n \<le> n'"
  shows "follows cfg n' rt rt' \<and> x' = x"
proof -
  from assms(1) obtain i where inv: "owner_inv rt" "live_tokens rt = activated_tokens (rt_manager rt)"
    and i: "i \<le> n" "provider_inv cfg (i, rt_manager rt)" by (auto simp: rt_inv_def)
  from assms(3) [OF i(1)] obtain j where j: "j \<le> n'" "manager_call cfg (i, rt_manager rt) None (j, m')" by blast
  note M = run_manager_follows [OF inv(1) i(2) inv(2) assms(2) j(2) assms(4)]
  obtain b where "b \<le> n" "id_bound b rt" using assms(1) by (auto simp: rt_inv_def)
  then have "rt_inv cfg n' rt'" using M j(1) assms(5) by (intro rt_invI [of _ j _ _ b]) (auto simp: moves_to_def)
  with M show ?thesis by (simp add: follows_def moves_to_def ended_def)
qed

text \<open>A call of the manager that may activate a session, and the adoption of that session.\<close>

lemma follows_activation:
  assumes "rt_inv cfg n rt" and "f (rt_manager rt) = (x, m')"
    and "\<And>i. manager_call cfg (i, rt_manager rt) (activated_by request response) (i, m')"
    and "run_manager f rt = (x', rt1)"
    and "AdoptSession env request response conn rt1 = (response', conn', rt')"
    and "ap_resumed response \<Longrightarrow> \<not> status_bad (ap_status response) \<Longrightarrow>
      ar_authentication_token request \<in> activated_tokens m'"
  shows "follows cfg n rt rt' \<and> x' = x \<and> response' = response"
proof -
  from assms(1) obtain i where inv: "owner_inv rt" "live_tokens rt = activated_tokens (rt_manager rt)"
    and i: "i \<le> n" "provider_inv cfg (i, rt_manager rt)" by (auto simp: rt_inv_def)
  note M = run_manager_follows [OF inv(1) i(2) inv(2) assms(2) assms(3) assms(4)]
  have "ar_authentication_token request \<in> live_tokens rt1"
    if "ap_resumed response" "\<not> status_bad (ap_status response)"
    using assms(6) that M by (auto simp: activated_by_def)
  then have A: "moves_to (drop_holders (set (drop (length (rt_made rt1)) (rt_made rt'))) (holder rt1)) rt'
    \<and> live_tokens rt' = activated_tokens m' \<and> rt_manager rt' = rt_manager rt1 \<and> response' = response
    \<and> set (drop (length (rt_made rt1)) (rt_made rt')) = set_option (activated_by request response)
    \<and> (\<forall>k. id_bound k rt1 \<longrightarrow> id_bound k rt')"
    using M by (intro adopt_session_follows [OF _ assms(5)]) (auto simp: moves_to_def)
  obtain b where "b \<le> n" "id_bound b rt" using assms(1) by (auto simp: rt_inv_def)
  then have "rt_inv cfg n rt'" using M A i by (intro rt_invI [of _ i _ _ b]) (auto simp: moves_to_def)
  moreover have "holder rt' = drop_holders (ended rt rt') (holder rt)"
  proof -
    let ?new = "set (drop (length (rt_made rt1)) (rt_made rt'))"
    have "holder rt' = drop_holders (?new \<union> - live_tokens rt1) (holder rt)"
      using A M by (simp add: moves_to_def drop_holders_twice)
    moreover have "live_tokens rt' = ?new \<union> live_tokens rt1" using A M by auto
    ultimately show ?thesis using M by (auto simp: ended_def intro!: drop_holders_cong)
  qed
  ultimately show ?thesis using A M by (simp add: follows_def)
qed

lemma run_manager_fst: "f (rt_manager rt) = (x, m') \<Longrightarrow> run_manager f rt = (x', rt') \<Longrightarrow> x' = x"
  by (simp add: run_manager_def Let_def)

lemma activation_follows:
  assumes "rt_inv cfg n rt" and "env_manager env = cfg"
    and "HandleActivateSession env request conn rt = (out, conn', rt')"
  shows "follows cfg n rt rt'"
proof -
  define req where "req = bind_activation conn request"
  define f where "f = ActivateSession (env_ssl env) (env_utf env) cfg (env_now env) (env_later env) req"
  obtain act m' where m': "f (rt_manager rt) = (act, m')" by (cases "f (rt_manager rt)")
  obtain act' rt1 where "run_manager f rt = (act', rt1)" by (cases "run_manager f rt")
  with run_manager_fst [OF m' this] have rt1: "run_manager f rt = (act, rt1)" by simp
  note open_def = HandleActivateSession_def assms(2) req_def [symmetric] f_def [symmetric] rt1
  show ?thesis
  proof (cases act)
    case (Authenticating r i name pw)
    then have "rt' = rt1" using assms(3) by (simp add: open_def)
    moreover have "manager_call cfg (k, rt_manager rt) None (k, m')" for k
      using m' Authenticating unfolding f_def by (auto intro: call_wait)
    ultimately show ?thesis using follows_manager [OF assms(1) m' _ rt1 order_refl] by blast
  next
    case (Answered response)
    then obtain response' where "AdoptSession env req response conn rt1 = (response', conn', rt')"
      using assms(3) by (auto simp: open_def map_prod_def split: prod.splits)
    moreover have "manager_call cfg (k, rt_manager rt) (activated_by req response) (k, m')" for k
      using m' Answered unfolding f_def by (auto intro: call_answered)
    moreover have "ar_authentication_token req \<in> activated_tokens m'"
      if "ap_resumed response" "\<not> status_bad (ap_status response)"
      using activate_activates [OF m' [unfolded f_def]] assms(1) that Answered
      by (auto simp: rt_inv_def provider_inv_def)
    ultimately show ?thesis using follows_activation [OF assms(1) m' _ rt1] by blast
  qed
qed

lemma finish_activation_follows:
  assumes "rt_inv cfg n rt" and "env_manager env = cfg" and "\<forall>e. auth = Inl e \<longrightarrow> status_bad e"
    and "FinishActivateSession env request i auth conn rt = (out, conn', rt')"
  shows "follows cfg n rt rt'"
proof -
  define f where "f = FinishActivation cfg (env_later env) request i auth"
  obtain response m' where m': "f (rt_manager rt) = (response, m')" by (cases "f (rt_manager rt)")
  obtain x rt1 where "run_manager f rt = (x, rt1)" by (cases "run_manager f rt")
  with run_manager_fst [OF m' this] have rt1: "run_manager f rt = (response, rt1)" by simp
  obtain response' where "AdoptSession env request response conn rt1 = (response', conn', rt')"
    using assms(4) rt1 by (auto simp: FinishActivateSession_def assms(2) f_def [symmetric] map_prod_def split: prod.splits)
  moreover have "manager_call cfg (k, rt_manager rt) (activated_by request response) (k, m')" for k
    using m' assms(3) unfolding f_def by (auto intro: call_finish)
  moreover have "\<not> ap_resumed response"
    using finish_activates [OF m' [unfolded f_def] _ _ assms(3)] assms(1) by (auto simp: rt_inv_def provider_inv_def)
  ultimately show ?thesis using follows_activation [OF assms(1) m' _ rt1] by blast
qed

lemma detach_follows:
  assumes "rt_inv cfg n rt" and "Detach conn rt = (conn', rt')"
  shows "follows cfg n rt rt'"
proof (cases "cn_authentication_token conn")
  case None
  then show ?thesis using assms(2) follows_calm [OF assms(1) calm_refl] by (simp add: Detach_def)
next
  case (Some t)
  obtain x rt1 where r: "run_manager (\<lambda>m. ((), DetachSession t m)) rt = (x, rt1)"
    by (cases "run_manager (\<lambda>m. ((), DetachSession t m)) rt")
  then have "rt' = rt1" using assms(2) Some by (simp add: Detach_def)
  then show ?thesis
    using follows_manager [OF assms(1) refl _ r order_refl] call_detach [of cfg _ "rt_manager rt" t] by blast
qed

lemma create_session_follows:
  assumes "rt_inv cfg n rt" and "Suc n < 2 ^ 32"
    and "run_manager (CreateSession ssl cfg now later request) rt = (response, rt')"
  shows "follows cfg (Suc n) rt rt'"
proof -
  let ?f = "CreateSession ssl cfg now later request"
  obtain x m' where m': "?f (rt_manager rt) = (x, m')" by (cases "?f (rt_manager rt)")
  have "\<exists>j\<le>Suc n. manager_call cfg (i, rt_manager rt) None (j, m')" if "i \<le> n" for i
    using call_create [OF m', of i] that assms(2)
    by (intro exI [of _ "if status_bad (cp_status x) then i else Suc i"]) auto
  then show ?thesis using follows_manager [OF assms(1) m' _ assms(3)] by auto
qed

lemma close_session_follows:
  assumes "rt_inv cfg n rt" and "run_manager (CloseSession t) rt = (st, rt')"
  shows "follows cfg n rt rt'"
proof -
  obtain x m' where m': "CloseSession t (rt_manager rt) = (x, m')" by (cases "CloseSession t (rt_manager rt)")
  then show ?thesis using follows_manager [OF assms(1) m' _ assms(2) order_refl] call_close [OF m'] by blast
qed

subsection \<open>The table a request leaves behind\<close>

text \<open>
  The abstract machine: one flat table from subscription to session. CreateSubscription adds
  an entry, DeleteSubscriptions removes those of the caller's, TransferSubscriptions gives
  every existing one to the caller, and any other request only drops the entries of the
  sessions that ended.
\<close>

definition table_after :: "'q request \<Rightarrow> node_id option \<Rightarrow> u32 \<Rightarrow> node_id set \<Rightarrow> (u32 \<Rightarrow> node_id option)
    \<Rightarrow> u32 \<Rightarrow> node_id option" where
  "table_after req caller fresh gone h =
     (case (req, caller) of
        (CreateSubscriptionRequest _, Some t) \<Rightarrow> h(fresh \<mapsto> t)
      | (DeleteSubscriptionsRequest sids, Some t) \<Rightarrow> (\<lambda>k. if k \<in> set sids \<and> h k = Some t then None else h k)
      | (TransferSubscriptionsRequest sids, Some t) \<Rightarrow> (\<lambda>k. if k \<in> set sids \<and> h k \<noteq> None then Some t else h k)
      | _ \<Rightarrow> drop_holders gone h)"

definition caller_of :: "connection \<Rightarrow> 'r runtime \<Rightarrow> node_id option" where
  "caller_of conn rt = map_option fst (FindAttachedSession conn rt)"

definition table_step :: "manager_context \<Rightarrow> nat \<Rightarrow> 'q request \<Rightarrow> connection \<Rightarrow> 'r runtime \<Rightarrow> 'r runtime \<Rightarrow> bool" where
  "table_step cfg n req conn rt rt' \<longleftrightarrow> rt_inv cfg (Suc n) rt' \<and>
     holder rt' = table_after req (caller_of conn rt) (rt_next_subscription_id rt) (ended rt rt') (holder rt)"

lemma step_moves:
  assumes "rt_inv cfg n rt" and "moves_to h rt'" and "live_tokens rt' = live_tokens rt"
    and "rt_manager rt' = rt_manager rt" and "j \<le> Suc n" and "id_bound j rt'"
    and "h = table_after req (caller_of conn rt) (rt_next_subscription_id rt) (ended rt rt') (holder rt)"
  shows "table_step cfg n req conn rt rt'"
proof -
  from assms(1) obtain i where "i \<le> n" "provider_inv cfg (i, rt_manager rt)"
    and l: "live_tokens rt = activated_tokens (rt_manager rt)" by (auto simp: rt_inv_def)
  then show ?thesis using assms(2-7)
    by (auto simp: table_step_def moves_to_def intro!: rt_invI [of rt' i "Suc n" cfg j])
qed

lemma step_follows:
  assumes "follows cfg n' rt rt'" and "n' \<le> Suc n"
    and "\<And>f g h. table_after req (caller_of conn rt) f g h = drop_holders g h"
  shows "table_step cfg n req conn rt rt'"
  using assms rt_inv_mono by (auto simp: follows_def table_step_def)

lemma step_calm:
  assumes "rt_inv cfg n rt" and "calm rt rt'"
    and "\<And>f g h. table_after req (caller_of conn rt) f g h = drop_holders g h"
  shows "table_step cfg n req conn rt rt'"
  by (rule step_follows [OF follows_calm [OF assms(1,2)] _ assms(3)]) simp

lemma step_on_session:
  assumes "rt_inv cfg n rt" and "on_session missing f conn rt = (out, conn', rt')"
    and "\<And>s. keeps_subs s (snd (f s))"
    and "\<And>f g h. table_after req (caller_of conn rt) f g h = drop_holders g h"
  shows "table_step cfg n req conn rt rt'"
  by (rule step_calm [OF assms(1) calm_on_session [OF _ assms(3,2)] assms(4)])
     (use assms(1) in \<open>simp add: rt_inv_def\<close>)

lemma handle_step:
  assumes "rt_inv cfg n rt" and "Suc n < 2 ^ 32" and "env_manager env = cfg"
    and "Handle env tp req conn rt = (out, conn', rt')"
  shows "table_step cfg n req conn rt rt'"
proof -
  have inv: "owner_inv rt" using assms(1) by (simp add: rt_inv_def)
  obtain b where b: "b \<le> n" "id_bound b rt" using assms(1) by (auto simp: rt_inv_def)
  have b32: "Suc b < 2 ^ 32" using b(1) assms(2) by linarith
  note same = step_calm [OF assms(1) calm_refl]
  show ?thesis
  proof (cases req)
    case (CreateSessionRequest request)
    then obtain r where "run_manager (CreateSession (env_ssl env) cfg (env_now env) (env_later env)
        (bind_creation conn request)) rt = (r, rt')" using assms(3,4) by (auto split: prod.splits)
    from create_session_follows [OF assms(1,2) this] show ?thesis
      by (rule step_follows) (simp_all add: table_after_def CreateSessionRequest)
  next
    case (ActivateSessionRequest request)
    then have "HandleActivateSession env request conn rt = (out, conn', rt')" using assms(4) by simp
    from activation_follows [OF assms(1,3) this] show ?thesis
      by (rule step_follows) (simp_all add: table_after_def ActivateSessionRequest)
  next
    case (CloseSessionRequest t)
    then obtain r where "run_manager (CloseSession t) rt = (r, rt')" using assms(4) by (auto split: prod.splits)
    from close_session_follows [OF assms(1) this] show ?thesis
      by (rule step_follows) (simp_all add: table_after_def CloseSessionRequest)
  next
    case (CreateSubscriptionRequest p)
    show ?thesis
    proof (cases "FindAttachedSession conn rt")
      case None
      then have "rt' = rt" using assms(4) CreateSubscriptionRequest by simp
      then show ?thesis by (simp only:) (rule same, simp add: table_after_def caller_of_def CreateSubscriptionRequest None)
    next
      case (Some ts)
      then obtain t s where ts: "FindAttachedSession conn rt = Some (t, s)" by (cases ts) auto
      then obtain r where "HandleCreateSubscription env p t s rt = (r, rt')"
        using assms(4) CreateSubscriptionRequest by (auto split: prod.splits)
      from create_subscription_moves [OF inv b(2) b32 FindAttachedSession_some [OF ts] this] b(1) show ?thesis
        by (intro step_moves [OF assms(1), of _ rt' "Suc b"]) (auto simp: table_after_def caller_of_def ts CreateSubscriptionRequest)
    qed
  next
    case (DeleteSubscriptionsRequest sids)
    show ?thesis
    proof (cases "FindAttachedSession conn rt")
      case None
      then have "rt' = rt" using assms(4) DeleteSubscriptionsRequest by simp
      then show ?thesis by (simp only:) (rule same, simp add: table_after_def caller_of_def DeleteSubscriptionsRequest None)
    next
      case (Some ts)
      then obtain t s where ts: "FindAttachedSession conn rt = Some (t, s)" by (cases ts) auto
      then obtain r where "HandleDeleteSubscriptions sids t s rt = (r, rt')"
        using assms(4) DeleteSubscriptionsRequest by (auto split: prod.splits)
      from delete_subscriptions_moves [OF inv FindAttachedSession_some [OF ts] this] b show ?thesis
        by (intro step_moves [OF assms(1), of _ rt' b]) (auto simp: table_after_def caller_of_def ts DeleteSubscriptionsRequest)
    qed
  next
    case (TransferSubscriptionsRequest sids)
    show ?thesis
    proof (cases "FindAttachedSession conn rt")
      case None
      then have "rt' = rt" using assms(4) TransferSubscriptionsRequest by simp
      then show ?thesis by (simp only:) (rule same, simp add: table_after_def caller_of_def TransferSubscriptionsRequest None)
    next
      case (Some ts)
      then obtain t s where ts: "FindAttachedSession conn rt = Some (t, s)" by (cases ts) auto
      then obtain r where "HandleTransferSubscriptions sids t rt = (r, rt')"
        using assms(4) TransferSubscriptionsRequest by (auto split: prod.splits)
      from transfer_subscriptions_moves [OF inv FindAttachedSession_some [OF ts] this] b show ?thesis
        by (intro step_moves [OF assms(1), of _ rt' b]) (auto simp: table_after_def caller_of_def ts TransferSubscriptionsRequest)
    qed
  next
    case (PublishRequest acks)
    then have "HandlePublish env acks conn rt = (out, rt')" using assms(4) by (auto split: prod.splits)
    then have "calm rt rt'" by (metis calm_publish [OF inv] snd_conv)
    then show ?thesis by (rule step_calm [OF assms(1)]) (simp add: table_after_def PublishRequest)
  next
    case (BrowseRequest limit q)
    then have "rt' = rt" using assms(4) by (auto split: option.splits prod.splits)
    then show ?thesis by (simp only:) (rule same, simp add: table_after_def BrowseRequest)
  next
    case (OtherServiceRequest q)
    then have "rt' = rt" using assms(4) by (auto split: option.splits prod.splits)
    then show ?thesis by (simp only:) (rule same, simp add: table_after_def OtherServiceRequest)
  next
    case (FindServersRequest url uris)
    then have "rt' = rt" using assms(4) by (simp add: split_beta)
    then show ?thesis by (simp only:) (rule same, simp add: table_after_def FindServersRequest)
  next
    case (GetEndpointsRequest url profiles)
    then have "rt' = rt" using assms(4) by (simp add: split_beta)
    then show ?thesis by (simp only:) (rule same, simp add: table_after_def GetEndpointsRequest)
  next
    case (RegisterServerRequest server)
    then have "rt' = rt" using assms(4) by simp
    then show ?thesis by (simp only:) (rule same, simp add: table_after_def RegisterServerRequest)
  next
    case (RegisterServer2Request server configuration)
    then have "rt' = rt" using assms(4) by (simp add: split_beta)
    then show ?thesis by (simp only:) (rule same, simp add: table_after_def RegisterServer2Request)
  qed ((rule step_on_session [OF assms(1)], (insert assms(4))[1], hypsubst, simp only: Handle.simps,
      simp add: keeps_subs_ops, simp add: table_after_def)+)
qed

section \<open>Runs\<close>

text \<open>
  A run interleaves requests of any connections, answers of the authenticator, rounds of
  suspended Publish requests, answers of services and closing connections. \<open>handled\<close> counts the
  requests, \<open>outcomes\<close> collects what they returned.
\<close>

record ('r, 'a, 'q) runtime_world =
  wrt :: "'r runtime"
  handled :: nat
  outcomes :: "('r, 'a, 'q) outcome list"

inductive runtime_step :: "manager_context \<Rightarrow> ('r, 'a, 'q) runtime_world \<Rightarrow> ('r, 'a, 'q) runtime_world \<Rightarrow> bool"
  for cfg where
  rs_handle: "env_manager env = cfg \<Longrightarrow> Handle env tp req conn (wrt w) = (out, conn', rt') \<Longrightarrow>
     runtime_step cfg w (w\<lparr>wrt := rt', handled := Suc (handled w), outcomes := out # outcomes w\<rparr>)"
| rs_finish: "env_manager env = cfg \<Longrightarrow> (\<forall>e. auth = Inl e \<longrightarrow> status_bad e) \<Longrightarrow>
     FinishActivateSession env request i auth conn (wrt w) = (out, conn', rt') \<Longrightarrow>
     runtime_step cfg w (w\<lparr>wrt := rt', outcomes := out # outcomes w\<rparr>)"
| rs_publish: "PublishRound env acks conn (wrt w) = (out, rt') \<Longrightarrow>
     runtime_step cfg w (w\<lparr>wrt := rt', outcomes := out # outcomes w\<rparr>)"
| rs_browse: "ResumeBrowse limit t made answer (wrt w) = Some (out, rt') \<Longrightarrow>
     runtime_step cfg w (w\<lparr>wrt := rt', outcomes := out # outcomes w\<rparr>)"
| rs_detach: "Detach conn (wrt w) = (conn', rt') \<Longrightarrow> runtime_step cfg w (w\<lparr>wrt := rt'\<rparr>)"

inductive runtime_reachable :: "manager_context \<Rightarrow> ('r, 'a, 'q) runtime_world \<Rightarrow> bool" for cfg where
  rr_start: "runtime_reachable cfg \<lparr>wrt = ServerRuntime ServerSessionManager, handled = 0, outcomes = []\<rparr>"
| rr_step: "runtime_reachable cfg w \<Longrightarrow> runtime_step cfg w w' \<Longrightarrow> runtime_reachable cfg w'"

lemma rt_inv_start: "rt_inv cfg 0 (ServerRuntime ServerSessionManager)"
  by (rule rt_invI [of _ 0 _ _ 0])
     (simp_all add: ServerRuntime_def owner_inv_def FindRuntimeSession_def live_tokens_def activated_tokens_def
       FindSessionState_def SetSessionRemovedCallback_def ServerSessionManager_def provider_inv_def
       manager_inv_def token_bound_def id_bound_def)

lemma calm_browse:
  assumes "owner_inv rt" and "ResumeBrowse limit t made answer rt = Some (out, rt')"
  shows "calm rt rt'"
proof (cases answer)
  case (OtherAnswer a)
  then show ?thesis using assms(2) by (auto simp: ResumeBrowse_def calm_refl)
next
  case (BrowseAnswer results)
  then obtain s where "FindRuntimeSession t rt = Some s"
    "rt' = put_runtime_session t (snd (StoreBrowseResults limit results s)) rt"
    using assms(2) by (auto simp: ResumeBrowse_def Let_def split_beta split: option.splits if_splits)
  then show ?thesis using calm_put [OF assms(1) _ keeps_subs_ops(9)] by blast
qed

lemma runtime_step_inv:
  assumes "runtime_step cfg w w'" and "rt_inv cfg (handled w) (wrt w)" and "handled w' < 2 ^ 32"
  shows "rt_inv cfg (handled w') (wrt w')"
  using assms(1)
proof cases
  case (rs_handle env tp req conn out conn' rt')
  then show ?thesis using handle_step [OF assms(2) _ rs_handle(2,3)] assms(3) by (simp add: table_step_def)
next
  case (rs_finish env auth request i conn out conn' rt')
  then show ?thesis using finish_activation_follows [OF assms(2) rs_finish(2-4)] by (simp add: follows_def)
next
  case (rs_publish env acks conn out rt')
  have inv: "owner_inv (wrt w)" using assms(2) by (simp add: rt_inv_def)
  have "calm (wrt w) rt'" using rs_publish(2) by (metis calm_round [OF inv] snd_conv)
  with rs_publish(1) show ?thesis using rt_inv_calm [OF assms(2)] by simp
next
  case (rs_browse limit t made answer out rt')
  then show ?thesis using rt_inv_calm [OF assms(2) calm_browse] assms(2) by (simp add: rt_inv_def)
next
  case (rs_detach conn conn' rt')
  then show ?thesis using detach_follows [OF assms(2)] by (auto simp: follows_def)
qed

lemma runtime_reachable_inv:
  "runtime_reachable cfg w \<Longrightarrow> handled w < 2 ^ 32 \<Longrightarrow> rt_inv cfg (handled w) (wrt w)"
proof (induction rule: runtime_reachable.induct)
  case rr_start
  then show ?case using rt_inv_start by simp
next
  case (rr_step w w')
  have "handled w \<le> handled w'" using rr_step(2) by cases auto
  with rr_step show ?case using runtime_step_inv by fastforce
qed

text \<open>
  C2. For the first 2 to the 32 requests of a run, in whatever order requests, late answers of
  the authenticator, expiries and closing connections interleave: the runtime has session
  state exactly for the sessions the manager holds activated, so that nothing outlives its
  session; every subscription is held by one session, the one the owner table names, and
  every owner named there is alive.
\<close>

theorem session_state_dies_with_session:
  assumes "runtime_reachable cfg w" and "handled w < 2 ^ 32"
  shows "{t. FindRuntimeSession t (wrt w) \<noteq> None} =
      {t. \<exists>s. FindSessionState t (rt_manager (wrt w)) = Some s \<and> st_activated s}
    \<and> (\<forall>t s k. FindRuntimeSession t (wrt w) = Some s \<longrightarrow> HasSubscription k s \<longrightarrow>
          map_of (subscription_owners (wrt w)) k = Some t)
    \<and> (\<forall>k t. map_of (subscription_owners (wrt w)) k = Some t \<longrightarrow> FindRuntimeSession t (wrt w) \<noteq> None)"
proof -
  have inv: "rt_inv cfg (handled w) (wrt w)" by (rule runtime_reachable_inv) fact+
  have "FindRuntimeSession t (wrt w) = Some s \<Longrightarrow> HasSubscription k s \<Longrightarrow>
      map_of (subscription_owners (wrt w)) k = Some t" for t s k
    using inv owner_invD(1) [of "wrt w" t s] owner_invD(2) [of "wrt w" t s k] has_in_order by (auto simp: rt_inv_def)
  with inv show ?thesis by (auto simp: rt_inv_def live_tokens_def activated_tokens_def owner_inv_def)
qed

text \<open>
  C1. The runtime, with its sessions, their subscription maps and the owner table, refines one
  flat table from subscription to session: every request leaves the table the abstract
  machine computes. In particular TransferSubscriptions moves every listed subscription to
  the caller, from whatever sessions hold them, and CreateSubscription uses an id no session
  holds.
\<close>

theorem handle_refines_table:
  assumes "runtime_reachable cfg w" and "Suc (handled w) < 2 ^ 32" and "env_manager env = cfg"
    and "Handle env tp req conn (wrt w) = (out, conn', rt')"
  shows "holder rt' = table_after req (caller_of conn (wrt w)) (rt_next_subscription_id (wrt w))
      (ended (wrt w) rt') (holder (wrt w))
    \<and> holder (wrt w) (rt_next_subscription_id (wrt w)) = None"
proof -
  have inv: "rt_inv cfg (handled w) (wrt w)" by (rule runtime_reachable_inv) (use assms in auto)
  then obtain b where b: "b \<le> handled w" "id_bound b (wrt w)" by (auto simp: rt_inv_def)
  have "Suc b < 2 ^ 32" using b(1) assms(2) by linarith
  then have "map_of (subscription_owners (wrt w)) (rt_next_subscription_id (wrt w)) = None"
    using fresh_id [of b] b(2) by (auto simp: id_bound_def)
  then have "holder (wrt w) (rt_next_subscription_id (wrt w)) = None" by (simp add: holder_def)
  with handle_step [OF inv assms(2-4)] show ?thesis by (simp add: table_step_def)
qed

section \<open>A run\<close>

definition example_env :: env where
  "example_env = \<lparr>env_manager = example_context, env_endpoints = [example_endpoint],
     env_max_monitored_items = 1000, env_register = None, env_registered = None,
     env_create_subscription = always_created, env_ssl = example_ssl, env_utf = ascii_convert,
     env_now = 0, env_later = 0\<rparr>"

definition example_conn :: "node_id option \<Rightarrow> connection" where
  "example_conn t = \<lparr>cn_authentication_token = t, cn_closed = False, cn_secure_channel = True,
     cn_client_certificate = [1], cn_peer = []\<rparr>"

type_synonym example_outcome = "(unit, unit, unit) outcome"

definition example_run :: "nat \<Rightarrow> unit runtime" where
  "example_run k =
     (let r0 = ServerRuntime ServerSessionManager;
          r1 = snd (snd (Handle example_env [] (CreateSessionRequest example_create) (example_conn None) r0
                 :: example_outcome \<times> connection \<times> unit runtime));
          r2 = snd (snd (Handle example_env [] (ActivateSessionRequest example_activate) (example_conn None) r1
                 :: example_outcome \<times> connection \<times> unit runtime));
          r3 = snd (snd (FinishActivateSession example_env example_activate (NodeId (NumericId 1) 2)
                 (Inr example_user) (example_conn None) r2 :: example_outcome \<times> connection \<times> unit runtime));
          r4 = snd (snd (Handle example_env [] (CreateSubscriptionRequest example_parameters)
                 (example_conn (Some example_token)) r3 :: example_outcome \<times> connection \<times> unit runtime))
      in if k = 0 then r0 else if k = 1 then r1 else if k = 2 then r2 else if k = 3 then r3 else r4)"

lemma example_run_steps:
  "example_run 1 = snd (snd (Handle example_env [] (CreateSessionRequest example_create) (example_conn None)
     (example_run 0) :: example_outcome \<times> connection \<times> unit runtime))"
  "example_run 2 = snd (snd (Handle example_env [] (ActivateSessionRequest example_activate) (example_conn None)
     (example_run 1) :: example_outcome \<times> connection \<times> unit runtime))"
  "example_run 4 = snd (snd (Handle example_env [] (CreateSubscriptionRequest example_parameters)
     (example_conn (Some example_token)) (example_run 3) :: example_outcome \<times> connection \<times> unit runtime))"
  by (simp_all add: example_run_def Let_def del: Handle.simps)

lemma handle_reaches:
  assumes "\<exists>w :: (unit, unit, unit) runtime_world. runtime_reachable cfg w \<and> wrt w = rt \<and> handled w = n"
    and "env_manager env = cfg"
  shows "\<exists>w :: (unit, unit, unit) runtime_world. runtime_reachable cfg w
     \<and> wrt w = snd (snd (Handle env tp req conn rt :: example_outcome \<times> connection \<times> unit runtime))
     \<and> handled w = Suc n"
proof -
  from assms(1) obtain w :: "(unit, unit, unit) runtime_world"
    where w: "runtime_reachable cfg w" "wrt w = rt" "handled w = n" by blast
  obtain out conn' rt' where h: "(Handle env tp req conn (wrt w) :: example_outcome \<times> connection \<times> unit runtime) = (out, conn', rt')"
    by (metis prod_cases3)
  from rr_step [OF w(1) rs_handle [OF assms(2) h]] show ?thesis using h w(2,3) by (intro exI) (auto simp: h)
qed

lemma example_run_reaches:
  "\<exists>w :: (unit, unit, unit) runtime_world. runtime_reachable example_context w
     \<and> wrt w = example_run 4 \<and> handled w = 3"
proof -
  let ?R = "\<lambda>k n. \<exists>w :: (unit, unit, unit) runtime_world. runtime_reachable example_context w
     \<and> wrt w = example_run k \<and> handled w = n"
  have env: "env_manager example_env = example_context" by (simp add: example_env_def)
  have "?R 0 0"
    by (intro exI conjI, rule rr_start) (simp_all add: example_run_def Let_def)
  from handle_reaches [OF this env] have "?R 1 (Suc 0)" unfolding example_run_steps(1) .
  from handle_reaches [OF this env] have "?R 2 (Suc (Suc 0))" unfolding example_run_steps(2) .
  then obtain w :: "(unit, unit, unit) runtime_world"
    where w: "runtime_reachable example_context w" "wrt w = example_run 2" "handled w = 2" by auto
  obtain out conn' rt' where f: "(FinishActivateSession example_env example_activate (NodeId (NumericId 1) 2)
      (Inr example_user) (example_conn None) (wrt w) :: example_outcome \<times> connection \<times> unit runtime) = (out, conn', rt')"
    by (metis prod_cases3)
  have "rt' = example_run 3" using f w(2) by (simp add: example_run_def Let_def)
  with rr_step [OF w(1) rs_finish [OF env _ f]] w(3) have "?R 3 2" by (intro exI) auto
  from handle_reaches [OF this env] have "?R 4 (Suc 2)" unfolding example_run_steps(3) .
  then show ?thesis by simp
qed

theorem session_state_dies_with_session_witness:
  "FindRuntimeSession example_token (example_run 4) \<noteq> None
   \<and> (\<exists>s. FindSessionState example_token (rt_manager (example_run 4)) = Some s \<and> st_activated s)"
proof -
  from example_run_reaches obtain w :: "(unit, unit, unit) runtime_world"
    where w: "runtime_reachable example_context w" "wrt w = example_run 4" "handled w = 3" by blast
  have "FindRuntimeSession example_token (example_run 4) \<noteq> None" by code_simp
  then show ?thesis using session_state_dies_with_session [OF w(1)] w(2,3) by auto
qed

theorem handle_refines_table_witness:
  "holder (example_run 4) 1 = Some example_token
   \<and> holder (snd (snd (Handle example_env [] (DeleteSubscriptionsRequest [1]) (example_conn (Some example_token))
        (example_run 4) :: example_outcome \<times> connection \<times> unit runtime))) 1 = None"
proof -
  from example_run_reaches obtain w :: "(unit, unit, unit) runtime_world"
    where w: "runtime_reachable example_context w" "wrt w = example_run 4" "handled w = 3" by blast
  obtain out conn' rt' where h: "(Handle example_env [] (DeleteSubscriptionsRequest [1]) (example_conn (Some example_token))
      (wrt w) :: example_outcome \<times> connection \<times> unit runtime) = (out, conn', rt')" by (metis prod_cases3)
  have caller: "caller_of (example_conn (Some example_token)) (example_run 4) = Some example_token" by code_simp
  have "env_manager example_env = example_context" by (simp add: example_env_def)
  from handle_refines_table [OF w(1) _ this h] have "holder rt' 1 =
      (if holder (example_run 4) 1 = Some example_token then None else holder (example_run 4) 1)"
    using w(2,3) caller by (simp add: table_after_def)
  moreover have "holder (example_run 4) 1 = Some example_token" by code_simp
  ultimately show ?thesis using h w(2) by simp
qed

end
