(* ===== verification/Ua_Client_Subscription.thy ===== *)
theory Ua_Client_Subscription
  imports Ua_Client_Channel Ua_Runtime "HOL-Library.Multiset" "HOL-Library.Sublist"
begin

text \<open>
  Subscriptions of the client: \<^verbatim>\<open>client/client_protocol_subscription.{h,cpp}\<close> (the subscription on
  the wire: monitored items by client handle, the window of Publish requests, acknowledgements)
  and \<^verbatim>\<open>client/client_subscription.{h,cpp}\<close> (the one subscription of a session, shared by
  independent views). Requests and responses are those of \<open>Ua_Runtime\<close>. A coroutine is cut at its
  waits: \<open>Begin...\<close> returns the request it sends, \<open>Finish...\<close> continues with what the channel
  returned. A callback is a value of type \<open>'h\<close>; calling it is an entry of a list.
\<close>

section \<open>The protocol subscription\<close>

text \<open>What other services carry is opaque.\<close>

type_synonym client_request = "bytes request"
type_synonym client_response = "(bytes, bytes) response"

record 'h protocol_subscription =
  is_created :: bool
  ps_subscription_id :: u32
  next_client_handle :: u32
  handlers :: "(u32 \<times> 'h option) list"
  event_handlers :: "(u32 \<times> 'h) list"
  client_handle_by_item_id :: "(u32 \<times> u32) list"
  pending_acks :: "(u32 \<times> u32) list"
  outstanding_publishes :: "(u32 \<times> u32) list"

abbreviation kMaxOutstandingPublishRequests :: nat where "kMaxOutstandingPublishRequests \<equiv> 2"

definition ClientProtocolSubscription :: "'h protocol_subscription" where
  "ClientProtocolSubscription = \<lparr>is_created = False, ps_subscription_id = 0, next_client_handle = 1,
     handlers = [], event_handlers = [], client_handle_by_item_id = [], pending_acks = [],
     outstanding_publishes = []\<rparr>"

text \<open>A map of the standard library: \<open>emplace\<close> keeps an entry that is there.\<close>

definition emplace :: "'k \<Rightarrow> 'v \<Rightarrow> ('k \<times> 'v) list \<Rightarrow> ('k \<times> 'v) list" where
  "emplace k v xs = (if map_of xs k = None then xs @ [(k, v)] else xs)"

text \<open>
  A \<^verbatim>\<open>StatusOr\<close> without a value must carry a bad status; its constructor ends the process
  otherwise: \<open>None\<close>.
\<close>

definition StatusOr :: "status \<Rightarrow> (status + 'x) option" where
  "StatusOr st = (if \<not> status_bad st then None else Some (Inl st))"

text \<open>\<open>pick\<close> is \<^verbatim>\<open>std::get_if\<close> for the type of the response.\<close>

definition NarrowResponse :: "(client_response \<Rightarrow> 'x option) \<Rightarrow> status + client_response \<Rightarrow> (status + 'x) option" where
  "NarrowResponse pick result = (case result of
       Inl e \<Rightarrow> StatusOr e
     | Inr (ServiceFault st) \<Rightarrow> StatusOr st
     | Inr r \<Rightarrow> (case pick r of Some x \<Rightarrow> Some (Inr x) | None \<Rightarrow> StatusOr bad_status))"

definition as_create_subscription :: "client_response \<Rightarrow> create_subscription_response option" where
  "as_create_subscription r = (case r of CreateSubscriptionResp x \<Rightarrow> Some x | _ \<Rightarrow> None)"

definition as_create_items :: "client_response \<Rightarrow> (status \<times> item_create_result list) option" where
  "as_create_items r = (case r of CreateMonitoredItemsResponse st rs \<Rightarrow> Some (st, rs) | _ \<Rightarrow> None)"

definition as_delete_items :: "client_response \<Rightarrow> status option" where
  "as_delete_items r = (case r of DeleteMonitoredItemsResponse st _ \<Rightarrow> Some st | _ \<Rightarrow> None)"

definition as_delete_subscriptions :: "client_response \<Rightarrow> status option" where
  "as_delete_subscriptions r = (case r of DeleteSubscriptionsResponse st _ \<Rightarrow> Some st | _ \<Rightarrow> None)"

definition as_publish :: "client_response \<Rightarrow> publish_response option" where
  "as_publish r = (case r of PublishResp x \<Rightarrow> Some x | _ \<Rightarrow> None)"

definition FinishCreate :: "status + client_response \<Rightarrow> 'h protocol_subscription
    \<Rightarrow> (status \<times> 'h protocol_subscription) option" where
  "FinishCreate result p = map_option (\<lambda>narrowed. case narrowed of
       Inl e \<Rightarrow> (e, p)
     | Inr r \<Rightarrow> if status_bad (cs_status r) then (cs_status r, p)
         else (status_of_code Good, p\<lparr>ps_subscription_id := cs_subscription_id r, is_created := True\<rparr>))
     (NarrowResponse as_create_subscription result)"

subsection \<open>Monitored items\<close>

definition BeginCreateMonitoredItem :: "read_value_id \<Rightarrow> monitoring_parameters \<Rightarrow> 'h option \<Rightarrow> 'h option
    \<Rightarrow> 'h protocol_subscription \<Rightarrow> (status + u32 \<times> client_request) \<times> 'h protocol_subscription" where
  "BeginCreateMonitoredItem rv params handler event_handler p =
     (if \<not> is_created p then (Inl bad_status, p)
      else (let
        h = next_client_handle p;
        p = p\<lparr>next_client_handle := h + 1\<rparr>;
        p = p\<lparr>handlers := emplace h handler (handlers p)\<rparr>;
        p = (case event_handler of None \<Rightarrow> p | Some e \<Rightarrow> p\<lparr>event_handlers := emplace h e (event_handlers p)\<rparr>)
      in (Inr (h, CreateMonitoredItemsRequest (ps_subscription_id p)
            [\<lparr>item_to_monitor = rv, index_range = None, req_monitoring_mode = Reporting,
              requested_parameters = params\<lparr>client_handle := h\<rparr>\<rparr>]), p)))"

definition forget_handlers :: "u32 \<Rightarrow> 'h protocol_subscription \<Rightarrow> 'h protocol_subscription" where
  "forget_handlers h p = p\<lparr>handlers := AList.delete h (handlers p), event_handlers := AList.delete h (event_handlers p)\<rparr>"

text \<open>The result is the id the server gave the item, with the client handle.\<close>

definition FinishCreateMonitoredItem :: "u32 \<Rightarrow> status + client_response \<Rightarrow> 'h protocol_subscription
    \<Rightarrow> ((status + u32 \<times> u32) \<times> 'h protocol_subscription) option" where
  "FinishCreateMonitoredItem h result p = map_option (\<lambda>narrowed. case narrowed of
       Inl e \<Rightarrow> (Inl e, forget_handlers h p)
     | Inr (st, []) \<Rightarrow> (Inl bad_status, forget_handlers h p)
     | Inr (st, r # _) \<Rightarrow>
         if status_bad st then (Inl st, forget_handlers h p)
         else if status_bad (cr_status r) then (Inl (cr_status r), forget_handlers h p)
         else (Inr (cr_item_id r, h),
               p\<lparr>client_handle_by_item_id := emplace (cr_item_id r) h (client_handle_by_item_id p)\<rparr>))
     (NarrowResponse as_create_items result)"

definition BeginDeleteMonitoredItem :: "u32 \<Rightarrow> 'h protocol_subscription \<Rightarrow> status + client_request" where
  "BeginDeleteMonitoredItem iid p =
     (if \<not> is_created p then Inl bad_status else Inr (DeleteMonitoredItemsRequest (ps_subscription_id p) [iid]))"

definition FinishDeleteMonitoredItem :: "u32 \<Rightarrow> status + client_response \<Rightarrow> 'h protocol_subscription
    \<Rightarrow> (status \<times> 'h protocol_subscription) option" where
  "FinishDeleteMonitoredItem iid result p = map_option (\<lambda>narrowed. case narrowed of
       Inl e \<Rightarrow> (e, p)
     | Inr st \<Rightarrow> (st, (case map_of (client_handle_by_item_id p) iid of
           None \<Rightarrow> p
         | Some h \<Rightarrow> (forget_handlers h p)\<lparr>client_handle_by_item_id :=
             AList.delete iid (client_handle_by_item_id p)\<rparr>)))
     (NarrowResponse as_delete_items result)"

subsection \<open>Publish\<close>

text \<open>
  \<open>SendPublishRequest\<close> around its Send. The acknowledgements are moved into the request before
  the Send, so what the failure branch puts back is the moved-from vector, which is empty.
\<close>

definition BeginSendPublishRequest :: "'h protocol_subscription \<Rightarrow> client_request \<times> 'h protocol_subscription" where
  "BeginSendPublishRequest p = (PublishRequest (pending_acks p), p\<lparr>pending_acks := []\<rparr>)"

definition FinishSendPublishRequest :: "u32 \<Rightarrow> status + u32 \<Rightarrow> 'h protocol_subscription
    \<Rightarrow> status \<times> 'h protocol_subscription" where
  "FinishSendPublishRequest handle sent p = (case sent of
       Inl e \<Rightarrow> (e, p\<lparr>pending_acks := [] @ pending_acks p\<rparr>)
     | Inr rid \<Rightarrow> (status_of_code Good, p\<lparr>outstanding_publishes := outstanding_publishes p @ [(rid, handle)]\<rparr>))"

text \<open>The head of the loop of \<open>FillPublishWindow\<close>: whether another request is sent.\<close>

definition FillPublishWindow :: "'h protocol_subscription \<Rightarrow> bool" where
  "FillPublishWindow p \<longleftrightarrow> length (outstanding_publishes p) < kMaxOutstandingPublishRequests"

datatype 'h dispatch = DispatchValue 'h data_value | DispatchEvent 'h "variant list"

definition dispatch_value :: "'h protocol_subscription \<Rightarrow> u32 \<times> data_value \<Rightarrow> 'h dispatch list" where
  "dispatch_value p = (\<lambda>(h, value). case map_of (handlers p) h of
       Some (Some f) \<Rightarrow> [DispatchValue f value] | _ \<Rightarrow> [])"

definition dispatch_event :: "'h protocol_subscription \<Rightarrow> u32 \<times> variant list \<Rightarrow> 'h dispatch list" where
  "dispatch_event p = (\<lambda>(h, event_fields). case map_of (event_handlers p) h of
       Some f \<Rightarrow> [DispatchEvent f event_fields] | None \<Rightarrow> [])"

fun dispatch_data :: "'h protocol_subscription \<Rightarrow> notification_data \<Rightarrow> 'h dispatch list" where
  "dispatch_data p (DataChangeNotification xs) = concat (map (dispatch_value p) xs)"
| "dispatch_data p (EventNotificationList xs) = concat (map (dispatch_event p) xs)"
| "dispatch_data p (StatusChangeNotification _) = []"

definition HandlePublishResponse :: "publish_response \<Rightarrow> 'h protocol_subscription
    \<Rightarrow> status \<times> 'h dispatch list \<times> 'h protocol_subscription" where
  "HandlePublishResponse r p =
     (if status_bad (pr_status r) then (pr_status r, [], p)
      else (let
        p = (if sequence_number (pr_message r) \<noteq> 0
             then p\<lparr>pending_acks := pending_acks p @ [(pr_subscription_id r, sequence_number (pr_message r))]\<rparr> else p)
      in (status_of_code Good, concat (map (dispatch_data p) (notification_data (pr_message r))), p)))"

text \<open>\<open>Publish\<close> once its window is full: the request it waits for, and what it does with the response.\<close>

definition TakePublish :: "'h protocol_subscription \<Rightarrow> (u32 \<times> u32) \<times> 'h protocol_subscription" where
  "TakePublish p = (hd (outstanding_publishes p), p\<lparr>outstanding_publishes := tl (outstanding_publishes p)\<rparr>)"

definition FinishPublish :: "status + client_response \<Rightarrow> 'h protocol_subscription
    \<Rightarrow> (status \<times> 'h dispatch list \<times> 'h protocol_subscription) option" where
  "FinishPublish result p = map_option (\<lambda>narrowed. case narrowed of
       Inl e \<Rightarrow> (e, [], p)
     | Inr r \<Rightarrow> HandlePublishResponse r p) (NarrowResponse as_publish result)"

definition BeginDelete :: "'h protocol_subscription \<Rightarrow> status + client_request" where
  "BeginDelete p = (if \<not> is_created p then Inl (status_of_code Good)
     else Inr (DeleteSubscriptionsRequest [ps_subscription_id p]))"

text \<open>The event handlers stay.\<close>

definition FinishDelete :: "status + client_response \<Rightarrow> 'h protocol_subscription
    \<Rightarrow> (status \<times> 'h protocol_subscription) option" where
  "FinishDelete result p = (let p = p\<lparr>is_created := False, handlers := [], client_handle_by_item_id := [],
       pending_acks := [], outstanding_publishes := []\<rparr>
     in map_option (\<lambda>narrowed. case narrowed of Inl e \<Rightarrow> (e, p) | Inr st \<Rightarrow> (st, p))
       (NarrowResponse as_delete_subscriptions result))"

section \<open>The subscription the views share\<close>

text \<open>
  A view is a number, its queue an entry of \<open>view_states\<close>. The weak pointers of the code are
  these numbers: a view is closed before it is destroyed, a closed view is no longer listed,
  and a notification for a closed view is dropped like one for a destroyed view. The callbacks
  of an item are the pair of its view and the handle the view gave it. \<open>spawned\<close> holds the
  coroutines that were started and have not run yet. Unordered maps are listed in the order of
  insertion.
\<close>

record view_state =
  vw_pending_notifications :: "item_notification list"
  close_status :: status
  view_closed :: bool

datatype pending_item = PendingSubscription (pn_view: nat) (pn_local_id: u32)
  (pn_read_value_id: read_value_id) (pn_params: monitoring_parameters) (pn_client_handle: u32)

datatype coroutine =
  SubscribeTask subscription_parameters
| PublishTask
| CreateItemTask pending_item
| DeleteItemTask u32

record client_subscription =
  impl :: "(nat \<times> u32) protocol_subscription option"
  is_creating :: bool
  publish_loop_running :: bool
  next_local_id :: u32
  items_by_local_id :: "(u32 \<times> nat \<times> u32) list"
  pending_subscriptions :: "pending_item list"
  views :: "nat list"
  view_states :: "(nat \<times> view_state) list"
  spawned :: "coroutine list"

definition ClientSubscription :: client_subscription where
  "ClientSubscription = \<lparr>impl = None, is_creating = False, publish_loop_running = False, next_local_id = 1,
     items_by_local_id = [], pending_subscriptions = [], views = [], view_states = [], spawned = []\<rparr>"

definition CoSpawn :: "coroutine \<Rightarrow> client_subscription \<Rightarrow> client_subscription" where
  "CoSpawn t c = c\<lparr>spawned := spawned c @ [t]\<rparr>"

definition ViewState :: view_state where
  "ViewState = \<lparr>vw_pending_notifications = [], close_status = status_of_code Bad_NoCommunication, view_closed = False\<rparr>"

definition CreateView :: "client_subscription \<Rightarrow> nat \<times> client_subscription" where
  "CreateView c = (let v = length (view_states c) in
     (v, c\<lparr>view_states := view_states c @ [(v, ViewState)], views := views c @ [v]\<rparr>))"

definition default_parameters :: subscription_parameters where
  "default_parameters = \<lparr>publishing_interval_ms = 0x407F400000000000, lifetime_count = 3000,
     max_keep_alive_count = 10000, max_notifications_per_publish = 0, publishing_enabled = True, priority = 0\<rparr>"

definition EnsureCreated :: "client_subscription \<Rightarrow> client_subscription" where
  "EnsureCreated c = (if impl c \<noteq> None \<or> is_creating c then c
     else CoSpawn (SubscribeTask default_parameters)
       (c\<lparr>is_creating := True, impl := Some ClientProtocolSubscription\<rparr>))"

definition StartPublishLoop :: "client_subscription \<Rightarrow> client_subscription" where
  "StartPublishLoop c = (if publish_loop_running c \<or> impl c = None then c
     else CoSpawn PublishTask (c\<lparr>publish_loop_running := True\<rparr>))"

definition SpawnCreateMonitoredItem :: "pending_item \<Rightarrow> client_subscription \<Rightarrow> client_subscription" where
  "SpawnCreateMonitoredItem x c = CoSpawn (CreateItemTask x) c"

definition FlushPendingSubscriptions :: "client_subscription \<Rightarrow> client_subscription" where
  "FlushPendingSubscriptions c = fold SpawnCreateMonitoredItem (pending_subscriptions c) (c\<lparr>pending_subscriptions := []\<rparr>)"

text \<open>
  The coroutine of \<open>EnsureCreated\<close> after its \<open>Create\<close>. The implementation is there: it is reset
  only here, and no second creation starts while one runs.
\<close>

definition FinishEnsureCreated :: "status + client_response \<Rightarrow> client_subscription \<Rightarrow> client_subscription option" where
  "FinishEnsureCreated result c = (case impl c of None \<Rightarrow> None | Some p \<Rightarrow> map_option (\<lambda>(st, p).
      if status_bad st then c\<lparr>is_creating := False, impl := None, pending_subscriptions := []\<rparr>
      else StartPublishLoop (FlushPendingSubscriptions (c\<lparr>impl := Some p, is_creating := False\<rparr>)))
     (FinishCreate result p))"

subsection \<open>Items\<close>

definition add_item :: "nat \<Rightarrow> item_create_request \<Rightarrow> item_create_result list \<times> client_subscription
    \<Rightarrow> item_create_result list \<times> client_subscription" where
  "add_item v req = (\<lambda>(results, c). let
       params = requested_parameters req;
       local_id = next_local_id c;
       x = PendingSubscription v local_id (item_to_monitor req) params (client_handle params);
       deferred = (is_creating c \<or> impl c = None);
       c = c\<lparr>next_local_id := local_id + 1, items_by_local_id := emplace local_id (v, 0) (items_by_local_id c)\<rparr>;
       c = (if deferred then c\<lparr>pending_subscriptions := pending_subscriptions c @ [x]\<rparr>
            else SpawnCreateMonitoredItem x c)
     in (results @ [ItemCreateResult (status_of_code Good) local_id (sampling_interval_ms params)
           (max 1 (queue_size params))], c))"

definition AddViewItems :: "nat \<Rightarrow> item_create_request list \<Rightarrow> client_subscription
    \<Rightarrow> item_create_result list \<times> client_subscription" where
  "AddViewItems v reqs c = fold (add_item v) reqs ([], EnsureCreated c)"

definition RemoveItem :: "u32 \<Rightarrow> client_subscription \<Rightarrow> client_subscription" where
  "RemoveItem local_id c = (let
       server_id = (case map_of (items_by_local_id c) local_id of None \<Rightarrow> 0 | Some (_, sid) \<Rightarrow> sid);
       c = c\<lparr>pending_subscriptions := filter (\<lambda>x. pn_local_id x \<noteq> local_id) (pending_subscriptions c),
             items_by_local_id := AList.delete local_id (items_by_local_id c)\<rparr>
     in if server_id = 0 then c else CoSpawn (DeleteItemTask server_id) c)"

definition remove_view_item :: "nat \<Rightarrow> u32 \<Rightarrow> status list \<times> client_subscription \<Rightarrow> status list \<times> client_subscription" where
  "remove_view_item v local_id = (\<lambda>(results, c).
     if (case map_of (items_by_local_id c) local_id of Some (w, _) \<Rightarrow> w \<noteq> v | None \<Rightarrow> True)
     then (results @ [status_of_code Bad_MonitoredItemIdInvalid], c)
     else (results @ [status_of_code Good], RemoveItem local_id c))"

definition RemoveViewItems :: "nat \<Rightarrow> u32 list \<Rightarrow> client_subscription \<Rightarrow> status list \<times> client_subscription" where
  "RemoveViewItems v ids c = fold (remove_view_item v) ids ([], c)"

definition CloseView :: "nat \<Rightarrow> status \<Rightarrow> client_subscription \<Rightarrow> client_subscription" where
  "CloseView v st c = (case map_of (view_states c) v of None \<Rightarrow> c | Some s \<Rightarrow>
     if view_closed s then c
     else (let
       c = c\<lparr>view_states := AList.update v \<lparr>vw_pending_notifications = [], close_status = st, view_closed = True\<rparr> (view_states c)\<rparr>;
       local_ids = map fst (filter (\<lambda>(_, w, _). w = v) (items_by_local_id c));
       c = c\<lparr>views := filter (\<lambda>w. w \<noteq> v) (views c)\<rparr>
     in fold RemoveItem local_ids c))"

definition CloseAllViews :: "status \<Rightarrow> client_subscription \<Rightarrow> client_subscription" where
  "CloseAllViews st c = fold (\<lambda>v. CloseView v st) (views c) c"

subsection \<open>Notifications\<close>

definition PushNotification :: "nat \<Rightarrow> item_notification \<Rightarrow> client_subscription \<Rightarrow> client_subscription" where
  "PushNotification v n c = (case map_of (view_states c) v of None \<Rightarrow> c | Some s \<Rightarrow>
     if view_closed s then c
     else c\<lparr>view_states := AList.update v (s\<lparr>vw_pending_notifications := vw_pending_notifications s @ [n]\<rparr>) (view_states c)\<rparr>)"

fun run_dispatch :: "(nat \<times> u32) dispatch \<Rightarrow> client_subscription \<Rightarrow> client_subscription" where
  "run_dispatch (DispatchValue (v, h) value) c = PushNotification v (MonitoredItemNotification h value) c"
| "run_dispatch (DispatchEvent (v, h) event_fields) c = PushNotification v (EventFieldList h event_fields) c"

text \<open>One round of the loop of \<open>ReadNext\<close>: \<open>None\<close> when it waits.\<close>

definition ReadNext :: "nat \<Rightarrow> nat \<Rightarrow> client_subscription
    \<Rightarrow> (status + item_notification list) option \<times> client_subscription" where
  "ReadNext v max_count c = (case map_of (view_states c) v of None \<Rightarrow> (None, c) | Some s \<Rightarrow>
     if view_closed s then (Some (Inl (close_status s)), c)
     else if vw_pending_notifications s \<noteq> [] \<or> max_count = 0
     then (Some (Inr (take max_count (vw_pending_notifications s))),
           c\<lparr>view_states := AList.update v (s\<lparr>vw_pending_notifications := drop max_count (vw_pending_notifications s)\<rparr>) (view_states c)\<rparr>)
     else (None, c))"

subsection \<open>Coroutines\<close>

text \<open>
  The coroutine of \<open>SpawnCreateMonitoredItem\<close>: its start, which may end at once or fail at once,
  and its end.
\<close>

datatype started = Ended | Failed status | Requested u32 client_request

definition StartCreateItem :: "pending_item \<Rightarrow> client_subscription \<Rightarrow> started \<times> client_subscription" where
  "StartCreateItem x c = (case impl c of None \<Rightarrow> (Ended, c) | Some p \<Rightarrow>
     (let cb = Some (pn_view x, pn_client_handle x);
          (r, p) = BeginCreateMonitoredItem (pn_read_value_id x) ((pn_params x)\<lparr>client_handle := 0\<rparr>) cb cb p
      in (case r of Inl e \<Rightarrow> Failed e | Inr (h, req) \<Rightarrow> Requested h req, c\<lparr>impl := Some p\<rparr>)))"

definition EndCreateItem :: "pending_item \<Rightarrow> status + u32 \<times> u32 \<Rightarrow> client_subscription \<Rightarrow> client_subscription" where
  "EndCreateItem x result c = (case result of
       Inr (iid, _) \<Rightarrow> (case map_of (items_by_local_id c) (pn_local_id x) of
           Some (v, _) \<Rightarrow> c\<lparr>items_by_local_id := AList.update (pn_local_id x) (v, iid) (items_by_local_id c)\<rparr>
         | None \<Rightarrow> CoSpawn (DeleteItemTask iid) c)
     | Inl e \<Rightarrow> PushNotification (pn_view x) (MonitoredItemNotification (pn_client_handle x)
           (DataValue null_variant 0 0 0 (status_code e))) c)"

definition FinishCreateItem :: "pending_item \<Rightarrow> u32 \<Rightarrow> status + client_response \<Rightarrow> client_subscription
    \<Rightarrow> client_subscription option" where
  "FinishCreateItem x h response c = (case impl c of None \<Rightarrow> None | Some p \<Rightarrow>
     map_option (\<lambda>(result, p). EndCreateItem x result (c\<lparr>impl := Some p\<rparr>)) (FinishCreateMonitoredItem h response p))"

text \<open>Whether the publish loop goes on to another \<open>Publish\<close>, and the end of one.\<close>

definition PublishLoopHead :: "bool \<Rightarrow> client_subscription \<Rightarrow> bool \<times> client_subscription" where
  "PublishLoopHead is_connected c =
     (if impl c = None \<or> \<not> is_connected then (False, c\<lparr>publish_loop_running := False\<rparr>) else (True, c))"

definition PublishLoopRound :: "status + client_response \<Rightarrow> client_subscription \<Rightarrow> (bool \<times> client_subscription) option" where
  "PublishLoopRound response c = (case impl c of None \<Rightarrow> None | Some p \<Rightarrow>
     map_option (\<lambda>(st, ds, p). let c = fold run_dispatch ds (c\<lparr>impl := Some p\<rparr>)
        in if status_bad st then (False, c\<lparr>publish_loop_running := False\<rparr>) else (True, c))
     (FinishPublish response p))"

section \<open>The publish loop\<close>

text \<open>
  Runs of the publish loop, from a created subscription to its deletion. \<open>pw_sending\<close> is set while
  a Send is under way, with the acknowledgements in its request in \<open>pw_flying\<close>. The logs: the
  requests that were sent (their ids) and, once the Send of a request succeeded, its
  acknowledgements; how many Sends failed; the requests waited for, and the acknowledgements owed
  for the messages that arrived. Other operations of the subscription run in between.
\<close>

record 'h publish_world =
  pw_sub :: "'h protocol_subscription"
  pw_sending :: bool
  pw_flying :: "(u32 \<times> u32) list"
  pw_sent :: "(u32 \<times> u32) list"
  pw_acks :: "(u32 \<times> u32) list list"
  pw_failed :: nat
  pw_awaited :: "(u32 \<times> u32) list"
  pw_owed :: "(u32 \<times> u32) list"

definition owed :: "status + client_response \<Rightarrow> (u32 \<times> u32) list" where
  "owed result = (case NarrowResponse as_publish result of
       None \<Rightarrow> []
     | Some (Inl _) \<Rightarrow> []
     | Some (Inr r) \<Rightarrow> if status_bad (pr_status r) \<or> sequence_number (pr_message r) = 0 then []
         else [(pr_subscription_id r, sequence_number (pr_message r))])"

inductive publish_step :: "'h publish_world \<Rightarrow> 'h publish_world \<Rightarrow> bool" where
  pw_send: "\<not> pw_sending w \<Longrightarrow> FillPublishWindow (pw_sub w) \<Longrightarrow>
    BeginSendPublishRequest (pw_sub w) = (PublishRequest acks, p) \<Longrightarrow>
    publish_step w (w\<lparr>pw_sub := p, pw_sending := True, pw_flying := acks\<rparr>)"
| pw_sent: "pw_sending w \<Longrightarrow> FinishSendPublishRequest handle sent (pw_sub w) = (st, p) \<Longrightarrow>
    publish_step w (w\<lparr>pw_sub := p, pw_sending := False, pw_flying := [],
      pw_sent := pw_sent w @ (case sent of Inl _ \<Rightarrow> [] | Inr rid \<Rightarrow> [(rid, handle)]),
      pw_acks := pw_acks w @ (case sent of Inl _ \<Rightarrow> [] | Inr _ \<Rightarrow> [pw_flying w]),
      pw_failed := pw_failed w + (case sent of Inl _ \<Rightarrow> 1 | Inr _ \<Rightarrow> 0)\<rparr>)"
| pw_publish: "\<not> pw_sending w \<Longrightarrow> \<not> FillPublishWindow (pw_sub w) \<Longrightarrow> TakePublish (pw_sub w) = (req, p) \<Longrightarrow>
    FinishPublish result p' = Some (st, ds, p'') \<Longrightarrow>
    pending_acks p' = pending_acks p \<Longrightarrow> outstanding_publishes p' = outstanding_publishes p \<Longrightarrow>
    publish_step w (w\<lparr>pw_sub := p'', pw_awaited := pw_awaited w @ [req], pw_owed := pw_owed w @ owed result\<rparr>)"
| pw_other: "pending_acks p = pending_acks (pw_sub w) \<Longrightarrow> outstanding_publishes p = outstanding_publishes (pw_sub w) \<Longrightarrow>
    publish_step w (w\<lparr>pw_sub := p\<rparr>)"

definition publish_start :: "'h protocol_subscription \<Rightarrow> 'h publish_world" where
  "publish_start p = \<lparr>pw_sub = p\<lparr>pending_acks := [], outstanding_publishes := []\<rparr>, pw_sending = False,
     pw_flying = [], pw_sent = [], pw_acks = [], pw_failed = 0, pw_awaited = [], pw_owed = []\<rparr>"

text \<open>The acknowledgements that left, are leaving or wait, in this order.\<close>

definition kept_acks :: "'h publish_world \<Rightarrow> (u32 \<times> u32) list" where
  "kept_acks w = concat (pw_acks w) @ pw_flying w @ pending_acks (pw_sub w)"

definition publish_inv :: "'h publish_world \<Rightarrow> bool" where
  "publish_inv w \<longleftrightarrow>
     length (outstanding_publishes (pw_sub w)) \<le> (if pw_sending w then 1 else kMaxOutstandingPublishRequests)
     \<and> pw_awaited w @ outstanding_publishes (pw_sub w) = pw_sent w
     \<and> (\<not> pw_sending w \<longrightarrow> pw_flying w = []) \<and> (pw_sending w \<longrightarrow> pending_acks (pw_sub w) = [])
     \<and> subseq (kept_acks w) (pw_owed w) \<and> (pw_failed w = 0 \<longrightarrow> kept_acks w = pw_owed w)"

lemma bad_status_bad [simp]: "status_bad bad_status"
  by code_simp

lemma NarrowResponse_bad: "NarrowResponse pick result = Some (Inl e) \<Longrightarrow> status_bad e"
  by (auto simp: NarrowResponse_def StatusOr_def split: sum.splits response.splits option.splits if_splits)

lemma FinishPublish_fields:
  assumes "FinishPublish result p = Some (st, ds, p')"
  shows "pending_acks p' = pending_acks p @ owed result" "outstanding_publishes p' = outstanding_publishes p"
    "handlers p' = handlers p" "event_handlers p' = event_handlers p" "is_created p' = is_created p"
proof -
  obtain n where n: "NarrowResponse as_publish result = Some n" using assms by (auto simp: FinishPublish_def)
  show "pending_acks p' = pending_acks p @ owed result" "outstanding_publishes p' = outstanding_publishes p"
    "handlers p' = handlers p" "event_handlers p' = event_handlers p" "is_created p' = is_created p"
    using assms
    by (cases n; auto simp: n FinishPublish_def HandlePublishResponse_def owed_def Let_def split: if_splits)+
qed

lemma subseq_drop_tail: "subseq (xs @ ys) zs \<Longrightarrow> subseq xs zs"
  by (rule subseq_order.trans [of xs "xs @ ys"]) (simp_all add: list_emb_prefix)

lemma publish_step_inv: "publish_step w w' \<Longrightarrow> publish_inv w \<Longrightarrow> publish_inv w'"
proof (induction rule: publish_step.induct)
  case (pw_sent w handle sent st p)
  then show ?case
    by (cases sent) (auto simp: publish_inv_def FinishSendPublishRequest_def kept_acks_def intro: subseq_drop_tail)
next
  case (pw_publish w req p result p' st ds p'')
  let ?w = "w\<lparr>pw_sub := p'', pw_awaited := pw_awaited w @ [req], pw_owed := pw_owed w @ owed result\<rparr>"
  have kept: "kept_acks ?w = kept_acks w @ owed result"
    using pw_publish(3,5) FinishPublish_fields(1) [OF pw_publish(4)] by (auto simp: kept_acks_def TakePublish_def)
  have window: "req # outstanding_publishes p'' = outstanding_publishes (pw_sub w)"
    using pw_publish(2,3,6) FinishPublish_fields(2) [OF pw_publish(4)]
    by (cases "outstanding_publishes (pw_sub w)") (auto simp: TakePublish_def FillPublishWindow_def)
  show ?case using pw_publish(1,7) window [symmetric] unfolding publish_inv_def kept by (auto simp: list_emb_append_mono)
qed (auto simp: publish_inv_def FillPublishWindow_def BeginSendPublishRequest_def kept_acks_def)

text \<open>When the Send fails, the acknowledgements of its request are gone.\<close>

lemma failed_send_loses_acks:
  "FinishSendPublishRequest h (Inl e) (snd (BeginSendPublishRequest p)) = (e, p\<lparr>pending_acks := []\<rparr>)"
  by (simp add: FinishSendPublishRequest_def BeginSendPublishRequest_def)

text \<open>The operations on items leave the window and the acknowledgements alone.\<close>

lemma begin_keeps_publishing:
  "pending_acks (snd (BeginCreateMonitoredItem rv params cb ecb p)) = pending_acks p"
  "outstanding_publishes (snd (BeginCreateMonitoredItem rv params cb ecb p)) = outstanding_publishes p"
  by (auto simp: BeginCreateMonitoredItem_def Let_def split: option.split)

lemma finish_create_cases:
  assumes "FinishCreateMonitoredItem h result p = Some (r, p')"
  shows "(\<exists>e. r = Inl e \<and> status_bad e \<and> p' = forget_handlers h p)
    \<or> (\<exists>iid. r = Inr (iid, h) \<and> p' = p\<lparr>client_handle_by_item_id := emplace iid h (client_handle_by_item_id p)\<rparr>)"
proof -
  obtain n where n: "NarrowResponse as_create_items result = Some n"
    using assms by (auto simp: FinishCreateMonitoredItem_def)
  show ?thesis
  proof (cases n)
    case (Inl e)
    then show ?thesis using assms n NarrowResponse_bad [of as_create_items result e]
      by (auto simp: FinishCreateMonitoredItem_def)
  next
    case (Inr x)
    then obtain st rs where "n = Inr (st, rs)" by (cases x) auto
    then show ?thesis using assms n
      by (cases rs) (auto simp: FinishCreateMonitoredItem_def split: if_splits)
  qed
qed

lemma finish_delete_cases:
  assumes "FinishDeleteMonitoredItem iid result p = Some (st, p')"
  shows "p' = p \<or> (\<exists>h. p' = (forget_handlers h p)\<lparr>client_handle_by_item_id := AList.delete iid (client_handle_by_item_id p)\<rparr>)"
proof -
  obtain n where n: "NarrowResponse as_delete_items result = Some n"
    using assms by (auto simp: FinishDeleteMonitoredItem_def)
  then show ?thesis using assms
    by (cases n) (auto simp: FinishDeleteMonitoredItem_def split: option.splits)
qed

lemma finish_keeps_publishing:
  "FinishCreateMonitoredItem h result p = Some (r, p') \<Longrightarrow> pending_acks p' = pending_acks p
     \<and> outstanding_publishes p' = outstanding_publishes p \<and> is_created p' = is_created p"
  "FinishDeleteMonitoredItem iid result p = Some (st, p') \<Longrightarrow> pending_acks p' = pending_acks p
     \<and> outstanding_publishes p' = outstanding_publishes p \<and> is_created p' = is_created p"
  by (auto simp: forget_handlers_def dest!: finish_create_cases finish_delete_cases)

section \<open>The life of an item\<close>

text \<open>
  Runs of the shared subscription: calls of the views, and the coroutines at their waits.
  \<open>iw_flight\<close> are the CreateMonitoredItems requests under way with their client handles. The logs:
  \<open>iw_granted\<close> the ids the server reported, \<open>iw_deleted\<close> those a delete was sent for,
  \<open>iw_refused\<close> the local ids the server refused, \<open>iw_dropped\<close> the deferred ones that were dropped
  because the subscription itself could not be created, \<open>iw_asked\<close> the views with the handles of
  their items, \<open>iw_late\<close> the local ids a view was given when it was closed already: \<open>AddItems\<close> does
  not ask whether its view is open. The server gives items ids that are not 0 and not used before;
  at most \<open>2 ^ 32 - 2\<close> items are added. The deletion of an item that has lost its record, which the
  code awaits at the end of its creation, is a coroutine of its own here: runs in which other steps
  come first are included.
\<close>

record item_world =
  iw :: client_subscription
  iw_flight :: "(pending_item \<times> u32) list"
  iw_granted :: "u32 list"
  iw_deleted :: "u32 list"
  iw_refused :: "u32 list"
  iw_dropped :: "u32 list"
  iw_asked :: "(nat \<times> u32) list"
  iw_late :: "u32 list"

abbreviation on_iw :: "(client_subscription \<Rightarrow> client_subscription) \<Rightarrow> item_world \<Rightarrow> item_world" where
  "on_iw f w \<equiv> w\<lparr>iw := f (iw w)\<rparr>"

definition created :: "client_subscription \<Rightarrow> bool" where
  "created c \<longleftrightarrow> (case impl c of None \<Rightarrow> False | Some p \<Rightarrow> is_created p)"

definition view_open :: "nat \<Rightarrow> client_subscription \<Rightarrow> bool" where
  "view_open v c \<longleftrightarrow> (case map_of (view_states c) v of None \<Rightarrow> False | Some s \<Rightarrow> \<not> view_closed s)"

inductive item_step :: "item_world \<Rightarrow> item_world \<Rightarrow> bool" where
  iw_view: "item_step w (on_iw (snd \<circ> CreateView) w)"
| iw_add: "map_of (view_states (iw w)) v \<noteq> None \<Longrightarrow> unat (next_local_id (iw w)) + length reqs < 2 ^ 32 \<Longrightarrow>
    item_step w (on_iw (snd \<circ> AddViewItems v reqs)
      (w\<lparr>iw_asked := iw_asked w @ map (\<lambda>r. (v, client_handle (requested_parameters r))) reqs,
         iw_late := iw_late w @ (if view_open v (iw w) then [] else map cr_item_id (fst (AddViewItems v reqs (iw w))))\<rparr>))"
| iw_remove: "item_step w (on_iw (snd \<circ> RemoveViewItems v ids) w)"
| iw_close: "item_step w (on_iw (CloseView v st) w)"
| iw_close_all: "item_step w (on_iw (CloseAllViews st) w)"
| iw_subscribed: "is_creating (iw w) \<Longrightarrow>
    FinishEnsureCreated result (iw w) = Some c \<Longrightarrow>
    item_step w (w\<lparr>iw := c, iw_dropped := iw_dropped w @
      (if impl c = None then map pn_local_id (pending_subscriptions (iw w)) else [])\<rparr>)"
| iw_start: "CreateItemTask x \<in> set (spawned (iw w)) \<Longrightarrow>
    StartCreateItem x ((iw w)\<lparr>spawned := remove1 (CreateItemTask x) (spawned (iw w))\<rparr>) = (r, c) \<Longrightarrow>
    item_step w (w\<lparr>iw := (case r of Failed e \<Rightarrow> EndCreateItem x (Inl e) c | _ \<Rightarrow> c),
      iw_flight := iw_flight w @ (case r of Requested h req \<Rightarrow> [(x, h)] | _ \<Rightarrow> []),
      iw_refused := iw_refused w @ (case r of Failed _ \<Rightarrow> [pn_local_id x] | _ \<Rightarrow> [])\<rparr>)"
| iw_finish: "(x, h) \<in> set (iw_flight w) \<Longrightarrow> impl (iw w) = Some p \<Longrightarrow>
    FinishCreateMonitoredItem h response p = Some (result, p') \<Longrightarrow> FinishCreateItem x h response (iw w) = Some c \<Longrightarrow>
    (case result of Inl _ \<Rightarrow> True | Inr (iid, _) \<Rightarrow> iid \<noteq> 0 \<and> iid \<notin> set (iw_granted w)) \<Longrightarrow>
    item_step w (w\<lparr>iw := c, iw_flight := remove1 (x, h) (iw_flight w),
      iw_granted := iw_granted w @ (case result of Inl _ \<Rightarrow> [] | Inr (iid, _) \<Rightarrow> [iid]),
      iw_refused := iw_refused w @ (case result of Inl _ \<Rightarrow> [pn_local_id x] | Inr _ \<Rightarrow> [])\<rparr>)"
| iw_delete: "DeleteItemTask iid \<in> set (spawned (iw w)) \<Longrightarrow>
    item_step w (w\<lparr>iw := (iw w)\<lparr>spawned := remove1 (DeleteItemTask iid) (spawned (iw w))\<rparr>,
      iw_deleted := iw_deleted w @ (if created (iw w) then [iid] else [])\<rparr>)"
| iw_deleted: "impl (iw w) = Some p \<Longrightarrow> FinishDeleteMonitoredItem iid response p = Some (st, p') \<Longrightarrow>
    item_step w (w\<lparr>iw := (iw w)\<lparr>impl := Some p'\<rparr>\<rparr>)"
| iw_sending: "impl (iw w) = Some p \<Longrightarrow>
    item_step w (w\<lparr>iw := (iw w)\<lparr>impl := Some (p\<lparr>pending_acks := acks, outstanding_publishes := out\<rparr>)\<rparr>\<rparr>)"
| iw_publish: "PublishLoopRound response (iw w) = Some (goes_on, c) \<Longrightarrow> item_step w (w\<lparr>iw := c\<rparr>)"
| iw_loop: "item_step w (on_iw (snd \<circ> PublishLoopHead is_connected) w)"
| iw_read: "item_step w (on_iw (snd \<circ> ReadNext v n) w)"

subsection \<open>What is under way\<close>

fun item_tasks :: "coroutine list \<Rightarrow> pending_item list" where
  "item_tasks [] = []"
| "item_tasks (CreateItemTask x # ts) = x # item_tasks ts"
| "item_tasks (_ # ts) = item_tasks ts"

lemma item_tasks_append [simp]: "item_tasks (xs @ ys) = item_tasks xs @ item_tasks ys"
  by (induction xs rule: item_tasks.induct) auto

lemma item_tasks_map [simp]: "item_tasks (map CreateItemTask xs) = xs"
  by (induction xs) auto

lemma item_tasks_set [simp]: "x \<in> set (item_tasks ts) \<longleftrightarrow> CreateItemTask x \<in> set ts"
  by (induction ts rule: item_tasks.induct) auto

lemma item_tasks_remove_create:
  "CreateItemTask x \<in> set ts \<Longrightarrow> mset (item_tasks ts) = add_mset x (mset (item_tasks (remove1 (CreateItemTask x) ts)))"
  by (induction ts rule: item_tasks.induct) auto

lemma item_tasks_remove_delete [simp]: "item_tasks (remove1 (DeleteItemTask iid) ts) = item_tasks ts"
  by (induction ts rule: item_tasks.induct) auto

definition open_items :: "item_world \<Rightarrow> pending_item multiset" where
  "open_items w = mset (pending_subscriptions (iw w)) + mset (item_tasks (spawned (iw w))) + mset (map fst (iw_flight w))"

abbreviation open_ids :: "item_world \<Rightarrow> u32 multiset" where
  "open_ids w \<equiv> image_mset pn_local_id (open_items w)"

definition ids_inv :: "item_world \<Rightarrow> bool" where
  "ids_inv w \<longleftrightarrow> 0 < unat (next_local_id (iw w)) \<and> distinct (map fst (items_by_local_id (iw w)))
     \<and> (\<forall>lid \<in> fst ` set (items_by_local_id (iw w)). unat lid < unat (next_local_id (iw w)))
     \<and> (\<forall>lid \<in># open_ids w. unat lid < unat (next_local_id (iw w)))
     \<and> (\<forall>lid. count (open_ids w) lid \<le> 1)
     \<and> (\<forall>lid v sid. (lid, v, sid) \<in> set (items_by_local_id (iw w)) \<longrightarrow> lid \<in># open_ids w \<longrightarrow> sid = 0)"

definition live_inv :: "item_world \<Rightarrow> bool" where
  "live_inv w \<longleftrightarrow> (impl (iw w) \<noteq> None \<longrightarrow> is_creating (iw w) \<noteq> created (iw w))
     \<and> (impl (iw w) = None \<longrightarrow> \<not> is_creating (iw w))
     \<and> (pending_subscriptions (iw w) \<noteq> [] \<longrightarrow> is_creating (iw w))
     \<and> (\<not> created (iw w) \<longrightarrow> item_tasks (spawned (iw w)) = [] \<and> iw_flight w = []
          \<and> (\<forall>iid. DeleteItemTask iid \<notin> set (spawned (iw w)))
          \<and> (\<forall>lid v sid. (lid, v, sid) \<in> set (items_by_local_id (iw w)) \<longrightarrow> sid = 0))"

definition placed_inv :: "item_world \<Rightarrow> bool" where
  "placed_inv w \<longleftrightarrow> (\<forall>lid v. (lid, v, 0) \<in> set (items_by_local_id (iw w)) \<longrightarrow>
     lid \<in># open_ids w \<or> lid \<in> set (iw_refused w) \<or> lid \<in> set (iw_dropped w))"

definition owned_inv :: "item_world \<Rightarrow> bool" where
  "owned_inv w \<longleftrightarrow> 0 \<notin> set (iw_granted w) \<and> (\<forall>iid \<in> set (iw_granted w).
     iid \<in> (snd \<circ> snd) ` set (items_by_local_id (iw w)) \<or> DeleteItemTask iid \<in> set (spawned (iw w)) \<or> iid \<in> set (iw_deleted w))"

definition core_inv :: "item_world \<Rightarrow> bool" where
  "core_inv w \<longleftrightarrow> ids_inv w \<and> live_inv w \<and> placed_inv w \<and> owned_inv w"

lemmas core_defs = core_inv_def ids_inv_def live_inv_def placed_inv_def owned_inv_def open_items_def

text \<open>Changes of the queues, and of the implementation that keep it created, change nothing of this.\<close>

definition same_core :: "client_subscription \<Rightarrow> client_subscription \<Rightarrow> bool" where
  "same_core c c' \<longleftrightarrow> items_by_local_id c' = items_by_local_id c \<and> pending_subscriptions c' = pending_subscriptions c
     \<and> spawned c' = spawned c \<and> next_local_id c' = next_local_id c \<and> is_creating c' = is_creating c
     \<and> (impl c' = None) = (impl c = None) \<and> created c' = created c"

lemma same_core_refl [simp]: "same_core c c"
  by (simp add: same_core_def)

lemma same_core_trans: "same_core a b \<Longrightarrow> same_core b c \<Longrightarrow> same_core a c"
  by (simp add: same_core_def)

lemma core_inv_same: "same_core (iw w) c \<Longrightarrow> core_inv w \<Longrightarrow> core_inv (w\<lparr>iw := c\<rparr>)"
  by (simp add: same_core_def core_defs)

lemma same_core_Push [simp]: "same_core c (PushNotification v n c)"
  by (simp add: PushNotification_def same_core_def created_def split: option.split)

lemma same_core_dispatch: "same_core c (fold run_dispatch ds c)"
proof (induction ds arbitrary: c)
  case (Cons d ds)
  have "same_core c (run_dispatch d c)" by (cases "(d, c)" rule: run_dispatch.cases) auto
  then show ?case using Cons same_core_trans by fastforce
qed simp

lemma same_core_views:
  "same_core c (snd (CreateView c))" "same_core c (snd (ReadNext v n c))" "same_core c (snd (PublishLoopHead b c))"
  by (auto simp: CreateView_def ReadNext_def PublishLoopHead_def same_core_def created_def Let_def split: option.split)

lemma same_core_impl: "impl c = Some p \<Longrightarrow> is_created p' = is_created p \<Longrightarrow> same_core c (c\<lparr>impl := Some p'\<rparr>)"
  by (simp add: same_core_def created_def)

lemma same_core_running [simp]: "same_core c (c'\<lparr>publish_loop_running := b\<rparr>) = same_core c c'"
  by (simp add: same_core_def created_def)

lemma same_core_publish: "PublishLoopRound response c = Some (b, c') \<Longrightarrow> same_core c c'"
proof -
  assume a: "PublishLoopRound response c = Some (b, c')"
  then obtain p st ds p' where p: "impl c = Some p" and f: "FinishPublish response p = Some (st, ds, p')"
    by (auto simp: PublishLoopRound_def split: option.splits)
  have "same_core c (fold run_dispatch ds (c\<lparr>impl := Some p'\<rparr>))"
    using same_core_trans [OF same_core_impl [OF p FinishPublish_fields(5) [OF f]] same_core_dispatch] .
  then show ?thesis using a by (auto simp: PublishLoopRound_def p f Let_def split: if_splits)
qed

subsection \<open>Every operation keeps it\<close>

lemma RemoveItem_fields [simp]:
  "items_by_local_id (RemoveItem lid c) = AList.delete lid (items_by_local_id c)"
  "pending_subscriptions (RemoveItem lid c) = filter (\<lambda>x. pn_local_id x \<noteq> lid) (pending_subscriptions c)"
  "item_tasks (spawned (RemoveItem lid c)) = item_tasks (spawned c)"
  "next_local_id (RemoveItem lid c) = next_local_id c" "is_creating (RemoveItem lid c) = is_creating c"
  "impl (RemoveItem lid c) = impl c" "view_states (RemoveItem lid c) = view_states c" "views (RemoveItem lid c) = views c"
  by (auto simp: RemoveItem_def CoSpawn_def Let_def split: option.split)

lemma RemoveItem_deletes:
  "set (spawned (RemoveItem lid c)) = set (spawned c) \<union>
     {DeleteItemTask sid |sid v. map_of (items_by_local_id c) lid = Some (v, sid) \<and> sid \<noteq> 0}"
  by (auto simp: RemoveItem_def CoSpawn_def Let_def split: option.split)

lemma created_RemoveItem [simp]: "created (RemoveItem lid c) = created c"
  by (simp add: created_def)

lemma delete_set: "e \<in> set (AList.delete k xs) \<longleftrightarrow> e \<in> set xs \<and> fst e \<noteq> k"
  by (induction xs) auto

lemma ids_inv_shrink:
  assumes "ids_inv w" and "set (items_by_local_id (iw w')) \<subseteq> set (items_by_local_id (iw w))"
    and "distinct (map fst (items_by_local_id (iw w')))" and "next_local_id (iw w') = next_local_id (iw w)"
    and "open_items w' \<subseteq># open_items w"
  shows "ids_inv w'"
proof -
  have sub: "open_ids w' \<subseteq># open_ids w" by (rule image_mset_subseteq_mono [OF assms(5)])
  have in_sub: "i \<in># open_ids w' \<Longrightarrow> i \<in># open_ids w" for i by (rule mset_subset_eqD [OF sub])
  have "count (open_ids w') i \<le> 1" for i
    using mset_subset_eq_count [OF sub, of i] assms(1) unfolding ids_inv_def by (meson order_trans)
  moreover have "\<forall>lid \<in> fst ` set (items_by_local_id (iw w')). unat lid < unat (next_local_id (iw w'))"
    using assms(1,2,4) unfolding ids_inv_def by auto
  moreover have "\<forall>lid \<in># open_ids w'. unat lid < unat (next_local_id (iw w'))"
    using assms(1,4) in_sub unfolding ids_inv_def by metis
  moreover have "sid = 0" if "(lid, v, sid) \<in> set (items_by_local_id (iw w'))" "lid \<in># open_ids w'" for lid v sid
    using assms(1,2) in_sub [OF that(2)] that(1) unfolding ids_inv_def by blast
  moreover have "0 < unat (next_local_id (iw w'))" using assms(1,4) by (simp add: ids_inv_def)
  ultimately show ?thesis using assms(3) unfolding ids_inv_def by blast
qed

lemma core_inv_remove:
  assumes "core_inv w"
  shows "core_inv (on_iw (RemoveItem lid) w)"
proof -
  let ?w = "on_iw (RemoveItem lid) w"
  have inv: "ids_inv w" "live_inv w" "placed_inv w" "owned_inv w" using assms by (simp_all add: core_inv_def)
  have sub: "open_items ?w \<subseteq># open_items w"
    by (simp add: open_items_def multiset_filter_subset)
  have keep: "i \<in># open_ids ?w" if "i \<in># open_ids w" "i \<noteq> lid" for i
    using that by (auto simp: open_items_def image_iff)
  have dist: "distinct (map fst (items_by_local_id (iw w)))" using inv(1) by (simp add: ids_inv_def)
  have "ids_inv ?w"
    by (rule ids_inv_shrink [OF inv(1) _ _ _ sub]) (use delete_subset(1) [of lid "items_by_local_id (iw w)"] delete_subset(2) [OF dist] in simp_all)
  moreover have "live_inv ?w"
  proof -
    have "DeleteItemTask iid \<notin> set (spawned (iw w)) \<Longrightarrow> \<forall>l v sid. (l, v, sid) \<in> set (items_by_local_id (iw w)) \<longrightarrow> sid = 0
        \<Longrightarrow> DeleteItemTask iid \<notin> set (spawned (RemoveItem lid (iw w)))" for iid
      unfolding RemoveItem_deletes by (auto dest: map_of_SomeD)
    then show ?thesis using inv(2) by (auto simp: live_inv_def delete_set)
  qed
  moreover have "placed_inv ?w"
    using inv(3) keep by (auto simp: placed_inv_def delete_set)
  moreover have "owned_inv ?w"
    unfolding owned_inv_def
  proof (intro conjI ballI)
    show "0 \<notin> set (iw_granted ?w)" using inv(4) by (simp add: owned_inv_def)
    fix iid assume "iid \<in> set (iw_granted ?w)"
    then have g: "iid \<in> set (iw_granted w)" "iid \<noteq> 0" using inv(4) by (auto simp: owned_inv_def)
    then consider l v where "(l, v, iid) \<in> set (items_by_local_id (iw w))" | "DeleteItemTask iid \<in> set (spawned (iw w))"
      | "iid \<in> set (iw_deleted w)"
      using inv(4) by (force simp: owned_inv_def)
    then show "iid \<in> (snd \<circ> snd) ` set (items_by_local_id (iw ?w)) \<or> DeleteItemTask iid \<in> set (spawned (iw ?w))
        \<or> iid \<in> set (iw_deleted ?w)"
    proof cases
      case (1 l v)
      show ?thesis
      proof (cases "l = lid")
        case True
        then have "map_of (items_by_local_id (iw w)) lid = Some (v, iid)" using 1 dist by simp
        then show ?thesis using g(2) by (simp add: RemoveItem_deletes)
      next
        case False
        then have "(l, v, iid) \<in> set (items_by_local_id (iw ?w))" using 1 by (simp add: delete_set)
        then show ?thesis by force
      qed
    qed (simp_all add: RemoveItem_deletes)
  qed
  ultimately show ?thesis by (simp add: core_inv_def)
qed

lemma core_inv_fold_remove: "core_inv w \<Longrightarrow> core_inv (on_iw (fold RemoveItem ids) w)"
proof (induction ids arbitrary: w)
  case (Cons i ids)
  from Cons.IH [OF core_inv_remove [OF Cons.prems, of i]] show ?case by simp
qed simp

lemma core_inv_remove_items: "core_inv w \<Longrightarrow> core_inv (on_iw (\<lambda>c. snd (fold (remove_view_item v) ids (rs, c))) w)"
proof (induction ids arbitrary: w rs)
  case (Cons i ids)
  have "snd (remove_view_item v i (rs, iw w)) = iw w \<or> snd (remove_view_item v i (rs, iw w)) = RemoveItem i (iw w)"
    by (simp add: remove_view_item_def)
  then have "core_inv (on_iw (\<lambda>c. snd (remove_view_item v i (rs, c))) w)"
    using Cons.prems core_inv_remove [OF Cons.prems, of i] by auto
  from Cons.IH [OF this, of "fst (remove_view_item v i (rs, iw w))"] show ?case by simp
qed simp

lemma core_inv_close: "core_inv w \<Longrightarrow> core_inv (on_iw (CloseView v st) w)"
proof -
  assume a: "core_inv w"
  define close where "close = (\<lambda>c :: client_subscription. c\<lparr>view_states := AList.update v \<lparr>vw_pending_notifications = [],
      close_status = st, view_closed = True\<rparr> (view_states c), views := filter (\<lambda>w. w \<noteq> v) (views c)\<rparr>)"
  have "same_core (iw w) (close (iw w))" by (simp add: close_def same_core_def created_def)
  from core_inv_fold_remove [OF core_inv_same [OF this a]] a show ?thesis
    by (simp add: CloseView_def Let_def close_def split: option.split)
qed

lemma core_inv_EnsureCreated:
  assumes "core_inv w"
  shows "core_inv (on_iw EnsureCreated w)" "impl (EnsureCreated (iw w)) \<noteq> None"
    "next_local_id (EnsureCreated (iw w)) = next_local_id (iw w)" "view_states (EnsureCreated (iw w)) = view_states (iw w)"
proof -
  show "core_inv (on_iw EnsureCreated w)"
  proof (cases "impl (iw w) \<noteq> None \<or> is_creating (iw w)")
    case False
    then have "\<not> created (iw w)" by (simp add: created_def)
    then have "live_inv (on_iw EnsureCreated w)"
      using assms False
      by (auto simp: core_inv_def live_inv_def EnsureCreated_def CoSpawn_def created_def ClientProtocolSubscription_def)
    moreover have "ids_inv (on_iw EnsureCreated w)" "placed_inv (on_iw EnsureCreated w)" "owned_inv (on_iw EnsureCreated w)"
      using assms by (simp_all add: core_defs EnsureCreated_def CoSpawn_def)
    ultimately show ?thesis by (simp add: core_inv_def)
  qed (use assms in \<open>auto simp: EnsureCreated_def\<close>)
  show "impl (EnsureCreated (iw w)) \<noteq> None" using assms
    by (auto simp: EnsureCreated_def CoSpawn_def core_inv_def live_inv_def)
qed (simp_all add: EnsureCreated_def CoSpawn_def)

lemma core_inv_add_item:
  assumes inv: "core_inv w" and "impl (iw w) \<noteq> None" and wrap: "unat (next_local_id (iw w)) + 1 < 2 ^ 32"
  shows "core_inv (on_iw (\<lambda>c. snd (add_item v req (rs, c))) w)"
    "impl (snd (add_item v req (rs, iw w))) = impl (iw w)"
    "unat (next_local_id (snd (add_item v req (rs, iw w)))) = unat (next_local_id (iw w)) + 1"
    "view_states (snd (add_item v req (rs, iw w))) = view_states (iw w)"
proof -
  let ?lid = "next_local_id (iw w)" and ?c = "snd (add_item v req (rs, iw w))"
  let ?w = "on_iw (\<lambda>c. snd (add_item v req (rs, c))) w"
  let ?p = "requested_parameters req"
  let ?x = "PendingSubscription v ?lid (item_to_monitor req) ?p (client_handle ?p)"
  show nxt: "unat (next_local_id ?c) = unat ?lid + 1"
    using wrap by (simp add: add_item_def Let_def SpawnCreateMonitoredItem_def CoSpawn_def unat_word_ariths)
  show "impl ?c = impl (iw w)" "view_states ?c = view_states (iw w)"
    by (simp_all add: add_item_def Let_def SpawnCreateMonitoredItem_def CoSpawn_def)
  have i: "ids_inv w" "live_inv w" "placed_inv w" "owned_inv w" using inv by (simp_all add: core_inv_def)
  have fresh: "?lid \<notin> fst ` set (items_by_local_id (iw w))" and fresh_open: "?lid \<notin># open_ids w"
    using i(1) unfolding ids_inv_def by blast+
  have items: "items_by_local_id ?c = items_by_local_id (iw w) @ [(?lid, v, 0)]"
    using fresh by (simp add: add_item_def Let_def SpawnCreateMonitoredItem_def CoSpawn_def emplace_def map_of_eq_None_iff)
  have opens: "open_items ?w = add_mset ?x (open_items w)"
    by (simp add: open_items_def add_item_def Let_def SpawnCreateMonitoredItem_def CoSpawn_def)
  have spawned: "set (spawned (iw w)) \<subseteq> set (spawned ?c)" "\<And>iid. DeleteItemTask iid \<in> set (spawned ?c) \<Longrightarrow> DeleteItemTask iid \<in> set (spawned (iw w))"
    by (auto simp: add_item_def Let_def SpawnCreateMonitoredItem_def CoSpawn_def split: if_splits)
  have "ids_inv ?w"
    unfolding ids_inv_def
  proof (intro conjI allI ballI impI)
    have "count (open_ids w) ?lid = 0" using fresh_open by (rule not_in_iff [THEN iffD1])
    then show "count (open_ids ?w) lid \<le> 1" for lid
      using i(1) by (cases "lid = ?lid") (simp_all add: opens ids_inv_def)
    show "distinct (map fst (items_by_local_id (iw ?w)))" using i(1) fresh by (simp add: items ids_inv_def)
    show "unat lid < unat (next_local_id (iw ?w))" if "lid \<in> fst ` set (items_by_local_id (iw ?w))" for lid
      using that i(1) by (auto simp: items ids_inv_def nxt)
    show "unat lid < unat (next_local_id (iw ?w))" if "lid \<in># open_ids ?w" for lid
      using that i(1) by (auto simp: opens ids_inv_def nxt)
    show "sid = 0" if "(lid, u, sid) \<in> set (items_by_local_id (iw ?w))" "lid \<in># open_ids ?w" for lid u sid
      using that i(1) fresh by (force simp: items opens ids_inv_def)
  qed (simp add: nxt)
  moreover have "live_inv ?w"
    using i(2) assms(2)
    by (auto simp: live_inv_def add_item_def Let_def SpawnCreateMonitoredItem_def CoSpawn_def created_def emplace_def
        split: if_splits)
  moreover have "placed_inv ?w" using i(3) by (auto simp: placed_inv_def items opens)
  moreover have "owned_inv ?w" using i(4) spawned(1) by (auto simp: owned_inv_def items image_Un)
  ultimately show "core_inv ?w" by (simp add: core_inv_def)
qed

lemma core_inv_add_items:
  "core_inv w \<Longrightarrow> impl (iw w) \<noteq> None \<Longrightarrow> unat (next_local_id (iw w)) + length reqs < 2 ^ 32 \<Longrightarrow>
   core_inv (on_iw (\<lambda>c. snd (fold (add_item v) reqs (rs, c))) w)"
proof (induction reqs arbitrary: w rs)
  case (Cons r reqs)
  let ?w = "on_iw (\<lambda>c. snd (add_item v r (rs, c))) w"
  have "unat (next_local_id (iw w)) + 1 < 2 ^ 32" using Cons.prems(3) by simp
  note a = core_inv_add_item [OF Cons.prems(1,2) this, of v r rs]
  have "core_inv (on_iw (\<lambda>c. snd (fold (add_item v) reqs (fst (add_item v r (rs, iw w)), c))) ?w)"
    using Cons.prems a(2,3) by (intro Cons.IH [OF a(1)]) simp_all
  then show ?case by simp
qed simp

lemma core_inv_AddViewItems:
  assumes "core_inv w" "unat (next_local_id (iw w)) + length reqs < 2 ^ 32"
  shows "core_inv (on_iw (snd \<circ> AddViewItems v reqs) w)"
  using core_inv_add_items [OF core_inv_EnsureCreated(1) [OF assms(1)], of reqs v "[]"]
    core_inv_EnsureCreated(2,3) [OF assms(1)] assms(2)
  by (simp add: AddViewItems_def)

lemma fold_spawn: "fold SpawnCreateMonitoredItem xs c = c\<lparr>spawned := spawned c @ map CreateItemTask xs\<rparr>"
  by (induction xs arbitrary: c) (auto simp: SpawnCreateMonitoredItem_def CoSpawn_def)

lemma FinishCreate_created:
  assumes "FinishCreate result p = Some (st, p')" and "\<not> status_bad st"
  shows "is_created p'"
proof -
  obtain n where n: "NarrowResponse as_create_subscription result = Some n" using assms(1) by (auto simp: FinishCreate_def)
  then show ?thesis
    using assms NarrowResponse_bad [of as_create_subscription result st]
    by (cases n) (auto simp: FinishCreate_def split: if_splits)
qed

lemma FinishEnsureCreated_cases:
  assumes "FinishEnsureCreated result c = Some c'"
  obtains (failed) p st p' where "impl c = Some p" "FinishCreate result p = Some (st, p')" "status_bad st"
      "c' = c\<lparr>is_creating := False, impl := None, pending_subscriptions := []\<rparr>"
  | (subscribed) p st p' extra where "impl c = Some p" "FinishCreate result p = Some (st, p')" "\<not> status_bad st"
      "extra = (if publish_loop_running c then [] else [PublishTask])"
      "c' = c\<lparr>impl := Some p', is_creating := False, pending_subscriptions := [], publish_loop_running := True,
         spawned := spawned c @ map CreateItemTask (pending_subscriptions c) @ extra\<rparr>"
proof -
  obtain p st p' where p: "impl c = Some p" "FinishCreate result p = Some (st, p')"
    using assms by (auto simp: FinishEnsureCreated_def split: option.splits)
  show thesis
  proof (cases "status_bad st")
    case True
    then show thesis using failed [OF p] assms p by (simp add: FinishEnsureCreated_def)
  next
    case False
    then show thesis using subscribed [OF p False refl] assms p
      by (auto simp: FinishEnsureCreated_def FlushPendingSubscriptions_def fold_spawn StartPublishLoop_def CoSpawn_def)
  qed
qed

lemma core_inv_subscribed:
  assumes inv: "core_inv w" and "is_creating (iw w)" and fin: "FinishEnsureCreated result (iw w) = Some c"
  shows "core_inv (w\<lparr>iw := c, iw_dropped := iw_dropped w @
      (if impl c = None then map pn_local_id (pending_subscriptions (iw w)) else [])\<rparr>)"
    (is "core_inv ?w")
proof -
  have i: "ids_inv w" "live_inv w" "placed_inv w" "owned_inv w" using inv by (simp_all add: core_inv_def)
  have idle: "\<not> created (iw w)" "item_tasks (spawned (iw w)) = []" "iw_flight w = []"
    "\<forall>iid. DeleteItemTask iid \<notin> set (spawned (iw w))" "\<forall>lid v sid. (lid, v, sid) \<in> set (items_by_local_id (iw w)) \<longrightarrow> sid = 0"
    using i(2) assms(2) by (auto simp: live_inv_def)
  from fin show ?thesis
  proof (cases rule: FinishEnsureCreated_cases)
    case (failed p st p')
    note c = failed(4)
    have "ids_inv ?w" by (rule ids_inv_shrink [OF i(1)]) (use i(1) in \<open>simp_all add: c open_items_def idle ids_inv_def\<close>)
    moreover have "live_inv ?w" using idle by (simp add: live_inv_def c created_def)
    moreover have "placed_inv ?w" using i(3) idle by (auto simp: placed_inv_def c open_items_def)
    moreover have "owned_inv ?w" using i(4) by (simp add: owned_inv_def c)
    ultimately show ?thesis by (simp add: core_inv_def)
  next
    case (subscribed p st p' extra)
    note c = subscribed(5)
    have opens: "open_items ?w = open_items w" by (simp add: open_items_def c idle subscribed(4))
    have "ids_inv ?w" using i(1) opens by (simp add: ids_inv_def c)
    moreover have "live_inv ?w" using FinishCreate_created [OF subscribed(2,3)] by (simp add: live_inv_def c created_def)
    moreover have "placed_inv ?w" using i(3) opens by (simp add: placed_inv_def c)
    moreover have "owned_inv ?w" using i(4) by (auto simp: owned_inv_def c)
    ultimately show ?thesis by (simp add: core_inv_def)
  qed
qed

lemma BeginCreate_created:
  "is_created p \<Longrightarrow> \<exists>h req p'. BeginCreateMonitoredItem rv params cb ecb p = (Inr (h, req), p') \<and> is_created p'"
  by (auto simp: BeginCreateMonitoredItem_def Let_def split: option.split)

lemma core_inv_start:
  assumes inv: "core_inv w" and x: "CreateItemTask x \<in> set (spawned (iw w))"
    and s: "StartCreateItem x ((iw w)\<lparr>spawned := remove1 (CreateItemTask x) (spawned (iw w))\<rparr>) = (r, c)"
  shows "\<exists>h req. r = Requested h req" (is ?thesis1)
    and "core_inv (w\<lparr>iw := c, iw_flight := iw_flight w @ [(x, h)]\<rparr>)" (is "core_inv ?w")
proof -
  have i: "ids_inv w" "live_inv w" "placed_inv w" "owned_inv w" using inv by (simp_all add: core_inv_def)
  have "item_tasks (spawned (iw w)) \<noteq> []" using x by (metis item_tasks_set list.set_intros(1) empty_iff list.set(1))
  then obtain p where p: "impl (iw w) = Some p" "is_created p" "\<not> is_creating (iw w)"
    using i(2) by (auto simp: live_inv_def created_def split: option.splits)
  obtain h' req p' where b: "BeginCreateMonitoredItem (pn_read_value_id x) ((pn_params x)\<lparr>client_handle := 0\<rparr>)
      (Some (pn_view x, pn_client_handle x)) (Some (pn_view x, pn_client_handle x)) p = (Inr (h', req), p')" "is_created p'"
    using BeginCreate_created [OF p(2)] by blast
  have c: "r = Requested h' req" "c = (iw w)\<lparr>spawned := remove1 (CreateItemTask x) (spawned (iw w)), impl := Some p'\<rparr>"
    using s by (auto simp: StartCreateItem_def p(1) b(1))
  then show ?thesis1 by blast
  have opens: "open_items ?w = open_items w"
    using item_tasks_remove_create [OF x] by (simp add: open_items_def c)
  have "ids_inv ?w" using i(1) opens by (simp add: ids_inv_def c)
  moreover have "live_inv ?w" using i(2) b(2) p by (simp add: live_inv_def c created_def)
  moreover have "placed_inv ?w" using i(3) opens by (simp add: placed_inv_def c)
  moreover have "owned_inv ?w" using i(4) by (simp add: owned_inv_def c in_set_remove1)
  ultimately show "core_inv ?w" by (simp add: core_inv_def)
qed

lemma update_set:
  "distinct (map fst xs) \<Longrightarrow> e \<in> set (AList.update k v xs) \<longleftrightarrow> e = (k, v) \<or> e \<in> set xs \<and> fst e \<noteq> k"
  by (induction xs) auto

text \<open>The end of a creation takes its item out of what is under way, and settles it.\<close>

lemma finish_opens:
  assumes "(x, h) \<in> set (iw_flight w)" and "pending_subscriptions c = pending_subscriptions (iw w)"
    and "item_tasks (spawned c) = item_tasks (spawned (iw w))"
  shows "open_items w = add_mset x (open_items (w\<lparr>iw := c, iw_flight := remove1 (x, h) (iw_flight w), iw_granted := g, iw_refused := f\<rparr>))"
proof -
  have "mset (iw_flight w) = add_mset (x, h) (mset (remove1 (x, h) (iw_flight w)))" using assms(1) by simp
  then have "mset (map fst (iw_flight w)) = add_mset x (mset (map fst (remove1 (x, h) (iw_flight w))))"
    by (metis fst_conv image_mset_add_mset mset_map)
  then show ?thesis using assms(2,3) by (simp add: open_items_def)
qed

lemma core_inv_refused:
  assumes inv: "core_inv w" and x: "(x, h) \<in> set (iw_flight w)" and same: "same_core (iw w) c"
  shows "core_inv (w\<lparr>iw := c, iw_flight := remove1 (x, h) (iw_flight w), iw_granted := iw_granted w,
    iw_refused := iw_refused w @ [pn_local_id x]\<rparr>)" (is "core_inv ?w")
proof -
  have i: "ids_inv w" "live_inv w" "placed_inv w" "owned_inv w" using inv by (simp_all add: core_inv_def)
  note s = same [unfolded same_core_def]
  have opens: "open_items w = add_mset x (open_items ?w)" by (rule finish_opens [OF x]) (use s in simp_all)
  have "ids_inv ?w" by (rule ids_inv_shrink [OF i(1)]) (use i(1) s opens in \<open>simp_all add: ids_inv_def\<close>)
  moreover have "live_inv ?w" using i(2) s x by (auto simp: live_inv_def)
  moreover have "placed_inv ?w" using i(3) s by (auto simp: placed_inv_def opens)
  moreover have "owned_inv ?w" using i(4) s by (simp add: owned_inv_def)
  ultimately show ?thesis by (simp add: core_inv_def)
qed

lemma ids_invD:
  assumes "ids_inv w"
  shows "0 < unat (next_local_id (iw w))" "distinct (map fst (items_by_local_id (iw w)))"
    "lid \<in> fst ` set (items_by_local_id (iw w)) \<Longrightarrow> unat lid < unat (next_local_id (iw w))"
    "lid \<in># open_ids w \<Longrightarrow> unat lid < unat (next_local_id (iw w))" "count (open_ids w) lid \<le> 1"
    "(lid, v, sid) \<in> set (items_by_local_id (iw w)) \<Longrightarrow> lid \<in># open_ids w \<Longrightarrow> sid = 0"
  using assms unfolding ids_inv_def by blast+

lemma core_inv_granted:
  assumes inv: "core_inv w" and x: "(x, h) \<in> set (iw_flight w)" and same: "same_core (iw w) c"
    and iid: "iid \<noteq> 0"
  shows "core_inv (w\<lparr>iw := EndCreateItem x (Inr (iid, h)) c, iw_flight := remove1 (x, h) (iw_flight w),
    iw_granted := iw_granted w @ [iid], iw_refused := iw_refused w\<rparr>)" (is "core_inv ?w")
proof -
  have i: "ids_inv w" "live_inv w" "placed_inv w" "owned_inv w" using inv by (simp_all add: core_inv_def)
  note s = same [unfolded same_core_def]
  let ?lid = "pn_local_id x" and ?items = "items_by_local_id (iw w)"
  have dist: "distinct (map fst ?items)" using i(1) by (simp add: ids_inv_def)
  have created: "created (iw w)" using i(2) x by (auto simp: live_inv_def)
  have pend: "pending_subscriptions (iw ?w) = pending_subscriptions (iw w)" "item_tasks (spawned (iw ?w)) = item_tasks (spawned (iw w))"
    "next_local_id (iw ?w) = next_local_id (iw w)" "is_creating (iw ?w) = is_creating (iw w)"
    "created (iw ?w) = created (iw w)" "(impl (iw ?w) = None) = (impl (iw w) = None)"
    using s by (auto simp: EndCreateItem_def CoSpawn_def created_def split: option.split)
  have opens: "open_items w = add_mset x (open_items ?w)" by (rule finish_opens [OF x]) (use pend in simp_all)
  have sub: "open_ids ?w \<subseteq># open_ids w" and lid_open: "?lid \<in># open_ids w" unfolding opens by simp_all
  have once: "?lid \<notin># open_ids ?w"
  proof -
    have "count (open_ids w) ?lid \<le> 1" using i(1) by (simp add: ids_inv_def)
    then have "count (open_ids ?w) ?lid = 0" by (simp add: opens)
    then show ?thesis by (rule not_in_iff [THEN iffD2])
  qed
  have still: "l \<in># open_ids ?w" if "l \<in># open_ids w" "l \<noteq> ?lid" for l using that by (auto simp: opens)
  have live: "live_inv ?w" using i(2) created pend by (simp add: live_inv_def)
  show ?thesis
  proof (cases "map_of ?items ?lid")
    case None
    then have c: "items_by_local_id (iw ?w) = ?items" "spawned (iw ?w) = spawned (iw w) @ [DeleteItemTask iid]"
      using s by (simp_all add: EndCreateItem_def CoSpawn_def)
    have gone: "l \<noteq> ?lid" if "(l, e) \<in> set ?items" for l e
      using that None by (force simp: map_of_eq_None_iff)
    have "ids_inv ?w" by (rule ids_inv_shrink [OF i(1)]) (use dist c pend opens in simp_all)
    moreover have "placed_inv ?w" using i(3) still gone unfolding placed_inv_def c(1) by auto
    moreover have "owned_inv ?w" using i(4) iid unfolding owned_inv_def c by auto
    ultimately show ?thesis using live by (simp add: core_inv_def)
  next
    case (Some e)
    obtain v sid where e: "e = (v, sid)" by (cases e)
    have c: "items_by_local_id (iw ?w) = AList.update ?lid (v, iid) ?items" "spawned (iw ?w) = spawned (iw w)"
      using s Some e by (simp_all add: EndCreateItem_def)
    have mem: "y \<in> set (items_by_local_id (EndCreateItem x (Inr (iid, h)) c)) \<longleftrightarrow> y = (?lid, v, iid) \<or> y \<in> set ?items \<and> fst y \<noteq> ?lid" for y
      using c(1) update_set [OF dist] by simp
    have key: "?lid \<in> fst ` set ?items" using Some by (metis map_of_eq_None_iff option.distinct(1))
    have "ids_inv ?w"
      unfolding ids_inv_def
    proof (intro conjI allI ballI impI)
      show "count (open_ids ?w) l \<le> 1" for l by (rule le_trans [OF mset_subset_eq_count [OF sub] ids_invD(5) [OF i(1)]])
      show "distinct (map fst (items_by_local_id (iw ?w)))" unfolding c by (rule distinct_update [OF dist])
      show "unat l < unat (next_local_id (iw ?w))" if l: "l \<in> fst ` set (items_by_local_id (iw ?w))" for l
      proof -
        from l have "l \<in> fst ` set ?items" using key by (force simp: mem)
        then show ?thesis using ids_invD(3) [OF i(1)] pend(3) by simp
      qed
      show "unat l < unat (next_local_id (iw ?w))" if "l \<in># open_ids ?w" for l
        using ids_invD(4) [OF i(1) mset_subset_eqD [OF sub that]] pend(3) by simp
      show "t = 0" if a: "(l, u, t) \<in> set (items_by_local_id (iw ?w))" "l \<in># open_ids ?w" for l u t
      proof -
        have "l \<noteq> ?lid" using once a(2) by blast
        then show ?thesis using a(1) ids_invD(6) [OF i(1) _ mset_subset_eqD [OF sub a(2)]] by (auto simp: mem)
      qed
      show "0 < unat (next_local_id (iw ?w))" using ids_invD(1) [OF i(1)] pend(3) by simp
    qed
    moreover have "placed_inv ?w" using i(3) still iid unfolding placed_inv_def by (auto simp: mem)
    moreover have "owned_inv ?w"
      unfolding owned_inv_def
    proof (intro conjI ballI)
      show "0 \<notin> set (iw_granted ?w)" using i(4) iid by (simp add: owned_inv_def)
      fix j assume "j \<in> set (iw_granted ?w)"
      then consider "j = iid" | l u where "(l, u, j) \<in> set ?items" "j \<noteq> 0" | "DeleteItemTask j \<in> set (spawned (iw w))" | "j \<in> set (iw_deleted w)"
        using i(4) by (force simp: owned_inv_def)
      then show "j \<in> (snd \<circ> snd) ` set (items_by_local_id (iw ?w)) \<or> DeleteItemTask j \<in> set (spawned (iw ?w)) \<or> j \<in> set (iw_deleted ?w)"
      proof cases
        case 1
        have "(?lid, v, iid) \<in> set (items_by_local_id (iw ?w))" by (simp add: mem)
        then show ?thesis using 1 by force
      next
        case (2 l u)
        have "l \<noteq> ?lid" using 2 ids_invD(6) [OF i(1) _ lid_open] by blast
        then have "(l, u, j) \<in> set (items_by_local_id (iw ?w))" using 2 by (simp add: mem)
        then show ?thesis by force
      next
        case 3
        then show ?thesis unfolding c(2) by blast
      qed simp
    qed
    ultimately show ?thesis using live by (simp add: core_inv_def)
  qed
qed

lemma core_inv_delete:
  assumes inv: "core_inv w" and t: "DeleteItemTask iid \<in> set (spawned (iw w))"
  shows "core_inv (w\<lparr>iw := (iw w)\<lparr>spawned := remove1 (DeleteItemTask iid) (spawned (iw w))\<rparr>,
      iw_deleted := iw_deleted w @ (if created (iw w) then [iid] else [])\<rparr>)" (is "core_inv ?w")
proof -
  have i: "ids_inv w" "live_inv w" "placed_inv w" "owned_inv w" using inv by (simp_all add: core_inv_def)
  have cr: "created (iw w)" using i(2) t by (auto simp: live_inv_def)
  have opens: "open_items ?w = open_items w" by (simp add: open_items_def)
  have "ids_inv ?w" using i(1) opens by (simp add: ids_inv_def)
  moreover have "live_inv ?w" using i(2) cr by (simp add: live_inv_def created_def)
  moreover have "placed_inv ?w" using i(3) opens by (simp add: placed_inv_def)
  moreover have "owned_inv ?w" unfolding owned_inv_def
  proof (intro conjI ballI)
    show "0 \<notin> set (iw_granted ?w)" using i(4) by (simp add: owned_inv_def)
    fix j assume "j \<in> set (iw_granted ?w)"
    then show "j \<in> (snd \<circ> snd) ` set (items_by_local_id (iw ?w)) \<or> DeleteItemTask j \<in> set (spawned (iw ?w)) \<or> j \<in> set (iw_deleted ?w)"
      using i(4) cr by (cases "j = iid") (auto simp: owned_inv_def)
  qed
  ultimately show ?thesis by (simp add: core_inv_def)
qed

lemma core_inv_close_all: "core_inv w \<Longrightarrow> core_inv (on_iw (fold (\<lambda>v. CloseView v st) vs) w)"
proof (induction vs arbitrary: w)
  case (Cons v vs)
  from Cons.IH [OF core_inv_close [OF Cons.prems, of v st]] show ?case by simp
qed simp

lemma core_inv_asked [simp]: "core_inv (w\<lparr>iw_asked := a\<rparr>) = core_inv w" "core_inv (w\<lparr>iw_late := l\<rparr>) = core_inv w"
  by (simp_all add: core_defs)

lemma EndCreateItem_refused: "same_core c (EndCreateItem x (Inl e) c)"
  by (simp add: EndCreateItem_def)

lemma core_inv_step: "item_step w w' \<Longrightarrow> core_inv w \<Longrightarrow> core_inv w'"
proof (induction rule: item_step.induct)
  case (iw_view w)
  then show ?case using core_inv_same [OF same_core_views(1)] by simp
next
  case (iw_add w v reqs)
  then show ?case using core_inv_AddViewItems [of "w\<lparr>iw_asked := _, iw_late := _\<rparr>"] by simp
next
  case (iw_remove w v ids)
  then show ?case using core_inv_remove_items [of w v ids "[]"] by (simp add: RemoveViewItems_def)
next
  case (iw_close w v st)
  then show ?case by (rule core_inv_close)
next
  case (iw_close_all w st)
  then show ?case using core_inv_close_all [of w st "views (iw w)"] by (simp add: CloseAllViews_def)
next
  case (iw_subscribed w result c)
  then show ?case using core_inv_subscribed by blast
next
  case (iw_start x w r c)
  from core_inv_start(1) [OF iw_start(3,1,2)] obtain h req where "r = Requested h req" by blast
  then show ?case using core_inv_start(2) [OF iw_start(3,1,2), of h] by simp
next
  case (iw_finish x h w p response result p' c)
  have same: "same_core (iw w) ((iw w)\<lparr>impl := Some p'\<rparr>)"
    using same_core_impl [OF iw_finish(2)] finish_keeps_publishing(1) [OF iw_finish(3)] by blast
  have c: "c = EndCreateItem x result ((iw w)\<lparr>impl := Some p'\<rparr>)"
    using iw_finish(4) by (simp add: FinishCreateItem_def iw_finish(2,3))
  show ?case
  proof (cases result)
    case (Inl e)
    then show ?thesis
      using core_inv_refused [OF iw_finish(6,1) same_core_trans [OF same EndCreateItem_refused]] by (simp add: c)
  next
    case (Inr a)
    then obtain iid where r: "result = Inr (iid, h)" using finish_create_cases [OF iw_finish(3)] by auto
    then show ?thesis using core_inv_granted [OF iw_finish(6,1) same, of iid] iw_finish(5) by (simp add: c)
  qed
next
  case (iw_delete iid w)
  show ?case by (rule core_inv_delete [OF iw_delete(2,1)])
next
  case (iw_deleted w p iid response st p')
  then show ?case using core_inv_same same_core_impl finish_keeps_publishing(2) by blast
next
  case (iw_sending w p out acks)
  have "same_core (iw w) ((iw w)\<lparr>impl := Some (p\<lparr>pending_acks := acks, outstanding_publishes := out\<rparr>)\<rparr>)"
    by (rule same_core_impl [OF iw_sending(1)]) simp
  then show ?case using core_inv_same iw_sending(2) by blast
next
  case (iw_publish response w goes_on c)
  then show ?case using core_inv_same same_core_publish by blast
next
  case (iw_loop w is_connected)
  then show ?case using core_inv_same [OF same_core_views(3)] by simp
next
  case (iw_read w v n)
  then show ?case using core_inv_same [OF same_core_views(2)] by simp
qed

subsection \<open>Views\<close>

text \<open>The views are numbered, and \<open>late\<close> are the local ids of the items whose view was closed before.\<close>

definition views_inv :: "u32 set \<Rightarrow> client_subscription \<Rightarrow> bool" where
  "views_inv late c \<longleftrightarrow> map fst (view_states c) = [0..<length (view_states c)]
     \<and> (\<forall>lid v sid. (lid, v, sid) \<in> set (items_by_local_id c) \<longrightarrow>
          v < length (view_states c) \<and> (view_open v c \<longleftrightarrow> lid \<notin> late))
     \<and> (\<forall>lid \<in> fst ` set (items_by_local_id c) \<union> late. unat lid < unat (next_local_id c))"

lemma views_invD:
  assumes "views_inv late c"
  shows "map fst (view_states c) = [0..<length (view_states c)]"
    "(lid, v, sid) \<in> set (items_by_local_id c) \<Longrightarrow> v < length (view_states c)"
    "(lid, v, sid) \<in> set (items_by_local_id c) \<Longrightarrow> view_open v c \<longleftrightarrow> lid \<notin> late"
    "(lid, v, sid) \<in> set (items_by_local_id c) \<Longrightarrow> unat lid < unat (next_local_id c)"
    "lid \<in> late \<Longrightarrow> unat lid < unat (next_local_id c)"
  using assms unfolding views_inv_def by force+

lemma views_invI:
  assumes "map fst (view_states c) = [0..<length (view_states c)]"
    and "\<And>lid v sid. (lid, v, sid) \<in> set (items_by_local_id c) \<Longrightarrow> v < length (view_states c)
      \<and> (view_open v c \<longleftrightarrow> lid \<notin> late) \<and> unat lid < unat (next_local_id c)"
    and "\<And>lid. lid \<in> late \<Longrightarrow> unat lid < unat (next_local_id c)"
  shows "views_inv late c"
  using assms unfolding views_inv_def by auto

text \<open>The queues may change, but not which views are open, and items only lose their place or change their id.\<close>

definition same_views :: "client_subscription \<Rightarrow> client_subscription \<Rightarrow> bool" where
  "same_views c c' \<longleftrightarrow> map fst (view_states c') = map fst (view_states c) \<and> (\<forall>v. view_open v c' = view_open v c)
     \<and> next_local_id c' = next_local_id c
     \<and> (\<forall>lid v sid. (lid, v, sid) \<in> set (items_by_local_id c') \<longrightarrow> (\<exists>sid'. (lid, v, sid') \<in> set (items_by_local_id c)))"

lemma same_views_trans: "same_views a b \<Longrightarrow> same_views b c \<Longrightarrow> same_views a c"
  unfolding same_views_def by metis

lemma views_inv_same: "same_views c c' \<Longrightarrow> views_inv late c \<Longrightarrow> views_inv late c'"
proof -
  assume s: "same_views c c'" and i: "views_inv late c"
  have keys: "map fst (view_states c') = map fst (view_states c)" and nxt: "next_local_id c' = next_local_id c"
    and opens: "view_open v c' = view_open v c" for v
    using s by (simp_all add: same_views_def)
  from keys have len: "length (view_states c') = length (view_states c)" by (metis length_map)
  show "views_inv late c'"
  proof (rule views_invI)
    show "map fst (view_states c') = [0..<length (view_states c')]" using views_invD(1) [OF i] keys len by simp
    fix lid v sid assume "(lid, v, sid) \<in> set (items_by_local_id c')"
    then obtain sid' where "(lid, v, sid') \<in> set (items_by_local_id c)" using s unfolding same_views_def by blast
    from views_invD(2-4) [OF i this] show "v < length (view_states c') \<and> (view_open v c' \<longleftrightarrow> lid \<notin> late)
        \<and> unat lid < unat (next_local_id c')" by (simp add: len nxt opens)
  qed (simp add: nxt views_invD(5) [OF i])
qed

lemma same_viewsI:
  "view_states c' = view_states c \<Longrightarrow> next_local_id c' = next_local_id c \<Longrightarrow>
   set (items_by_local_id c') \<subseteq> set (items_by_local_id c) \<Longrightarrow> same_views c c'"
  by (auto simp: same_views_def view_open_def)

lemma same_views_refl [simp]: "same_views c c"
  by (rule same_viewsI) auto

lemma update_keys_same: "map_of xs k = Some v \<Longrightarrow> map fst (AList.update k v' xs) = map fst xs"
  by (induction xs) (auto split: if_splits)

lemma same_views_queue:
  assumes "map_of (view_states c) v = Some s" and "view_closed s' = view_closed s"
  shows "same_views c (c\<lparr>view_states := AList.update v s' (view_states c)\<rparr>)"
  using assms by (auto simp: same_views_def view_open_def update_keys_same update_conv')

lemma same_views_Push [simp]: "same_views c (PushNotification v n c)"
  by (auto simp: PushNotification_def split: option.split intro: same_views_queue)

lemma same_views_dispatch: "same_views c (fold run_dispatch ds c)"
proof (induction ds arbitrary: c)
  case (Cons d ds)
  have "same_views c (run_dispatch d c)" by (cases "(d, c)" rule: run_dispatch.cases) auto
  then show ?case using Cons same_views_trans by fastforce
qed simp

lemma same_views_Read: "same_views c (snd (ReadNext v n c))"
  by (auto simp: ReadNext_def split: option.split intro: same_views_queue)

lemma same_views_Remove: "same_views c (RemoveItem lid c)"
  using delete_subset(1) [of lid "items_by_local_id c"] by (intro same_viewsI) simp_all

lemma same_views_publish: "PublishLoopRound response c = Some (b, c') \<Longrightarrow> same_views c c'"
proof -
  assume a: "PublishLoopRound response c = Some (b, c')"
  then obtain p st ds p' where p: "impl c = Some p" and f: "FinishPublish response p = Some (st, ds, p')"
    by (auto simp: PublishLoopRound_def split: option.splits)
  have "same_views c (c\<lparr>impl := Some p'\<rparr>)" by (rule same_viewsI) simp_all
  from same_views_trans [OF this same_views_dispatch, of ds] have
    d: "same_views c (fold run_dispatch ds (c\<lparr>impl := Some p'\<rparr>))" .
  have "same_views c'' (c''\<lparr>publish_loop_running := False\<rparr>)" for c'' by (rule same_viewsI) simp_all
  then show ?thesis using a same_views_trans [OF d] d
    by (auto simp: PublishLoopRound_def p f Let_def split: if_splits)
qed

lemma same_views_subscribed:
  "FinishEnsureCreated result c = Some c' \<Longrightarrow> same_views c c'"
  by (erule FinishEnsureCreated_cases) (auto intro!: same_viewsI)

lemma same_views_End:
  assumes "distinct (map fst (items_by_local_id c))"
  shows "same_views c (EndCreateItem x result c)"
proof (cases "\<exists>iid h v sid. result = Inr (iid, h) \<and> map_of (items_by_local_id c) (pn_local_id x) = Some (v, sid)")
  case True
  then obtain iid h v sid where r: "result = Inr (iid, h)" "map_of (items_by_local_id c) (pn_local_id x) = Some (v, sid)" by blast
  have "(pn_local_id x, v, sid) \<in> set (items_by_local_id c)" using r(2) by (rule map_of_SomeD)
  then show ?thesis using r by (auto simp: EndCreateItem_def same_views_def view_open_def update_set [OF assms])
next
  case False
  then show ?thesis by (auto simp: EndCreateItem_def CoSpawn_def split: sum.splits option.splits intro: same_viewsI)
qed

lemma views_inv_add_item:
  assumes i: "views_inv late c" and v: "v < length (view_states c)" and wrap: "unat (next_local_id c) + 1 < 2 ^ 32"
  shows "views_inv (late \<union> (if view_open v c then {} else {next_local_id c})) (snd (add_item v r (rs, c)))"
    "view_states (snd (add_item v r (rs, c))) = view_states c"
    "unat (next_local_id (snd (add_item v r (rs, c)))) = unat (next_local_id c) + 1"
    "map cr_item_id (fst (add_item v r (rs, c))) = map cr_item_id rs @ [next_local_id c]"
proof -
  let ?c = "snd (add_item v r (rs, c))"
  show vs: "view_states ?c = view_states c" and nxt: "unat (next_local_id ?c) = unat (next_local_id c) + 1"
    and "map cr_item_id (fst (add_item v r (rs, c))) = map cr_item_id rs @ [next_local_id c]"
    using wrap by (simp_all add: add_item_def Let_def SpawnCreateMonitoredItem_def CoSpawn_def unat_word_ariths)
  have items: "set (items_by_local_id ?c) \<subseteq> insert (next_local_id c, v, 0) (set (items_by_local_id c))"
    by (auto simp: add_item_def Let_def SpawnCreateMonitoredItem_def CoSpawn_def emplace_def)
  have opens: "view_open u ?c = view_open u c" for u by (simp add: view_open_def vs)
  have fresh: "next_local_id c \<notin> late" using views_invD(5) [OF i] by blast
  show "views_inv (late \<union> (if view_open v c then {} else {next_local_id c})) ?c"
  proof (rule views_invI)
    fix lid u sid assume "(lid, u, sid) \<in> set (items_by_local_id ?c)"
    then consider "lid = next_local_id c" "u = v" | "(lid, u, sid) \<in> set (items_by_local_id c)" using items by blast
    then show "u < length (view_states ?c) \<and> (view_open u ?c \<longleftrightarrow> lid \<notin> late \<union> (if view_open v c then {} else {next_local_id c}))
        \<and> unat lid < unat (next_local_id ?c)"
    proof cases
      case 1
      then show ?thesis using v fresh by (simp add: vs nxt opens)
    next
      case 2
      then show ?thesis using views_invD(2-4) [OF i 2] by (auto simp: vs nxt opens)
    qed
  next
    fix lid assume "lid \<in> late \<union> (if view_open v c then {} else {next_local_id c})"
    then show "unat lid < unat (next_local_id ?c)" using views_invD(5) [OF i, of lid] nxt by (auto split: if_splits)
  qed (simp add: vs views_invD(1) [OF i])
qed

lemma views_inv_add_items:
  "views_inv late c \<Longrightarrow> v < length (view_states c) \<Longrightarrow> unat (next_local_id c) + length reqs < 2 ^ 32 \<Longrightarrow>
   \<exists>ids. map cr_item_id (fst (fold (add_item v) reqs (rs, c))) = map cr_item_id rs @ ids
     \<and> views_inv (late \<union> (if view_open v c then {} else set ids)) (snd (fold (add_item v) reqs (rs, c)))"
proof (induction reqs arbitrary: c rs late)
  case (Cons r reqs)
  let ?c = "snd (add_item v r (rs, c))" and ?late = "late \<union> (if view_open v c then {} else {next_local_id c})"
  have wrap: "unat (next_local_id c) + 1 < 2 ^ 32" using Cons.prems(3) by simp
  note a = views_inv_add_item [OF Cons.prems(1,2) wrap, of r rs]
  have opens: "view_open v ?c = view_open v c" by (simp add: view_open_def a(2))
  have "v < length (view_states ?c)" "unat (next_local_id ?c) + length reqs < 2 ^ 32"
    using Cons.prems(2,3) a(2,3) by simp_all
  from Cons.IH [OF a(1) this, of "fst (add_item v r (rs, c))"] obtain ids
    where ids: "map cr_item_id (fst (fold (add_item v) reqs (add_item v r (rs, c)))) = map cr_item_id rs @ next_local_id c # ids"
      and inv: "views_inv (?late \<union> (if view_open v c then {} else set ids)) (snd (fold (add_item v) reqs (add_item v r (rs, c))))"
    unfolding a(4) opens by auto
  have "?late \<union> (if view_open v c then {} else set ids) = late \<union> (if view_open v c then {} else set (next_local_id c # ids))"
    by auto
  then show ?case using ids inv by (intro exI [of _ "next_local_id c # ids"]) simp
qed simp

lemma fold_RemoveItem_fields:
  "set (items_by_local_id (fold RemoveItem ids c)) = {e \<in> set (items_by_local_id c). fst e \<notin> set ids}
   \<and> view_states (fold RemoveItem ids c) = view_states c"
  by (induction ids arbitrary: c) (auto simp: delete_set)

text \<open>
  Closing a closed view does nothing, although \<open>AddViewItems\<close> still works on it: the items a view
  adds after its end are not removed any more.
\<close>

lemma CloseView_closed: "\<not> view_open v c \<Longrightarrow> CloseView v st c = c"
  by (auto simp: CloseView_def view_open_def split: option.splits)

lemma fold_RemoveItem_next: "next_local_id (fold RemoveItem ids c) = next_local_id c"
  by (induction ids arbitrary: c) auto

lemma views_inv_close:
  assumes "views_inv late c"
  shows "views_inv late (CloseView v st c)"
proof (cases "view_open v c")
  case True
  then obtain s where s: "map_of (view_states c) v = Some s" "\<not> view_closed s"
    by (auto simp: view_open_def split: option.splits)
  let ?vs = "AList.update v \<lparr>vw_pending_notifications = [], close_status = st, view_closed = True\<rparr> (view_states c)"
  let ?c = "CloseView v st c"
  have c: "view_states ?c = ?vs" "next_local_id ?c = next_local_id c"
    "set (items_by_local_id ?c) = {e \<in> set (items_by_local_id c). fst e \<notin> fst ` {e \<in> set (items_by_local_id c). fst (snd e) = v}}"
    using s by (auto simp: CloseView_def Let_def fold_RemoveItem_fields fold_RemoveItem_next split_beta)
  have keys: "map fst ?vs = map fst (view_states c)" using s(1) by (rule update_keys_same)
  then have len: "length ?vs = length (view_states c)" by (metis length_map)
  show ?thesis
  proof (rule views_invI)
    fix lid u sid assume "(lid, u, sid) \<in> set (items_by_local_id ?c)"
    then have mem: "(lid, u, sid) \<in> set (items_by_local_id c)" "u \<noteq> v" unfolding c(3) by force+
    from mem(2) have "view_open u ?c = view_open u c" by (simp add: view_open_def c(1) update_conv')
    then show "u < length (view_states ?c) \<and> (view_open u ?c \<longleftrightarrow> lid \<notin> late) \<and> unat lid < unat (next_local_id ?c)"
      using views_invD(2-4) [OF assms mem(1)] by (simp add: c(1,2) len)
  qed (use views_invD(1,5) [OF assms] in \<open>simp_all add: c(1,2) len keys\<close>)
next
  case False
  then have "CloseView v st c = c" by (rule CloseView_closed)
  then show ?thesis using assms by simp
qed

lemma views_inv_remove_items: "views_inv late c \<Longrightarrow> views_inv late (snd (fold (remove_view_item v) ids (rs, c)))"
proof (induction ids arbitrary: c rs)
  case (Cons i ids)
  have "same_views c (snd (remove_view_item v i (rs, c)))" by (simp add: remove_view_item_def same_views_Remove)
  from Cons.IH [OF views_inv_same [OF this Cons.prems], of "fst (remove_view_item v i (rs, c))"] show ?case by simp
qed simp

lemma views_inv_view:
  assumes "views_inv late c"
  shows "views_inv late (snd (CreateView c))"
proof (rule views_invI)
  let ?c = "snd (CreateView c)"
  have keys: "map_of (view_states c) v = None" if "\<not> v < length (view_states c)" for v
    using that views_invD(1) [OF assms] by (simp add: map_of_eq_None_iff flip: set_map)
  show "map fst (view_states ?c) = [0..<length (view_states ?c)]"
    using views_invD(1) [OF assms] by (simp add: CreateView_def Let_def)
  have n: "next_local_id ?c = next_local_id c" by (simp add: CreateView_def Let_def)
  show "unat lid < unat (next_local_id ?c)" if "lid \<in> late" for lid using views_invD(5) [OF assms that] by (simp add: n)
  fix lid v sid assume "(lid, v, sid) \<in> set (items_by_local_id ?c)"
  then have mem: "(lid, v, sid) \<in> set (items_by_local_id c)" by (simp add: CreateView_def Let_def)
  from views_invD(2) [OF assms mem] have "view_open v ?c = view_open v c" "v < length (view_states ?c)"
    using keys [of "length (view_states c)"]
    by (auto simp: view_open_def CreateView_def Let_def map_add_def split: option.split)
  then show "v < length (view_states ?c) \<and> (view_open v ?c \<longleftrightarrow> lid \<notin> late) \<and> unat lid < unat (next_local_id ?c)"
    using views_invD(3,4) [OF assms mem] by (simp add: n)
qed

lemma views_inv_AddViewItems:
  assumes "views_inv late c" and "map_of (view_states c) v \<noteq> None" and "unat (next_local_id c) + length reqs < 2 ^ 32"
  shows "views_inv (late \<union> (if view_open v c then {} else cr_item_id ` set (fst (AddViewItems v reqs c))))
    (snd (AddViewItems v reqs c))"
proof -
  have e: "view_states (EnsureCreated c) = view_states c" "items_by_local_id (EnsureCreated c) = items_by_local_id c"
    "next_local_id (EnsureCreated c) = next_local_id c"
    by (simp_all add: EnsureCreated_def CoSpawn_def)
  have "same_views c (EnsureCreated c)" by (rule same_viewsI) (simp_all add: e)
  then have i: "views_inv late (EnsureCreated c)" using assms(1) by (rule views_inv_same)
  have "v \<in> fst ` set (view_states c)" using assms(2) by (simp add: map_of_eq_None_iff)
  then have "v < length (view_states c)" using views_invD(1) [OF assms(1)] by (simp flip: set_map)
  then have v: "v < length (view_states (EnsureCreated c))" "unat (next_local_id (EnsureCreated c)) + length reqs < 2 ^ 32"
    using assms(3) by (simp_all add: e)
  from views_inv_add_items [OF i v, of "[]"] obtain ids
    where ids: "map cr_item_id (fst (AddViewItems v reqs c)) = ids"
      and inv: "views_inv (late \<union> (if view_open v (EnsureCreated c) then {} else set ids)) (snd (AddViewItems v reqs c))"
    unfolding AddViewItems_def by auto
  have "view_open v (EnsureCreated c) = view_open v c" by (simp add: view_open_def e)
  moreover have "cr_item_id ` set (fst (AddViewItems v reqs c)) = set ids" unfolding ids [symmetric] by simp
  ultimately show ?thesis using inv by (cases "view_open v c") simp_all
qed

lemma views_inv_step:
  "item_step w w' \<Longrightarrow> core_inv w \<Longrightarrow> views_inv (set (iw_late w)) (iw w) \<Longrightarrow> views_inv (set (iw_late w')) (iw w')"
proof (induction rule: item_step.induct)
  case (iw_view w)
  then show ?case by (simp add: views_inv_view)
next
  case (iw_add w v reqs)
  from views_inv_AddViewItems [OF iw_add(4,1,2)] show ?case by (cases "view_open v (iw w)") simp_all
next
  case (iw_remove w v ids)
  then show ?case by (simp add: RemoveViewItems_def views_inv_remove_items)
next
  case (iw_close w v st)
  then show ?case by (simp add: views_inv_close)
next
  case (iw_close_all w st)
  have "views_inv late c \<Longrightarrow> views_inv late (fold (\<lambda>v. CloseView v st) vs c)" for late vs c
    by (induction vs arbitrary: c) (auto simp: views_inv_close)
  then show ?case using iw_close_all by (simp add: CloseAllViews_def)
next
  case (iw_start x w r c)
  from core_inv_start(1) [OF iw_start(3,1,2)] obtain h req where r: "r = Requested h req" by blast
  have "same_views (iw w) c"
    using iw_start(2) by (auto simp: StartCreateItem_def Let_def split: option.splits prod.splits intro!: same_viewsI)
  then show ?case using views_inv_same iw_start(4) r by simp
next
  case (iw_finish x h w p response result p' c)
  have c: "c = EndCreateItem x result ((iw w)\<lparr>impl := Some p'\<rparr>)"
    using iw_finish(4) by (simp add: FinishCreateItem_def iw_finish(2,3))
  have "distinct (map fst (items_by_local_id ((iw w)\<lparr>impl := Some p'\<rparr>)))"
    using iw_finish(6) ids_invD(2) by (simp add: core_inv_def)
  from same_views_End [OF this] have "same_views ((iw w)\<lparr>impl := Some p'\<rparr>) c" by (simp add: c)
  moreover have "same_views (iw w) ((iw w)\<lparr>impl := Some p'\<rparr>)" by (rule same_viewsI) simp_all
  ultimately have "same_views (iw w) c" using same_views_trans by blast
  then show ?case using views_inv_same iw_finish(7) by simp
next
  case (iw_delete iid w)
  have "same_views (iw w) ((iw w)\<lparr>spawned := remove1 (DeleteItemTask iid) (spawned (iw w))\<rparr>)" by (rule same_viewsI) simp_all
  then show ?case using views_inv_same iw_delete(3) by simp
next
  case (iw_loop w is_connected)
  have "same_views (iw w) (snd (PublishLoopHead is_connected (iw w)))"
    by (rule same_viewsI) (auto simp: PublishLoopHead_def)
  then show ?case using views_inv_same iw_loop(2) by simp
next
  case (iw_read w v n)
  then show ?case using views_inv_same [OF same_views_Read] by simp
next
  case (iw_subscribed w result c)
  then show ?case using views_inv_same [OF same_views_subscribed] by simp
next
  case (iw_publish response w goes_on c)
  then show ?case using views_inv_same [OF same_views_publish] by simp
qed (simp_all add: views_inv_def view_open_def)

subsection \<open>Whose notifications\<close>

definition callbacks :: "'h protocol_subscription \<Rightarrow> 'h set" where
  "callbacks p = {f. \<exists>h. (h, Some f) \<in> set (handlers p) \<or> (h, f) \<in> set (event_handlers p)}"

definition all_callbacks :: "client_subscription \<Rightarrow> (nat \<times> u32) set" where
  "all_callbacks c = (case impl c of None \<Rightarrow> {} | Some p \<Rightarrow> callbacks p)"

definition waiting_items :: "item_world \<Rightarrow> pending_item set" where
  "waiting_items w = set (pending_subscriptions (iw w)) \<union> set (item_tasks (spawned (iw w))) \<union> fst ` set (iw_flight w)"

definition queued :: "client_subscription \<Rightarrow> (nat \<times> u32) set" where
  "queued c = {(v, notified_handle n) |v n. \<exists>s. (v, s) \<in> set (view_states c) \<and> n \<in> set (vw_pending_notifications s)}"

definition asked_inv :: "item_world \<Rightarrow> bool" where
  "asked_inv w \<longleftrightarrow> (\<lambda>x. (pn_view x, pn_client_handle x)) ` waiting_items w \<union> all_callbacks (iw w) \<union> queued (iw w)
     \<subseteq> set (iw_asked w)"

fun callback_of :: "'h dispatch \<Rightarrow> 'h" where
  "callback_of (DispatchValue f _) = f"
| "callback_of (DispatchEvent f _) = f"

lemma dispatch_data_callbacks: "d \<in> set (dispatch_data p data) \<Longrightarrow> callback_of d \<in> callbacks p"
  by (cases "(p, data)" rule: dispatch_data.cases)
    (auto simp: dispatch_value_def dispatch_event_def callbacks_def split: option.splits
      dest!: map_of_SomeD [OF sym])

lemma FinishPublish_dispatches:
  assumes "FinishPublish result p = Some (st, ds, p')"
  shows "callback_of ` set ds \<subseteq> callbacks p" "callbacks p' = callbacks p"
proof -
  obtain n where n: "NarrowResponse as_publish result = Some n" using assms by (auto simp: FinishPublish_def)
  have acks: "callbacks (p\<lparr>pending_acks := a\<rparr>) = callbacks p" for a by (simp add: callbacks_def)
  show "callback_of ` set ds \<subseteq> callbacks p"
  proof (cases n)
    case (Inr r)
    have "\<exists>a. d \<in> (\<Union>data \<in> set (notification_data (pr_message r)). set (dispatch_data (p\<lparr>pending_acks := a\<rparr>) data))"
      if "d \<in> set ds" for d
      using assms that Inr by (cases p) (auto simp: n FinishPublish_def HandlePublishResponse_def Let_def split: if_splits)
    then show ?thesis using dispatch_data_callbacks acks by fastforce
  qed (use assms in \<open>auto simp: n FinishPublish_def\<close>)
  show "callbacks p' = callbacks p" using FinishPublish_fields(3,4) [OF assms] by (simp add: callbacks_def)
qed

lemma queued_frame [simp]: "queued (c\<lparr>impl := i\<rparr>) = queued c" "queued (c\<lparr>publish_loop_running := b\<rparr>) = queued c"
  "queued (c\<lparr>spawned := ts\<rparr>) = queued c" "queued (c\<lparr>items_by_local_id := its\<rparr>) = queued c"
  "queued (c\<lparr>is_creating := b\<rparr>) = queued c" "queued (c\<lparr>pending_subscriptions := xs\<rparr>) = queued c"
  by (simp_all add: queued_def)

lemma queued_update:
  assumes "map_of (view_states c) v = Some s"
  shows "queued (c\<lparr>view_states := AList.update v s' (view_states c)\<rparr>)
    \<subseteq> queued c \<union> {(v, notified_handle n) |n. n \<in> set (vw_pending_notifications s')}"
proof -
  have "set (AList.update v s' xs) \<subseteq> insert (v, s') (set xs)" for xs
    by (induction xs) auto
  then show ?thesis by (fastforce simp: queued_def)
qed

lemma queued_mem: "map_of (view_states c) v = Some s \<Longrightarrow> n \<in> set (vw_pending_notifications s) \<Longrightarrow> (v, notified_handle n) \<in> queued c"
  by (auto simp: queued_def dest: map_of_SomeD)

lemma queued_Push: "queued (PushNotification v n c) \<subseteq> insert (v, notified_handle n) (queued c)"
proof (cases "\<exists>s. map_of (view_states c) v = Some s \<and> \<not> view_closed s")
  case True
  then obtain s where s: "map_of (view_states c) v = Some s" "\<not> view_closed s" by blast
  then show ?thesis
    using queued_update [OF s(1), of "s\<lparr>vw_pending_notifications := vw_pending_notifications s @ [n]\<rparr>"] queued_mem [OF s(1)]
    by (auto simp: PushNotification_def)
qed (auto simp: PushNotification_def split: option.split)

lemma Push_impl [simp]: "impl (PushNotification v n c) = impl c" "pending_subscriptions (PushNotification v n c) = pending_subscriptions c"
  "spawned (PushNotification v n c) = spawned c"
  by (simp_all add: PushNotification_def split: option.split)

lemma queued_dispatch:
  "queued (fold run_dispatch ds c) \<subseteq> queued c \<union> callback_of ` set ds"
  "impl (fold run_dispatch ds c) = impl c" "pending_subscriptions (fold run_dispatch ds c) = pending_subscriptions c"
  "spawned (fold run_dispatch ds c) = spawned c"
proof (induction ds arbitrary: c)
  case (Cons d ds)
  have d: "queued (run_dispatch d c) \<subseteq> insert (callback_of d) (queued c)" "impl (run_dispatch d c) = impl c"
    "pending_subscriptions (run_dispatch d c) = pending_subscriptions c" "spawned (run_dispatch d c) = spawned c" for c
    using queued_Push by (cases "(d, c)" rule: run_dispatch.cases; fastforce)+
  have through: "A \<subseteq> Q \<union> insert x C" if "A \<subseteq> B \<union> C" "B \<subseteq> insert x Q" for A B C Q :: "(nat \<times> u32) set" and x
    using that by blast
  {
    case 1
    show ?case using through [OF Cons.IH(1) d(1)] by simp
  next
    case 2
    show ?case using Cons.IH(2) d(2) by simp
  next
    case 3
    show ?case using Cons.IH(3) d(3) by simp
  next
    case 4
    show ?case using Cons.IH(4) d(4) by simp
  }
qed simp_all

lemma queued_Read: "queued (snd (ReadNext v n c)) \<subseteq> queued c"
proof (cases "map_of (view_states c) v")
  case (Some s)
  then show ?thesis
    using queued_update [OF Some, of "s\<lparr>vw_pending_notifications := drop n (vw_pending_notifications s)\<rparr>"] queued_mem [OF Some]
    by (auto simp: ReadNext_def dest: in_set_dropD)
qed (simp add: ReadNext_def)

text \<open>What may be mentioned only shrinks.\<close>

lemma asked_inv_shrink:
  assumes "asked_inv w" and "waiting_items w' \<subseteq> waiting_items w" and "all_callbacks (iw w') \<subseteq> all_callbacks (iw w)"
    and "queued (iw w') \<subseteq> queued (iw w)" and "set (iw_asked w) \<subseteq> set (iw_asked w')"
  shows "asked_inv w'"
  using assms unfolding asked_inv_def by blast

lemma asked_inv_add_items:
  assumes "asked_inv w" and "\<forall>r \<in> set reqs. (v, client_handle (requested_parameters r)) \<in> set (iw_asked w)"
  shows "asked_inv (on_iw (\<lambda>c. snd (fold (add_item v) reqs (rs, c))) w)"
  using assms
proof (induction reqs arbitrary: w rs)
  case (Cons r reqs)
  let ?w = "on_iw (\<lambda>c. snd (add_item v r (rs, c))) w"
  have a: "(v, client_handle (requested_parameters r)) \<in> set (iw_asked w)" using Cons.prems(2) by simp
  have "(\<lambda>x. (pn_view x, pn_client_handle x)) ` waiting_items ?w
      \<subseteq> insert (v, client_handle (requested_parameters r)) ((\<lambda>x. (pn_view x, pn_client_handle x)) ` waiting_items w)"
    by (auto simp: waiting_items_def add_item_def Let_def SpawnCreateMonitoredItem_def CoSpawn_def split: if_splits)
  moreover have "all_callbacks (iw ?w) = all_callbacks (iw w)" "queued (iw ?w) = queued (iw w)"
    by (simp_all add: all_callbacks_def queued_def add_item_def Let_def SpawnCreateMonitoredItem_def CoSpawn_def)
  moreover have "(\<lambda>x. (pn_view x, pn_client_handle x)) ` waiting_items w \<subseteq> set (iw_asked w)"
    "all_callbacks (iw w) \<subseteq> set (iw_asked w)" "queued (iw w) \<subseteq> set (iw_asked w)"
    using Cons.prems(1) by (simp_all add: asked_inv_def)
  ultimately have "asked_inv ?w" using a unfolding asked_inv_def by (simp add: subset_trans [OF _ insert_subsetI])
  then have "asked_inv (on_iw (\<lambda>c. snd (fold (add_item v) reqs (fst (add_item v r (rs, iw w)), c))) ?w)"
    using Cons.prems(2) by (intro Cons.IH) simp_all
  then show ?case by simp
qed simp

lemma asked_inv_EnsureCreated: "asked_inv w \<Longrightarrow> asked_inv (on_iw EnsureCreated w)"
  by (rule asked_inv_shrink)
    (auto simp: waiting_items_def all_callbacks_def queued_def EnsureCreated_def CoSpawn_def callbacks_def
      ClientProtocolSubscription_def split: if_splits)

lemma asked_inv_remove: "asked_inv w \<Longrightarrow> asked_inv (on_iw (RemoveItem lid) w)"
  by (rule asked_inv_shrink) (auto simp: waiting_items_def all_callbacks_def queued_def simp flip: item_tasks_set)

lemma asked_inv_fold_remove: "asked_inv w \<Longrightarrow> asked_inv (on_iw (fold RemoveItem ids) w)"
proof (induction ids arbitrary: w)
  case (Cons i ids)
  from Cons.IH [OF asked_inv_remove [OF Cons.prems, of i]] show ?case by simp
qed simp

lemma asked_inv_remove_items: "asked_inv w \<Longrightarrow> asked_inv (on_iw (\<lambda>c. snd (fold (remove_view_item v) ids (rs, c))) w)"
proof (induction ids arbitrary: w rs)
  case (Cons i ids)
  have "asked_inv (on_iw (\<lambda>c. snd (remove_view_item v i (rs, c))) w)"
    using Cons.prems asked_inv_remove [OF Cons.prems, of i] by (simp add: remove_view_item_def)
  from Cons.IH [OF this, of "fst (remove_view_item v i (rs, iw w))"] show ?case by simp
qed simp

lemma asked_inv_close:
  assumes "asked_inv w"
  shows "asked_inv (on_iw (CloseView v st) w)"
proof (cases "view_open v (iw w)")
  case True
  then obtain s where s: "map_of (view_states (iw w)) v = Some s" "\<not> view_closed s"
    by (auto simp: view_open_def split: option.splits)
  let ?s = "\<lparr>vw_pending_notifications = [], close_status = st, view_closed = True\<rparr>"
  let ?c = "(iw w)\<lparr>view_states := AList.update v ?s (view_states (iw w)), views := filter (\<lambda>u. u \<noteq> v) (views (iw w))\<rparr>"
  have "queued ?c \<subseteq> queued (iw w)" using queued_update [OF s(1), of ?s] by (simp add: queued_def)
  then have "asked_inv (w\<lparr>iw := ?c\<rparr>)"
    by (intro asked_inv_shrink [OF assms]) (auto simp: waiting_items_def all_callbacks_def)
  from asked_inv_fold_remove [OF this] show ?thesis using s by (simp add: CloseView_def Let_def)
next
  case False
  then have "CloseView v st (iw w) = iw w" by (rule CloseView_closed)
  then show ?thesis using assms by simp
qed

lemma callbacks_begin:
  assumes "BeginCreateMonitoredItem rv params (Some f) (Some f) p = (Inr (h, req), p')"
  shows "callbacks p' \<subseteq> insert f (callbacks p)"
  using assms by (auto simp: BeginCreateMonitoredItem_def callbacks_def emplace_def Let_def split: if_splits)

lemma callbacks_forget: "callbacks (forget_handlers h p) \<subseteq> callbacks p"
  by (auto simp: callbacks_def forget_handlers_def delete_set)

lemma callbacks_finish:
  "FinishCreateMonitoredItem h result p = Some (r, p') \<Longrightarrow> callbacks p' \<subseteq> callbacks p"
  "FinishDeleteMonitoredItem iid result p = Some (st, p') \<Longrightarrow> callbacks p' \<subseteq> callbacks p"
  using callbacks_forget by (fastforce dest!: finish_create_cases finish_delete_cases simp: callbacks_def)+

lemma asked_inv_publish:
  assumes "asked_inv w" and "PublishLoopRound response (iw w) = Some (b, c)"
  shows "asked_inv (w\<lparr>iw := c\<rparr>)"
proof -
  obtain p st ds p' where p: "impl (iw w) = Some p" and f: "FinishPublish response p = Some (st, ds, p')"
    using assms(2) by (auto simp: PublishLoopRound_def split: option.splits)
  let ?c = "fold run_dispatch ds ((iw w)\<lparr>impl := Some p'\<rparr>)"
  have c: "impl c = Some p'" "pending_subscriptions c = pending_subscriptions (iw w)" "spawned c = spawned (iw w)" "queued c = queued ?c"
    using assms(2) by (auto simp: PublishLoopRound_def p f Let_def queued_dispatch split: if_splits)
  have "queued c \<subseteq> queued (iw w) \<union> callbacks p"
    using queued_dispatch(1) [of ds "(iw w)\<lparr>impl := Some p'\<rparr>"] FinishPublish_dispatches(1) [OF f]
    unfolding c(4) queued_frame by blast
  moreover have "all_callbacks c = all_callbacks (iw w)" "all_callbacks (iw w) = callbacks p"
    using FinishPublish_dispatches(2) [OF f] by (simp_all add: all_callbacks_def p c)
  moreover have "waiting_items (w\<lparr>iw := c\<rparr>) = waiting_items w" by (simp add: waiting_items_def c)
  ultimately show ?thesis using assms(1) unfolding asked_inv_def by auto
qed

lemma FinishCreate_callbacks: "FinishCreate result p = Some (st, p') \<Longrightarrow> callbacks p' = callbacks p"
proof -
  assume a: "FinishCreate result p = Some (st, p')"
  then obtain n where "NarrowResponse as_create_subscription result = Some n" by (auto simp: FinishCreate_def)
  with a show ?thesis by (cases n) (auto simp: FinishCreate_def callbacks_def split: if_splits)
qed

lemma asked_inv_subscribed:
  assumes "asked_inv w" and "FinishEnsureCreated result (iw w) = Some c"
  shows "asked_inv (w\<lparr>iw := c, iw_dropped := d\<rparr>)"
proof -
  from assms(2) show ?thesis
  proof (cases rule: FinishEnsureCreated_cases)
    case (failed p st p')
    then show ?thesis
      by (intro asked_inv_shrink [OF assms(1)]) (auto simp: waiting_items_def all_callbacks_def)
  next
    case (subscribed p st p' extra)
    then show ?thesis using FinishCreate_callbacks [OF subscribed(2)]
      by (intro asked_inv_shrink [OF assms(1)]) (auto simp: waiting_items_def all_callbacks_def)
  qed
qed

lemma asked_inv_start:
  assumes "asked_inv w" and x: "CreateItemTask x \<in> set (spawned (iw w))"
    and s: "StartCreateItem x ((iw w)\<lparr>spawned := remove1 (CreateItemTask x) (spawned (iw w))\<rparr>) = (Requested h req, c)"
  shows "asked_inv (w\<lparr>iw := c, iw_flight := iw_flight w @ [(x, h)], iw_refused := f\<rparr>)" (is "asked_inv ?w")
proof -
  let ?cb = "(pn_view x, pn_client_handle x)"
  obtain p where p: "impl (iw w) = Some p" using s by (auto simp: StartCreateItem_def split: option.splits)
  obtain r p' where b: "BeginCreateMonitoredItem (pn_read_value_id x) ((pn_params x)\<lparr>client_handle := 0\<rparr>) (Some ?cb) (Some ?cb) p = (r, p')"
    by (cases "BeginCreateMonitoredItem (pn_read_value_id x) ((pn_params x)\<lparr>client_handle := 0\<rparr>) (Some ?cb) (Some ?cb) p")
  have r: "r = Inr (h, req)" and c: "c = (iw w)\<lparr>spawned := remove1 (CreateItemTask x) (spawned (iw w)), impl := Some p'\<rparr>"
    using s b by (auto simp: StartCreateItem_def p split: sum.splits)
  have in_waiting: "x \<in> waiting_items w" using x by (simp add: waiting_items_def)
  have "waiting_items ?w \<subseteq> waiting_items w"
    using in_waiting notin_set_remove1 by (fastforce simp: waiting_items_def c)
  moreover have "all_callbacks c \<subseteq> insert ?cb (all_callbacks (iw w))"
    using callbacks_begin [OF b [unfolded r]] by (simp add: all_callbacks_def p c)
  moreover have "queued c = queued (iw w)" by (simp add: queued_def c)
  moreover have "?cb \<in> set (iw_asked w)" using assms(1) in_waiting unfolding asked_inv_def by blast
  ultimately show ?thesis using assms(1) unfolding asked_inv_def by (simp add: subset_iff) blast
qed

lemma asked_inv_finish:
  assumes "asked_inv w" and x: "(x, h) \<in> set (iw_flight w)" and p: "impl (iw w) = Some p"
    and f: "FinishCreateMonitoredItem h response p = Some (result, p')"
  shows "asked_inv (w\<lparr>iw := EndCreateItem x result ((iw w)\<lparr>impl := Some p'\<rparr>), iw_flight := remove1 (x, h) (iw_flight w),
      iw_granted := g, iw_refused := r\<rparr>)" (is "asked_inv ?w")
proof -
  let ?cb = "(pn_view x, pn_client_handle x)" and ?c = "EndCreateItem x result ((iw w)\<lparr>impl := Some p'\<rparr>)"
  have in_waiting: "x \<in> waiting_items w" using x by (force simp: waiting_items_def)
  have fields: "pending_subscriptions ?c = pending_subscriptions (iw w)" "item_tasks (spawned ?c) = item_tasks (spawned (iw w))" "impl ?c = Some p'"
    by (auto simp: EndCreateItem_def CoSpawn_def split: sum.split option.split)
  have "waiting_items ?w \<subseteq> waiting_items w"
    using set_remove1_subset [of "(x, h)" "iw_flight w"] unfolding waiting_items_def by (simp add: fields) blast
  moreover have "all_callbacks ?c \<subseteq> all_callbacks (iw w)" using callbacks_finish(1) [OF f] by (simp add: all_callbacks_def p fields)
  moreover have "queued ?c \<subseteq> insert ?cb (queued (iw w))"
  proof (cases result)
    case (Inl e)
    have "queued ?c \<subseteq> insert (pn_view x, notified_handle (MonitoredItemNotification (pn_client_handle x)
        (DataValue null_variant 0 0 0 (status_code e)))) (queued ((iw w)\<lparr>impl := Some p'\<rparr>))"
      unfolding EndCreateItem_def Inl sum.case by (rule queued_Push)
    then show ?thesis by simp
  next
    case (Inr a)
    then have "queued ?c = queued (iw w)"
      by (cases a; cases "map_of (items_by_local_id (iw w)) (pn_local_id x)") (auto simp: EndCreateItem_def CoSpawn_def)
    then show ?thesis by blast
  qed
  moreover have "?cb \<in> set (iw_asked w)" using assms(1) in_waiting unfolding asked_inv_def by blast
  ultimately show ?thesis using assms(1) unfolding asked_inv_def by (simp add: subset_iff) blast
qed

lemma asked_inv_step: "item_step w w' \<Longrightarrow> core_inv w \<Longrightarrow> asked_inv w \<Longrightarrow> asked_inv w'"
proof (induction rule: item_step.induct)
  case (iw_view w)
  then show ?case
    by (intro asked_inv_shrink [OF iw_view(2)])
      (auto simp: CreateView_def Let_def waiting_items_def all_callbacks_def queued_def ViewState_def)
next
  case (iw_add w v reqs)
  let ?w = "w\<lparr>iw_asked := iw_asked w @ map (\<lambda>r. (v, client_handle (requested_parameters r))) reqs,
    iw_late := iw_late w @ (if view_open v (iw w) then [] else map cr_item_id (fst (AddViewItems v reqs (iw w))))\<rparr>"
  have "asked_inv ?w" by (rule asked_inv_shrink [OF iw_add(4)]) (auto simp: waiting_items_def)
  from asked_inv_add_items [OF asked_inv_EnsureCreated [OF this], of reqs v "[]"] show ?case
    by (simp add: AddViewItems_def)
next
  case (iw_remove w v ids)
  then show ?case using asked_inv_remove_items [of w v ids "[]"] by (simp add: RemoveViewItems_def)
next
  case (iw_close w v st)
  then show ?case by (simp add: asked_inv_close)
next
  case (iw_close_all w st)
  have "asked_inv w \<Longrightarrow> asked_inv (on_iw (fold (\<lambda>v. CloseView v st) vs) w)" for vs w
  proof (induction vs arbitrary: w)
    case (Cons v vs)
    from Cons.IH [OF asked_inv_close [OF Cons.prems, of v st]] show ?case by simp
  qed simp
  then show ?case using iw_close_all by (simp add: CloseAllViews_def)
next
  case (iw_subscribed w result c)
  show ?case by (rule asked_inv_subscribed [OF iw_subscribed(4,2)])
next
  case (iw_start x w r c)
  from core_inv_start(1) [OF iw_start(3,1,2)] obtain h req where r: "r = Requested h req" by blast
  show ?case using asked_inv_start [OF iw_start(4,1) iw_start(2) [unfolded r], of "iw_refused w"] by (simp add: r)
next
  case (iw_finish x h w p response result p' c)
  have c: "c = EndCreateItem x result ((iw w)\<lparr>impl := Some p'\<rparr>)"
    using iw_finish(4) by (simp add: FinishCreateItem_def iw_finish(2,3))
  show ?case unfolding c by (rule asked_inv_finish [OF iw_finish(7,1,2,3)])
next
  case (iw_delete iid w)
  then show ?case
    by (intro asked_inv_shrink [OF iw_delete(3)]) (simp_all add: waiting_items_def all_callbacks_def)
next
  case (iw_deleted w p iid response st p')
  then show ?case using callbacks_finish(2) [OF iw_deleted(2)]
    by (intro asked_inv_shrink [OF iw_deleted(4)]) (simp_all add: waiting_items_def all_callbacks_def)
next
  case (iw_sending w p out acks)
  then show ?case
    by (intro asked_inv_shrink [OF iw_sending(3)]) (simp_all add: waiting_items_def all_callbacks_def callbacks_def)
next
  case (iw_publish response w goes_on c)
  show ?case by (rule asked_inv_publish [OF iw_publish(3,1)])
next
  case (iw_loop w is_connected)
  then show ?case
    by (intro asked_inv_shrink [OF iw_loop(2)]) (auto simp: PublishLoopHead_def waiting_items_def all_callbacks_def)
next
  case (iw_read w v n)
  have "impl (snd (ReadNext v n (iw w))) = impl (iw w)" "pending_subscriptions (snd (ReadNext v n (iw w))) = pending_subscriptions (iw w)"
    "spawned (snd (ReadNext v n (iw w))) = spawned (iw w)"
    by (auto simp: ReadNext_def split: option.split)
  then show ?case using queued_Read
    by (intro asked_inv_shrink [OF iw_read(2)]) (simp_all add: waiting_items_def all_callbacks_def)
qed

definition item_start :: item_world where
  "item_start = \<lparr>iw = ClientSubscription, iw_flight = [], iw_granted = [], iw_deleted = [], iw_refused = [], iw_dropped = [], iw_asked = [],
     iw_late = []\<rparr>"

text \<open>All three together, along a run.\<close>

lemma item_reachable_inv:
  "item_step\<^sup>*\<^sup>* item_start w \<Longrightarrow> core_inv w \<and> views_inv (set (iw_late w)) (iw w) \<and> asked_inv w"
proof (induction rule: rtranclp_induct)
  case base
  show ?case
    by (simp add: core_defs views_inv_def asked_inv_def waiting_items_def all_callbacks_def queued_def created_def
        item_start_def ClientSubscription_def)
next
  case (step y z)
  then show ?case using core_inv_step views_inv_step asked_inv_step by blast
qed

section \<open>Properties\<close>

text \<open>
  C10. No item of a view gets lost and none stays behind on the server, whatever the order of
  calls, answers and closings: an item a view still holds either has its server item, or its
  creation is under way, or it was refused, or it was dropped with a subscription the server
  refused; creations are deferred only while the subscription is being created; a server item is
  held by a view, or its deletion is started or sent; and a view that holds an item is open,
  except exactly for the items that were added after the view had been closed, which closing the
  view does not remove any more.
\<close>

theorem items_settled:
  assumes "item_step\<^sup>*\<^sup>* item_start w"
  shows "(\<forall>lid v sid. (lid, v, sid) \<in> set (items_by_local_id (iw w)) \<longrightarrow>
       sid \<noteq> 0 \<or> lid \<in># open_ids w \<or> lid \<in> set (iw_refused w) \<or> lid \<in> set (iw_dropped w))
    \<and> (pending_subscriptions (iw w) \<noteq> [] \<longrightarrow> is_creating (iw w))
    \<and> (\<forall>iid \<in> set (iw_granted w). (\<exists>lid v. (lid, v, iid) \<in> set (items_by_local_id (iw w)))
         \<or> DeleteItemTask iid \<in> set (spawned (iw w)) \<or> iid \<in> set (iw_deleted w))
    \<and> (\<forall>lid v sid. (lid, v, sid) \<in> set (items_by_local_id (iw w)) \<longrightarrow> (view_open v (iw w) \<longleftrightarrow> lid \<notin> set (iw_late w)))"
proof -
  have inv: "placed_inv w" "live_inv w" "owned_inv w" "views_inv (set (iw_late w)) (iw w)"
    using item_reachable_inv [OF assms] by (simp_all add: core_inv_def)
  have "sid \<noteq> 0 \<or> lid \<in># open_ids w \<or> lid \<in> set (iw_refused w) \<or> lid \<in> set (iw_dropped w)"
    if "(lid, v, sid) \<in> set (items_by_local_id (iw w))" for lid v sid
    using inv(1) that unfolding placed_inv_def by blast
  moreover have "pending_subscriptions (iw w) \<noteq> [] \<longrightarrow> is_creating (iw w)" using inv(2) by (simp add: live_inv_def)
  moreover have "(\<exists>lid v. (lid, v, iid) \<in> set (items_by_local_id (iw w)))
      \<or> DeleteItemTask iid \<in> set (spawned (iw w)) \<or> iid \<in> set (iw_deleted w)" if "iid \<in> set (iw_granted w)" for iid
  proof (cases "iid \<in> (snd \<circ> snd) ` set (items_by_local_id (iw w))")
    case True
    then show ?thesis by force
  next
    case False
    then show ?thesis using inv(3) that unfolding owned_inv_def by blast
  qed
  ultimately show ?thesis using views_invD(3) [OF inv(4)] by blast
qed

text \<open>
  A run: a view adds an item while nothing exists yet, the subscription is created, the item
  requested; the view closes before the server answers.
\<close>

definition example_item :: item_create_request where
  "example_item = \<lparr>item_to_monitor = ReadValueId null_node_id 13, index_range = None, req_monitoring_mode = 2,
     requested_parameters = \<lparr>client_handle = 9, sampling_interval_ms = 0, mon_filter = None, queue_size = 1, discard_oldest = True\<rparr>\<rparr>"

definition example_pending :: pending_item where
  "example_pending = PendingSubscription 0 1 (ReadValueId null_node_id 13) (requested_parameters example_item) 9"

definition example_sub_created :: "status + client_response" where
  "example_sub_created = Inr (CreateSubscriptionResp (CreateSubscriptionResponse (status_of_code Good) 5 0 3000 10000))"

definition example_granted :: "status + client_response" where
  "example_granted = Inr (CreateMonitoredItemsResponse (status_of_code Good) [ItemCreateResult (status_of_code Good) 77 0 1])"

definition ex_view :: item_world where
  "ex_view = on_iw (snd \<circ> CreateView) item_start"

definition ex_added :: item_world where
  "ex_added = on_iw (snd \<circ> AddViewItems 0 [example_item]) (ex_view\<lparr>iw_asked := [(0, 9)], iw_late := []\<rparr>)"

definition ex_subscribed :: item_world where
  "ex_subscribed = ex_added\<lparr>iw := the (FinishEnsureCreated example_sub_created (iw ex_added))\<rparr>"

definition ex_requested :: item_world where
  "ex_requested = ex_subscribed\<lparr>iw := snd (StartCreateItem example_pending
       ((iw ex_subscribed)\<lparr>spawned := remove1 (CreateItemTask example_pending) (spawned (iw ex_subscribed))\<rparr>)),
     iw_flight := [(example_pending, 1)]\<rparr>"

definition ex_closed :: item_world where
  "ex_closed = on_iw (CloseView 0 (status_of_code Bad)) ex_requested"

definition ex_answered :: item_world where
  "ex_answered = ex_closed\<lparr>iw := the (FinishCreateItem example_pending 1 example_granted (iw ex_closed)),
     iw_flight := [], iw_granted := [77]\<rparr>"

lemma ex_requested_reach: "item_step\<^sup>*\<^sup>* item_start ex_requested"
proof -
  have s1: "item_step item_start ex_view" unfolding ex_view_def by (rule iw_view)
  have s2: "item_step ex_view ex_added"
  proof -
    have "view_open 0 (iw ex_view)" "next_local_id (iw ex_view) = 1" "iw_late ex_view = []" by code_simp+
    moreover from this(1) have "map_of (view_states (iw ex_view)) 0 \<noteq> None" by (auto simp: view_open_def split: option.splits)
    moreover have "iw_asked ex_view @ map (\<lambda>r. (0, client_handle (requested_parameters r))) [example_item] = [(0, 9)]" by code_simp
    ultimately show ?thesis using iw_add [of ex_view 0 "[example_item]"] by (simp add: ex_added_def)
  qed
  have s3: "item_step ex_added ex_subscribed"
  proof -
    have "is_creating (iw ex_added)" by code_simp
    moreover have "FinishEnsureCreated example_sub_created (iw ex_added) = Some (iw ex_subscribed)" by code_simp
    moreover have "impl (iw ex_subscribed) \<noteq> None" by code_simp
    moreover have "ex_added\<lparr>iw := iw ex_subscribed, iw_dropped := iw_dropped ex_added\<rparr> = ex_subscribed"
      by (simp add: ex_subscribed_def)
    ultimately show ?thesis using iw_subscribed [of ex_added example_sub_created "iw ex_subscribed"]
      by (simp only: if_False append_Nil2 simp_thms)
  qed
  have s4: "item_step ex_subscribed ex_requested"
  proof -
    let ?c = "(iw ex_subscribed)\<lparr>spawned := remove1 (CreateItemTask example_pending) (spawned (iw ex_subscribed))\<rparr>"
    have "CreateItemTask example_pending \<in> set (spawned (iw ex_subscribed))" by code_simp
    moreover have "case fst (StartCreateItem example_pending ?c) of Requested h _ \<Rightarrow> h = 1 | _ \<Rightarrow> False" by code_simp
    then obtain req where "StartCreateItem example_pending ?c = (Requested 1 req, snd (StartCreateItem example_pending ?c))"
      by (cases "StartCreateItem example_pending ?c") (auto split: started.splits)
    moreover have "iw_flight ex_subscribed = []" by code_simp
    ultimately show ?thesis
      using iw_start [of example_pending ex_subscribed "Requested 1 req" "snd (StartCreateItem example_pending ?c)"]
      by (simp add: ex_requested_def)
  qed
  show ?thesis by (rule s4 s3 s2 s1 rtranclp.rtrancl_refl rtranclp.rtrancl_into_rtrancl)+
qed

lemma example_items_reach: "item_step\<^sup>*\<^sup>* item_start ex_answered"
proof -
  have s5: "item_step ex_requested ex_closed" unfolding ex_closed_def by (rule iw_close)
  have s6: "item_step ex_closed ex_answered"
  proof -
    obtain p where p: "impl (iw ex_closed) = Some p" "FinishCreateMonitoredItem 1 example_granted p
        = Some (Inr (77, 1), p\<lparr>client_handle_by_item_id := emplace 77 1 (client_handle_by_item_id p)\<rparr>)"
    proof -
      have "impl (iw ex_closed) \<noteq> None" by code_simp
      then obtain p where "impl (iw ex_closed) = Some p" by auto
      moreover have "FinishCreateMonitoredItem 1 example_granted q
          = Some (Inr (77, 1), q\<lparr>client_handle_by_item_id := emplace 77 1 (client_handle_by_item_id q)\<rparr>)"
        for q :: "(nat \<times> u32) protocol_subscription"
        by (simp add: FinishCreateMonitoredItem_def example_granted_def NarrowResponse_def as_create_items_def)
      ultimately show thesis using that by blast
    qed
    have "(example_pending, 1) \<in> set (iw_flight ex_closed)" "FinishCreateItem example_pending 1 example_granted (iw ex_closed) = Some (iw ex_answered)"
      "iw_granted ex_closed = []" "remove1 (example_pending, 1) (iw_flight ex_closed) = []" by code_simp+
    then show ?thesis
      using iw_finish [OF _ p, of example_pending "iw ex_answered"] by (simp add: ex_answered_def)
  qed
  show ?thesis by (rule s6 s5 ex_requested_reach rtranclp.rtrancl_into_rtrancl)+
qed

theorem items_settled_witness:
  "77 \<in> set (iw_granted ex_answered) \<and> items_by_local_id (iw ex_answered) = []
   \<and> (DeleteItemTask 77 \<in> set (spawned (iw ex_answered)) \<or> 77 \<in> set (iw_deleted ex_answered))"
proof -
  have "77 \<in> set (iw_granted ex_answered)" "items_by_local_id (iw ex_answered) = []" by code_simp+
  then show ?thesis using items_settled [OF example_items_reach] by force
qed

text \<open>
  C15. Views do not see each other's data: every notification in the queue of a view carries a
  handle that this view gave to one of its own items, whatever the server publishes.
\<close>

theorem view_isolation:
  assumes "item_step\<^sup>*\<^sup>* item_start w" and "(v, s) \<in> set (view_states (iw w))"
    and "n \<in> set (vw_pending_notifications s)"
  shows "(v, notified_handle n) \<in> set (iw_asked w)"
proof -
  have "(v, notified_handle n) \<in> queued (iw w)" using assms(2,3) by (auto simp: queued_def)
  then show ?thesis using item_reachable_inv [OF assms(1)] by (auto simp: asked_inv_def)
qed

text \<open>The first value arrives before the answer to the creation of its item.\<close>

definition example_publish :: "status + client_response" where
  "example_publish = Inr (PublishResp \<lparr>pr_status = status_of_code Good, pr_subscription_id = 5, pr_results = [],
     more_notifications = False, pr_message = NotificationMessage 1 0 [DataChangeNotification [(1, default_data_value)]],
     available_sequence_numbers = [1]\<rparr>)"

definition ex_notified :: item_world where
  "ex_notified = ex_requested\<lparr>iw := snd (the (PublishLoopRound example_publish (iw ex_requested)))\<rparr>"

theorem view_isolation_witness:
  "\<exists>s n. (0, s) \<in> set (view_states (iw ex_notified)) \<and> n \<in> set (vw_pending_notifications s)
     \<and> (0, notified_handle n) \<in> set (iw_asked ex_notified)"
proof -
  let ?r = "PublishLoopRound example_publish (iw ex_requested)"
  have "?r \<noteq> None" by code_simp
  then have "?r = Some (fst (the ?r), snd (the ?r))" by auto
  then have "item_step ex_requested ex_notified" unfolding ex_notified_def by (rule iw_publish)
  then have reach: "item_step\<^sup>*\<^sup>* item_start ex_notified"
    by (rule rtranclp.rtrancl_into_rtrancl [OF ex_requested_reach])
  have "map_of (view_states (iw ex_notified)) 0 \<noteq> None" by code_simp
  then obtain s where s: "map_of (view_states (iw ex_notified)) 0 = Some s" by auto
  have "map (map (map_prod id (map notified_handle \<circ> vw_pending_notifications))) [view_states (iw ex_notified)] = [[(0, [9])]]"
    by code_simp
  then have "vw_pending_notifications s \<noteq> []" using map_of_SomeD [OF s] by auto
  then obtain n where n: "n \<in> set (vw_pending_notifications s)" by (cases "vw_pending_notifications s") auto
  from view_isolation [OF reach map_of_SomeD [OF s] n] map_of_SomeD [OF s] n show ?thesis by blast
qed

text \<open>
  What ends the client process: exactly a result that carries a status which is not bad,
  be it the status of a fault the server sent or of a failed call, where a status is expected
  to say what failed. Every other response is narrowed to its type or to a bad status.
\<close>

lemma narrow_response_panics:
  "NarrowResponse pick result = None \<longleftrightarrow>
     (\<exists>st. \<not> status_bad st \<and> (result = Inl st \<or> result = Inr (ServiceFault st)))"
  by (cases result) (auto simp: NarrowResponse_def StatusOr_def split: response.split option.split)

text \<open>
  C17. The window and the acknowledgements of the publish loop. At most two Publish requests are
  outstanding, and their responses are awaited in the order the requests were sent. The
  acknowledgements in the requests that were sent, in the one being sent and still to come are, in
  this order, among those owed for the messages that arrived with a sequence number, each at most
  once; while no Send has failed they are exactly these.
\<close>

theorem publish_window_exact:
  assumes "publish_step\<^sup>*\<^sup>* (publish_start p) w"
  shows "length (outstanding_publishes (pw_sub w)) \<le> kMaxOutstandingPublishRequests
    \<and> pw_awaited w @ outstanding_publishes (pw_sub w) = pw_sent w
    \<and> subseq (concat (pw_acks w) @ pw_flying w @ pending_acks (pw_sub w)) (pw_owed w)
    \<and> (pw_failed w = 0 \<longrightarrow> concat (pw_acks w) @ pw_flying w @ pending_acks (pw_sub w) = pw_owed w)"
proof -
  have "publish_inv w"
    using assms
  proof (induction rule: rtranclp_induct)
    case base
    show ?case by (simp add: publish_inv_def publish_start_def kept_acks_def)
  next
    case (step y z)
    then show ?case using publish_step_inv by blast
  qed
  then show ?thesis by (auto simp: publish_inv_def kept_acks_def split: if_splits)
qed

text \<open>Two requests are sent, and the first is answered.\<close>

definition example_ps :: "unit protocol_subscription" where
  "example_ps = ClientProtocolSubscription\<lparr>is_created := True, ps_subscription_id := 5\<rparr>"

definition send_publish :: "u32 \<Rightarrow> u32 \<Rightarrow> unit publish_world \<Rightarrow> unit publish_world" where
  "send_publish rid h w = w\<lparr>pw_sub := (pw_sub w)\<lparr>pending_acks := [],
       outstanding_publishes := outstanding_publishes (pw_sub w) @ [(rid, h)]\<rparr>, pw_sending := False, pw_flying := [],
     pw_acks := pw_acks w @ [pending_acks (pw_sub w)], pw_sent := pw_sent w @ [(rid, h)]\<rparr>"

lemma send_publish_steps:
  assumes "\<not> pw_sending w" and "FillPublishWindow (pw_sub w)"
  shows "publish_step\<^sup>*\<^sup>* w (send_publish rid h w)"
proof -
  let ?w = "w\<lparr>pw_sub := (pw_sub w)\<lparr>pending_acks := []\<rparr>, pw_sending := True, pw_flying := pending_acks (pw_sub w)\<rparr>"
  have "publish_step w ?w" by (rule pw_send [OF assms]) (simp add: BeginSendPublishRequest_def)
  moreover have "publish_step ?w (send_publish rid h w)"
    using pw_sent [of ?w h "Inr rid"] by (cases w) (simp add: FinishSendPublishRequest_def send_publish_def)
  ultimately show ?thesis by (meson r_into_rtranclp rtranclp_trans)
qed

definition ex_sent :: "unit publish_world" where
  "ex_sent = send_publish 2 12 (send_publish 1 11 (publish_start example_ps))"

definition ex_acked :: "unit publish_world" where
  "ex_acked = send_publish 3 13 (ex_sent\<lparr>pw_sub := (pw_sub ex_sent)\<lparr>pending_acks := [(5, 1)], outstanding_publishes := [(2, 12)]\<rparr>,
     pw_awaited := [(1, 11)], pw_owed := [(5, 1)]\<rparr>)"

lemmas ex_sent_simps = ex_sent_def send_publish_def publish_start_def example_ps_def ClientProtocolSubscription_def
  FillPublishWindow_def

lemma ex_sent_reach: "publish_step\<^sup>*\<^sup>* (publish_start example_ps) ex_sent"
proof -
  have "publish_step\<^sup>*\<^sup>* (publish_start example_ps) (send_publish 1 11 (publish_start example_ps))"
    by (rule send_publish_steps) (simp_all add: ex_sent_simps)
  moreover have "publish_step\<^sup>*\<^sup>* (send_publish 1 11 (publish_start example_ps)) ex_sent"
    unfolding ex_sent_def by (rule send_publish_steps) (simp_all add: ex_sent_simps)
  ultimately show ?thesis by (rule rtranclp_trans)
qed

lemma ex_acked_reach: "publish_step\<^sup>*\<^sup>* (publish_start example_ps) ex_acked"
proof -
  let ?w = "ex_sent\<lparr>pw_sub := (pw_sub ex_sent)\<lparr>pending_acks := [(5, 1)], outstanding_publishes := [(2, 12)]\<rparr>,
     pw_awaited := [(1, 11)], pw_owed := [(5, 1)]\<rparr>"
  have "publish_step ex_sent ?w"
    using pw_publish [of ex_sent "(1, 11)" "snd (TakePublish (pw_sub ex_sent))" example_publish
        "snd (TakePublish (pw_sub ex_sent))"]
    by (simp add: ex_sent_simps TakePublish_def FinishPublish_def example_publish_def NarrowResponse_def as_publish_def
        HandlePublishResponse_def owed_def Let_def)
  moreover have "publish_step\<^sup>*\<^sup>* ?w ex_acked"
    unfolding ex_acked_def by (rule send_publish_steps) (simp_all add: ex_sent_simps)
  ultimately show ?thesis using ex_sent_reach by (meson rtranclp.rtrancl_into_rtrancl rtranclp_trans)
qed

theorem publish_window_exact_witness:
  "publish_step\<^sup>*\<^sup>* (publish_start example_ps) ex_acked \<and> pw_failed ex_acked = 0
   \<and> outstanding_publishes (pw_sub ex_acked) = [(2, 12), (3, 13)] \<and> pw_awaited ex_acked = [(1, 11)]
   \<and> pw_sent ex_acked = [(1, 11), (2, 12), (3, 13)] \<and> concat (pw_acks ex_acked) = pw_owed ex_acked
   \<and> pw_owed ex_acked = [(5, 1)]"
proof -
  have e: "pw_failed ex_acked = 0" "outstanding_publishes (pw_sub ex_acked) = [(2, 12), (3, 13)]"
    "pw_awaited ex_acked = [(1, 11)]" "pw_flying ex_acked = []" "pending_acks (pw_sub ex_acked) = []"
    "pw_owed ex_acked = [(5, 1)]"
    by (simp_all add: ex_acked_def ex_sent_simps)
  then show ?thesis using ex_acked_reach publish_window_exact [OF ex_acked_reach] by simp
qed

end
