(* ===== verification/Ua_Trust_Store.thy ===== *)
theory Ua_Trust_Store
  imports Ua_Client_Secure Ua_Endpoints
begin

text \<open>
  The file-backed store of trusted certificates, \<^verbatim>\<open>transport/binary/certificate_trust_store.{h,cpp}\<close>,
  with the certificate functions of \<^verbatim>\<open>crypto.cpp\<close> it needs. The X509 half of OpenSSL is the record
  \<open>x509_library\<close>, the files the record \<open>file_system\<close>; the clock is inside
  \<open>X509_cmp_current_time\<close>, so loading and validating have their own library values. A null
  \<^verbatim>\<open>X509_STORE*\<close> is \<open>None\<close>. The files \<open>WriteRejected\<close> writes are returned.
\<close>

section \<open>The library and the files\<close>

type_synonym crl = nat

record issuer_store =
  store_certs :: "x509 list"
  store_crls :: "crl list"
  store_crl_check :: bool

record x509_library =
  PEM_read_X509 :: "bytes \<Rightarrow> x509 option"
  PEM_read_PrivateKey :: "bytes \<Rightarrow> pkey option"
  X509_get0_notBefore :: "x509 \<Rightarrow> int option"
  X509_get0_notAfter :: "x509 \<Rightarrow> int option"
  X509_cmp_current_time :: "int \<Rightarrow> int"
  PEM_read_X509_CRL :: "bytes \<Rightarrow> crl option"
  d2i_X509_CRL :: "bytes \<Rightarrow> crl option"
  X509_STORE_new :: bool
  X509_STORE_add_cert :: "issuer_store \<Rightarrow> x509 \<Rightarrow> bool"
  X509_STORE_add_crl :: "issuer_store \<Rightarrow> crl \<Rightarrow> bool"
  X509_verify_cert :: "issuer_store \<Rightarrow> x509 \<Rightarrow> bool option"

text \<open>
  The entries of a directory with whether each is a regular file; the bytes of a file; whether a
  directory can be created where it is missing and a file of that name opened in it for writing.
  Bytes written to an open file arrive.
\<close>

record file_system =
  is_directory :: "bytes \<Rightarrow> bool"
  directory_entries :: "bytes \<Rightarrow> (bytes \<times> bool) list"
  file_bytes :: "bytes \<Rightarrow> bytes option"
  can_create :: "bytes \<Rightarrow> bytes \<Rightarrow> bool"

definition LoadPemCertificate :: "x509_library \<Rightarrow> bytes \<Rightarrow> certificate option" where
  "LoadPemCertificate xl pem = map_option Some (PEM_read_X509 xl pem)"

definition LoadPemPrivateKey :: "x509_library \<Rightarrow> bytes \<Rightarrow> private_key option" where
  "LoadPemPrivateKey xl pem = map_option Some (PEM_read_PrivateKey xl pem)"

definition CertificateTimeValid :: "x509_library \<Rightarrow> certificate \<Rightarrow> bool" where
  "CertificateTimeValid xl cert = (case cert of None \<Rightarrow> False
     | Some c \<Rightarrow> (case (X509_get0_notBefore xl c, X509_get0_notAfter xl c) of
           (Some not_before, Some not_after) \<Rightarrow>
             X509_cmp_current_time xl not_before < 0 \<and> X509_cmp_current_time xl not_after > 0
         | _ \<Rightarrow> False))"

section \<open>Loading\<close>

definition kDigits :: bytes where "kDigits = lit ''0123456789abcdef''"

definition ToHex :: "bytes \<Rightarrow> bytes" where
  "ToHex bs = concat (map (\<lambda>b. [kDigits ! unat (drop_bit 4 b), kDigits ! unat (b AND 0x0f)]) bs)"

definition ReadFileBytes :: "file_system \<Rightarrow> bytes \<Rightarrow> bytes option" where
  "ReadFileBytes fs path = file_bytes fs path"

definition LoadAnyCertificate :: "openssl \<Rightarrow> x509_library \<Rightarrow> bytes \<Rightarrow> certificate option" where
  "LoadAnyCertificate ssl xl bs =
     (if find_text (lit ''BEGIN CERTIFICATE'') bs \<noteq> None then LoadPemCertificate xl bs
      else LoadDerCertificate ssl bs)"

definition LoadCrl :: "x509_library \<Rightarrow> bytes \<Rightarrow> crl option" where
  "LoadCrl xl bs = (if find_text (lit ''BEGIN X509 CRL'') bs \<noteq> None then PEM_read_X509_CRL xl bs
     else d2i_X509_CRL xl bs)"

record trust_store_config =
  trusted_dir :: bytes
  issuer_dir :: bytes
  crl_dir :: bytes
  rejected_dir :: bytes

record trust_store =
  ts_config :: trust_store_config
  trusted_thumbprints :: "bytes list"
  ts_issuer_store :: "issuer_store option"

text \<open>One round of the loop over the trusted directory.\<close>

definition load_trusted_entry :: "openssl \<Rightarrow> x509_library \<Rightarrow> file_system \<Rightarrow> bytes \<times> bool \<Rightarrow> bytes list \<Rightarrow> bytes list" where
  "load_trusted_entry ssl xl fs = (\<lambda>(path, regular) known.
     if \<not> regular then known
     else case ReadFileBytes fs path of None \<Rightarrow> known
     | Some bs \<Rightarrow> (case LoadAnyCertificate ssl xl bs of None \<Rightarrow> known
         | Some cert \<Rightarrow> (case CertificateThumbprint ssl cert of None \<Rightarrow> known
             | Some t \<Rightarrow> List.insert (ToHex t) known)))"

definition LoadTrusted :: "openssl \<Rightarrow> x509_library \<Rightarrow> file_system \<Rightarrow> bytes \<Rightarrow> bytes list" where
  "LoadTrusted ssl xl fs dir =
     (if dir = [] \<or> \<not> is_directory fs dir then []
      else fold (load_trusted_entry ssl xl fs) (directory_entries fs dir) [])"

definition load_issuer_entry :: "openssl \<Rightarrow> x509_library \<Rightarrow> file_system \<Rightarrow> bytes \<times> bool
    \<Rightarrow> issuer_store \<times> nat \<Rightarrow> issuer_store \<times> nat" where
  "load_issuer_entry ssl xl fs = (\<lambda>(path, regular) (store, ca_count).
     if \<not> regular then (store, ca_count)
     else case ReadFileBytes fs path of None \<Rightarrow> (store, ca_count)
     | Some bs \<Rightarrow> (case LoadAnyCertificate ssl xl bs of
           Some (Some c) \<Rightarrow> if X509_STORE_add_cert xl store c
             then (store\<lparr>store_certs := store_certs store @ [c]\<rparr>, ca_count + 1) else (store, ca_count)
         | _ \<Rightarrow> (store, ca_count)))"

definition load_crl_entry :: "x509_library \<Rightarrow> file_system \<Rightarrow> bytes \<times> bool
    \<Rightarrow> issuer_store \<times> nat \<Rightarrow> issuer_store \<times> nat" where
  "load_crl_entry xl fs = (\<lambda>(path, regular) (store, crl_count).
     if \<not> regular then (store, crl_count)
     else case ReadFileBytes fs path of None \<Rightarrow> (store, crl_count)
     | Some bs \<Rightarrow> (case LoadCrl xl bs of None \<Rightarrow> (store, crl_count)
         | Some crl \<Rightarrow> if X509_STORE_add_crl xl store crl
             then (store\<lparr>store_crls := store_crls store @ [crl]\<rparr>, crl_count + 1) else (store, crl_count)))"

definition LoadIssuerStore :: "openssl \<Rightarrow> x509_library \<Rightarrow> file_system \<Rightarrow> bytes \<Rightarrow> bytes \<Rightarrow> issuer_store option" where
  "LoadIssuerStore ssl xl fs dir crls =
     (if dir = [] \<or> \<not> is_directory fs dir then None
      else if \<not> X509_STORE_new xl then None
      else let (store, ca_count) = fold (load_issuer_entry ssl xl fs) (directory_entries fs dir)
                 (\<lparr>store_certs = [], store_crls = [], store_crl_check = False\<rparr>, 0);
               store = (if crls \<noteq> [] \<and> is_directory fs crls
                 then (let (store, crl_count) = fold (load_crl_entry xl fs) (directory_entries fs crls) (store, 0)
                       in if crl_count > 0 then store\<lparr>store_crl_check := True\<rparr> else store)
                 else store)
           in if ca_count = 0 then None else Some store)"

definition CertificateTrustStore :: "openssl \<Rightarrow> x509_library \<Rightarrow> file_system \<Rightarrow> trust_store_config \<Rightarrow> trust_store" where
  "CertificateTrustStore ssl xl fs config = \<lparr>ts_config = config,
     trusted_thumbprints = LoadTrusted ssl xl fs (trusted_dir config),
     ts_issuer_store = LoadIssuerStore ssl xl fs (issuer_dir config) (crl_dir config)\<rparr>"

section \<open>Validation\<close>

definition ChainVerifies :: "x509_library \<Rightarrow> certificate \<Rightarrow> trust_store \<Rightarrow> bool" where
  "ChainVerifies xl cert ts = (case (ts_issuer_store ts, cert) of
       (Some store, Some c) \<Rightarrow> X509_verify_cert xl store c = Some True
     | _ \<Rightarrow> False)"

text \<open>The directory, the name and the contents of the file that is written.\<close>

definition WriteRejected :: "file_system \<Rightarrow> bytes \<Rightarrow> bytes \<Rightarrow> trust_store \<Rightarrow> (bytes \<times> bytes \<times> bytes) list" where
  "WriteRejected fs der thumbprint_hex ts =
     (if rejected_dir (ts_config ts) = [] \<or> thumbprint_hex = [] then []
      else if \<not> can_create fs (rejected_dir (ts_config ts)) (thumbprint_hex @ lit ''.der'') then []
      else [(rejected_dir (ts_config ts), thumbprint_hex @ lit ''.der'', der)])"

definition Validate :: "openssl \<Rightarrow> x509_library \<Rightarrow> file_system \<Rightarrow> bytes \<Rightarrow> trust_store
    \<Rightarrow> status \<times> (bytes \<times> bytes \<times> bytes) list" where
  "Validate ssl xl fs der ts = (case LoadDerCertificate ssl der of
       None \<Rightarrow> (status_of_code Bad, [])
     | Some certificate \<Rightarrow>
         let thumbprint_hex = (case CertificateThumbprint ssl certificate of Some t \<Rightarrow> ToHex t | None \<Rightarrow> []) in
         if \<not> CertificateTimeValid xl certificate
         then (status_of_code Bad, WriteRejected fs der thumbprint_hex ts)
         else if thumbprint_hex \<noteq> [] \<and> thumbprint_hex \<in> set (trusted_thumbprints ts)
         then (status_of_code Good, [])
         else if ChainVerifies xl certificate ts then (status_of_code Good, [])
         else (status_of_code Bad, WriteRejected fs der thumbprint_hex ts))"

section \<open>What is loaded\<close>

lemma length_ToHex [simp]: "length (ToHex bs) = 2 * length bs"
  by (simp add: ToHex_def length_concat comp_def sum_list_triv)

lemma ToHex_Cons: "ToHex (b # bs) = kDigits ! unat (drop_bit 4 b) # kDigits ! unat (b AND 0x0f) # ToHex bs"
  by (simp add: ToHex_def)

lemma distinct_kDigits: "distinct kDigits" "length kDigits = 16"
  by (code_simp, code_simp)

lemma nibbles: "unat (drop_bit 4 (b :: byte)) < 16" "unat (b AND 0x0f) < 16"
proof -
  show "unat (drop_bit 4 b) < 16"
    using unsigned_less [of b, where ?'a = nat]
    by (simp add: unat_drop_bit_eq drop_bit_eq_div unat_div_distrib less_mult_imp_div_less)
  have "b AND 0x0f = take_bit 4 b" by (simp add: take_bit_eq_mask mask_eq_exp_minus_1)
  then show "unat (b AND 0x0f) < 16" using take_bit_nat_less_exp [of 4 "unat b"] by (simp add: unsigned_take_bit_eq)
qed

lemma kDigits_inj: "kDigits ! unat v = kDigits ! unat w \<Longrightarrow> unat v < 16 \<Longrightarrow> unat w < 16 \<Longrightarrow> v = (w :: byte)"
  using nth_eq_iff_index_eq [OF distinct_kDigits(1), of "unat v" "unat w"]
  by (simp add: distinct_kDigits(2) word_unat_eq_iff)

lemma nibbles_eq:
  assumes "drop_bit 4 (b :: byte) = drop_bit 4 c" and "b AND 0x0f = c AND 0x0f"
  shows "b = c"
proof -
  have "take_bit 4 b = take_bit 4 c" using assms(2) by (simp add: take_bit_eq_mask mask_eq_exp_minus_1)
  then show ?thesis using assms(1) by (metis bits_ident)
qed

text \<open>Distinct thumbprints have distinct names.\<close>

lemma ToHex_inject: "ToHex bs = ToHex cs \<longleftrightarrow> bs = cs"
proof
  assume eq: "ToHex bs = ToHex cs"
  then have "length bs = length cs" by (metis length_ToHex mult_cancel1 zero_neq_numeral)
  then show "bs = cs" using eq
  proof (induction bs cs rule: list_induct2)
    case (Cons b bs c cs)
    have "drop_bit 4 b = drop_bit 4 c" "b AND 0x0f = c AND 0x0f"
      using Cons.prems nibbles [of b] nibbles [of c] kDigits_inj unfolding ToHex_Cons list.inject by metis+
    then have "b = c" by (rule nibbles_eq)
    moreover have "ToHex bs = ToHex cs" using Cons.prems unfolding ToHex_Cons list.inject by (elim conjE)
    then have "bs = cs" by (rule Cons.IH)
    ultimately show ?case by (rule arg_cong2)
  qed simp
qed simp

text \<open>A thumbprint the operator trusts: that of a readable certificate in the directory.\<close>

definition trusted_leaf :: "openssl \<Rightarrow> x509_library \<Rightarrow> file_system \<Rightarrow> bytes \<Rightarrow> bytes \<Rightarrow> bool" where
  "trusted_leaf ssl xl fs dir t \<longleftrightarrow> dir \<noteq> [] \<and> is_directory fs dir
     \<and> (\<exists>path bs cert. (path, True) \<in> set (directory_entries fs dir) \<and> file_bytes fs path = Some bs
          \<and> LoadAnyCertificate ssl xl bs = Some cert \<and> CertificateThumbprint ssl cert = Some t)"

lemma load_trusted_set:
  "set (fold (load_trusted_entry ssl xl fs) es known) = set known \<union>
     {ToHex t |t. \<exists>path bs cert. (path, True) \<in> set es \<and> file_bytes fs path = Some bs
        \<and> LoadAnyCertificate ssl xl bs = Some cert \<and> CertificateThumbprint ssl cert = Some t}"
proof (induction es arbitrary: known)
  case (Cons e es)
  have "set (load_trusted_entry ssl xl fs e known) = set known \<union>
     {ToHex t |t. \<exists>path bs cert. (path, True) = e \<and> file_bytes fs path = Some bs
        \<and> LoadAnyCertificate ssl xl bs = Some cert \<and> CertificateThumbprint ssl cert = Some t}"
    by (cases e) (auto simp: load_trusted_entry_def ReadFileBytes_def split: option.split)
  then show ?case using Cons.IH by auto
qed simp

lemma LoadTrusted_iff: "ToHex t \<in> set (LoadTrusted ssl xl fs dir) \<longleftrightarrow> trusted_leaf ssl xl fs dir t"
  by (auto simp: LoadTrusted_def trusted_leaf_def load_trusted_set ToHex_inject)

text \<open>An issuer store has an issuer, and it checks revocation exactly when a CRL was loaded.\<close>

lemma load_issuer_fold:
  "fold (load_issuer_entry ssl xl fs) es (s, n) = (s', n') \<Longrightarrow>
     length (store_certs s) = n \<Longrightarrow> length (store_certs s') = n' \<and> store_crls s' = store_crls s
       \<and> store_crl_check s' = store_crl_check s"
proof (induction es arbitrary: s n)
  case (Cons e es)
  obtain s1 n1 where 1: "load_issuer_entry ssl xl fs e (s, n) = (s1, n1)" by force
  then have "length (store_certs s1) = n1 \<and> store_crls s1 = store_crls s \<and> store_crl_check s1 = store_crl_check s"
    using Cons.prems(2)
    by (cases e) (auto simp: load_issuer_entry_def split: if_splits option.splits)
  then show ?case using Cons.IH [of s1 n1] Cons.prems(1) 1 by simp
qed simp

lemma load_crl_fold:
  "fold (load_crl_entry xl fs) es (s, n) = (s', n') \<Longrightarrow> length (store_crls s) = n \<Longrightarrow>
     length (store_crls s') = n' \<and> store_certs s' = store_certs s \<and> store_crl_check s' = store_crl_check s"
proof (induction es arbitrary: s n)
  case (Cons e es)
  obtain s1 n1 where 1: "load_crl_entry xl fs e (s, n) = (s1, n1)" by force
  then have "length (store_crls s1) = n1 \<and> store_certs s1 = store_certs s \<and> store_crl_check s1 = store_crl_check s"
    using Cons.prems(2)
    by (cases e) (auto simp: load_crl_entry_def split: if_splits option.splits)
  then show ?case using Cons.IH [of s1 n1] Cons.prems(1) 1 by simp
qed simp

lemma LoadIssuerStore_shape:
  assumes "LoadIssuerStore ssl xl fs dir crls = Some store"
  shows "store_certs store \<noteq> []" and "store_crl_check store \<longleftrightarrow> store_crls store \<noteq> []"
proof -
  let ?new = "\<lparr>store_certs = [], store_crls = [], store_crl_check = False\<rparr>"
  obtain s n where s: "fold (load_issuer_entry ssl xl fs) (directory_entries fs dir) (?new, 0) = (s, n)" by force
  obtain s' k where k: "fold (load_crl_entry xl fs) (directory_entries fs crls) (s, 0) = (s', k)" by force
  have n: "length (store_certs s) = n" "store_crls s = []" "\<not> store_crl_check s"
    using load_issuer_fold [OF s] by simp_all
  have k': "length (store_crls s') = k" "store_certs s' = store_certs s" "\<not> store_crl_check s'"
    using load_crl_fold [OF k] n by simp_all
  have "n \<noteq> 0 \<and> store = (if crls \<noteq> [] \<and> is_directory fs crls
      then (if k > 0 then s'\<lparr>store_crl_check := True\<rparr> else s') else s)"
    using assms s k by (auto simp: LoadIssuerStore_def Let_def split: if_splits)
  then show "store_certs store \<noteq> []" "store_crl_check store \<longleftrightarrow> store_crls store \<noteq> []"
    using n k' by (auto split: if_splits)
qed

section \<open>Property\<close>

text \<open>
  C19. The trust decision. A certificate is accepted exactly when it parses, the current time
  lies in its validity period, and either its thumbprint is that of a certificate in the
  trusted directory or its chain verifies against the loaded issuers. A certificate that parses,
  has a thumbprint and is refused is copied to the rejected directory, if there is one and the
  file can be created, under its own thumbprint, and nothing else is ever written there: one that
  does not parse is refused without a copy.
\<close>

theorem trust_store_decides:
  "case Validate ssl xl' fs' der (CertificateTrustStore ssl xl fs config) of (st, written) \<Rightarrow>
     (st = status_of_code Good \<longleftrightarrow> (\<exists>c. LoadDerCertificate ssl der = Some c \<and> CertificateTimeValid xl' c
        \<and> ((\<exists>t. CertificateThumbprint ssl c = Some t \<and> trusted_leaf ssl xl fs (trusted_dir config) t)
           \<or> ChainVerifies xl' c (CertificateTrustStore ssl xl fs config))))
     \<and> (st = status_of_code Good \<or> st = status_of_code Bad)
     \<and> set written = {(rejected_dir config, ToHex t @ lit ''.der'', der) |t c.
          st = status_of_code Bad \<and> rejected_dir config \<noteq> []
          \<and> can_create fs' (rejected_dir config) (ToHex t @ lit ''.der'')
          \<and> LoadDerCertificate ssl der = Some c \<and> CertificateThumbprint ssl c = Some t}"
proof -
  have codes: "status_of_code Good \<noteq> status_of_code Bad" by (simp add: status_of_code_def)
  show ?thesis
  proof (cases "LoadDerCertificate ssl der")
    case None
    then show ?thesis using codes by (simp add: Validate_def)
  next
    case (Some c)
    let ?ts = "CertificateTrustStore ssl xl fs config"
    have hex: "ToHex t \<noteq> []" if "CertificateThumbprint ssl c = Some t" for t
    proof -
      have "length (ToHex t) = 40" using length_thumbprint [OF that] by simp
      then show ?thesis by (metis list.size(3) zero_neq_numeral)
    qed
    have "ToHex t \<in> set (trusted_thumbprints ?ts) \<longleftrightarrow> trusted_leaf ssl xl fs (trusted_dir config) t" for t
      by (simp add: CertificateTrustStore_def LoadTrusted_iff)
    moreover have "ts_config ?ts = config" by (simp add: CertificateTrustStore_def)
    ultimately show ?thesis using Some hex codes
      by (cases "CertificateThumbprint ssl c") (auto simp: Validate_def Let_def WriteRejected_def)
  qed
qed

end
