(* ===== verification/Ua_Client_Login.thy ===== *)
theory Ua_Client_Login
  imports Ua_Client_Subscription Ua_Trust_Store
begin

text \<open>
  How the client gets a session: \<^verbatim>\<open>client/endpoint_url.cpp\<close>, \<^verbatim>\<open>client/endpoint_selection.{h,cpp}\<close>,
  \<^verbatim>\<open>client/client_security.{h,cpp}\<close>, \<^verbatim>\<open>client/namespace_table.{h,cpp}\<close>, the login and logout of
  \<^verbatim>\<open>client/client_protocol_session.{h,cpp}\<close>, \<^verbatim>\<open>client/discovery_client.{h,cpp}\<close> and the connection
  handling of \<^verbatim>\<open>client/client_session.{h,cpp}\<close>. A service call is a function of its handle, its
  request and the authentication token, over the state of whatever answers it; \<open>serve\<close> is the
  runtime of \<open>Ua_Runtime\<close> in that place. \<open>None\<close> is where the process ends or the C++ is undefined.
\<close>

section \<open>Endpoint URLs\<close>

record parsed_endpoint_url =
  pe_host :: bytes
  pe_port :: int
  pe_valid :: bool

definition opc_tcp_prefix :: bytes where "opc_tcp_prefix = lit ''opc.tcp://''"

abbreviation kOpcTcpPrefixLen :: nat where "kOpcTcpPrefixLen \<equiv> 10"

definition rfind_char :: "byte \<Rightarrow> bytes \<Rightarrow> nat option" where
  "rfind_char c xs = map_option (\<lambda>n. length xs - 1 - n) (find_char c (rev xs))"

definition is_digit :: "byte \<Rightarrow> bool" where "is_digit c \<longleftrightarrow> 0x30 \<le> c \<and> c \<le> 0x39"

text \<open>The loop over the port: \<open>None\<close> where the \<^verbatim>\<open>int\<close> overflows, \<open>Some None\<close> at a character that is no digit.\<close>

fun parse_port :: "bytes \<Rightarrow> int \<Rightarrow> int option option" where
  "parse_port [] port = Some (Some port)"
| "parse_port (c # cs) port =
     (if \<not> is_digit c then Some None
      else let port = port * 10 + (uint c - 0x30) in
        if port \<ge> 2 ^ 31 then None else parse_port cs port)"

definition ParseOpcTcpUrl :: "bytes \<Rightarrow> parsed_endpoint_url option" where
  "ParseOpcTcpUrl url =
     (if length url \<le> kOpcTcpPrefixLen \<or> take kOpcTcpPrefixLen url \<noteq> opc_tcp_prefix
      then Some \<lparr>pe_host = [], pe_port = 4840, pe_valid = False\<rparr>
      else let tail = drop kOpcTcpPrefixLen url;
               authority = (case find_char slash tail of None \<Rightarrow> tail | Some p \<Rightarrow> take p tail)
        in case rfind_char colon authority of
             None \<Rightarrow> Some \<lparr>pe_host = authority, pe_port = 4840, pe_valid = (authority \<noteq> [])\<rparr>
           | Some p \<Rightarrow>
               let host = take p authority; port_str = drop (p + 1) authority;
                   malformed = \<lparr>pe_host = host, pe_port = 4840, pe_valid = False\<rparr>
               in if host = [] \<or> port_str = [] then Some malformed
                  else map_option (\<lambda>parsed. case parsed of None \<Rightarrow> malformed
                    | Some port \<Rightarrow> malformed\<lparr>pe_port := port, pe_valid := True\<rparr>) (parse_port port_str 0))"

section \<open>Endpoint selection\<close>

abbreviation ep_mode :: "endpoint_description \<Rightarrow> message_security_mode" where
  "ep_mode \<equiv> Ua_Endpoints.security_mode"

abbreviation ep_policy :: "endpoint_description \<Rightarrow> bytes" where
  "ep_policy \<equiv> Ua_Endpoints.security_policy_uri"

definition kSecurityPolicyUriNone :: bytes where
  "kSecurityPolicyUriNone = lit ''http://opcfoundation.org/UA/SecurityPolicy#None''"

definition kSecurityPolicyUriBasic256Sha256 :: bytes where
  "kSecurityPolicyUriBasic256Sha256 = lit ''http://opcfoundation.org/UA/SecurityPolicy#Basic256Sha256''"

datatype supported_security = SupportedSecurity (sup_policy_uri: bytes) (sup_mode: message_security_mode)

type_synonym client_capabilities = "supported_security list"

datatype preference_mode = PreferAuto | PreferNone | PreferSignAndEncrypt

record security_preference =
  preferred_mode :: preference_mode
  preferred_policy_uri :: "bytes option"

fun SecurityRank :: "message_security_mode \<Rightarrow> int" where
  "SecurityRank Ua_Endpoints.ModeSignAndEncrypt = 3"
| "SecurityRank Ua_Endpoints.ModeSign = 2"
| "SecurityRank Ua_Endpoints.ModeNone = 1"
| "SecurityRank Ua_Endpoints.ModeInvalid = 0"

definition IsSupported :: "client_capabilities \<Rightarrow> endpoint_description \<Rightarrow> bool" where
  "IsSupported capabilities e =
     list_ex (\<lambda>s. sup_policy_uri s = ep_policy e \<and> sup_mode s = ep_mode e) capabilities"

definition MatchesPreference :: "security_preference \<Rightarrow> endpoint_description \<Rightarrow> bool" where
  "MatchesPreference preference e =
     ((case preferred_mode preference of
         PreferNone \<Rightarrow> ep_mode e = Ua_Endpoints.ModeNone
       | PreferSignAndEncrypt \<Rightarrow> ep_mode e = Ua_Endpoints.ModeSignAndEncrypt
       | PreferAuto \<Rightarrow> True)
      \<and> (case preferred_policy_uri preference of None \<Rightarrow> True | Some uri \<Rightarrow> uri = ep_policy e))"

definition IsBetter :: "endpoint_description \<Rightarrow> endpoint_description \<Rightarrow> bool" where
  "IsBetter candidate incumbent =
     (let cr = SecurityRank (ep_mode candidate); ir = SecurityRank (ep_mode incumbent) in
      if cr \<noteq> ir then cr > ir else security_level candidate > security_level incumbent)"

definition DefaultCapabilities :: client_capabilities where
  "DefaultCapabilities =
     [SupportedSecurity kSecurityPolicyUriBasic256Sha256 Ua_Endpoints.ModeSignAndEncrypt,
      SupportedSecurity kSecurityPolicyUriNone Ua_Endpoints.ModeNone]"

definition NoneOnly :: client_capabilities where
  "NoneOnly = [SupportedSecurity kSecurityPolicyUriNone Ua_Endpoints.ModeNone]"

definition select_round :: "security_preference \<Rightarrow> client_capabilities \<Rightarrow> endpoint_description
    \<Rightarrow> endpoint_description option \<Rightarrow> endpoint_description option" where
  "select_round preference capabilities e best =
     (if \<not> IsSupported capabilities e \<or> \<not> MatchesPreference preference e then best
      else case best of None \<Rightarrow> Some e | Some b \<Rightarrow> if IsBetter e b then Some e else best)"

definition SelectEndpoint :: "endpoint_description list \<Rightarrow> security_preference \<Rightarrow> client_capabilities
    \<Rightarrow> status + endpoint_description" where
  "SelectEndpoint endpoints preference capabilities =
     or_bad (fold (select_round preference capabilities) endpoints None)"

section \<open>Settings and channel security\<close>

datatype settings_mode = SettingsNone | SettingsAuto | SettingsSignAndEncrypt

record security_settings =
  settings_mode :: settings_mode
  required_policy_uri :: bytes
  client_certificate_path :: bytes
  client_private_key_path :: bytes
  trusted_certificates_dir :: bytes
  issuer_certificates_dir :: bytes
  settings_crl_dir :: bytes
  rejected_certificates_dir :: bytes

definition has_trust_store :: "security_settings \<Rightarrow> bool" where
  "has_trust_store s \<longleftrightarrow> trusted_certificates_dir s \<noteq> [] \<or> issuer_certificates_dir s \<noteq> []"

definition ReadFile :: "file_system \<Rightarrow> bytes \<Rightarrow> bytes option" where
  "ReadFile fs path = (if path = [] then None else file_bytes fs path)"

definition ToSecurityPreference :: "security_settings \<Rightarrow> security_preference" where
  "ToSecurityPreference s = \<lparr>
     preferred_mode = (case settings_mode s of
         SettingsNone \<Rightarrow> PreferNone
       | SettingsAuto \<Rightarrow> if has_trust_store s then PreferSignAndEncrypt else PreferAuto
       | SettingsSignAndEncrypt \<Rightarrow> PreferSignAndEncrypt),
     preferred_policy_uri = (if required_policy_uri s \<noteq> [] then Some (required_policy_uri s) else None)\<rparr>"

definition CapabilitiesFor :: "security_settings \<Rightarrow> client_capabilities" where
  "CapabilitiesFor s = (if client_certificate_path s \<noteq> [] \<and> client_private_key_path s \<noteq> []
     then DefaultCapabilities else NoneOnly)"

text \<open>The enumerators of \<^verbatim>\<open>MessageSecurityMode\<close>.\<close>

fun mode_value :: "message_security_mode \<Rightarrow> u32" where
  "mode_value Ua_Endpoints.ModeInvalid = 0"
| "mode_value Ua_Endpoints.ModeNone = 1"
| "mode_value Ua_Endpoints.ModeSign = 2"
| "mode_value Ua_Endpoints.ModeSignAndEncrypt = 3"

definition settings_store :: "openssl \<Rightarrow> x509_library \<Rightarrow> file_system \<Rightarrow> security_settings \<Rightarrow> trust_store" where
  "settings_store ssl xl fs s = CertificateTrustStore ssl xl fs \<lparr>trusted_dir = trusted_certificates_dir s,
     issuer_dir = issuer_certificates_dir s, crl_dir = settings_crl_dir s,
     rejected_dir = rejected_certificates_dir s\<rparr>"

text \<open>With the files the trust store writes.\<close>

definition BuildChannelSecurity :: "openssl \<Rightarrow> x509_library \<Rightarrow> file_system \<Rightarrow> endpoint_description
    \<Rightarrow> security_settings \<Rightarrow> (status + client_security) \<times> (bytes \<times> bytes \<times> bytes) list" where
  "BuildChannelSecurity ssl xl fs e s =
     (if ep_mode e = Ua_Endpoints.ModeNone then (Inr no_security, [])
      else case (ReadFile fs (client_certificate_path s), ReadFile fs (client_private_key_path s)) of
        (Some cert_pem, Some key_pem) \<Rightarrow>
          (case LoadPemCertificate xl cert_pem of None \<Rightarrow> (Inl bad_status, [])
           | Some client_cert \<Rightarrow>
             (case LoadPemPrivateKey xl key_pem of None \<Rightarrow> (Inl bad_status, [])
              | Some client_key \<Rightarrow>
                let der = ep_server_certificate e;
                    (st, written) = (if has_trust_store s then Validate ssl xl fs der (settings_store ssl xl fs s)
                                     else (status_of_code Good, []))
                in if status_bad st then (Inl st, written)
                   else (case LoadDerCertificate ssl der of None \<Rightarrow> (Inl bad_status, written)
                     | Some server_cert \<Rightarrow>
                         (Inr \<lparr>cs_policy_uri = ep_policy e, cs_security_mode = mode_value (ep_mode e),
                            cs_client_certificate = client_cert, cs_private_key = client_key,
                            cs_server_certificate = server_cert, cs_nonce_generator = False\<rparr>,
                          written))))
      | _ \<Rightarrow> (Inl bad_status, []))"

section \<open>Two lists of endpoints\<close>

definition TokensEquivalent :: "user_token_policy \<Rightarrow> user_token_policy \<Rightarrow> bool" where
  "TokensEquivalent lhs rhs \<longleftrightarrow> policy_id lhs = policy_id rhs \<and> token_type lhs = token_type rhs
     \<and> token_security_policy_uri lhs = token_security_policy_uri rhs"

definition SecurityEquivalent :: "endpoint_description \<Rightarrow> endpoint_description \<Rightarrow> bool" where
  "SecurityEquivalent a b =
     (if ep_mode a \<noteq> ep_mode b \<or> ep_policy a \<noteq> ep_policy b
         \<or> ep_server_certificate a \<noteq> ep_server_certificate b
         \<or> transport_profile_uri a \<noteq> transport_profile_uri b
         \<or> length (user_identity_tokens a) \<noteq> length (user_identity_tokens b)
      then False
      else list_all (\<lambda>i. TokensEquivalent (user_identity_tokens a ! i) (user_identity_tokens b ! i))
             [0..<length (user_identity_tokens a)])"

text \<open>The inner loop: the first entry that is free and equivalent is marked; \<open>None\<close> when there is none.\<close>

fun match_endpoint :: "endpoint_description \<Rightarrow> endpoint_description list \<Rightarrow> bool list \<Rightarrow> bool list option" where
  "match_endpoint e (a # as) (m # ms) =
     (if m \<or> \<not> SecurityEquivalent e a then map_option (Cons m) (match_endpoint e as ms)
      else Some (True # ms))"
| "match_endpoint e _ _ = None"

fun match_all :: "endpoint_description list \<Rightarrow> endpoint_description list \<Rightarrow> bool list \<Rightarrow> bool" where
  "match_all [] authoritative matched = True"
| "match_all (e # es) authoritative matched = (case match_endpoint e authoritative matched of
       None \<Rightarrow> False | Some matched \<Rightarrow> match_all es authoritative matched)"

definition EndpointSetsSecurityEquivalent :: "endpoint_description list \<Rightarrow> endpoint_description list \<Rightarrow> bool" where
  "EndpointSetsSecurityEquivalent discovered authoritative =
     (if authoritative = [] then True
      else if discovered = [] then True
      else if length discovered \<noteq> length authoritative then False
      else match_all discovered authoritative (replicate (length authoritative) False))"

section \<open>The namespace table\<close>

definition FromVariant :: "variant \<Rightarrow> bytes list" where
  "FromVariant v = (case v of Arr STRING xs \<Rightarrow> map (\<lambda>x. case x of BString s \<Rightarrow> s | _ \<Rightarrow> []) xs | _ \<Rightarrow> [])"

fun index_from :: "nat \<Rightarrow> bytes \<Rightarrow> bytes list \<Rightarrow> namespace_index option" where
  "index_from i uri [] = None"
| "index_from i uri (x # xs) = (if x = uri then Some (of_nat i) else index_from (Suc i) uri xs)"

definition IndexForUri :: "bytes \<Rightarrow> bytes list \<Rightarrow> namespace_index option" where
  "IndexForUri uri uris = index_from 0 uri uris"

definition UriForIndex :: "namespace_index \<Rightarrow> bytes list \<Rightarrow> bytes" where
  "UriForIndex i uris = (if unat i < length uris then uris ! unat i else [])"

section \<open>The protocol session\<close>

text \<open>
  A call takes the request handle, the request and the token of the header; the state \<open>'w\<close>
  belongs to whatever answers.
\<close>

type_synonym 'w caller = "u32 \<Rightarrow> client_request \<Rightarrow> node_id \<Rightarrow> 'w \<Rightarrow> (status + client_response) \<times> 'w"

type_synonym client_stack = "client_response channel_state"

record identity =
  id_user_name :: "localized_text option"
  id_password :: "localized_text option"

record credentials =
  cred_certificate :: bytes
  cred_nonce :: bytes
  cred_signer :: "(bytes \<Rightarrow> bytes \<Rightarrow> status + bytes \<times> bytes) option"
  cred_expected_server_certificate :: bytes
  cred_discovered_endpoints :: "endpoint_description list"

definition no_credentials :: credentials where
  "no_credentials = \<lparr>cred_certificate = [], cred_nonce = [], cred_signer = None,
     cred_expected_server_certificate = [], cred_discovered_endpoints = []\<rparr>"

record protocol_session =
  ses_active :: bool
  ses_session_id :: node_id
  ses_authentication_token :: node_id

definition ClientProtocolSession :: protocol_session where
  "ClientProtocolSession = \<lparr>ses_active = False, ses_session_id = null_node_id,
     ses_authentication_token = null_node_id\<rparr>"

definition as_create_session :: "client_response \<Rightarrow> (create_session_response \<times> endpoint_description list) option" where
  "as_create_session r = (case r of CreateSessionResponse x eps \<Rightarrow> Some (x, eps) | _ \<Rightarrow> None)"

definition as_activate_session :: "client_response \<Rightarrow> activate_session_response option" where
  "as_activate_session r = (case r of ActivateSessionResponse x \<Rightarrow> Some x | _ \<Rightarrow> None)"

definition as_close_session :: "client_response \<Rightarrow> status option" where
  "as_close_session r = (case r of CloseSessionResponse x \<Rightarrow> Some x | _ \<Rightarrow> None)"

definition CallTyped :: "(client_response \<Rightarrow> 'x option) \<Rightarrow> 'w caller \<Rightarrow> client_request \<Rightarrow> client_stack \<times> 'w
    \<Rightarrow> ((status + 'x) \<times> client_stack \<times> 'w) option" where
  "CallTyped pick call request = (\<lambda>(c, w).
     let (handle, c) = NextRequestHandle c;
         (result, w) = call handle request (ch_authentication_token c) w
     in map_option (\<lambda>r. (r, c, w)) (NarrowResponse pick result))"

definition create_request :: "duration \<Rightarrow> credentials \<Rightarrow> create_session_request" where
  "create_request timeout cred = \<lparr>cr_requested_timeout = timeout, cr_endpoint_url = [],
     cr_client_certificate = cred_certificate cred, cr_client_nonce = cred_nonce cred,
     cr_channel_secure = False, cr_channel_certificate = [], cr_peer = []\<rparr>"

definition activate_request :: "identity \<Rightarrow> protocol_session \<Rightarrow> bytes \<times> bytes \<Rightarrow> activate_session_request" where
  "activate_request user p signature = \<lparr>ar_session_id = ses_session_id p,
     ar_authentication_token = ses_authentication_token p, ar_user_name = id_user_name user,
     ar_password = id_password user, ar_delete_existing = False,
     ar_allow_anonymous = (id_user_name user = None), ar_channel_secure = False,
     ar_client_signature_algorithm = fst signature, ar_client_signature = snd signature,
     ar_encrypted_password = [], ar_password_encryption_algorithm = [], ar_peer = []\<rparr>"

text \<open>\<open>Create\<close> from the answer to CreateSession on, and as a whole; \<open>open_status\<close> is the result of \<open>connection_.Open()\<close>.\<close>

definition ActivateCreated :: "'w caller \<Rightarrow> identity \<Rightarrow> credentials \<Rightarrow> create_session_response
    \<Rightarrow> protocol_session \<times> client_stack \<times> 'w \<Rightarrow> (status \<times> protocol_session \<times> client_stack \<times> 'w) option" where
  "ActivateCreated call user cred r = (\<lambda>(p, c, w).
     let p = p\<lparr>ses_session_id := cp_session_id r, ses_authentication_token := cp_authentication_token r\<rparr>;
         c = set_authentication_token (cp_authentication_token r) c
     in case (case cred_signer cred of None \<Rightarrow> Inr ([], [])
          | Some signer \<Rightarrow> signer (cp_server_certificate r) (cp_server_nonce r)) of
        Inl e \<Rightarrow> Some (e, p, c, w)
      | Inr signature \<Rightarrow>
          (case CallTyped as_activate_session call (ActivateSessionRequest (activate_request user p signature)) (c, w) of
             None \<Rightarrow> None
           | Some (Inl e, c, w) \<Rightarrow> Some (e, p, c, w)
           | Some (Inr a, c, w) \<Rightarrow>
               if status_bad (ap_status a) then Some (ap_status a, p, c, w)
               else Some (status_of_code Good, p\<lparr>ses_active := True\<rparr>, MarkLoginComplete c, w)))"

definition CreateProtocolSession :: "'w caller \<Rightarrow> status \<Rightarrow> duration \<Rightarrow> identity \<Rightarrow> credentials
    \<Rightarrow> protocol_session \<times> client_stack \<times> 'w \<Rightarrow> (status \<times> protocol_session \<times> client_stack \<times> 'w) option" where
  "CreateProtocolSession call open_status timeout user cred = (\<lambda>(p, c, w).
     if status_bad open_status then Some (open_status, p, c, w)
     else case CallTyped as_create_session call (CreateSessionRequest (create_request timeout cred)) (c, w) of
       None \<Rightarrow> None
     | Some (Inl e, c, w) \<Rightarrow> Some (e, p, c, w)
     | Some (Inr (r, server_endpoints), c, w) \<Rightarrow>
         if status_bad (cp_status r) then Some (cp_status r, p, c, w)
         else if cred_expected_server_certificate cred \<noteq> []
                 \<and> cred_expected_server_certificate cred \<noteq> cp_server_certificate r
         then Some (bad_status, p, c, w)
         else if \<not> EndpointSetsSecurityEquivalent (cred_discovered_endpoints cred) server_endpoints
         then Some (bad_status, p, c, w)
         else ActivateCreated call user cred r (p, c, w))"

text \<open>The status of CloseSession is dropped; closing the connection is \<open>CloseConnection\<close>.\<close>

definition CloseProtocolSession :: "'w caller \<Rightarrow> protocol_session \<times> client_stack \<times> 'w
    \<Rightarrow> (status \<times> protocol_session \<times> client_stack \<times> 'w) option" where
  "CloseProtocolSession call = (\<lambda>(p, c, w).
     if ses_active p
     then map_option (\<lambda>(_, c, w). (status_of_code Good, p\<lparr>ses_active := False\<rparr>, c, w))
       (CallTyped as_close_session call (CloseSessionRequest (ses_authentication_token p)) (c, w))
     else Some (status_of_code Good, p, c, w))"

section \<open>Discovery\<close>

text \<open>
  A transport that the factory made: \<open>nw_exchange\<close> answers the Hello and the OPN, \<open>nw_write\<close> is
  the result of writing a frame, \<open>nw_reads\<close> the frames read afterwards. The inner \<open>None\<close> of a
  result says that the frames are not yet a whole response. The files a trust store writes are left
  out of the results.
\<close>

record network =
  nw_generated :: "status + bytes"
  nw_now :: int
  nw_exchange :: "bytes \<Rightarrow> status + bytes"
  nw_write :: "bytes \<Rightarrow> status"
  nw_reads :: "(status + bytes) list"

record service_codec =
  encode_request :: "client_request \<Rightarrow> node_id \<Rightarrow> u32 \<Rightarrow> bytes option"
  decode_response :: "bytes \<Rightarrow> (u32 \<times> client_response) option"

type_synonym 'x discovery_result = "(status + 'x) option option"

definition default_limits :: transport_limits where
  "default_limits = \<lparr>lim_protocol_version = 0, lim_receive_buffer_size = 65535, lim_send_buffer_size = 65535,
     lim_max_message_size = 0, lim_max_chunk_count = 0\<rparr>"

definition SendDiscoveryRequest :: "openssl \<Rightarrow> service_codec \<Rightarrow> (bytes \<Rightarrow> int \<Rightarrow> network option) \<Rightarrow> bytes
    \<Rightarrow> client_request \<Rightarrow> client_security \<Rightarrow> client_response discovery_result" where
  "SendDiscoveryRequest ssl codec factory url body sec = (case ParseOpcTcpUrl url of
     None \<Rightarrow> None
   | Some parsed \<Rightarrow>
     if \<not> pe_valid parsed then Some (Some (Inl bad_status))
     else case factory (pe_host parsed) (pe_port parsed) of
       None \<Rightarrow> Some (Some (Inl (status_of_code Bad_NoCommunication)))
     | Some nw \<Rightarrow>
       (case OpenConnection ssl (nw_generated nw) (nw_now nw) (nw_exchange nw) 60000
             (ClientTransport url default_limits (16 * 1024 * 1024), ClientSecureChannel sec) of
          None \<Rightarrow> None
        | Some (st, t, conn) \<Rightarrow>
          if status_bad st then Some (Some (Inl st))
          else let (rid, conn) = NextRequestId conn;
                   (framed, conn) = SendRequest ssl (encode_request codec) rid rid body null_node_id conn;
                   sent = (case framed of Inl e \<Rightarrow> e | Inr bs \<Rightarrow> nw_write nw bs)
               in if status_bad sent then Some (Some (Inl sent))
                  else case ReadResponse ssl (decode_response codec) conn (nw_reads nw) of
                    None \<Rightarrow> None
                  | Some (None, _) \<Rightarrow> Some None
                  | Some (Some (Inl e), _) \<Rightarrow> map_option Some (StatusOr e)
                  | Some (Some (Inr (_, _, response)), _) \<Rightarrow> (case response of
                        ServiceFault st \<Rightarrow> map_option Some (StatusOr st)
                      | _ \<Rightarrow> Some (Some (Inr response)))))"

text \<open>What follows the response in each discovery service.\<close>

definition on_body :: "(client_response \<Rightarrow> (status + 'x) option) \<Rightarrow> client_response discovery_result
    \<Rightarrow> 'x discovery_result" where
  "on_body f body = (case body of
       Some (Some (Inr r)) \<Rightarrow> map_option Some (f r)
     | Some (Some (Inl e)) \<Rightarrow> map_option Some (StatusOr e)
     | Some None \<Rightarrow> Some None
     | None \<Rightarrow> None)"

definition GetEndpoints :: "openssl \<Rightarrow> service_codec \<Rightarrow> (bytes \<Rightarrow> int \<Rightarrow> network option) \<Rightarrow> bytes
    \<Rightarrow> endpoint_description list discovery_result" where
  "GetEndpoints ssl codec factory url =
     on_body (\<lambda>r. case r of
         GetEndpointsResponse st endpoints \<Rightarrow> if status_bad st then StatusOr st else Some (Inr endpoints)
       | _ \<Rightarrow> StatusOr bad_status)
       (SendDiscoveryRequest ssl codec factory url (GetEndpointsRequest url []) no_security)"

definition ResolveChannelSecurity :: "openssl \<Rightarrow> x509_library \<Rightarrow> file_system \<Rightarrow> service_codec
    \<Rightarrow> (bytes \<Rightarrow> int \<Rightarrow> network option) \<Rightarrow> security_settings \<Rightarrow> bytes \<Rightarrow> client_security discovery_result" where
  "ResolveChannelSecurity ssl xl fs codec factory settings url =
     (if settings_mode settings = SettingsNone then Some (Some (Inr no_security))
      else case GetEndpoints ssl codec factory url of
        Some (Some (Inl e)) \<Rightarrow> map_option Some (StatusOr e)
      | Some (Some (Inr endpoints)) \<Rightarrow>
          (case SelectEndpoint endpoints (ToSecurityPreference settings) (CapabilitiesFor settings) of
             Inl e \<Rightarrow> map_option Some (StatusOr e)
           | Inr chosen \<Rightarrow> Some (Some (fst (BuildChannelSecurity ssl xl fs chosen settings))))
      | Some None \<Rightarrow> Some None
      | None \<Rightarrow> None)"

definition with_security :: "(client_security \<Rightarrow> 'x discovery_result) \<Rightarrow> client_security discovery_result
    \<Rightarrow> 'x discovery_result" where
  "with_security f resolved = (case resolved of
       Some (Some (Inr sec)) \<Rightarrow> f sec
     | Some (Some (Inl e)) \<Rightarrow> map_option Some (StatusOr e)
     | Some None \<Rightarrow> Some None
     | None \<Rightarrow> None)"

definition FindServers :: "openssl \<Rightarrow> x509_library \<Rightarrow> file_system \<Rightarrow> service_codec
    \<Rightarrow> (bytes \<Rightarrow> int \<Rightarrow> network option) \<Rightarrow> security_settings \<Rightarrow> bytes \<Rightarrow> bytes list
    \<Rightarrow> application_description list discovery_result" where
  "FindServers ssl xl fs codec factory settings url server_uris =
     with_security (\<lambda>sec. on_body (\<lambda>r. case r of
           FindServersResponse st servers \<Rightarrow> if status_bad st then StatusOr st else Some (Inr servers)
         | _ \<Rightarrow> StatusOr bad_status)
       (SendDiscoveryRequest ssl codec factory url (FindServersRequest url server_uris) sec))
     (ResolveChannelSecurity ssl xl fs codec factory settings url)"

text \<open>The registrations return a plain status, which may be any.\<close>

definition status_result :: "status discovery_result \<Rightarrow> status option option" where
  "status_result r = map_option (map_option (\<lambda>x. case x of Inl e \<Rightarrow> e | Inr st \<Rightarrow> st)) r"

definition RegisterServer :: "openssl \<Rightarrow> x509_library \<Rightarrow> file_system \<Rightarrow> service_codec
    \<Rightarrow> (bytes \<Rightarrow> int \<Rightarrow> network option) \<Rightarrow> security_settings \<Rightarrow> bytes \<Rightarrow> registered_server
    \<Rightarrow> status option option" where
  "RegisterServer ssl xl fs codec factory settings url server = status_result
     (with_security (\<lambda>sec. on_body (\<lambda>r. Some (Inr (case r of RegisterServerResponse st \<Rightarrow> st | _ \<Rightarrow> bad_status)))
       (SendDiscoveryRequest ssl codec factory url (RegisterServerRequest server) sec))
     (ResolveChannelSecurity ssl xl fs codec factory settings url))"

definition RegisterServer2 :: "openssl \<Rightarrow> x509_library \<Rightarrow> file_system \<Rightarrow> service_codec
    \<Rightarrow> (bytes \<Rightarrow> int \<Rightarrow> network option) \<Rightarrow> security_settings \<Rightarrow> bytes \<Rightarrow> registered_server \<Rightarrow> bytes list
    \<Rightarrow> status option option" where
  "RegisterServer2 ssl xl fs codec factory settings url server capabilities = status_result
     (with_security (\<lambda>sec. on_body (\<lambda>r. Some (Inr (case r of RegisterServer2Response st _ \<Rightarrow> st | _ \<Rightarrow> bad_status)))
       (SendDiscoveryRequest ssl codec factory url (RegisterServer2Request server
          [Some (MdnsDiscoveryConfiguration (rs_server_uri server) capabilities)]) sec))
     (ResolveChannelSecurity ssl xl fs codec factory settings url))"

section \<open>The client session\<close>

record connect_params =
  pm_host :: bytes
  pm_connection_string :: bytes
  pm_user_name :: localized_text
  pm_password :: localized_text
  pm_security :: security_settings

text \<open>
  The stack a connection owns: the security of its secure channel, the client channel and the
  protocol session. The trace parent of a request is left out.
\<close>

record client_session =
  se_stack :: "(client_security \<times> client_stack \<times> protocol_session) option"
  se_is_connected :: bool
  se_endpoint_url :: bytes
  se_namespace_table :: "bytes list"
  se_default_subscription :: "client_subscription option"
  se_released :: "client_subscription list"

definition ClientSession :: client_session where
  "ClientSession = \<lparr>se_stack = None, se_is_connected = False, se_endpoint_url = [], se_namespace_table = [],
     se_default_subscription = None, se_released = []\<rparr>"

text \<open>The views outlive the subscription: \<open>se_released\<close> holds them as they were closed.\<close>

definition close_views :: "client_session \<Rightarrow> client_session" where
  "close_views s = (case se_default_subscription s of None \<Rightarrow> s
     | Some sub \<Rightarrow> s\<lparr>se_released := se_released s @ [CloseAllViews (status_of_code Bad_NoCommunication) sub]\<rparr>)"

definition ResetSession :: "client_session \<Rightarrow> client_session" where
  "ResetSession s =
     (close_views s)\<lparr>se_default_subscription := None, se_stack := None, se_is_connected := False\<rparr>"

definition DiscoverAndSelectEndpoint :: "(bytes \<Rightarrow> status + endpoint_description list) \<Rightarrow> bytes
    \<Rightarrow> security_settings \<Rightarrow> status + endpoint_description \<times> endpoint_description list" where
  "DiscoverAndSelectEndpoint discover url settings = (case discover url of
       Inl e \<Rightarrow> Inl e
     | Inr endpoints \<Rightarrow>
         map_sum id (\<lambda>chosen. (chosen, endpoints))
           (SelectEndpoint endpoints (ToSecurityPreference settings) (CapabilitiesFor settings)))"

text \<open>The security of the channel with what discovery showed; \<open>None\<close> without discovery.\<close>

definition NegotiateSecurity :: "openssl \<Rightarrow> x509_library \<Rightarrow> file_system
    \<Rightarrow> (bytes \<Rightarrow> status + endpoint_description list) \<Rightarrow> bytes \<Rightarrow> security_settings
    \<Rightarrow> status + (client_security \<times> endpoint_description \<times> endpoint_description list) option" where
  "NegotiateSecurity ssl xl fs discover url settings =
     (if settings_mode settings = SettingsNone then Inr None
      else case DiscoverAndSelectEndpoint discover url settings of
        Inl e \<Rightarrow> Inl e
      | Inr (chosen, offered) \<Rightarrow>
          map_sum id (\<lambda>sec. Some (sec, chosen, offered)) (fst (BuildChannelSecurity ssl xl fs chosen settings)))"

definition SessionSigner :: "openssl \<Rightarrow> client_security \<Rightarrow> bytes \<Rightarrow> bytes \<Rightarrow> status + bytes \<times> bytes" where
  "SessionSigner ssl sec cert nonce =
     SignClientData ssl (cert @ nonce) (ClientSecureChannel sec)"

definition SessionCredentials :: "openssl \<Rightarrow> (client_security \<times> endpoint_description \<times> endpoint_description list) option
    \<Rightarrow> credentials" where
  "SessionCredentials ssl negotiated = (case negotiated of
       None \<Rightarrow> no_credentials
     | Some (sec, chosen, offered) \<Rightarrow> \<lparr>
         cred_certificate = (case CertificateDer ssl (cs_client_certificate sec) of Some der \<Rightarrow> der | None \<Rightarrow> []),
         cred_nonce = (case GenerateNonce ssl 32 of Some n \<Rightarrow> n | None \<Rightarrow> []),
         cred_signer = Some (SessionSigner ssl sec),
         cred_expected_server_certificate = ep_server_certificate chosen,
         cred_discovered_endpoints = offered\<rparr>)"

definition ReadNamespaceArray :: "status + data_value list \<Rightarrow> client_session \<Rightarrow> client_session" where
  "ReadNamespaceArray result s = (case result of
       Inr (v # _) \<Rightarrow> s\<lparr>se_namespace_table := FromVariant (dv_value v)\<rparr>
     | _ \<Rightarrow> s)"

text \<open>
  \<open>open_connection\<close> is the connection's \<open>Open\<close> under a security, \<open>namespaces\<close> what reading the
  namespace array returns. The result carries the state changes that were announced.
\<close>

definition ConnectAsync :: "openssl \<Rightarrow> x509_library \<Rightarrow> file_system
    \<Rightarrow> (bytes \<Rightarrow> status + endpoint_description list) \<Rightarrow> (bytes \<Rightarrow> int \<Rightarrow> bool)
    \<Rightarrow> (client_security \<Rightarrow> status) \<Rightarrow> 'w caller \<Rightarrow> status + data_value list \<Rightarrow> connect_params
    \<Rightarrow> client_session \<times> 'w \<Rightarrow> (status \<times> (bool \<times> status) list \<times> client_session \<times> 'w) option" where
  "ConnectAsync ssl xl fs discover create_transport open_connection call namespaces params = (\<lambda>(s, w).
     let url = (if pm_connection_string params = [] then opc_tcp_prefix @ pm_host params
                else pm_connection_string params)
     in case ParseOpcTcpUrl url of None \<Rightarrow> None
     | Some parsed \<Rightarrow>
       if \<not> pe_valid parsed then Some (bad_status, [], s, w)
       else case NegotiateSecurity ssl xl fs discover url (pm_security params) of
         Inl e \<Rightarrow> Some (e, [(False, e)], s, w)
       | Inr negotiated \<Rightarrow>
         if \<not> create_transport (pe_host parsed) (pe_port parsed)
         then Some (status_of_code Bad_NoCommunication, [], s, w)
         else let sec = (case negotiated of None \<Rightarrow> no_security | Some (sec, _) \<Rightarrow> sec);
                  user = (if pm_user_name params \<noteq> LocalizedText [] []
                    then \<lparr>id_user_name = Some (pm_user_name params), id_password = Some (pm_password params)\<rparr>
                    else \<lparr>id_user_name = None, id_password = None\<rparr>);
                  s = s\<lparr>se_endpoint_url := url\<rparr>
           in case CreateProtocolSession call (open_connection sec) (FromMinutes 10) user
                  (SessionCredentials ssl negotiated) (ClientProtocolSession, ClientChannel null_node_id, w) of
                None \<Rightarrow> None
              | Some (st, p, c, w) \<Rightarrow>
                  if status_bad st
                  then Some (st, [(False, st)], (ResetSession (s\<lparr>se_stack := Some (sec, c, p)\<rparr>)), w)
                  else Some (status_of_code Good, [(True, status_of_code Good)],
                    ReadNamespaceArray namespaces (s\<lparr>se_stack := Some (sec, c, p), se_is_connected := True\<rparr>), w))"

definition DisconnectAsync :: "'w caller \<Rightarrow> client_session \<times> 'w
    \<Rightarrow> ((bool \<times> status) list \<times> client_session \<times> 'w) option" where
  "DisconnectAsync call = (\<lambda>(s, w). case se_stack s of
       None \<Rightarrow> Some ([], s, w)
     | Some (_, c, p) \<Rightarrow> map_option (\<lambda>(_, _, _, w). ([(False, status_of_code Good)], (ResetSession s), w))
         (CloseProtocolSession call (p, c, w)))"

definition CreateSessionSubscription :: "client_session \<Rightarrow> nat \<times> client_session" where
  "CreateSessionSubscription s =
     (let sub = (case se_default_subscription s of None \<Rightarrow> ClientSubscription | Some sub \<Rightarrow> sub);
          (view, sub) = CreateView sub
      in (view, s\<lparr>se_default_subscription := Some sub\<rparr>))"

text \<open>Every service of the session refuses to run without a connection.\<close>

definition WhenConnected :: "client_session \<Rightarrow> (client_stack \<times> protocol_session \<Rightarrow> status + 'x) \<Rightarrow> (status + 'x) option" where
  "WhenConnected s service =
     (if \<not> se_is_connected s then Some (Inl (status_of_code Bad_NoCommunication))
      else case se_stack s of None \<Rightarrow> None | Some (_, c, p) \<Rightarrow> Some (service (c, p)))"

section \<open>URLs that both ends read\<close>

fun decimal :: "nat \<Rightarrow> bytes" where
  "decimal n = (if n < 10 then [of_nat (48 + n)] else decimal (n div 10) @ [of_nat (48 + n mod 10)])"

declare decimal.simps [simp del]

lemma digit_byte:
  assumes "d < 10"
  shows "is_digit (of_nat (48 + d))" and "uint (of_nat (48 + d) :: byte) = 48 + int d"
proof -
  have "unat (of_nat (48 + d) :: byte) = 48 + d" using assms unat_of_nat_small [where 'a = 8 and n = "48 + d"] by simp
  then show "is_digit (of_nat (48 + d))" "uint (of_nat (48 + d) :: byte) = 48 + int d"
    using assms by (simp_all add: is_digit_def word_le_nat_alt uint_nat del: of_nat_add)
qed

lemma parse_port_append: "parse_port (xs @ ys) p = (case parse_port xs p of
    Some (Some q) \<Rightarrow> parse_port ys q | r \<Rightarrow> r)"
  by (induction xs p rule: parse_port.induct) (auto simp: Let_def)

lemma parse_port_decimal: "n < 2 ^ 31 \<Longrightarrow> parse_port (decimal n) 0 = Some (Some (int n))"
proof (induction n rule: decimal.induct)
  case (1 n)
  have last_digit: "parse_port [of_nat (48 + d)] (int q) = Some (Some (int (q * 10 + d)))"
    if "d < 10" "q * 10 + d < 2 ^ 31" for q d
  proof -
    have "int (q * 10 + d) < int (2 ^ 31)" using that(2) by (simp only: of_nat_less_iff)
    then show ?thesis using digit_byte [OF that(1)] by (simp add: Let_def)
  qed
  show ?case
  proof (cases "n < 10")
    case True
    then show ?thesis using last_digit [of n 0] 1(2) by (simp add: decimal.simps [of n])
  next
    case False
    have "parse_port (decimal (n div 10)) 0 = Some (Some (int (n div 10)))"
      by (rule 1(1) [OF False]) (use 1(2) in linarith)
    then show ?thesis using last_digit [of "n mod 10" "n div 10"] 1(2) False
      by (simp add: decimal.simps [of n] parse_port_append)
  qed
qed

lemma decimal_digits: "list_all is_digit (decimal n) \<and> decimal n \<noteq> []"
proof (induction n rule: decimal.induct)
  case (1 n)
  show ?case
  proof (cases "n < 10")
    case True
    then show ?thesis using digit_byte(1) [OF True] by (subst (1 2) decimal.simps) simp
  next
    case False
    then show ?thesis using 1 digit_byte(1) [of "n mod 10"] by (subst (1 2) decimal.simps) simp
  qed
qed

lemma decimal_plain: "colon \<notin> set (decimal n)" "slash \<notin> set (decimal n)" "decimal n \<noteq> []"
  using decimal_digits [of n] by (auto simp: is_digit_def list_all_iff)

lemma rfind_char_hit: "c \<notin> set ys \<Longrightarrow> rfind_char c (xs @ c # ys) = Some (length xs)"
  using find_char_hit [of c "rev ys" "rev xs"] by (simp add: rfind_char_def)

lemma prefix_facts:
  "length opc_tcp_prefix = kOpcTcpPrefixLen" "find_text scheme_mark (opc_tcp_prefix @ xs) = Some 7"
  "take kOpcTcpPrefixLen (opc_tcp_prefix @ xs) = opc_tcp_prefix" "drop kOpcTcpPrefixLen (opc_tcp_prefix @ xs) = xs"
  by (simp_all add: opc_tcp_prefix_def lit_def)

lemma authority_before_path:
  assumes "slash \<notin> set a" and "path = [] \<or> hd path = slash"
  shows "(case find_char slash (a @ path) of None \<Rightarrow> a @ path | Some p \<Rightarrow> take p (a @ path)) = a"
proof (cases path)
  case Nil
  then show ?thesis using assms(1) find_char_None [of slash a] by simp
next
  case (Cons b bs)
  then show ?thesis using assms find_char_hit [of slash a bs] by simp
qed

definition endpoint_text :: "bytes \<Rightarrow> nat \<Rightarrow> bytes \<Rightarrow> bytes" where
  "endpoint_text host port path = opc_tcp_prefix @ (host @ colon # decimal port) @ path"

lemma ParseOpcTcpUrl_text:
  assumes "slash \<notin> set host" and "host \<noteq> []" and "port < 2 ^ 31" and "path = [] \<or> hd path = slash"
  shows "ParseOpcTcpUrl (endpoint_text host port path) = Some \<lparr>pe_host = host, pe_port = int port, pe_valid = True\<rparr>"
proof -
  let ?a = "host @ colon # decimal port"
  have a: "slash \<notin> set ?a" using assms(1) decimal_plain(2) by simp
  have "take kOpcTcpPrefixLen (endpoint_text host port path) = opc_tcp_prefix"
    "drop kOpcTcpPrefixLen (endpoint_text host port path) = ?a @ path"
    "\<not> length (endpoint_text host port path) \<le> kOpcTcpPrefixLen"
    unfolding endpoint_text_def prefix_facts(3,4) by (simp_all add: prefix_facts(1))
  note shape = this
  show ?thesis
    unfolding ParseOpcTcpUrl_def Let_def shape(2) authority_before_path [OF a assms(4)]
      rfind_char_hit [OF decimal_plain(1), of host port]
    using shape parse_port_decimal [OF assms(3)] assms(2) decimal_plain(3) by simp
qed

lemma url_host_text:
  assumes "host_ok host" and "path = [] \<or> hd path = slash"
  shows "url_host (endpoint_text host port path) = host"
proof -
  let ?a = "host @ colon # decimal port"
  have a: "slash \<notin> set ?a" using assms(1) decimal_plain(2) by (simp add: host_ok_def)
  have ten: "7 + 3 = (10 :: nat)" by simp
  have "authority_text (endpoint_text host port path) = ?a"
    unfolding authority_text_def UrlAuthority_def endpoint_text_def Let_def prefix_facts(2) option.case ten
      prefix_facts(4) prod.case by (rule authority_before_path [OF a assms(2)])
  moreover have "port_ok (colon # decimal port)" using decimal_plain [of port] by (simp add: port_ok_def)
  ultimately show ?thesis using AuthorityHost_of [OF assms(1)] by simp
qed

section \<open>The endpoint that is selected\<close>

definition admissible :: "security_preference \<Rightarrow> client_capabilities \<Rightarrow> endpoint_description \<Rightarrow> bool" where
  "admissible preference capabilities e \<longleftrightarrow> IsSupported capabilities e \<and> MatchesPreference preference e"

definition score :: "endpoint_description \<Rightarrow> int" where
  "score e = SecurityRank (ep_mode e) * 256 + uint (security_level e)"

lemma rank_level: "0 \<le> x \<Longrightarrow> x < 256 \<Longrightarrow> 0 \<le> y \<Longrightarrow> y < 256 \<Longrightarrow>
    (r * 256 + x < s * 256 + (y :: int)) \<longleftrightarrow> r < s \<or> r = s \<and> x < y"
  by (cases r s rule: linorder_cases) auto

lemma IsBetter_score: "IsBetter a b \<longleftrightarrow> score b < score a"
proof -
  have "uint (security_level a) < 256" "uint (security_level b) < 256"
    using uint_lt2p [of "security_level a"] uint_lt2p [of "security_level b"] by simp_all
  then show ?thesis by (auto simp: IsBetter_def score_def word_less_def rank_level Let_def)
qed

text \<open>The earliest of the admissible endpoints with the highest score.\<close>

definition first_best :: "(endpoint_description \<Rightarrow> bool) \<Rightarrow> endpoint_description list \<Rightarrow> endpoint_description \<Rightarrow> bool" where
  "first_best adm es e \<longleftrightarrow> (\<exists>pre post. es = pre @ e # post \<and> adm e
     \<and> (\<forall>x\<in>set pre. adm x \<longrightarrow> score x < score e) \<and> (\<forall>x\<in>set post. adm x \<longrightarrow> score x \<le> score e))"

lemma first_best_unique:
  assumes "first_best adm es e" and "first_best adm es e'"
  shows "e = e'"
proof -
  obtain pre post where 1: "es = pre @ e # post" "adm e" "\<forall>x\<in>set pre. adm x \<longrightarrow> score x < score e"
    "\<forall>x\<in>set post. adm x \<longrightarrow> score x \<le> score e" using assms(1) by (auto simp: first_best_def)
  obtain pre' post' where 2: "es = pre' @ e' # post'" "adm e'" "\<forall>x\<in>set pre'. adm x \<longrightarrow> score x < score e'"
    "\<forall>x\<in>set post'. adm x \<longrightarrow> score x \<le> score e'" using assms(2) by (auto simp: first_best_def)
  have "pre @ e # post = pre' @ e' # post'" using 1(1) 2(1) by simp
  then consider us where "pre = pre' @ us" "us @ e # post = e' # post'"
    | us where "pre' = pre @ us" "us @ e' # post' = e # post"
    unfolding append_eq_append_conv2 by metis
  then show ?thesis
  proof cases
    case (1 us) then show ?thesis using \<open>adm e\<close> \<open>adm e'\<close> 2(4) \<open>\<forall>x\<in>set pre. adm x \<longrightarrow> score x < score e\<close>
      by (cases us) fastforce+
  next
    case (2 us) then show ?thesis using \<open>adm e\<close> \<open>adm e'\<close> 1(4) \<open>\<forall>x\<in>set pre'. adm x \<longrightarrow> score x < score e'\<close>
      by (cases us) fastforce+
  qed
qed

lemma select_fold:
  "(case fold (select_round preference capabilities) es None of
      None \<Rightarrow> \<forall>x\<in>set es. \<not> admissible preference capabilities x
    | Some e \<Rightarrow> first_best (admissible preference capabilities) es e)"
proof (induction es rule: rev_induct)
  case (snoc x es)
  let ?adm = "admissible preference capabilities"
  let ?best = "fold (select_round preference capabilities) es None"
  have round: "fold (select_round preference capabilities) (es @ [x]) None = select_round preference capabilities x ?best"
    by simp
  show ?case
  proof (cases ?best)
    case None
    then have no: "\<forall>y\<in>set es. \<not> ?adm y" using snoc.IH by simp
    then have "first_best ?adm (es @ [x]) x" if "?adm x"
      unfolding first_best_def using that by (intro exI [of _ es] exI [of _ "[]"]) simp
    then show ?thesis unfolding round None using no by (auto simp: select_round_def admissible_def)
  next
    case (Some b)
    then obtain pre post where b: "es = pre @ b # post" "?adm b" "\<forall>y\<in>set pre. ?adm y \<longrightarrow> score y < score b"
      "\<forall>y\<in>set post. ?adm y \<longrightarrow> score y \<le> score b" using snoc.IH by (auto simp: first_best_def)
    have new: "first_best ?adm (es @ [x]) x" if "?adm x" "score b < score x"
      unfolding first_best_def using b that by (intro exI [of _ es] exI [of _ "[]"]) force
    have old: "first_best ?adm (es @ [x]) b" if "\<not> ?adm x \<or> score x \<le> score b"
      unfolding first_best_def using b that by (intro exI [of _ pre] exI [of _ "post @ [x]"]) auto
    show ?thesis unfolding round Some using new old by (auto simp: select_round_def admissible_def IsBetter_score)
  qed
qed simp

section \<open>Equal lists of endpoints\<close>

definition token_key :: "user_token_policy \<Rightarrow> bytes \<times> user_token_type \<times> bytes" where
  "token_key t = (policy_id t, token_type t, token_security_policy_uri t)"

text \<open>Everything about an endpoint that matters for security.\<close>

definition security_key :: "endpoint_description
    \<Rightarrow> message_security_mode \<times> bytes \<times> bytes \<times> bytes \<times> (bytes \<times> user_token_type \<times> bytes) list" where
  "security_key e = (ep_mode e, ep_policy e, ep_server_certificate e, transport_profile_uri e,
     map token_key (user_identity_tokens e))"

lemma SecurityEquivalent_key: "SecurityEquivalent a b \<longleftrightarrow> security_key a = security_key b"
proof -
  have eq: "TokensEquivalent s t \<longleftrightarrow> token_key s = token_key t" for s t
    by (simp add: TokensEquivalent_def token_key_def)
  have "map token_key xs = map token_key ys \<longleftrightarrow> length xs = length ys
      \<and> list_all (\<lambda>i. TokensEquivalent (xs ! i) (ys ! i)) [0..<length xs]" for xs ys
    by (auto simp: list_all_iff list_eq_iff_nth_eq [of "map token_key xs"] eq)
  then show ?thesis unfolding SecurityEquivalent_def security_key_def prod.inject by metis
qed

definition unmatched :: "endpoint_description list \<Rightarrow> bool list
    \<Rightarrow> (message_security_mode \<times> bytes \<times> bytes \<times> bytes \<times> (bytes \<times> user_token_type \<times> bytes) list) multiset" where
  "unmatched as ms = image_mset (security_key \<circ> fst) (mset (filter (Not \<circ> snd) (zip as ms)))"

lemma unmatched_simps [simp]:
  "unmatched [] ms = {#}" "unmatched as [] = {#}"
  "unmatched (a # as) (m # ms) = (if m then unmatched as ms else add_mset (security_key a) (unmatched as ms))"
  by (simp_all add: unmatched_def)

lemma match_endpoint_correct:
  "(case match_endpoint e as ms of None \<Rightarrow> security_key e \<notin># unmatched as ms
    | Some ms' \<Rightarrow> unmatched as ms = add_mset (security_key e) (unmatched as ms'))"
  by (induction e as ms rule: match_endpoint.induct)
    (auto simp: SecurityEquivalent_key split: option.splits)

lemma match_all_correct: "match_all es as ms \<longleftrightarrow> image_mset security_key (mset es) \<subseteq># unmatched as ms"
proof (induction es arbitrary: ms)
  case (Cons e es)
  show ?case
  proof (cases "match_endpoint e as ms")
    case None
    then have "security_key e \<notin># unmatched as ms" using match_endpoint_correct [of e as ms] by simp
    then show ?thesis using None by (auto dest: insert_subset_eq_iff [THEN iffD1] mset_subset_eq_insertD)
  next
    case (Some ms')
    then show ?thesis using match_endpoint_correct [of e as ms] Cons.IH [of ms'] by simp
  qed
qed simp

lemma unmatched_all: "unmatched as (replicate (length as) False) = image_mset security_key (mset as)"
  by (induction as) simp_all

lemma EndpointSets_multiset:
  "EndpointSetsSecurityEquivalent d a \<longleftrightarrow> a = [] \<or> d = []
     \<or> image_mset security_key (mset d) = image_mset security_key (mset a)"
proof -
  have "image_mset security_key (mset d) \<subseteq># image_mset security_key (mset a) \<longleftrightarrow>
      image_mset security_key (mset d) = image_mset security_key (mset a)" if "length d = length a"
    using that mset_subset_size [of "image_mset security_key (mset d)" "image_mset security_key (mset a)"]
    by (auto simp: subset_mset.le_less)
  moreover have "length d = length a" if "image_mset security_key (mset d) = image_mset security_key (mset a)"
    using that by (metis size_image_mset size_mset)
  ultimately show ?thesis
    by (auto simp: EndpointSetsSecurityEquivalent_def match_all_correct unmatched_all)
qed

text \<open>The per-caller rewriting of the server leaves the security of its endpoints alone.\<close>

lemma ReachableEndpoints_key:
  "map security_key (ReachableEndpoints eps url []) = map security_key eps"
  by (simp add: ReachableEndpoints_def MatchesStringFilter_def security_key_def)

lemma honest_endpoints:
  "EndpointSetsSecurityEquivalent (snd (HandleGetEndpoints eps url [])) (ReachableEndpoints eps url' [])"
proof -
  have "map security_key (ReachableEndpoints eps url []) = map security_key (ReachableEndpoints eps url' [])"
    by (simp add: ReachableEndpoints_key)
  then have "image_mset security_key (mset (ReachableEndpoints eps url []))
      = image_mset security_key (mset (ReachableEndpoints eps url' []))" by (metis mset_map)
  then show ?thesis by (simp add: EndpointSets_multiset HandleGetEndpoints_def)
qed

section \<open>Namespaces\<close>

lemma index_from_nth:
  "index_from i uri uris = Some n \<Longrightarrow> \<exists>k < length uris. n = of_nat (i + k) \<and> uris ! k = uri"
proof (induction uris arbitrary: i)
  case (Cons x xs)
  show ?case
  proof (cases "x = uri")
    case False
    then have "\<exists>k < length xs. n = of_nat (Suc i + k) \<and> xs ! k = uri"
      using Cons.prems by (intro Cons.IH) simp
    then obtain k where "k < length xs" "n = of_nat (Suc i + k)" "xs ! k = uri" by blast
    then show ?thesis by (intro exI [of _ "Suc k"]) simp
  qed (use Cons.prems in auto)
qed simp

text \<open>The cast to 16 bits is harmless for any table whose indices fit.\<close>

lemma namespace_roundtrip:
  assumes "IndexForUri uri uris = Some n" and "length uris \<le> 2 ^ 16"
  shows "UriForIndex n uris = uri"
proof -
  obtain k where k: "k < length uris" "n = of_nat k" "uris ! k = uri"
    using index_from_nth [of 0 uri uris n] assms(1) by (auto simp: IndexForUri_def)
  then have "unat n = k" using assms(2) unat_of_nat_small [where 'a = 16 and n = k] by simp
  then show ?thesis using k by (simp add: UriForIndex_def)
qed

section \<open>Calls\<close>

lemma NarrowResponse_cases:
  assumes "NarrowResponse pick result = Some r"
  obtains e where "r = Inl e" "status_bad e" | x b where "r = Inr x" "result = Inr b" "pick b = Some x"
  using assms bad_status_bad by (auto simp: NarrowResponse_def StatusOr_def split: sum.splits response.splits option.splits if_splits)

lemma CallTyped_cases:
  assumes "CallTyped pick call request (c, w) = Some (r, c', w')"
  shows "c' = c\<lparr>next_request_handle := next_request_handle c + 1\<rparr>"
    and "(\<exists>e. r = Inl e \<and> status_bad e) \<or> (\<exists>x b. r = Inr x \<and> pick b = Some x
       \<and> call (next_request_handle c) request (ch_authentication_token c) w = (Inr b, w'))"
proof -
  obtain result where 1: "call (next_request_handle c) request (ch_authentication_token c) w = (result, w')"
    "NarrowResponse pick result = Some r" "c' = c\<lparr>next_request_handle := next_request_handle c + 1\<rparr>"
    using assms by (auto simp: CallTyped_def NextRequestHandle_def Let_def split: prod.splits)
  then show "c' = c\<lparr>next_request_handle := next_request_handle c + 1\<rparr>" by simp
  from 1(2) show "(\<exists>e. r = Inl e \<and> status_bad e) \<or> (\<exists>x b. r = Inr x \<and> pick b = Some x
       \<and> call (next_request_handle c) request (ch_authentication_token c) w = (Inr b, w'))"
    by (rule NarrowResponse_cases) (use 1(1) in auto)
qed

lemma CallTyped_answer:
  assumes "call (next_request_handle c) request (ch_authentication_token c) w = (Inr b, w')" and "pick b = Some x"
    and "\<And>st. b \<noteq> ServiceFault st"
  shows "CallTyped pick call request (c, w) = Some (Inr x, c\<lparr>next_request_handle := next_request_handle c + 1\<rparr>, w')"
  using assms by (cases b) (auto simp: CallTyped_def NextRequestHandle_def NarrowResponse_def)

lemma as_create_session_iff: "as_create_session b = Some (r, eps) \<longleftrightarrow> b = CreateSessionResponse r eps"
  by (cases b) (auto simp: as_create_session_def)

lemma as_activate_session_iff: "as_activate_session b = Some a \<longleftrightarrow> b = ActivateSessionResponse a"
  by (cases b) (auto simp: as_activate_session_def)

lemma SessionSigner_bad: "SessionSigner ssl sec cert nonce = Inl e \<Longrightarrow> status_bad e"
  using bad_status_bad by (auto simp: SessionSigner_def SignClientData_def or_bad_def split: if_splits option.splits)

lemma SessionCredentials_signer:
  "cred_signer (SessionCredentials ssl negotiated) = Some signer \<Longrightarrow> signer cert nonce = Inl e \<Longrightarrow> status_bad e"
  by (auto simp: SessionCredentials_def no_credentials_def dest: SessionSigner_bad split: option.splits)

text \<open>What a client knows when its login succeeded, whoever answered.\<close>

lemma Create_goodD:
  assumes "CreateProtocolSession call st timeout user cred (p, c, w) = Some (st', p', c', w')" "\<not> status_bad st'"
    and signer: "\<And>signer cert nonce e. cred_signer cred = Some signer \<Longrightarrow> signer cert nonce = Inl e \<Longrightarrow> status_bad e"
  obtains r eps w1 where
    "call (next_request_handle c) (CreateSessionRequest (create_request timeout cred)) (ch_authentication_token c) w
       = (Inr (CreateSessionResponse r eps), w1)"
    "cred_expected_server_certificate cred = [] \<or> cred_expected_server_certificate cred = cp_server_certificate r"
    "EndpointSetsSecurityEquivalent (cred_discovered_endpoints cred) eps"
    "ses_active p'" "ses_authentication_token p' = cp_authentication_token r"
    "ch_authentication_token c' = cp_authentication_token r" "login_complete c'"
proof -
  have open_ok: "\<not> status_bad st" using assms(1,2) by (auto simp: CreateProtocolSession_def)
  obtain x c1 w1 where 1: "CallTyped as_create_session call (CreateSessionRequest (create_request timeout cred)) (c, w)
      = Some (x, c1, w1)"
    using assms(1) open_ok by (auto simp: CreateProtocolSession_def split: option.splits)
  have "x \<noteq> Inl e" if "status_bad e" for e using assms(1,2) open_ok 1 that by (auto simp: CreateProtocolSession_def)
  then obtain r eps where r: "x = Inr (r, eps)"
    "call (next_request_handle c) (CreateSessionRequest (create_request timeout cred)) (ch_authentication_token c) w
       = (Inr (CreateSessionResponse r eps), w1)"
    using CallTyped_cases(2) [OF 1] by (auto simp: as_create_session_iff)
  have checks: "\<not> status_bad (cp_status r)"
    "cred_expected_server_certificate cred = [] \<or> cred_expected_server_certificate cred = cp_server_certificate r"
    "EndpointSetsSecurityEquivalent (cred_discovered_endpoints cred) eps"
    and act: "ActivateCreated call user cred r (p, c1, w1) = Some (st', p', c', w')"
    using assms(1,2) open_ok 1 r(1) bad_status_bad by (auto simp: CreateProtocolSession_def split: if_splits)
  let ?p = "p\<lparr>ses_session_id := cp_session_id r, ses_authentication_token := cp_authentication_token r\<rparr>"
  let ?c = "set_authentication_token (cp_authentication_token r) c1"
  obtain sig where sig: "(case cred_signer cred of None \<Rightarrow> Inr ([], [])
      | Some signer \<Rightarrow> signer (cp_server_certificate r) (cp_server_nonce r)) = Inr sig"
    using act assms(2) signer
    by (auto simp: ActivateCreated_def Let_def split: option.splits sum.splits)
  obtain y c2 w2 where 2: "CallTyped as_activate_session call
      (ActivateSessionRequest (activate_request user ?p sig)) (?c, w1) = Some (y, c2, w2)"
    using act sig by (auto simp: ActivateCreated_def Let_def split: option.splits)
  have "y \<noteq> Inl e" if "status_bad e" for e using act assms(2) sig 2 that by (auto simp: ActivateCreated_def Let_def)
  then obtain a where "y = Inr a" using CallTyped_cases(2) [OF 2] by blast
  then have "p' = ?p\<lparr>ses_active := True\<rparr>" "c' = MarkLoginComplete c2"
    using act sig 2 assms(2) by (auto simp: ActivateCreated_def Let_def split: if_splits)
  moreover have "ch_authentication_token c2 = cp_authentication_token r"
    using CallTyped_cases(1) [OF 2] by (simp add: set_authentication_token_def)
  ultimately show thesis using that [OF r(2) checks(2,3)] by (simp add: MarkLoginComplete_def)
qed

section \<open>No downgrade\<close>

lemma default_capabilities:
  "IsSupported (CapabilitiesFor s) e \<Longrightarrow> ep_mode e = Ua_Endpoints.ModeSignAndEncrypt \<Longrightarrow>
     ep_policy e = kSecurityPolicyUriBasic256Sha256"
  by (auto simp: IsSupported_def CapabilitiesFor_def DefaultCapabilities_def NoneOnly_def split: if_splits)

lemma SelectEndpoint_admissible:
  "SelectEndpoint eps pref caps = Inr e \<Longrightarrow> e \<in> set eps \<and> admissible pref caps e"
  using select_fold [where preference = pref and capabilities = caps and es = eps]
  by (auto simp: SelectEndpoint_def or_bad_def first_best_def split: option.splits)

lemma trusted_preference:
  "has_trust_store s \<Longrightarrow> settings_mode s \<noteq> SettingsNone \<Longrightarrow>
     preferred_mode (ToSecurityPreference s) = PreferSignAndEncrypt"
  by (cases "settings_mode s") (simp_all add: ToSecurityPreference_def)

lemma Validate_good:
  "\<not> status_bad (fst (Validate ssl xl fs der ts)) \<Longrightarrow> fst (Validate ssl xl fs der ts) = status_of_code Good"
  using bad_status_bad unfolding bad_status_def
  by (auto simp: Validate_def Let_def split: option.splits if_splits)

lemma BuildChannelSecurity_secured:
  assumes "fst (BuildChannelSecurity ssl xl fs e s) = Inr sec" and "ep_mode e \<noteq> Ua_Endpoints.ModeNone"
  shows "cs_policy_uri sec = ep_policy e" and "cs_security_mode sec = mode_value (ep_mode e)"
    and "LoadDerCertificate ssl (ep_server_certificate e) = Some (cs_server_certificate sec)"
    and "has_trust_store s \<Longrightarrow>
      fst (Validate ssl xl fs (ep_server_certificate e) (settings_store ssl xl fs s)) = status_of_code Good"
  using assms Validate_good [of ssl xl fs "ep_server_certificate e" "settings_store ssl xl fs s"]
  by (auto simp: BuildChannelSecurity_def Let_def split: option.splits if_splits prod.splits)

lemma NegotiateSecurity_trusted:
  assumes "NegotiateSecurity ssl xl fs discover url s = Inr negotiated"
    and "has_trust_store s" "settings_mode s \<noteq> SettingsNone"
  obtains sec chosen offered where "negotiated = Some (sec, chosen, offered)" "chosen \<in> set offered"
    "discover url = Inr offered" "cs_policy_uri sec = kSecurityPolicyBasic256Sha256" "cs_security_mode sec = 3"
    "fst (Validate ssl xl fs (ep_server_certificate chosen) (settings_store ssl xl fs s)) = status_of_code Good"
    "LoadDerCertificate ssl (ep_server_certificate chosen) = Some (cs_server_certificate sec)"
proof -
  obtain eps where 1: "discover url = Inr eps"
    using assms(1,3) by (cases "discover url") (auto simp: NegotiateSecurity_def DiscoverAndSelectEndpoint_def)
  obtain chosen where 2: "SelectEndpoint eps (ToSecurityPreference s) (CapabilitiesFor s) = Inr chosen"
    using assms(1,3) 1 by (cases "SelectEndpoint eps (ToSecurityPreference s) (CapabilitiesFor s)")
      (auto simp: NegotiateSecurity_def DiscoverAndSelectEndpoint_def)
  obtain sec where 3: "fst (BuildChannelSecurity ssl xl fs chosen s) = Inr sec" "negotiated = Some (sec, chosen, eps)"
    using assms(1,3) 1 2 by (cases "fst (BuildChannelSecurity ssl xl fs chosen s)")
      (auto simp: NegotiateSecurity_def DiscoverAndSelectEndpoint_def)
  note adm = SelectEndpoint_admissible [OF 2]
  have mode: "ep_mode chosen = Ua_Endpoints.ModeSignAndEncrypt"
    using adm trusted_preference [OF assms(2,3)] by (auto simp: admissible_def MatchesPreference_def)
  have policy: "ep_policy chosen = kSecurityPolicyBasic256Sha256"
    using adm mode default_capabilities [of s chosen]
    by (simp add: admissible_def kSecurityPolicyUriBasic256Sha256_def kSecurityPolicyBasic256Sha256_def)
  show thesis
    using that [OF 3(2)] 1 adm BuildChannelSecurity_secured [OF 3(1)] mode policy assms(2) by simp
qed

section \<open>Properties\<close>

text \<open>
  C29. The URL of a host and a port. The client takes the host and the port of any well-formed
  endpoint URL that names its port apart exactly, ignoring the path, and the server, which reads the same URL in a
  request, finds the same host in it.
\<close>

theorem endpoint_url_roundtrip:
  assumes "host_ok host" and "port < 2 ^ 31" and "path = [] \<or> hd path = slash"
  shows "ParseOpcTcpUrl (endpoint_text host port path) = Some \<lparr>pe_host = host, pe_port = int port, pe_valid = True\<rparr>
    \<and> url_host (endpoint_text host port path) = host"
  using assms ParseOpcTcpUrl_text url_host_text by (simp add: host_ok_def)

theorem endpoint_url_roundtrip_witness:
  "ParseOpcTcpUrl (endpoint_text (lit ''[fe80::7]'') 4841 (lit ''/ua'')) =
     Some \<lparr>pe_host = lit ''[fe80::7]'', pe_port = 4841, pe_valid = True\<rparr>"
  using endpoint_url_roundtrip [of "lit ''[fe80::7]''" 4841 "lit ''/ua''"]
  by (simp add: host_ok_def lit_def)

text \<open>
  C21. Endpoint selection returns the earliest of the endpoints that are most secure, by mode
  and then by the advertised level, among those the client supports and the operator asked
  for, and it fails exactly when there is no such endpoint.
\<close>

theorem selected_endpoint:
  "(SelectEndpoint eps preference capabilities = Inr e \<longleftrightarrow>
     (\<exists>pre post. eps = pre @ e # post \<and> admissible preference capabilities e
        \<and> (\<forall>x\<in>set pre. admissible preference capabilities x \<longrightarrow> IsBetter e x)
        \<and> (\<forall>x\<in>set post. admissible preference capabilities x \<longrightarrow> \<not> IsBetter x e)))
   \<and> (SelectEndpoint eps preference capabilities = Inl bad_status \<longleftrightarrow>
        (\<forall>x\<in>set eps. \<not> admissible preference capabilities x))"
proof -
  let ?adm = "admissible preference capabilities"
  have spec: "first_best ?adm eps e \<longleftrightarrow> (\<exists>pre post. eps = pre @ e # post \<and> ?adm e
        \<and> (\<forall>x\<in>set pre. ?adm x \<longrightarrow> IsBetter e x) \<and> (\<forall>x\<in>set post. ?adm x \<longrightarrow> \<not> IsBetter x e))" for e
    by (simp add: first_best_def IsBetter_score not_less)
  have some: "first_best ?adm eps e \<Longrightarrow> \<exists>x\<in>set eps. ?adm x" for e by (auto simp: first_best_def)
  show ?thesis unfolding spec [symmetric]
    using select_fold [where preference = preference and capabilities = capabilities and es = eps] first_best_unique [of ?adm eps] some
    by (cases "fold (select_round preference capabilities) eps None")
      (auto simp: SelectEndpoint_def or_bad_def)
qed

text \<open>
  C18. The check against tampered discovery is equality of multisets: with both lists present,
  the discovered endpoints pass exactly when they have the same modes, policies, certificates,
  profiles and token policies as the authoritative ones, with the same multiplicities and in
  any order; and what an honest server answers to GetEndpoints always passes against what it
  answers to CreateSession, whatever URLs the two requests named.
\<close>

theorem endpoint_sets_equal:
  "(EndpointSetsSecurityEquivalent discovered authoritative \<longleftrightarrow> authoritative = [] \<or> discovered = []
      \<or> image_mset security_key (mset discovered) = image_mset security_key (mset authoritative))
   \<and> EndpointSetsSecurityEquivalent (snd (HandleGetEndpoints eps url [])) (ReachableEndpoints eps url' [])"
  using EndpointSets_multiset honest_endpoints by blast

text \<open>
  C8. No downgrade. When a trust store is configured and the mode asks for discovery, then
  whatever discovery answers and whoever answers the calls, a connection that succeeds runs
  over Basic256Sha256 with SignAndEncrypt, towards a certificate the trust store accepted; the
  server presented this very certificate in CreateSession, and its list of endpoints agreed
  with the one the choice was made from.
\<close>

theorem trusted_connection:
  assumes "ConnectAsync ssl xl fs discover create_transport open_connection call namespaces params (s, w)
      = Some (st, notes, s', w')"
    and "\<not> se_is_connected s" and "se_is_connected s'"
    and "has_trust_store (pm_security params)" and "settings_mode (pm_security params) \<noteq> SettingsNone"
  shows "\<exists>sec c p der url offered r eps request w1. se_stack s' = Some (sec, c, p) \<and> ses_active p
    \<and> cs_policy_uri sec = kSecurityPolicyBasic256Sha256 \<and> cs_security_mode sec = 3
    \<and> fst (Validate ssl xl fs der (settings_store ssl xl fs (pm_security params))) = status_of_code Good
    \<and> LoadDerCertificate ssl der = Some (cs_server_certificate sec)
    \<and> call 1 (CreateSessionRequest request) null_node_id w = (Inr (CreateSessionResponse r eps), w1)
    \<and> cp_server_certificate r = der \<and> EndpointSetsSecurityEquivalent offered eps
    \<and> discover url = Inr offered \<and> der \<in> ep_server_certificate ` set offered"
proof -
  define url where "url = (if pm_connection_string params = [] then opc_tcp_prefix @ pm_host params
    else pm_connection_string params)"
  obtain parsed where parsed: "ParseOpcTcpUrl url = Some parsed" "pe_valid parsed"
    using assms(1-3) by (auto simp: ConnectAsync_def Let_def split: option.splits if_splits simp flip: url_def)
  obtain negotiated where neg: "NegotiateSecurity ssl xl fs discover url (pm_security params) = Inr negotiated"
    using assms(1-3) parsed by (cases "NegotiateSecurity ssl xl fs discover url (pm_security params)")
      (auto simp: ConnectAsync_def Let_def simp flip: url_def)
  from neg assms(4,5) obtain sec chosen offered where sec: "negotiated = Some (sec, chosen, offered)"
    "chosen \<in> set offered" "discover url = Inr offered" "cs_policy_uri sec = kSecurityPolicyBasic256Sha256" "cs_security_mode sec = 3"
    "fst (Validate ssl xl fs (ep_server_certificate chosen) (settings_store ssl xl fs (pm_security params))) = status_of_code Good"
    "LoadDerCertificate ssl (ep_server_certificate chosen) = Some (cs_server_certificate sec)"
    by (rule NegotiateSecurity_trusted)
  define cred where "cred = SessionCredentials ssl negotiated"
  obtain user st1 p c w2 where create: "CreateProtocolSession call (open_connection sec) (FromMinutes 10) user
      cred (ClientProtocolSession, ClientChannel null_node_id, w) = Some (st1, p, c, w2)"
    "\<not> status_bad st1" "se_stack s' = Some (sec, c, p)"
    using assms(1-3) parsed neg sec(1)
    by (auto simp: ConnectAsync_def Let_def ResetSession_def close_views_def ReadNamespaceArray_def cred_def
        simp flip: url_def split: option.splits if_splits sum.splits list.splits)
  have cert: "ep_server_certificate chosen \<noteq> []" using sec(7) by (auto simp: LoadDerCertificate_def)
  have exp: "cred_expected_server_certificate cred = ep_server_certificate chosen" "cred_discovered_endpoints cred = offered"
    by (simp_all add: cred_def sec(1) SessionCredentials_def)
  have signer: "status_bad e" if "cred_signer cred = Some signer" "signer x y = Inl e" for signer x y e
    using SessionCredentials_signer that unfolding cred_def by blast
  let ?c = "ClientChannel null_node_id :: client_stack"
  from create(1,2) signer obtain r eps w1 where r: "call (next_request_handle ?c)
      (CreateSessionRequest (create_request (FromMinutes 10) cred)) (ch_authentication_token ?c) w
       = (Inr (CreateSessionResponse r eps), w1)"
    "cred_expected_server_certificate cred = [] \<or> cred_expected_server_certificate cred = cp_server_certificate r"
    "EndpointSetsSecurityEquivalent (cred_discovered_endpoints cred) eps"
    "ses_active p" "ses_authentication_token p = cp_authentication_token r"
    "ch_authentication_token c = cp_authentication_token r" "login_complete c" by (rule Create_goodD)
  have "call 1 (CreateSessionRequest (create_request (FromMinutes 10) cred)) null_node_id w
      = (Inr (CreateSessionResponse r eps), w1)" using r(1) by (simp add: ClientChannel_def)
  moreover have "cp_server_certificate r = ep_server_certificate chosen" using r(2) exp(1) cert by simp
  moreover have "EndpointSetsSecurityEquivalent offered eps" using r(3) exp(2) by simp
  moreover note create(3) r(4) sec imageI [OF sec(2), of ep_server_certificate]
  ultimately show ?thesis
    by (intro exI [of _ sec] exI [of _ c] exI [of _ p] exI [of _ "ep_server_certificate chosen"] exI [of _ url]
        exI [of _ offered] exI [of _ r] exI [of _ eps] exI [of _ "create_request (FromMinutes 10) cred"] exI [of _ w1])
      simp
qed

text \<open>
  C16. What the client makes of a CreateSession answer, whoever sent it. When the certificate in
  it differs from the one that was selected, or both the discovered and the answered list of
  endpoints have entries and they differ as multisets of security settings, the login fails after
  this call: no identity is sent, no session is active and no token is adopted. In every other
  case it goes on to ActivateSession; an empty list on either side cannot be compared and passes,
  as \<^verbatim>\<open>client_security.h\<close> says.
\<close>

theorem tampered_discovery_refused:
  assumes "call (next_request_handle c) (CreateSessionRequest (create_request timeout cred)) (ch_authentication_token c) w
      = (Inr (CreateSessionResponse r eps), w1)"
    and "\<not> status_bad (cp_status r)" and "\<not> status_bad open_status"
  shows "CreateProtocolSession call open_status timeout user cred (p, c, w) =
    (if cred_expected_server_certificate cred \<noteq> [] \<and> cred_expected_server_certificate cred \<noteq> cp_server_certificate r
        \<or> cred_discovered_endpoints cred \<noteq> [] \<and> eps \<noteq> [] \<and> image_mset security_key (mset (cred_discovered_endpoints cred))
          \<noteq> image_mset security_key (mset eps)
     then Some (bad_status, p, c\<lparr>next_request_handle := next_request_handle c + 1\<rparr>, w1)
     else ActivateCreated call user cred r (p, c\<lparr>next_request_handle := next_request_handle c + 1\<rparr>, w1))"
proof -
  have "CallTyped as_create_session call (CreateSessionRequest (create_request timeout cred)) (c, w)
      = Some (Inr (r, eps), c\<lparr>next_request_handle := next_request_handle c + 1\<rparr>, w1)"
    by (rule CallTyped_answer, rule assms(1)) (simp_all add: as_create_session_def)
  then show ?thesis using assms(2,3) by (auto simp: CreateProtocolSession_def EndpointSets_multiset)
qed

section \<open>Client and server together\<close>

text \<open>
  The runtime as the other end of the calls: one environment per request, \<open>auth\<close> is the
  authenticator of the application, which answers a user name and a password.
\<close>

type_synonym authenticator = "localized_text \<Rightarrow> localized_text \<Rightarrow> status + authentication_result"

fun serve :: "authenticator \<Rightarrow> (env list \<times> connection \<times> bytes runtime) caller" where
  "serve auth handle request token (e # es, conn, rt) = (case Handle e [] request conn rt of
       (Respond r, conn, rt) \<Rightarrow> (Inr r, es, conn, rt)
     | (AwaitAuthenticator q i name pw, conn, rt) \<Rightarrow> (case (FinishActivateSession e q i (auth name pw) conn rt
           :: (bytes, bytes, bytes) outcome \<times> connection \<times> bytes runtime) of
           (Respond r, conn, rt) \<Rightarrow> (Inr r, es, conn, rt)
         | (_, conn, rt) \<Rightarrow> (Inl (status_of_code Bad_NoCommunication), es, conn, rt))
     | (_, conn, rt) \<Rightarrow> (Inl (status_of_code Bad_NoCommunication), es, conn, rt))"
| "serve auth handle request token ([], conn, rt) = (Inl (status_of_code Bad_NoCommunication), [], conn, rt)"

definition signature_law :: "openssl \<Rightarrow> openssl \<Rightarrow> pkey \<Rightarrow> pkey \<Rightarrow> bool" where
  "signature_law client server priv pub \<longleftrightarrow> (\<forall>d. d \<noteq> [] \<longrightarrow>
     (\<exists>s. digest_sign client priv d = Some s \<and> s \<noteq> [] \<and> digest_verify server pub d s))"

text \<open>
  A client and a server that belong together: the channel between them is secured under the
  client's certificate, whose private key the client holds, or neither side uses security.
\<close>

definition matching_security :: "openssl \<Rightarrow> openssl \<Rightarrow> client_security \<Rightarrow> connection \<Rightarrow> bool" where
  "matching_security client server sec conn \<longleftrightarrow>
     (sec = no_security \<and> \<not> cn_secure_channel conn)
     \<or> (cs_policy_uri sec \<noteq> kSecurityPolicyNone \<and> cs_security_mode sec \<noteq> 1 \<and> cn_secure_channel conn
        \<and> (\<exists>x der y priv pub. cs_client_certificate sec = Some x \<and> i2d_X509 client x = Some der \<and> der \<noteq> []
            \<and> cn_client_certificate conn = der \<and> d2i_X509 server der = Some y \<and> X509_get_pubkey server y = Some pub
            \<and> cs_private_key sec = Some priv \<and> signature_law client server priv pub))"

lemma rt_manager_fold_ForgetSession [simp]: "rt_manager (fold ForgetSession ts rt) = rt_manager rt"
  by (induction ts arbitrary: rt) simp_all

lemma FindSessionState_kept:
  assumes "FindSessionState t m = Some s" and "\<not> p s"
  shows "FindSessionState t (erase_sessions_if p m) = Some s"
proof -
  have "map_of (filter (Not \<circ> p \<circ> snd) xs) t = Some s" if "map_of xs t = Some s" for xs
    using that assms(2) by (induction xs) (auto split: if_splits)
  then show ?thesis using assms(1)
    by (simp add: FindSessionState_def erase_sessions_if_def fold_NotifySessionRemoved Let_def)
qed

text \<open>Whether a user has an attached session: erasing sessions and adding one that is not attached add none.\<close>

lemma attached_erased: "HasAttachedSessionForUser user (erase_sessions_if p m) \<Longrightarrow> HasAttachedSessionForUser user m"
  by (auto simp: HasAttachedSessionForUser_def erase_sessions_if_def fold_NotifySessionRemoved Let_def list_ex_iff
      split: if_splits)

lemma set_update_subset: "set (AList.update k v xs) \<subseteq> insert (k, v) (set xs)"
  by (induction xs) auto

lemma attached_put:
  "HasAttachedSessionForUser user (put_session t s m) \<Longrightarrow> \<not> st_attached s \<Longrightarrow>
   HasAttachedSessionForUser user m"
  using set_update_subset [of t s "sessions m"] by (fastforce simp: HasAttachedSessionForUser_def put_session_def list_ex_iff)

text \<open>Two answers that pass every check complete the login.\<close>

lemma Create_completes:
  assumes "CallTyped as_create_session call (CreateSessionRequest (create_request timeout cred)) (c, w) = Some (Inr (r, eps), c1, w1)"
    and "CallTyped as_activate_session call (ActivateSessionRequest (activate_request user
        (p\<lparr>ses_session_id := cp_session_id r, ses_authentication_token := cp_authentication_token r\<rparr>) sig))
      (set_authentication_token (cp_authentication_token r) c1, w1) = Some (Inr a, c2, w2)"
    and "\<not> status_bad open_status" "\<not> status_bad (cp_status r)" "\<not> status_bad (ap_status a)"
    and "cred_expected_server_certificate cred = [] \<or> cred_expected_server_certificate cred = cp_server_certificate r"
    and "EndpointSetsSecurityEquivalent (cred_discovered_endpoints cred) eps"
    and "cred_signer cred = Some signer" "signer (cp_server_certificate r) (cp_server_nonce r) = Inr sig"
  shows "CreateProtocolSession call open_status timeout user cred (p, c, w) = Some (status_of_code Good,
    p\<lparr>ses_session_id := cp_session_id r, ses_authentication_token := cp_authentication_token r, ses_active := True\<rparr>,
    MarkLoginComplete c2, w2)"
  using assms by (auto simp: CreateProtocolSession_def ActivateCreated_def Let_def)

lemma length_MakeServerNonce: "length (MakeServerNonce ssl) = 32"
  by (auto simp: MakeServerNonce_def dest: length_GenerateNonce split: option.split)

text \<open>The first request: an honest server answers with its certificate and its endpoints.\<close>

lemma serve_create:
  fixes rt :: "bytes runtime" and e :: env and request :: create_session_request
  assumes "\<not> channel_mismatch (bind_creation conn request)"
  defines "nonce \<equiv> MakeServerNonce (env_ssl e)"
    and "timeout \<equiv> ReviseTimeout (env_manager e) (cr_requested_timeout request)"
  obtains r rt1 s where
    "serve auth h (CreateSessionRequest request) tok (e # es, conn, rt)
       = (Inr (CreateSessionResponse r (ReachableEndpoints (env_endpoints e) (cr_endpoint_url request) [])), es, conn, rt1)"
    "cp_status r = status_of_code Good" "cp_server_certificate r = server_certificate (env_manager e)"
    "cp_server_nonce r = nonce" "FindSessionState (cp_authentication_token r) (rt_manager rt1) = Some s"
    "st_server_nonce s = nonce" "st_client_certificate s = cr_client_certificate request"
    "st_expires_at s = time_plus (env_later e) timeout" "\<not> st_activated s" "st_authentication_result s = None"
    "\<forall>user. HasAttachedSessionForUser user (rt_manager rt1) \<longrightarrow> HasAttachedSessionForUser user (rt_manager rt)"
proof -
  obtain r m1 where 1: "CreateSession (env_ssl e) (env_manager e) (env_now e) (env_later e)
      (bind_creation conn request) (rt_manager rt) = (r, m1)" by force
  obtain x rt1 where 2: "run_manager (CreateSession (env_ssl e) (env_manager e) (env_now e) (env_later e)
      (bind_creation conn request)) rt = (x, rt1)" by force
  have x: "x = r" and m: "rt_manager rt1 = m1" using 1 2 by (auto simp: run_manager_def Let_def)
  have "cr_requested_timeout (bind_creation conn request) = cr_requested_timeout request"
    by (simp add: bind_creation_def)
  then have answer: "cp_status r = status_of_code Good" "cp_server_certificate r = server_certificate (env_manager e)"
    "cp_server_nonce r = nonce" "FindSessionState (cp_authentication_token r) (rt_manager rt1) =
       Some (new_session (cp_session_id r) (cp_authentication_token r) nonce timeout (env_later e) (bind_creation conn request))"
    using 1 assms(1) by (auto simp: m CreateSession_def Let_def MakeSessionId_def MakeAuthenticationToken_def
        nonce_def timeout_def)
  have "cr_client_certificate (bind_creation conn request) = cr_client_certificate request"
    by (simp add: bind_creation_def)
  moreover have "HasAttachedSessionForUser user (rt_manager rt)" if "HasAttachedSessionForUser user m1" for user
  proof -
    let ?m = "PruneExpiredSessions (env_now e) (rt_manager rt)"
    obtain t i n q mm where mm: "m1 = put_session t (new_session i t n timeout (env_later e) q) mm" "sessions mm = sessions ?m"
      using 1 assms(1) by (auto simp: CreateSession_def Let_def MakeSessionId_def MakeAuthenticationToken_def timeout_def
          bind_creation_def)
    have "\<not> st_attached (new_session i t n timeout (env_later e) q)" by (simp add: new_session_def)
    with that have "HasAttachedSessionForUser user mm" unfolding mm(1) by (rule attached_put)
    then have "HasAttachedSessionForUser user ?m" by (simp add: HasAttachedSessionForUser_def mm(2))
    then show ?thesis unfolding PruneExpiredSessions_def by (rule attached_erased)
  qed
  ultimately show thesis by (intro that [OF _ answer]) (simp_all add: 2 x m new_session_def)
qed

text \<open>
  The second request, when the signature is right and the session has not expired: anonymously, and
  with a user name and password.
\<close>

lemma CompleteActivation_good:
  assumes "FindSessionState (ar_authentication_token request) m \<noteq> None"
  obtains a m' where "CompleteActivation cfg later request result m = (a, m')" "ap_status a = status_of_code Good" "\<not> ap_resumed a"
  using assms by (auto simp: CompleteActivation_def Let_def)

lemma AdoptSession_good:
  assumes "ap_status a = status_of_code Good" "\<not> ap_resumed a"
  obtains rt' where "AdoptSession e request a conn rt
      = (a, conn\<lparr>cn_authentication_token := Some (ar_authentication_token request)\<rparr>, rt')"
    "FindRuntimeSession (ar_authentication_token request) rt' \<noteq> None"
  using assms by (simp add: AdoptSession_def Let_def put_runtime_session_def FindRuntimeSession_def update_conv')

lemma run_manager_eq:
  assumes "f (rt_manager rt) = (x, m')"
  obtains rt' where "run_manager f rt = (x, rt')" "rt_manager rt' = m'"
  using assms by (simp add: run_manager_def Let_def)

lemma serve_anonymous:
  fixes rt :: "bytes runtime"
  assumes "FindSessionState (ar_authentication_token request) (rt_manager rt) = Some s"
    and "\<not> time_le (st_expires_at s) (env_now e)" and "\<not> st_activated s"
    and "\<not> signature_missing (env_ssl e) (env_manager e) s (bind_activation conn request)" and "ar_allow_anonymous request"
  obtains a rt1 where
    "serve auth h (ActivateSessionRequest request) tok (e # es, conn, rt)
       = (Inr (ActivateSessionResponse a), es, conn\<lparr>cn_authentication_token := Some (ar_authentication_token request)\<rparr>, rt1)"
    "ap_status a = status_of_code Good" "FindRuntimeSession (ar_authentication_token request) rt1 \<noteq> None"
proof -
  let ?q = "bind_activation conn request"
  let ?f = "ActivateSession (env_ssl e) (env_utf e) (env_manager e) (env_now e) (env_later e) ?q"
  let ?m = "PruneExpiredSessions (env_now e) (rt_manager rt)"
  have tok: "ar_authentication_token ?q = ar_authentication_token request" "ar_allow_anonymous ?q"
    using assms(5) by (simp_all add: bind_activation_def)
  have found: "FindSessionState (ar_authentication_token request) ?m = Some s"
    unfolding PruneExpiredSessions_def using assms(1,2) by (rule FindSessionState_kept)
  then have "FindSessionState (ar_authentication_token ?q) ?m \<noteq> None" by (simp add: tok)
  then obtain a m1 where a: "CompleteActivation (env_manager e) (env_later e) ?q None ?m = (a, m1)"
    "ap_status a = status_of_code Good" "\<not> ap_resumed a" by (rule CompleteActivation_good)
  have "?f (rt_manager rt) = (Answered a, m1)"
    using assms(3,4) tok found a(1) by (simp add: ActivateSession_def Let_def)
  then obtain rt1 where "run_manager ?f rt = (Answered a, rt1)" by (rule run_manager_eq)
  moreover obtain rt2 where "AdoptSession e ?q a conn rt1
      = (a, conn\<lparr>cn_authentication_token := Some (ar_authentication_token ?q)\<rparr>, rt2)"
    "FindRuntimeSession (ar_authentication_token ?q) rt2 \<noteq> None" using a(2,3) by (rule AdoptSession_good)
  ultimately show thesis using that [OF _ a(2), of rt2] by (simp add: HandleActivateSession_def Let_def tok)
qed

lemma serve_named:
  fixes rt :: "bytes runtime"
  assumes "FindSessionState (ar_authentication_token request) (rt_manager rt) = Some s"
    and "\<not> time_le (st_expires_at s) (env_now e)" and "\<not> st_activated s"
    and "\<not> signature_missing (env_ssl e) (env_manager e) s (bind_activation conn request)"
    and "\<not> ar_allow_anonymous request" "ar_password_encryption_algorithm request = []"
    and "ar_user_name request = Some name" "ar_password request = Some pw" and auth: "auth name pw = Inr user"
    and "cn_secure_channel conn \<or> \<not> require_encryption_for_password (env_manager e)"
    and "st_authentication_result s = None"
    and "au_multi_sessions user \<or> \<not> HasAttachedSessionForUser (au_user_id user) (rt_manager rt)"
  obtains a rt1 where
    "serve auth h (ActivateSessionRequest request) tok (e # es, conn, rt)
       = (Inr (ActivateSessionResponse a), es, conn\<lparr>cn_authentication_token := Some (ar_authentication_token request)\<rparr>, rt1)"
    "ap_status a = status_of_code Good" "FindRuntimeSession (ar_authentication_token request) rt1 \<noteq> None"
proof -
  let ?q = "bind_activation conn request"
  let ?f = "ActivateSession (env_ssl e) (env_utf e) (env_manager e) (env_now e) (env_later e) ?q"
  let ?m = "PruneExpiredSessions (env_now e) (rt_manager rt)"
  let ?g = "FinishActivation (env_manager e) (env_later e) ?q (st_session_id s) (Inr user)"
  have tok: "ar_authentication_token ?q = ar_authentication_token request" by (simp add: bind_activation_def)
  have found: "FindSessionState (ar_authentication_token request) ?m = Some s"
    unfolding PruneExpiredSessions_def using assms(1,2) by (rule FindSessionState_kept)
  have "?f (rt_manager rt) = (Authenticating ?q (st_session_id s) name pw, ?m)"
    using assms(3-8,10) found by (auto simp: ActivateSession_def CheckCredentials_def bind_activation_def Let_def)
  then obtain rt1 where 1: "run_manager ?f rt = (Authenticating ?q (st_session_id s) name pw, rt1)" "rt_manager rt1 = ?m"
    by (rule run_manager_eq)
  let ?m' = "if au_multi_sessions user then ?m else RemoveSessionsByUser (au_user_id user) ?m"
  have "\<not> authenticated_as (au_user_id user) s" using assms(11) by (simp add: authenticated_as_def)
  then have "FindSessionState (ar_authentication_token ?q) ?m' \<noteq> None"
    using found FindSessionState_kept [OF found, of "authenticated_as (au_user_id user)"]
    by (simp add: tok RemoveSessionsByUser_def)
  then obtain a m2 where a: "CompleteActivation (env_manager e) (env_later e) ?q (Some user) ?m' = (a, m2)"
    "ap_status a = status_of_code Good" "\<not> ap_resumed a" by (rule CompleteActivation_good)
  have "au_multi_sessions user \<or> \<not> HasAttachedSessionForUser (au_user_id user) ?m"
    using assms(12) attached_erased unfolding PruneExpiredSessions_def by blast
  then have "?g (rt_manager rt1) = (a, m2)"
    using a(1) by (cases "au_multi_sessions user") (simp_all add: FinishActivation_def 1(2))
  then obtain rt2 where 2: "run_manager ?g rt1 = (a, rt2)" by (rule run_manager_eq)
  obtain rt3 where 3: "AdoptSession e ?q a conn rt2
      = (a, conn\<lparr>cn_authentication_token := Some (ar_authentication_token ?q)\<rparr>, rt3)"
    "FindRuntimeSession (ar_authentication_token ?q) rt3 \<noteq> None" using a(2,3) by (rule AdoptSession_good)
  show thesis using that [OF _ a(2), of rt3] 3
    by (simp add: HandleActivateSession_def FinishActivateSession_def Let_def 1(1) 2 auth tok)
qed

text \<open>
  What the server wants of an identity: none, or a user name and a password that the authenticator
  accepts, protected if the server asks for it, for a user who may log in several times or has no
  attached session.
\<close>

definition identity_accepted :: "authenticator \<Rightarrow> env \<Rightarrow> connection \<Rightarrow> identity \<Rightarrow> manager \<Rightarrow> bool" where
  "identity_accepted auth e conn user m \<longleftrightarrow> (case id_user_name user of
       None \<Rightarrow> True
     | Some name \<Rightarrow> (case id_password user of
         None \<Rightarrow> False
       | Some pw \<Rightarrow> (cn_secure_channel conn \<or> \<not> require_encryption_for_password (env_manager e))
           \<and> (case auth name pw of Inl _ \<Rightarrow> False
              | Inr r \<Rightarrow> au_multi_sessions r \<or> \<not> HasAttachedSessionForUser (au_user_id r) m)))"

lemma serve_activate:
  fixes rt :: "bytes runtime" and user :: identity and p :: protocol_session and sig :: "bytes \<times> bytes"
  defines "request \<equiv> activate_request user p sig"
  assumes "FindSessionState (ar_authentication_token request) (rt_manager rt) = Some s"
    and "\<not> time_le (st_expires_at s) (env_now e)" and "\<not> st_activated s"
    and "\<not> signature_missing (env_ssl e) (env_manager e) s (bind_activation conn request)"
    and "st_authentication_result s = None" and accepted: "identity_accepted auth e conn user (rt_manager rt)"
  obtains a rt1 where
    "serve auth h (ActivateSessionRequest request) tok (e # es, conn, rt)
       = (Inr (ActivateSessionResponse a), es, conn\<lparr>cn_authentication_token := Some (ar_authentication_token request)\<rparr>, rt1)"
    "ap_status a = status_of_code Good" "FindRuntimeSession (ar_authentication_token request) rt1 \<noteq> None"
proof (cases "id_user_name user")
  case None
  then have "ar_allow_anonymous request" by (simp add: request_def activate_request_def)
  with assms(2-5) show thesis by (rule serve_anonymous) (rule that)
next
  case (Some name)
  then obtain pw r where id: "id_password user = Some pw" "auth name pw = Inr r"
    "cn_secure_channel conn \<or> \<not> require_encryption_for_password (env_manager e)"
    "au_multi_sessions r \<or> \<not> HasAttachedSessionForUser (au_user_id r) (rt_manager rt)"
    using accepted by (auto simp: identity_accepted_def split: option.splits sum.splits)
  have "\<not> ar_allow_anonymous request" "ar_password_encryption_algorithm request = []"
    "ar_user_name request = Some name" "ar_password request = Some pw"
    by (simp_all add: request_def activate_request_def Some id(1))
  from assms(2-5) this id(2,3) assms(6) id(4) show thesis by (rule serve_named) (rule that)
qed

lemma login_signature:
  assumes "matching_security ssl (env_ssl e) sec conn" and "st_server_nonce s \<noteq> []"
    and "st_client_certificate s = cred_certificate (SessionCredentials ssl (Some (sec, chosen, offered)))"
  obtains sig where "SessionSigner ssl sec (server_certificate cfg) (st_server_nonce s) = Inr sig"
    and "\<forall>q. ar_client_signature q = snd sig \<longrightarrow> \<not> signature_missing (env_ssl e) cfg s q"
proof (cases "sec = no_security")
  case True
  then have "st_client_certificate s = []"
    using assms(3) by (simp add: SessionCredentials_def no_security_def CertificateDer_def)
  moreover have "SessionSigner ssl sec cert n = Inr ([], [])" for cert n
    by (simp add: SessionSigner_def SignClientData_def UsesBasic256Sha256_def ClientSecureChannel_def True no_security_def)
  ultimately show thesis using that by (simp add: signature_missing_def)
next
  case False
  then obtain x der y priv pub where k: "cs_policy_uri sec \<noteq> kSecurityPolicyNone" "cs_security_mode sec \<noteq> 1"
    "cs_client_certificate sec = Some x" "i2d_X509 ssl x = Some der" "der \<noteq> []"
    "d2i_X509 (env_ssl e) der = Some y" "X509_get_pubkey (env_ssl e) y = Some pub" "cs_private_key sec = Some priv"
    "signature_law ssl (env_ssl e) priv pub"
    using assms(1) by (auto simp: matching_security_def)
  let ?d = "server_certificate cfg @ st_server_nonce s"
  obtain sig where sig: "digest_sign ssl priv ?d = Some sig" "sig \<noteq> []" "digest_verify (env_ssl e) pub ?d sig"
    using k(9) assms(2) unfolding signature_law_def by (metis append_is_Nil_conv)
  have "st_client_certificate s = der" using assms(3) k by (simp add: SessionCredentials_def CertificateDer_def)
  then have "\<not> signature_missing (env_ssl e) cfg s q" if "ar_client_signature q = sig" for q
    using that sig k by (simp add: signature_missing_def VerifyApplicationSignature_def LoadDerCertificate_def
        CertificatePublicKey_def RsaPkcs1Sha256Verify_def)
  moreover have "SessionSigner ssl sec (server_certificate cfg) (st_server_nonce s) = Inr (kRsaSha256SignatureUri, sig)"
    using sig(1) k by (simp add: SessionSigner_def SignClientData_def UsesBasic256Sha256_def ClientSecureChannel_def
        RsaPkcs1Sha256Sign_def or_bad_def)
  ultimately show thesis using that by simp
qed

lemma identity_accepted_fewer:
  assumes "identity_accepted auth e conn user m"
    and "\<forall>u. HasAttachedSessionForUser u m' \<longrightarrow> HasAttachedSessionForUser u m"
  shows "identity_accepted auth e conn user m'"
  using assms by (auto simp: identity_accepted_def split: option.splits sum.splits)

text \<open>The client's side of the two calls.\<close>

lemma login_calls:
  defines "c \<equiv> ClientChannel null_node_id :: client_stack"
  assumes "call 1 (CreateSessionRequest (create_request timeout cred)) null_node_id w = (Inr (CreateSessionResponse r eps), w1)"
    and p: "p = ClientProtocolSession\<lparr>ses_session_id := cp_session_id r, ses_authentication_token := cp_authentication_token r\<rparr>"
    and "call 2 (ActivateSessionRequest (activate_request user p sig)) (cp_authentication_token r) w1
      = (Inr (ActivateSessionResponse a), w2)"
    and "cp_status r = status_of_code Good" "ap_status a = status_of_code Good"
    and "cred_expected_server_certificate cred = [] \<or> cred_expected_server_certificate cred = cp_server_certificate r"
    and "EndpointSetsSecurityEquivalent (cred_discovered_endpoints cred) eps"
    and "cred_signer cred = Some signer" "signer (cp_server_certificate r) (cp_server_nonce r) = Inr sig"
  obtains c' where "CreateProtocolSession call (status_of_code Good) timeout user cred (ClientProtocolSession, c, w)
      = Some (status_of_code Good, p\<lparr>ses_active := True\<rparr>, c', w2)"
    "ch_authentication_token c' = cp_authentication_token r" "login_complete c'"
proof -
  have c: "next_request_handle c = 1" "ch_authentication_token c = null_node_id" by (simp_all add: c_def ClientChannel_def)
  let ?c1 = "c\<lparr>next_request_handle := next_request_handle c + 1\<rparr>"
  let ?c2 = "set_authentication_token (cp_authentication_token r) ?c1"
  have c2: "next_request_handle ?c2 = 2" "ch_authentication_token ?c2 = cp_authentication_token r"
    by (simp_all add: set_authentication_token_def c)
  have first: "CallTyped as_create_session call (CreateSessionRequest (create_request timeout cred)) (c, w)
      = Some (Inr (r, eps), ?c1, w1)"
    by (rule CallTyped_answer [where b = "CreateSessionResponse r eps"]) (simp_all add: c assms(2) as_create_session_def)
  have second: "CallTyped as_activate_session call (ActivateSessionRequest (activate_request user p sig)) (?c2, w1)
      = Some (Inr a, ?c2\<lparr>next_request_handle := next_request_handle ?c2 + 1\<rparr>, w2)"
    by (rule CallTyped_answer [where b = "ActivateSessionResponse a"]) (simp_all add: c2 assms(4) as_activate_session_def)
  have "CreateProtocolSession call (status_of_code Good) timeout user cred (ClientProtocolSession, c, w)
      = Some (status_of_code Good, p\<lparr>ses_active := True\<rparr>,
          MarkLoginComplete (?c2\<lparr>next_request_handle := next_request_handle ?c2 + 1\<rparr>), w2)"
    unfolding p by (rule Create_completes [OF first second [unfolded p] _ _ _ assms(7-10)]) (simp_all add: assms(5,6))
  then show thesis using that c2(2) by (simp add: MarkLoginComplete_def)
qed

text \<open>
  C9. A login against an honest server succeeds. When the client discovered the server's
  endpoints, expects the certificate the server has (or none), the two agree on the security of
  the channel, the session has not expired before its activation, and the user is anonymous or
  presents a name and a password that the authenticator accepts, over a secured channel where the
  server asks for encrypted passwords, and may log in several times or has no attached session,
  then Create returns Good after exactly two calls: the client holds an active session whose token
  is the one the server issued, its channel sends that token from now on, and at the server the
  connection is attached to a session under it. Of the cryptography it is assumed that what the
  client's key signs, the server verifies.
\<close>

theorem login_succeeds:
  assumes "matching_security ssl (env_ssl e2) sec conn" and "env_manager e2 = env_manager e1"
    and "ep_server_certificate chosen = [] \<or> ep_server_certificate chosen = server_certificate (env_manager e1)"
    and "offered = snd (HandleGetEndpoints (env_endpoints e1) url [])"
    and "\<not> time_le (time_plus (env_later e1) (ReviseTimeout (env_manager e1) timeout)) (env_now e2)"
    and "identity_accepted auth e2 conn user (rt_manager rt)"
  shows "\<exists>p c rt' token. CreateProtocolSession (serve auth) (status_of_code Good) timeout
        user (SessionCredentials ssl (Some (sec, chosen, offered)))
        (ClientProtocolSession, ClientChannel null_node_id, [e1, e2], conn, rt)
      = Some (status_of_code Good, p, c, [], conn\<lparr>cn_authentication_token := Some token\<rparr>, rt')
    \<and> ses_active p \<and> ses_authentication_token p = token \<and> ch_authentication_token c = token \<and> login_complete c
    \<and> FindAttachedSession (conn\<lparr>cn_authentication_token := Some token\<rparr>) rt' \<noteq> None"
proof -
  let ?cred = "SessionCredentials ssl (Some (sec, chosen, offered))"
  let ?q = "create_request timeout ?cred"
  have "cred_certificate ?cred = (if sec = no_security then [] else cn_client_certificate conn)"
    using assms(1) by (auto simp: matching_security_def SessionCredentials_def CertificateDer_def no_security_def)
  then have "\<not> channel_mismatch (bind_creation conn ?q)"
    using assms(1) by (auto simp: channel_mismatch_def bind_creation_def create_request_def matching_security_def no_security_def)
  then obtain r rt1 s where r: "serve auth 1 (CreateSessionRequest ?q) null_node_id ([e1, e2], conn, rt)
       = (Inr (CreateSessionResponse r (ReachableEndpoints (env_endpoints e1) (cr_endpoint_url ?q) [])), [e2], conn, rt1)"
    "cp_status r = status_of_code Good" "cp_server_certificate r = server_certificate (env_manager e1)"
    "cp_server_nonce r = MakeServerNonce (env_ssl e1)"
    "FindSessionState (cp_authentication_token r) (rt_manager rt1) = Some s"
    "st_server_nonce s = MakeServerNonce (env_ssl e1)" "st_client_certificate s = cr_client_certificate ?q"
    "st_expires_at s = time_plus (env_later e1) (ReviseTimeout (env_manager e1) (cr_requested_timeout ?q))" "\<not> st_activated s"
    "st_authentication_result s = None"
    "\<forall>user. HasAttachedSessionForUser user (rt_manager rt1) \<longrightarrow> HasAttachedSessionForUser user (rt_manager rt)"
    by (rule serve_create)
  have nonce: "st_server_nonce s \<noteq> []" using r(6) length_MakeServerNonce [of "env_ssl e1"] by auto
  have cert: "st_client_certificate s = cred_certificate ?cred" using r(7) by (simp add: create_request_def)
  from assms(1) nonce cert obtain sig where sig:
    "SessionSigner ssl sec (server_certificate (env_manager e1)) (st_server_nonce s) = Inr sig"
    "\<forall>q. ar_client_signature q = snd sig \<longrightarrow> \<not> signature_missing (env_ssl e2) (env_manager e1) s q"
    by (rule login_signature [where cfg = "env_manager e1"])
  define token where "token = cp_authentication_token r"
  define p where "p = ClientProtocolSession\<lparr>ses_session_id := cp_session_id r, ses_authentication_token := cp_authentication_token r\<rparr>"
  have q: "ar_authentication_token (activate_request user p sig) = token"
    "ar_client_signature (bind_activation conn (activate_request user p sig)) = snd sig"
    by (simp_all add: activate_request_def p_def token_def bind_activation_def)
  have live: "FindSessionState (ar_authentication_token (activate_request user p sig)) (rt_manager rt1) = Some s"
    "\<not> time_le (st_expires_at s) (env_now e2)"
    "\<not> signature_missing (env_ssl e2) (env_manager e2) s (bind_activation conn (activate_request user p sig))"
    using r(5,8) assms(2,5) sig(2) q by (simp_all add: token_def create_request_def)
  from live(1,2) r(9) live(3) r(10) identity_accepted_fewer [OF assms(6) r(11)]
  obtain a rt2 where a: "serve auth 2 (ActivateSessionRequest (activate_request user p sig)) token ([e2], conn, rt1)
       = (Inr (ActivateSessionResponse a), [], conn\<lparr>cn_authentication_token := Some (ar_authentication_token (activate_request user p sig))\<rparr>, rt2)"
    "ap_status a = status_of_code Good" "FindRuntimeSession (ar_authentication_token (activate_request user p sig)) rt2 \<noteq> None"
    by (rule serve_activate)
  have checks: "cred_expected_server_certificate ?cred = [] \<or> cred_expected_server_certificate ?cred = cp_server_certificate r"
    "EndpointSetsSecurityEquivalent (cred_discovered_endpoints ?cred) (ReachableEndpoints (env_endpoints e1) (cr_endpoint_url ?q) [])"
    "cred_signer ?cred = Some (SessionSigner ssl sec)" "SessionSigner ssl sec (cp_server_certificate r) (cp_server_nonce r) = Inr sig"
    using assms(3) r(3,4,6) sig(1) honest_endpoints by (simp_all add: SessionCredentials_def assms(4))
  obtain c where "CreateProtocolSession (serve auth) (status_of_code Good) timeout user ?cred
      (ClientProtocolSession, ClientChannel null_node_id, [e1, e2], conn, rt)
    = Some (status_of_code Good, p\<lparr>ses_active := True\<rparr>, c, [], conn\<lparr>cn_authentication_token := Some token\<rparr>, rt2)"
    "ch_authentication_token c = token" "login_complete c"
    using login_calls [OF r(1) p_def a(1) [unfolded q(1) token_def] r(2) a(2) checks] unfolding token_def by blast
  then show ?thesis using a(3) [unfolded q(1)] by (auto simp: p_def token_def FindAttachedSession_def)
qed

section \<open>A run\<close>

definition secured_endpoint :: endpoint_description where
  "secured_endpoint = example_endpoint\<lparr>ep_server_certificate := [9], Ua_Endpoints.security_mode := Ua_Endpoints.ModeSignAndEncrypt,
     Ua_Endpoints.security_policy_uri := kSecurityPolicyUriBasic256Sha256, security_level := 3\<rparr>"

definition secured_env :: env where
  "secured_env = example_env\<lparr>env_endpoints := [example_endpoint, secured_endpoint]\<rparr>"

definition toy_x509 :: x509_library where
  "toy_x509 = \<lparr>PEM_read_X509 = (\<lambda>_. Some 1), PEM_read_PrivateKey = (\<lambda>_. Some 1), X509_get0_notBefore = (\<lambda>_. Some 0),
     X509_get0_notAfter = (\<lambda>_. Some 1), X509_cmp_current_time = (\<lambda>t. if t = 0 then -1 else 1),
     PEM_read_X509_CRL = (\<lambda>_. None), d2i_X509_CRL = (\<lambda>_. None), X509_STORE_new = False,
     X509_STORE_add_cert = (\<lambda>_ _. False), X509_STORE_add_crl = (\<lambda>_ _. False), X509_verify_cert = (\<lambda>_ _. None)\<rparr>"

definition toy_files :: file_system where
  "toy_files = \<lparr>is_directory = (\<lambda>_. True), directory_entries = (\<lambda>_. [([1], True)]), file_bytes = (\<lambda>_. Some [1]),
     can_create = (\<lambda>_ _. True)\<rparr>"

definition example_params :: connect_params where
  "example_params = \<lparr>pm_host = lit ''plant:4840'', pm_connection_string = [], pm_user_name = LocalizedText [] [],
     pm_password = LocalizedText [] [], pm_security = \<lparr>settings_mode = SettingsAuto, required_policy_uri = [],
       client_certificate_path = [1], client_private_key_path = [2], trusted_certificates_dir = [3],
       issuer_certificates_dir = [], settings_crl_dir = [], rejected_certificates_dir = []\<rparr>\<rparr>"

definition example_start :: "env list \<times> connection \<times> bytes runtime" where
  "example_start = ([secured_env, secured_env], example_conn None, ServerRuntime ServerSessionManager)"

definition example_connect :: "(status \<times> (bool \<times> status) list \<times> client_session \<times> env list \<times> connection \<times> bytes runtime) option" where
  "example_connect = ConnectAsync example_ssl toy_x509 toy_files (\<lambda>_. Inr [example_endpoint, secured_endpoint]) (\<lambda>_ _. True)
     (\<lambda>_. status_of_code Good) (serve (\<lambda>_ _. Inl bad_status)) (Inl bad_status) example_params (ClientSession, example_start)"

lemma example_connect_ok: "map_option (\<lambda>(_, _, s, _). se_is_connected s) example_connect = Some True"
  by code_simp

theorem trusted_connection_witness:
  "\<exists>st ann s w sec c p. example_connect = Some (st, ann, s, w) \<and> se_stack s = Some (sec, c, p) \<and> ses_active p
     \<and> cs_policy_uri sec = kSecurityPolicyBasic256Sha256 \<and> cs_security_mode sec = 3"
proof -
  obtain st ann s w where run: "example_connect = Some (st, ann, s, w)" "se_is_connected s"
    using example_connect_ok by (cases example_connect) auto
  have "has_trust_store (pm_security example_params)" "settings_mode (pm_security example_params) \<noteq> SettingsNone"
    "\<not> se_is_connected ClientSession" by code_simp+
  from trusted_connection [OF run(1) [unfolded example_connect_def] this(3) run(2) this(1,2)] run(1)
  show ?thesis by blast
qed

theorem selected_endpoint_witness:
  "SelectEndpoint [example_endpoint, secured_endpoint, secured_endpoint] (ToSecurityPreference (pm_security example_params)) DefaultCapabilities
     = Inr secured_endpoint"
proof -
  let ?adm = "admissible (ToSecurityPreference (pm_security example_params)) DefaultCapabilities"
  have "?adm secured_endpoint" "\<not> ?adm example_endpoint" "\<not> IsBetter secured_endpoint secured_endpoint" by code_simp+
  then show ?thesis
    by (intro selected_endpoint [THEN conjunct1, THEN iffD2] exI [of _ "[example_endpoint]"] exI [of _ "[secured_endpoint]"]) simp
qed

theorem tampered_discovery_refused_witness:
  "\<exists>w. CreateProtocolSession (serve (\<lambda>_ _. Inl bad_status)) (status_of_code Good) (Finite 60000)
      \<lparr>id_user_name = None, id_password = None\<rparr>
      (SessionCredentials example_ssl (Some (toy_security, example_endpoint, [example_endpoint])))
      (ClientProtocolSession, ClientChannel null_node_id, example_start)
    = Some (bad_status, ClientProtocolSession, (ClientChannel null_node_id)\<lparr>next_request_handle := 2\<rparr>, w)"
proof -
  let ?cred = "SessionCredentials example_ssl (Some (toy_security, example_endpoint, [example_endpoint]))"
  let ?c = "ClientChannel null_node_id :: client_stack"
  let ?q = "create_request (Finite 60000) ?cred"
  let ?eps = "ReachableEndpoints (env_endpoints secured_env) (cr_endpoint_url ?q) []"
  have "\<not> channel_mismatch (bind_creation (example_conn None) ?q)" by code_simp
  then obtain r rt1 s where r: "serve (\<lambda>_ _. Inl bad_status) 1 (CreateSessionRequest ?q) null_node_id example_start
       = (Inr (CreateSessionResponse r ?eps), [secured_env], example_conn None, rt1)"
    "cp_status r = status_of_code Good"
    using serve_create [of "example_conn None" ?q "\<lambda>_ _. Inl bad_status" 1 null_node_id secured_env "[secured_env]"
        "ServerRuntime ServerSessionManager"]
    unfolding example_start_def by metis
  have "length [example_endpoint] \<noteq> length ?eps" by code_simp
  then have differ: "image_mset security_key (mset [example_endpoint]) \<noteq> image_mset security_key (mset ?eps)"
    by (metis size_image_mset size_mset)
  have "?eps \<noteq> []" by code_simp
  moreover have "cred_discovered_endpoints ?cred = [example_endpoint]" by (simp add: SessionCredentials_def)
  moreover have "next_request_handle ?c = 1" "ch_authentication_token ?c = null_node_id" by (simp_all add: ClientChannel_def)
  ultimately show ?thesis
    using tampered_discovery_refused [where c = ?c and call = "serve (\<lambda>_ _. Inl bad_status)" and w = example_start and r = r and eps = ?eps
        and cred = ?cred and timeout = "Finite 60000" and open_status = "status_of_code Good"] r differ
    by (auto simp del: serve.simps)
qed

definition example_identity :: identity where
  "example_identity = \<lparr>id_user_name = Some (LocalizedText [] [97]), id_password = Some (LocalizedText [] [98])\<rparr>"

theorem login_succeeds_witness:
  "\<exists>p c w. CreateProtocolSession (serve (\<lambda>_ _. Inr example_user)) (status_of_code Good) (Finite 60000) example_identity
      (SessionCredentials example_ssl (Some (toy_security, secured_endpoint,
         snd (HandleGetEndpoints (env_endpoints secured_env) (lit ''opc.tcp://plant:4840'') []))))
      (ClientProtocolSession, ClientChannel null_node_id, example_start)
    = Some (status_of_code Good, p, c, w) \<and> ses_active p \<and> login_complete c"
proof -
  have "signature_law example_ssl example_ssl k k'" for k k' by (simp add: signature_law_def example_ssl_def)
  then have "matching_security example_ssl (env_ssl secured_env) toy_security (example_conn None)"
    by (auto simp: matching_security_def toy_security_def secured_env_def example_env_def example_conn_def)
      (simp_all add: example_ssl_def)
  moreover have "ep_server_certificate secured_endpoint = server_certificate (env_manager secured_env)" by code_simp
  moreover have "\<not> time_le (time_plus (env_later secured_env) (ReviseTimeout (env_manager secured_env) (Finite 60000)))
      (env_now secured_env)" by code_simp
  moreover have "identity_accepted (\<lambda>_ _. Inr example_user) secured_env (example_conn None) example_identity
      (rt_manager (ServerRuntime ServerSessionManager :: bytes runtime))" by code_simp
  ultimately show ?thesis
    using login_succeeds [of example_ssl secured_env toy_security "example_conn None" secured_env secured_endpoint]
    unfolding example_start_def by blast
qed

end
