(* ===== verification/Spec2Isabelle.thy ===== *)
theory Spec2Isabelle
  imports Ua_Variant Ua_Tcp Ua_Client_Login
begin

text \<open>
  opcuapp is an OPC UA stack in C++. This development models its server side, from the bytes
  of a connection to the sessions and subscriptions, and its client side, from the secure
  channel to the login and the shared subscription, and proves what each layer promises to
  the next and what the two sides achieve together. All paths below are under \<^verbatim>\<open>src/opcua\<close>.

  \<^bold>\<open>The parts and how they meet.\<close> A transport hands bytes to a connection
  (\<^verbatim>\<open>transport/binary/tcp_connection.cpp\<close>), which cuts them into frames, answers the Hello,
  and gives secure-conversation frames to its server secure channel
  (\<^verbatim>\<open>transport/binary/secure_channel.cpp\<close> over \<^verbatim>\<open>crypto.cpp\<close>). A payload the channel accepts is
  decoded with the UA Binary codec (\<^verbatim>\<open>codec_utils.cpp\<close>) and handled by the runtime
  (\<^verbatim>\<open>session/server_runtime.cpp\<close>), which answers the discovery services itself, asks the
  session manager (\<^verbatim>\<open>session/server_session_manager.cpp\<close>) who the session is, and routes
  everything else to the session (\<^verbatim>\<open>session/server_session.cpp\<close>) with its subscriptions
  (\<^verbatim>\<open>session/server_subscription.cpp\<close>) or to the callbacks of the application. On the other end
  a client session (\<^verbatim>\<open>client/client_session.cpp\<close>) discovers the endpoints of a server, selects
  one, authenticates its certificate (\<^verbatim>\<open>transport/binary/certificate_trust_store.cpp\<close>), opens a
  secure channel (\<^verbatim>\<open>client_secure_channel.cpp\<close>) and logs in; the client channel
  (\<^verbatim>\<open>client/client_channel.cpp\<close>) correlates responses with requests, and one subscription on the
  wire is shared by independent views (\<^verbatim>\<open>client/client_subscription.cpp\<close>).

  \<^bold>\<open>Theories.\<close>

  \<^item> \<open>Ua_Prelude\<close>: machine types (\<open>u8\<close> to \<open>u64\<close> are words), byte strings, the collections of
    facts, lemmas on readers, words, lists and association lists.
  \<^item> \<open>Ua_Types\<close>: the built-in types of \<^verbatim>\<open>types/\<close>; one record or datatype per struct.
  \<^item> \<open>Ua_Codec\<close>, \<open>Ua_Codec_Ext\<close>, \<open>Ua_Variant\<close>: \<^verbatim>\<open>Encoder\<close> and \<^verbatim>\<open>Decoder\<close>. An encoder is a
    function to \<open>bytes\<close> (or an option, where the code throws), a decoder a reader of a
    \<open>decoder\<close> state that is \<open>None\<close> where the code returns false. The locale \<open>wire_codec\<close> is
    what the layers above use: what was encoded is read back, in any context. It is
    interpreted for every type. Variant and DataValue nest each other; their readers take
    fuel, and \<open>variant_decode_terminates\<close> shows that the number of bytes left is enough.
  \<^item> \<open>Ua_Protocol\<close>: \<^verbatim>\<open>protocol.cpp\<close>, frame header, Hello, Acknowledge, Error, negotiation; the
    locale \<open>transport_message\<close> is interpreted for the three messages.
  \<^item> \<open>Ua_Crypto\<close>: \<^verbatim>\<open>crypto.cpp\<close>. OpenSSL is a record of its primitives, a parameter of every
    definition that uses it; what a theorem needs of it is a hypothesis.
  \<^item> \<open>Ua_Secure_Messages\<close>, \<open>Ua_Secure_Channel\<close>: \<^verbatim>\<open>secure_channel.cpp\<close>. The channel is a record of
    the members; \<open>HandleFrame\<close> returns \<open>None\<close> where the C++ is undefined. Reachable channel
    states are those of any sequence of frames and responses.
  \<^item> \<open>Ua_Tcp\<close>: \<^verbatim>\<open>tcp_connection.cpp\<close>. What the connection writes, starts and closes is a list
    of actions; coroutine scheduling is the order of the steps.
  \<^item> \<open>Ua_Time\<close>: \<^verbatim>\<open>types/duration.{h,cpp}\<close> and \<^verbatim>\<open>base/time_base.h\<close>: a Double is a real, an
    infinity or NaN, every operation rounds; instants are 64-bit words with the saturating
    addition of the code.
  \<^item> \<open>Ua_Subscription\<close>: \<^verbatim>\<open>server_subscription.{h,cpp}\<close>: items, their queues and backing items,
    the publish cycle, retransmission. The coroutines that bind an item and read the backing
    subscription are steps that may happen at any time.
  \<^item> \<open>Ua_Session\<close>: \<^verbatim>\<open>server_session.{h,cpp}\<close>: the fair rotation of publishing, grouped
    acknowledgements, transfer, browse continuation points. What it needs of a subscription is
    the locale \<open>publisher\<close>, interpreted by the definitions of \<open>Ua_Subscription\<close>.
  \<^item> \<open>Ua_Session_Manager\<close>: \<^verbatim>\<open>server_session_manager.{h,cpp}\<close>: creation, activation, expiry and
    eviction of sessions. ActivateSession is cut at its one \<^verbatim>\<open>co_await\<close>. What the runtime relies
    on is the locale \<open>session_provider\<close>: between two calls a token becomes active only by being
    activated and stops being active only with an announcement.
  \<^item> \<open>Ua_Endpoints\<close>: the discovery half of \<^verbatim>\<open>server_runtime.cpp\<close>: URLs, endpoints, FindServers,
    RegisterServer.
  \<^item> \<open>Ua_Runtime\<close>: the rest of \<^verbatim>\<open>server_runtime.cpp\<close>: \<open>Handle\<close> with every request branch, and
    its composition with the session manager and the sessions.
  \<^item> \<open>Ua_Client_Secure\<close>: \<^verbatim>\<open>client_secure_channel.{h,cpp}\<close> and its composition with the server's
    secure channel: the handshake in both directions, and conversations between two linked
    ends, through the locale \<open>duplex\<close>.
  \<^item> \<open>Ua_Client_Channel\<close>: \<^verbatim>\<open>client_transport.cpp\<close>, \<^verbatim>\<open>client_connection.cpp\<close> and
    \<^verbatim>\<open>client_channel.{h,cpp}\<close>; coroutines are cut at their waits and interleave freely.
  \<^item> \<open>Ua_Client_Subscription\<close>: \<^verbatim>\<open>client_protocol_subscription.{h,cpp}\<close> and
    \<^verbatim>\<open>client_subscription.{h,cpp}\<close>: monitored items, the window of Publish requests, views.
  \<^item> \<open>Ua_Trust_Store\<close>: \<^verbatim>\<open>certificate_trust_store.{h,cpp}\<close> over records of the X509 functions of
    OpenSSL and of the file system.
  \<^item> \<open>Ua_Client_Login\<close>: \<^verbatim>\<open>endpoint_url.cpp\<close>, \<^verbatim>\<open>endpoint_selection.cpp\<close>, \<^verbatim>\<open>client_security.cpp\<close>,
    \<^verbatim>\<open>namespace_table.cpp\<close>, \<^verbatim>\<open>discovery_client.cpp\<close>, and the connection handling of
    \<^verbatim>\<open>client_protocol_session.cpp\<close> and \<^verbatim>\<open>client_session.cpp\<close>. A service call is a function over
    the state of whatever answers it, so that the server may be arbitrary or, as \<open>serve\<close>, the
    runtime of this development.

  \<^bold>\<open>What is shown.\<close> Round trips of every encoded type and message, bounds and termination of
  decoding, and that whatever decodes is well typed; independence of segmentation, exact reassembly and handshake order of the
  connection; authenticity of every delivered payload and the overlap of tokens at renewal;
  order, bounds and retransmission of notifications, no stranded backing item, no starved
  subscription; one session per single-session user, no activation without the signature;
  and that the runtime refines one flat table from subscription to session, whose entries
  die with their session. For the client: a compatible pair completes the handshake and
  then exchanges every message exactly; responses reach the call they belong to; each item of
  a view is settled, but for those added after the view was closed, and no view sees another's
  data; the publish window is exact, and so are its acknowledgements until a Send fails; the trust
  decision, the selected endpoint and the check against tampered discovery are characterised; with
  a trust store no answer of discovery leads to a connection that is not encrypted towards an
  accepted certificate; and a login against the runtime of this development succeeds for every
  identity the server accepts.

  \<^bold>\<open>Bounds.\<close> Token, session and subscription ids are 32-bit counters: the theorems that need
  them distinct speak of the first \<open>2 ^ 32\<close> requests, and of as many items of a client
  subscription. Lengths on the wire are signed 32-bit
  numbers; round trips assume lengths below \<open>2 ^ 31\<close>.

  \<^bold>\<open>Not modelled.\<close> The JSON and WebSocket transport (parsing by boost, I/O), and
  \<^verbatim>\<open>service_codec.cpp\<close> with the conversion tables of \<^verbatim>\<open>session/\<close> and \<^verbatim>\<open>services/\<close> and the typed
  service helpers of the client session: they translate field by field to the types generated
  from the UA schema, which are not part of the tree. The service handler
  (\<^verbatim>\<open>server/service_handler.cpp\<close>) works on the same types. The projection of events onto their
  selected fields (\<^verbatim>\<open>events/\<close>) is left out as well: the subscriptions here carry the lists of
  values it produces. Logging, tracing, executors and mutexes are left out: one call of a coroutine up to
  its next wait is one step.
\<close>

end
